(* ===== verification/Go_Prelude.thy ===== *)
theory Go_Prelude
  imports Main "HOL-Library.AList" "HOL-Library.Word" "HOL-Library.Sublist"
begin

text \<open>
  The vocabulary the components share.

  A Go string is a byte sequence, and a HOL \<^typ>\<open>string\<close> is one too (a
  \<^typ>\<open>char\<close> has eight bits), so strings are modelled as they are.  The
  functions of package \<^verbatim>\<open>strings\<close> that the sources call are defined here on
  bytes: white space is recognised by the UTF-8 encodings of the Unicode white
  space characters, exactly as \<^verbatim>\<open>strings.TrimSpace\<close> and \<^verbatim>\<open>strings.Fields\<close> do;
  case mapping is that of ASCII and leaves every other byte alone.

  A Go map is an association list (\<^verbatim>\<open>HOL-Library.AList\<close>): the order of the list
  is one order in which \<^verbatim>\<open>range\<close> may visit it, and a theorem over every list is
  a theorem over every visiting order.
\<close>

section \<open>Collections of rules\<close>

named_theorems go_str \<open>evaluation and characterisation of the string functions\<close>
named_theorems go_map \<open>lookups after updates of an association list\<close>
named_theorems go_pres \<open>operations preserve the invariant of their component\<close>

section \<open>Association lists as Go maps\<close>

type_synonym ('k, 'v) gomap = "('k \<times> 'v) list"

abbreviation mget :: "('k, 'v) gomap \<Rightarrow> 'k \<Rightarrow> 'v option" where
  "mget m k \<equiv> map_of m k"

abbreviation mput :: "'k \<Rightarrow> 'v \<Rightarrow> ('k, 'v) gomap \<Rightarrow> ('k, 'v) gomap" where
  "mput \<equiv> AList.update"

abbreviation mdel :: "'k \<Rightarrow> ('k, 'v) gomap \<Rightarrow> ('k, 'v) gomap" where
  "mdel \<equiv> AList.delete"

abbreviation mkeys :: "('k, 'v) gomap \<Rightarrow> 'k list" where
  "mkeys m \<equiv> map fst m"

text \<open>A Go map has at most one entry per key.\<close>

definition gomap_wf :: "('k, 'v) gomap \<Rightarrow> bool" where
  "gomap_wf m \<longleftrightarrow> distinct (mkeys m)"

lemma gomap_wf_Nil [simp, intro!]: "gomap_wf []"
  by (simp add: gomap_wf_def)

lemma gomap_wf_mput [simp, intro]: "gomap_wf m \<Longrightarrow> gomap_wf (mput k v m)"
  by (simp add: gomap_wf_def distinct_update)

lemma gomap_wf_mdel [simp, intro]: "gomap_wf m \<Longrightarrow> gomap_wf (mdel k m)"
  by (simp add: gomap_wf_def distinct_delete)

lemma gomap_wf_filter [simp, intro]: "gomap_wf m \<Longrightarrow> gomap_wf (filter P m)"
  by (induction m) (auto simp: gomap_wf_def)

lemma mget_mput [go_map, simp]: "mget (mput k v m) k' = (if k' = k then Some v else mget m k')"
  by (simp add: update_conv')

lemma mget_mdel [go_map, simp]: "mget (mdel k m) k' = (if k' = k then None else mget m k')"
  by (simp add: delete_conv')

lemma mget_filter:
  "gomap_wf m \<Longrightarrow>
    mget (filter P m) k = (case mget m k of None \<Rightarrow> None | Some v \<Rightarrow> if P (k, v) then Some v else None)"
proof (induction m)
  case (Cons e m)
  then show ?case
    by (cases e) (force simp: gomap_wf_def split: option.splits dest: map_of_SomeD)
qed simp

lemma set_mput: "set (mput k v m) \<subseteq> insert (k, v) (set m)"
  by (induction m) auto

lemma mem_mput_iff:
  "gomap_wf m \<Longrightarrow> (k', v') \<in> set (mput k v m) \<longleftrightarrow> (if k' = k then v' = v else (k', v') \<in> set m)"
  using gomap_wf_mput[of m k v]
  by (metis (no_types, lifting) gomap_wf_def map_of_eq_Some_iff mget_mput option.inject)

lemma mget_iff_mem: "gomap_wf m \<Longrightarrow> mget m k = Some v \<longleftrightarrow> (k, v) \<in> set m"
  by (simp add: gomap_wf_def)

lemma mkeys_mput_new: "mget m k = None \<Longrightarrow> mput k v m = m @ [(k, v)]"
  by (induction m) auto

lemma nth_upd: "n < length xs \<Longrightarrow> xs[a := x] ! n = (if n = a then x else xs ! n)"
  by (simp add: nth_list_update)

section \<open>Prefixes, suffixes and searches\<close>

definition has_prefix :: "string \<Rightarrow> string \<Rightarrow> bool" where
  "has_prefix s p \<longleftrightarrow> take (length p) s = p"

definition has_suffix :: "string \<Rightarrow> string \<Rightarrow> bool" where
  "has_suffix s p \<longleftrightarrow> has_prefix (rev s) (rev p)"

definition trim_prefix :: "string \<Rightarrow> string \<Rightarrow> string" where
  "trim_prefix s p = (if has_prefix s p then drop (length p) s else s)"

definition trim_suffix :: "string \<Rightarrow> string \<Rightarrow> string" where
  "trim_suffix s p = (if has_suffix s p then take (length s - length p) s else s)"

text \<open>\<^verbatim>\<open>strings.Index\<close>: the position of the first occurrence, \<^const>\<open>None\<close> for Go's -1.\<close>

fun index_of :: "string \<Rightarrow> string \<Rightarrow> nat option" where
  "index_of [] p = (if p = [] then Some 0 else None)"
| "index_of (c # s) p = (if has_prefix (c # s) p then Some 0 else map_option Suc (index_of s p))"

definition contains :: "string \<Rightarrow> string \<Rightarrow> bool" where
  "contains s p \<longleftrightarrow> index_of s p \<noteq> None"

definition contains_char :: "string \<Rightarrow> char \<Rightarrow> bool" where
  "contains_char s c \<longleftrightarrow> c \<in> set s"

text \<open>\<^verbatim>\<open>strings.Cut\<close>: the parts before and after the first separator, and whether it occurs.\<close>

definition cut :: "string \<Rightarrow> string \<Rightarrow> string \<times> string \<times> bool" where
  "cut s sep = (case index_of s sep of
      None \<Rightarrow> (s, [], False)
    | Some i \<Rightarrow> (take i s, drop (i + length sep) s, True))"

text \<open>\<^verbatim>\<open>strings.Split\<close> with a one-byte separator.\<close>

fun split_char :: "char \<Rightarrow> string \<Rightarrow> string list" where
  "split_char c [] = [[]]"
| "split_char c (x # xs) =
    (if x = c then [] # split_char c xs
     else (case split_char c xs of [] \<Rightarrow> [[x]] | w # ws \<Rightarrow> (x # w) # ws))"

text \<open>\<^verbatim>\<open>strings.Join\<close>.\<close>

fun join :: "string \<Rightarrow> string list \<Rightarrow> string" where
  "join sep [] = []"
| "join sep [w] = w"
| "join sep (w # ws) = w @ sep @ join sep ws"

lemma has_prefix_iff_prefix [go_str]: "has_prefix s p \<longleftrightarrow> prefix p s"
  by (auto simp: has_prefix_def prefix_def) (metis append_take_drop_id)

lemma has_suffix_iff_suffix [go_str]: "has_suffix s p \<longleftrightarrow> suffix p s"
  by (simp add: has_suffix_def has_prefix_iff_prefix suffix_to_prefix)

lemma has_prefix_append [simp]: "has_prefix (p @ s) p"
  by (simp add: has_prefix_def)

lemma has_prefix_refl [simp]: "has_prefix s s"
  by (simp add: has_prefix_def)

lemma has_prefix_Nil [simp]: "has_prefix s []"
  by (simp add: has_prefix_def)

lemma has_prefixD: "has_prefix s p \<Longrightarrow> s = p @ drop (length p) s"
  by (metis append_take_drop_id has_prefix_def)

lemma trim_prefix_append [simp]: "trim_prefix (p @ s) p = s"
  by (simp add: trim_prefix_def)

lemma has_suffix_append [simp]: "has_suffix (s @ p) p"
  by (simp add: has_suffix_def)

lemma has_suffixD: "has_suffix s p \<Longrightarrow> s = take (length s - length p) s @ p"
  by (auto simp: has_suffix_iff_suffix suffix_def)

lemma trim_suffix_append [simp]: "trim_suffix (s @ p) p = s"
  by (simp add: trim_suffix_def)

lemma index_of_Some:
  "index_of s p = Some i \<Longrightarrow> s = take i s @ p @ drop (i + length p) s"
proof (induction s arbitrary: i)
  case (Cons c s)
  show ?case
  proof (cases "has_prefix (c # s) p")
    case True
    with Cons.prems show ?thesis by (simp add: has_prefixD)
  next
    case False
    with Cons obtain j where "i = Suc j" "index_of s p = Some j" by auto
    with Cons.IH show ?thesis by simp
  qed
qed (auto split: if_splits)

lemma index_of_None_iff: "index_of s p = None \<longleftrightarrow> \<not> sublist p s"
  by (induction s) (auto simp: has_prefix_iff_prefix sublist_Cons_right)

lemma contains_iff_sublist [go_str]: "contains s p \<longleftrightarrow> sublist p s"
  by (simp add: contains_def index_of_None_iff)

lemma cut_found: "cut s sep = (a, b, True) \<Longrightarrow> s = a @ sep @ b"
  by (auto simp: cut_def split: option.splits dest: index_of_Some)

lemma split_char_ne [simp]: "split_char c s \<noteq> []"
  by (induction s) (auto split: list.splits)

lemma split_char_no_sep: "w \<in> set (split_char c s) \<Longrightarrow> c \<notin> set w"
  by (induction s arbitrary: w) (auto split: if_splits list.splits)

lemma join_Cons: "ws \<noteq> [] \<Longrightarrow> join sep (w # ws) = w @ sep @ join sep ws"
  by (cases ws) auto

lemma join_split_char: "join [c] (split_char c s) = s"
proof (induction s)
  case (Cons x xs)
  show ?case
  proof (cases "x = c")
    case True
    then show ?thesis using Cons by (simp add: join_Cons)
  next
    case False
    obtain w ws where ws: "split_char c xs = w # ws" by (cases "split_char c xs") auto
    with Cons False show ?thesis by (cases ws) auto
  qed
qed simp

section \<open>Case mapping and white space\<close>

definition lower_char :: "char \<Rightarrow> char" where
  "lower_char c = (let n = of_char c :: nat in
     if 65 \<le> n \<and> n \<le> 90 then char_of (n + 32) else c)"

definition upper_char :: "char \<Rightarrow> char" where
  "upper_char c = (let n = of_char c :: nat in
     if 97 \<le> n \<and> n \<le> 122 then char_of (n - 32) else c)"

definition to_lower :: "string \<Rightarrow> string" where
  "to_lower s = map lower_char s"

definition to_upper :: "string \<Rightarrow> string" where
  "to_upper s = map upper_char s"

definition equal_fold :: "string \<Rightarrow> string \<Rightarrow> bool" where
  "equal_fold s t \<longleftrightarrow> to_lower s = to_lower t"

definition bytes_of :: "nat list \<Rightarrow> string" where
  "bytes_of ns = map char_of ns"

text \<open>The UTF-8 encodings of the characters \<^verbatim>\<open>unicode.IsSpace\<close> accepts.\<close>

definition ws_tokens :: "string list" where
  "ws_tokens = map bytes_of
     ([[9], [10], [11], [12], [13], [32], [194, 133], [194, 160], [225, 154, 128]]
      @ map (\<lambda>n. [226, 128, n]) [128, 129, 130, 131, 132, 133, 134, 135, 136, 137, 138]
      @ [[226, 128, 168], [226, 128, 169], [226, 128, 175], [226, 129, 159], [227, 128, 128]])"

fun first_token :: "string list \<Rightarrow> string \<Rightarrow> nat" where
  "first_token [] s = 0"
| "first_token (t # ts) s = (if t \<noteq> [] \<and> has_prefix s t then length t else first_token ts s)"

lemma first_token_le: "first_token ts s \<le> length s"
  by (induction ts) (auto dest: arg_cong[where f = length] simp: has_prefix_def min_def split: if_splits)

function strip_tokens :: "string list \<Rightarrow> string \<Rightarrow> string" where
  "strip_tokens ts s = (if first_token ts s = 0 then s else strip_tokens ts (drop (first_token ts s) s))"
  by pat_completeness auto
termination
proof (relation "measure (\<lambda>(ts, s). length s)")
  fix ts s
  assume "first_token ts s \<noteq> 0"
  with first_token_le[of ts s] show "((ts, drop (first_token ts s) s), ts, s) \<in> measure (\<lambda>(ts, s). length s)"
    by auto
qed simp

declare strip_tokens.simps [simp del]

definition trim_left_space :: "string \<Rightarrow> string" where
  "trim_left_space s = strip_tokens ws_tokens s"

definition trim_right_space :: "string \<Rightarrow> string" where
  "trim_right_space s = rev (strip_tokens (map rev ws_tokens) (rev s))"

definition trim_space :: "string \<Rightarrow> string" where
  "trim_space s = trim_right_space (trim_left_space s)"

text \<open>\<^verbatim>\<open>strings.Join(strings.Fields(s), "")\<close>: every white space character removed.\<close>

fun remove_space_fuel :: "nat \<Rightarrow> string \<Rightarrow> string" where
  "remove_space_fuel k [] = []"
| "remove_space_fuel k (c # s) =
    (if 0 < k then remove_space_fuel (k - 1) s
     else if first_token ws_tokens (c # s) = 0 then c # remove_space_fuel 0 s
     else remove_space_fuel (first_token ws_tokens (c # s) - 1) s)"

definition remove_space :: "string \<Rightarrow> string" where
  "remove_space s = remove_space_fuel 0 s"

text \<open>The bytes white space characters start and end with.\<close>

definition ws_first :: "char set" where
  "ws_first = set (map hd ws_tokens)"

definition ws_last :: "char set" where
  "ws_last = set (map last ws_tokens)"

lemma ws_first_iff: "c \<in> ws_first \<longleftrightarrow> (of_char c :: nat) \<in> {9, 10, 11, 12, 13, 32, 194, 225, 226, 227}"
proof -
  have e: "c = char_of n \<longleftrightarrow> (of_char c :: nat) = n" if "n < 256" for n :: nat
    using that by (metis of_char_of char_of_char mod_less)
  show ?thesis by (simp add: ws_first_def ws_tokens_def bytes_of_def e)
qed

lemma ws_last_iff:
  "c \<in> ws_last \<longleftrightarrow> (of_char c :: nat) \<in> {9, 10, 11, 12, 13, 32, 160, 168, 169, 175, 159} \<union> {128..138}"
proof -
  have e: "c = char_of n \<longleftrightarrow> (of_char c :: nat) = n" if "n < 256" for n :: nat
    using that by (metis of_char_of char_of_char mod_less)
  show ?thesis by (simp add: ws_last_def ws_tokens_def bytes_of_def e) presburger
qed

lemma first_token_0I: "s \<noteq> [] \<Longrightarrow> hd s \<notin> hd ` set ts \<Longrightarrow> first_token ts s = 0"
  by (induction ts) (auto simp: has_prefix_def neq_Nil_conv)

lemma strip_tokens_id: "s = [] \<or> hd s \<notin> hd ` set ts \<Longrightarrow> strip_tokens ts s = s"
proof -
  assume "s = [] \<or> hd s \<notin> hd ` set ts"
  then have "first_token ts s = 0"
    using first_token_le[of ts "[]"] by (cases "s = []") (auto intro: first_token_0I)
  then show ?thesis by (subst strip_tokens.simps) simp
qed

lemma ws_tokens_ne: "t \<in> set ws_tokens \<Longrightarrow> t \<noteq> []"
  by (auto simp: ws_tokens_def bytes_of_def)

text \<open>A string that neither starts nor ends with a byte of a white space character is not trimmed.\<close>

lemma trim_space_id:
  assumes "s = [] \<or> (hd s \<notin> ws_first \<and> last s \<notin> ws_last)"
  shows "trim_space s = s"
proof -
  have l: "trim_left_space s = s"
    using assms by (auto simp: trim_left_space_def ws_first_def intro: strip_tokens_id)
  have "s = [] \<or> hd (rev s) \<notin> hd ` set (map rev ws_tokens)"
    using assms ws_tokens_ne by (fastforce simp: hd_rev ws_last_def)
  then have "trim_right_space s = s"
    by (simp add: trim_right_space_def strip_tokens_id)
  with l show ?thesis by (simp add: trim_space_def)
qed

lemma strip_tokens_suffix: "suffix (strip_tokens ts s) s"
proof (induction ts s rule: strip_tokens.induct)
  case (1 ts s)
  then show ?case
    by (subst strip_tokens.simps) (auto intro: suffix_order.trans suffix_drop)
qed

lemma trim_space_sublist: "sublist (trim_space s) s"
proof -
  have "prefix (trim_space s) (trim_left_space s)"
    using strip_tokens_suffix[of "map rev ws_tokens" "rev (trim_left_space s)"]
    by (simp add: trim_space_def trim_right_space_def suffix_to_prefix)
  moreover have "suffix (trim_left_space s) s"
    by (simp add: trim_left_space_def strip_tokens_suffix)
  ultimately show ?thesis
    by (metis prefix_def suffix_def sublist_def)
qed

lemma set_trim_space: "set (trim_space s) \<subseteq> set s"
  using trim_space_sublist set_mono_sublist by blast

lemma length_trim_space: "length (trim_space s) \<le> length s"
  using trim_space_sublist sublist_length_le by blast

text \<open>Trimming drops only bytes of white space characters.\<close>

lemma first_token_mem: "first_token ts s \<noteq> 0 \<Longrightarrow> take (first_token ts s) s \<in> set ts"
  by (induction ts) (auto simp: has_prefix_def split: if_splits)

lemma strip_tokens_keeps: "c \<in> set s \<Longrightarrow> \<forall>t \<in> set ts. c \<notin> set t \<Longrightarrow> c \<in> set (strip_tokens ts s)"
proof (induction ts s rule: strip_tokens.induct)
  case (1 ts s)
  show ?case
  proof (cases "first_token ts s = 0")
    case True
    then show ?thesis using "1.prems"(1) by (subst strip_tokens.simps) simp
  next
    case False
    then have "c \<notin> set (take (first_token ts s) s)" using first_token_mem "1.prems"(2) by blast
    then have "c \<in> set (drop (first_token ts s) s)"
      using "1.prems"(1) append_take_drop_id[of "first_token ts s" s] by (metis Un_iff set_append)
    with 1 False show ?thesis by (subst strip_tokens.simps) simp
  qed
qed

lemma trim_space_keeps: "c \<in> set s \<Longrightarrow> \<forall>t \<in> set ws_tokens. c \<notin> set t \<Longrightarrow> c \<in> set (trim_space s)"
  unfolding trim_space_def trim_right_space_def trim_left_space_def
  by (simp add: strip_tokens_keeps)

text \<open>Trimming twice is trimming once.\<close>

lemma first_token_0_iff: "first_token ts s = 0 \<longleftrightarrow> (\<forall>t \<in> set ts. t \<noteq> [] \<longrightarrow> \<not> prefix t s)"
  by (induction ts) (auto simp: has_prefix_iff_prefix)

lemma strip_tokens_done: "first_token ts (strip_tokens ts s) = 0"
proof (induction ts s rule: strip_tokens.induct)
  case (1 ts s)
  then show ?case by (cases "first_token ts s = 0") (subst strip_tokens.simps, simp)+
qed

lemma strip_tokens_stop: "first_token ts s = 0 \<Longrightarrow> strip_tokens ts s = s"
  by (subst strip_tokens.simps) simp

lemma trim_space_idem [simp]: "trim_space (trim_space s) = trim_space s"
proof -
  let ?l = "trim_left_space s" and ?r = "map rev ws_tokens"
  have "prefix (trim_space s) ?l"
    using strip_tokens_suffix[of ?r "rev ?l"] by (simp add: trim_space_def trim_right_space_def suffix_to_prefix)
  moreover have "first_token ws_tokens ?l = 0" by (simp add: trim_left_space_def strip_tokens_done)
  ultimately have "trim_left_space (trim_space s) = trim_space s"
    unfolding trim_left_space_def by (intro strip_tokens_stop) (meson first_token_0_iff prefix_order.trans)
  moreover have "trim_right_space (trim_space s) = trim_space s"
    by (simp add: trim_space_def trim_right_space_def strip_tokens_stop strip_tokens_done)
  ultimately show ?thesis by (simp add: trim_space_def)
qed

text \<open>The common case of trimming, for evaluation: nothing to trim.\<close>

definition ws_first_list :: string where
  "ws_first_list = [CHR 0x09, CHR 0x0A, CHR 0x0B, CHR 0x0C, CHR 0x0D, CHR 0x20, CHR 0xC2, CHR 0xE1, CHR 0xE2, CHR 0xE3]"

definition ws_last_list :: string where
  "ws_last_list = [CHR 0x09, CHR 0x0A, CHR 0x0B, CHR 0x0C, CHR 0x0D, CHR 0x20, CHR 0x80, CHR 0x81, CHR 0x82, CHR 0x83,
    CHR 0x84, CHR 0x85, CHR 0x86, CHR 0x87, CHR 0x88, CHR 0x89, CHR 0x8A, CHR 0x9F, CHR 0xA0, CHR 0xA8, CHR 0xA9, CHR 0xAF]"

lemma ws_first_list: "ws_first \<subseteq> set ws_first_list"
proof -
  have e: "(c = d) = ((of_char c :: nat) = of_char d)" for c d by (metis char_of_char)
  show ?thesis by (rule subsetI) (simp add: ws_first_iff ws_first_list_def e)
qed

lemma ws_last_list: "ws_last \<subseteq> set ws_last_list"
proof -
  have e: "(c = d) = ((of_char c :: nat) = of_char d)" for c d by (metis char_of_char)
  show ?thesis by (rule subsetI) (simp add: ws_last_iff ws_last_list_def e, presburger)
qed

lemma trim_space_code [code]:
  "trim_space s = (if s = [] \<or> (hd s \<notin> set ws_first_list \<and> last s \<notin> set ws_last_list) then s
     else trim_right_space (trim_left_space s))"
  using trim_space_id[of s] ws_first_list ws_last_list by (auto simp: trim_space_def)

lemma trim_space_Nil [simp]: "trim_space [] = []"
  by (simp add: trim_space_id)

lemma length_to_lower [simp]: "length (to_lower s) = length s"
  by (simp add: to_lower_def)

lemma lower_char_idem [simp]: "lower_char (lower_char c) = lower_char c"
  by (simp add: lower_char_def Let_def)

lemma to_lower_idem [simp]: "to_lower (to_lower s) = to_lower s"
  by (simp add: to_lower_def)

lemma equal_fold_refl [simp]: "equal_fold s s"
  by (simp add: equal_fold_def)

section \<open>Decimal numerals\<close>

definition digit_char :: "nat \<Rightarrow> char" where
  "digit_char d = char_of (48 + d)"

definition is_digit :: "char \<Rightarrow> bool" where
  "is_digit c \<longleftrightarrow> 48 \<le> (of_char c :: nat) \<and> (of_char c :: nat) \<le> 57"

function show_nat :: "nat \<Rightarrow> string" where
  "show_nat n = (if n < 10 then [digit_char n] else show_nat (n div 10) @ [digit_char (n mod 10)])"
  by pat_completeness auto
termination by (relation "measure id") auto

declare show_nat.simps [simp del]

definition show_int :: "int \<Rightarrow> string" where
  "show_int i = (if i < 0 then ''-'' @ show_nat (nat (- i)) else show_nat (nat i))"

definition digits_val :: "string \<Rightarrow> nat" where
  "digits_val s = foldl (\<lambda>a c. 10 * a + (of_char c - 48)) 0 s"

lemma is_digit_digit_char: "d < 10 \<Longrightarrow> is_digit (digit_char d)"
  by (simp add: is_digit_def digit_char_def)

lemma show_nat_digits: "c \<in> set (show_nat n) \<Longrightarrow> is_digit c"
proof (induction n rule: show_nat.induct)
  case (1 n)
  then show ?case
    by (subst (asm) (2) show_nat.simps) (auto split: if_splits simp: is_digit_digit_char)
qed

lemma show_nat_ne [simp]: "show_nat n \<noteq> []"
  by (subst show_nat.simps) simp

lemma digits_val_snoc: "digits_val (s @ [c]) = 10 * digits_val s + (of_char c - 48)"
  by (simp add: digits_val_def)

lemma digits_val_show_nat [simp]: "digits_val (show_nat n) = n"
proof (induction n rule: show_nat.induct)
  case (1 n)
  show ?case
  proof (cases "n < 10")
    case True
    then show ?thesis by (subst show_nat.simps) (simp add: digits_val_def digit_char_def)
  next
    case False
    then show ?thesis using 1 by (subst show_nat.simps) (simp add: digits_val_snoc digit_char_def)
  qed
qed

lemma show_nat_inj [simp]: "show_nat m = show_nat n \<longleftrightarrow> m = n"
  by (metis digits_val_show_nat)

lemma length_show_nat_le: "n < 10 ^ k \<Longrightarrow> 0 < k \<Longrightarrow> length (show_nat n) \<le> k"
proof (induction n arbitrary: k rule: show_nat.induct)
  case (1 n)
  show ?case
  proof (cases "n < 10")
    case True
    with 1 show ?thesis by (subst show_nat.simps) simp
  next
    case False
    with 1 obtain j where k: "k = Suc j" "0 < j" by (cases k; cases "k - 1") auto
    with 1 False have "length (show_nat (n div 10)) \<le> j" by (intro 1) auto
    with False k show ?thesis by (subst show_nat.simps) simp
  qed
qed

section \<open>Operations that may fail\<close>

text \<open>
  An operation with effects returns its error, if any, and the state it leaves,
  also when it fails half way.
\<close>

definition and_then :: "'e option \<times> 's \<Rightarrow> ('s \<Rightarrow> 'e option \<times> 's) \<Rightarrow> 'e option \<times> 's" where
  "and_then r f = (case r of (None, w) \<Rightarrow> f w | (Some e, w) \<Rightarrow> (Some e, w))"

lemma and_then_simps [simp]: "and_then (None, w) f = f w" "and_then (Some e, w) f = (Some e, w)"
  by (simp_all add: and_then_def)

lemma and_then_None: "and_then r f = (None, w') \<longleftrightarrow> (\<exists>w. r = (None, w) \<and> f w = (None, w'))"
  by (auto simp: and_then_def split: prod.splits option.splits)

text \<open>A property of states that the first step establishes and the second keeps.\<close>

lemma and_then_inv: "Q (snd r) \<Longrightarrow> (\<And>w. Q w \<Longrightarrow> Q (snd (f w))) \<Longrightarrow> Q (snd (and_then r f))"
  by (auto simp: and_then_def split: prod.splits option.splits)

definition trim_right :: "string \<Rightarrow> string \<Rightarrow> string" where
  "trim_right s cutset = rev (dropWhile (\<lambda>c. c \<in> set cutset) (rev s))"

definition trim_left :: "string \<Rightarrow> string \<Rightarrow> string" where
  "trim_left s cutset = dropWhile (\<lambda>c. c \<in> set cutset) s"

definition nl :: string where
  "nl = [CHR 0x0A]"

end
