(* ===== verification/Go_Digest.thy ===== *)
theory Go_Digest
  imports Go_Prelude
begin

unbundle bit_operations_syntax

text \<open>
  Big-endian words, message padding and SHA-256, as packages \<^verbatim>\<open>encoding/binary\<close>,
  \<^verbatim>\<open>crypto/sha256\<close> and \<^verbatim>\<open>encoding/hex\<close> of the standard library define them.
\<close>

section \<open>Words and bytes\<close>

type_synonym byte = "8 word"

definition be32 :: "byte list \<Rightarrow> 32 word" where
  "be32 bs = foldl (\<lambda>a b. push_bit 8 a OR ucast b) 0 bs"

definition be32_bytes :: "32 word \<Rightarrow> byte list" where
  "be32_bytes w = map (\<lambda>k. ucast (drop_bit k w)) [24, 16, 8, 0]"

definition be64_bytes :: "64 word \<Rightarrow> byte list" where
  "be64_bytes w = map (\<lambda>k. ucast (drop_bit k w)) [56, 48, 40, 32, 24, 16, 8, 0]"

definition rotl32 :: "nat \<Rightarrow> 32 word \<Rightarrow> 32 word" where
  "rotl32 k w = push_bit k w OR drop_bit (32 - k) w"

fun chunks :: "nat \<Rightarrow> nat \<Rightarrow> 'a list \<Rightarrow> 'a list list" where
  "chunks n 0 xs = []"
| "chunks n (Suc k) xs = take n xs # chunks n k (drop n xs)"

definition sha_pad :: "byte list \<Rightarrow> byte list" where
  "sha_pad m = m @ [0x80] @ replicate ((119 - length m mod 64) mod 64) 0
      @ be64_bytes (of_nat (8 * length m))"

section \<open>SHA-256\<close>

definition rotr32 :: "nat \<Rightarrow> 32 word \<Rightarrow> 32 word" where
  "rotr32 k w = drop_bit k w OR push_bit (32 - k) w"

text \<open>
  The constants of the algorithm are the first 32 bits of the fractional parts of the square roots of
  the first eight primes and of the cube roots of the first sixty-four.
\<close>

definition int_root :: "nat \<Rightarrow> nat \<Rightarrow> nat" where
  "int_root k n = foldr (\<lambda>b r. if (r + 2 ^ b) ^ k \<le> n then r + 2 ^ b else r) [0..<40] 0"

definition root_bits :: "nat \<Rightarrow> nat \<Rightarrow> 32 word" where
  "root_bits k p = of_nat (int_root k (p * 2 ^ (32 * k)))"

definition small_primes :: "nat list" where
  "small_primes = filter (\<lambda>n. list_all (\<lambda>d. n mod d \<noteq> 0) [2..<n]) [2..<312]"

definition sha256_k :: "32 word list" where
  "sha256_k = map (root_bits 3) small_primes"

fun sha256_schedule :: "nat \<Rightarrow> 32 word list \<Rightarrow> 32 word list" where
  "sha256_schedule 0 ws = ws"
| "sha256_schedule (Suc k) ws =
    (let n = length ws; a = ws ! (n - 15); b = ws ! (n - 2);
         s0 = rotr32 7 a XOR rotr32 18 a XOR drop_bit 3 a;
         s1 = rotr32 17 b XOR rotr32 19 b XOR drop_bit 10 b
     in sha256_schedule k (ws @ [ws ! (n - 16) + s0 + ws ! (n - 7) + s1]))"

type_synonym sha256_state =
  "32 word \<times> 32 word \<times> 32 word \<times> 32 word \<times> 32 word \<times> 32 word \<times> 32 word \<times> 32 word"

fun sha256_rounds :: "32 word list \<Rightarrow> 32 word list \<Rightarrow> sha256_state \<Rightarrow> sha256_state" where
  "sha256_rounds (k # ks) (w # ws) (a, b, c, d, e, f, g, h) =
    (let s1 = rotr32 6 e XOR rotr32 11 e XOR rotr32 25 e;
         ch = (e AND f) XOR (NOT e AND g);
         t1 = h + s1 + ch + k + w;
         s0 = rotr32 2 a XOR rotr32 13 a XOR rotr32 22 a;
         maj = (a AND b) XOR (a AND c) XOR (b AND c)
     in sha256_rounds ks ws (t1 + s0 + maj, a, b, c, d + t1, e, f, g))"
| "sha256_rounds _ _ s = s"

definition sha256_block :: "sha256_state \<Rightarrow> byte list \<Rightarrow> sha256_state" where
  "sha256_block s blk =
    (let (h0, h1, h2, h3, h4, h5, h6, h7) = s;
         (a, b, c, d, e, f, g, h) = sha256_rounds sha256_k (sha256_schedule 48 (map be32 (chunks 4 16 blk))) s
     in (h0 + a, h1 + b, h2 + c, h3 + d, h4 + e, h5 + f, h6 + g, h7 + h))"

definition sha256 :: "byte list \<Rightarrow> byte list" where
  "sha256 m =
    (let p = sha_pad m;
         (h0, h1, h2, h3, h4, h5, h6, h7) = foldl sha256_block
           (root_bits 2 2, root_bits 2 3, root_bits 2 5, root_bits 2 7,
            root_bits 2 11, root_bits 2 13, root_bits 2 17, root_bits 2 19)
           (chunks 64 (length p div 64) p)
     in concat (map be32_bytes [h0, h1, h2, h3, h4, h5, h6, h7]))"

definition hex_nibble :: "nat \<Rightarrow> char" where
  "hex_nibble n = ''0123456789abcdef'' ! n"

definition hex_encode :: "byte list \<Rightarrow> string" where
  "hex_encode bs = concat (map (\<lambda>b. [hex_nibble (unat b div 16), hex_nibble (unat b mod 16)]) bs)"

definition bytes_of_string :: "string \<Rightarrow> byte list" where
  "bytes_of_string s = map (\<lambda>c. of_nat (of_char c)) s"

lemma length_chunks [simp]: "length (chunks n k xs) = k"
  by (induction k arbitrary: xs) auto

lemma length_be32_bytes [simp]: "length (be32_bytes w) = 4"
  by (simp add: be32_bytes_def)

lemma length_sha256 [simp]: "length (sha256 m) = 32"
  by (simp add: sha256_def Let_def split: prod.splits)

lemma length_hex_encode [simp]: "length (hex_encode bs) = 2 * length bs"
  by (induction bs) (auto simp: hex_encode_def)

lemma hex_encode_chars: "c \<in> set (hex_encode bs) \<Longrightarrow> c \<in> set ''0123456789abcdef''"
proof -
  assume "c \<in> set (hex_encode bs)"
  then obtain b where "b \<in> set bs" "c = hex_nibble (unat b div 16) \<or> c = hex_nibble (unat b mod 16)"
    by (auto simp: hex_encode_def)
  moreover have "hex_nibble n \<in> set ''0123456789abcdef''" if "n < 16" for n
    unfolding hex_nibble_def by (rule nth_mem) (use that in simp)
  moreover have "unat b < 256" using unsigned_less[of b] by simp
  then have "unat b div 16 < 16" "unat b mod 16 < 16" by simp_all
  ultimately show ?thesis by blast
qed

end
