(* ===== verification/Totp.thy ===== *)
theory Totp
  imports Go_Digest
begin

unbundle bit_operations_syntax

text \<open>
  Time-based one-time passwords: \<^verbatim>\<open>common/auth/totp/totp.go\<close>.

  SHA-1 and HMAC (on the helpers of \<^theory_text>\<open>Go_Digest\<close>) and unpadded base32 are the standard library's; they are defined
  here on 32-bit and 8-bit words.  A time is its number of nanoseconds since the
  epoch; \<^verbatim>\<open>uint64\<close> counters are \<^typ>\<open>64 word\<close>.  The lemmas show that the code
  generator always yields six digits and never reads outside the digest, that a
  secret survives its base32 text form, that a generated code validates within
  the window and that no code of a node is accepted twice within the cache's
  lifetime.
\<close>

section \<open>SHA-1 and HMAC\<close>

fun sha1_schedule :: "nat \<Rightarrow> 32 word list \<Rightarrow> 32 word list" where
  "sha1_schedule 0 ws = ws"
| "sha1_schedule (Suc k) ws =
    (let n = length ws;
         w = rotl32 1 (ws ! (n - 3) XOR ws ! (n - 8) XOR ws ! (n - 14) XOR ws ! (n - 16))
     in sha1_schedule k (ws @ [w]))"

type_synonym sha1_state = "32 word \<times> 32 word \<times> 32 word \<times> 32 word \<times> 32 word"

definition sha1_f :: "nat \<Rightarrow> 32 word \<Rightarrow> 32 word \<Rightarrow> 32 word \<Rightarrow> 32 word" where
  "sha1_f t b c d =
    (if t < 20 then (b AND c) OR (NOT b AND d)
     else if t < 40 then b XOR c XOR d
     else if t < 60 then (b AND c) OR (b AND d) OR (c AND d)
     else b XOR c XOR d)"

definition sha1_k :: "nat \<Rightarrow> 32 word" where
  "sha1_k t =
    (if t < 20 then 0x5A827999 else if t < 40 then 0x6ED9EBA1
     else if t < 60 then 0x8F1BBCDC else 0xCA62C1D6)"

fun sha1_rounds :: "nat \<Rightarrow> 32 word list \<Rightarrow> sha1_state \<Rightarrow> sha1_state" where
  "sha1_rounds t [] s = s"
| "sha1_rounds t (w # ws) (a, b, c, d, e) =
    sha1_rounds (Suc t) ws
      (rotl32 5 a + sha1_f t b c d + e + w + sha1_k t, a, rotl32 30 b, c, d)"

definition sha1_block :: "sha1_state \<Rightarrow> byte list \<Rightarrow> sha1_state" where
  "sha1_block s blk =
    (let (h0, h1, h2, h3, h4) = s;
         (a, b, c, d, e) = sha1_rounds 0 (sha1_schedule 64 (map be32 (chunks 4 16 blk))) s
     in (h0 + a, h1 + b, h2 + c, h3 + d, h4 + e))"

definition sha1 :: "byte list \<Rightarrow> byte list" where
  "sha1 m =
    (let p = sha_pad m;
         (h0, h1, h2, h3, h4) = foldl sha1_block
           (0x67452301, 0xEFCDAB89, 0x98BADCFE, 0x10325476, 0xC3D2E1F0)
           (chunks 64 (length p div 64) p)
     in concat (map be32_bytes [h0, h1, h2, h3, h4]))"

definition hmac_key :: "byte list \<Rightarrow> byte list" where
  "hmac_key key =
    (let k = (if length key > 64 then sha1 key else key) in k @ replicate (64 - length k) 0)"

definition hmac_sha1 :: "byte list \<Rightarrow> byte list \<Rightarrow> byte list" where
  "hmac_sha1 key msg =
    sha1 (map (\<lambda>b. b XOR 0x5c) (hmac_key key)
      @ sha1 (map (\<lambda>b. b XOR 0x36) (hmac_key key) @ msg))"

section \<open>Codes\<close>

definition TimeStep :: nat where "TimeStep = 30"
definition Digits :: nat where "Digits = 6"
definition StepWindow :: int where "StepWindow = 2"
definition SecretBytes :: nat where "SecretBytes = 20"

text \<open>A time is a number of nanoseconds; \<^verbatim>\<open>Unix\<close> rounds towards minus infinity.\<close>

type_synonym gotime = int

definition second :: int where "second = 1000000000"

definition unix :: "gotime \<Rightarrow> int" where
  "unix t = t div second"

definition step_of :: "gotime \<Rightarrow> 64 word" where
  "step_of t = (word_of_int (unix t) :: 64 word) div of_nat TimeStep"

text \<open>The slice \<open>sum[offset:offset+4]\<close>; \<^const>\<open>None\<close> is Go's bounds panic.\<close>

definition slice :: "'a list \<Rightarrow> nat \<Rightarrow> nat \<Rightarrow> 'a list option" where
  "slice xs i j = (if i \<le> j \<and> j \<le> length xs then Some (take (j - i) (drop i xs)) else None)"

text \<open>\<open>Sprintf("%0*d", width, n)\<close>.\<close>

definition sprintf_0d :: "nat \<Rightarrow> nat \<Rightarrow> string" where
  "sprintf_0d width n =
    (let s = show_nat n in replicate (width - length s) CHR ''0'' @ s)"

primrec pow10 :: "nat \<Rightarrow> 32 word" where
  "pow10 0 = 1"
| "pow10 (Suc n) = pow10 n * 10"

definition generateAtCounter :: "byte list \<Rightarrow> 64 word \<Rightarrow> string option" where
  "generateAtCounter secret counter =
    (let sum = hmac_sha1 secret (be64_bytes counter);
         offset = unat (last sum AND 0x0f)
     in case slice sum offset (offset + 4) of
          None \<Rightarrow> None
        | Some s \<Rightarrow>
            let bin = be32 s AND 0x7fffffff;
                code = bin mod pow10 Digits
            in Some (sprintf_0d Digits (unat code)))"

definition Generate :: "byte list \<Rightarrow> gotime \<Rightarrow> string option" where
  "Generate secret t = generateAtCounter secret (step_of t)"

section \<open>Replay cache\<close>

record ReplayCache =
  ttl :: int
  seen :: "(string, gotime) gomap"

definition NewReplayCache :: ReplayCache where
  "NewReplayCache =
    \<lparr> ttl = (StepWindow * 2 + 1) * int TimeStep * second + 30 * second, seen = [] \<rparr>"

definition pruneLocked :: "ReplayCache \<Rightarrow> gotime \<Rightarrow> ReplayCache" where
  "pruneLocked c now = c\<lparr> seen := filter (\<lambda>(k, at). \<not> (now - at > ttl c)) (seen c) \<rparr>"

definition claim_key :: "string \<Rightarrow> string \<Rightarrow> string" where
  "claim_key nodeID code = nodeID @ ''|'' @ code"

definition Claim :: "ReplayCache option \<Rightarrow> string \<Rightarrow> string \<Rightarrow> gotime \<Rightarrow> bool \<times> ReplayCache option" where
  "Claim c nodeID code now = (case c of
      None \<Rightarrow> (True, None)
    | Some c \<Rightarrow>
        let c = pruneLocked c now; key = claim_key nodeID code
        in if mget (seen c) key \<noteq> None then (False, Some c)
           else (True, Some (c\<lparr> seen := mput key now (seen c) \<rparr>)))"

text \<open>The loop of \<^verbatim>\<open>Validate\<close> over the remaining deltas.\<close>

fun validate_steps :: "byte list \<Rightarrow> string \<Rightarrow> 64 word \<Rightarrow> int list \<Rightarrow> bool" where
  "validate_steps secret code base [] = False"
| "validate_steps secret code base (delta # ds) =
    (let step = base + word_of_int delta
     in if sint step < 0 then validate_steps secret code base ds
        else if generateAtCounter secret step = Some code then True
        else validate_steps secret code base ds)"

definition Validate ::
  "byte list \<Rightarrow> string \<Rightarrow> gotime \<Rightarrow> ReplayCache option \<Rightarrow> string \<Rightarrow> bool \<times> ReplayCache option" where
  "Validate secret code now used nodeID =
    (let code = trim_space code
     in if length code \<noteq> Digits then (False, used)
        else if validate_steps secret code (step_of now) [- StepWindow .. StepWindow]
        then Claim used nodeID code now
        else (False, used))"

section \<open>Secrets in base32\<close>

definition base32_alphabet :: string where
  "base32_alphabet = ''ABCDEFGHIJKLMNOPQRSTUVWXYZ234567''"

definition b32_char :: "byte \<Rightarrow> char" where
  "b32_char w = base32_alphabet ! unat (w AND 31)"

fun find_index :: "'a \<Rightarrow> 'a list \<Rightarrow> nat option" where
  "find_index x [] = None"
| "find_index x (y # ys) = (if x = y then Some 0 else map_option Suc (find_index x ys))"

definition b32_digit :: "char \<Rightarrow> byte option" where
  "b32_digit c = map_option of_nat (find_index c base32_alphabet)"

text \<open>One quantum of the encoder: up to five bytes become up to eight digits.\<close>

fun b32_quantum :: "byte list \<Rightarrow> byte list" where
  "b32_quantum (a # b # c # d # e # _) =
    [drop_bit 3 a, push_bit 2 a OR drop_bit 6 b, drop_bit 1 b, push_bit 4 b OR drop_bit 4 c,
     push_bit 1 c OR drop_bit 7 d, drop_bit 2 d, push_bit 3 d OR drop_bit 5 e, e]"
| "b32_quantum [a, b, c, d] =
    [drop_bit 3 a, push_bit 2 a OR drop_bit 6 b, drop_bit 1 b, push_bit 4 b OR drop_bit 4 c,
     push_bit 1 c OR drop_bit 7 d, drop_bit 2 d, push_bit 3 d]"
| "b32_quantum [a, b, c] =
    [drop_bit 3 a, push_bit 2 a OR drop_bit 6 b, drop_bit 1 b, push_bit 4 b OR drop_bit 4 c,
     push_bit 1 c]"
| "b32_quantum [a, b] =
    [drop_bit 3 a, push_bit 2 a OR drop_bit 6 b, drop_bit 1 b, push_bit 4 b]"
| "b32_quantum [a] = [drop_bit 3 a, push_bit 2 a]"
| "b32_quantum [] = []"

function b32_encode :: "byte list \<Rightarrow> string" where
  "b32_encode bs = (if bs = [] then [] else map b32_char (b32_quantum (take 5 bs)) @ b32_encode (drop 5 bs))"
  by pat_completeness auto
termination by (relation "measure length") auto

text \<open>
  One quantum of the decoder packs its digits by their number, as the switch of
  \<^verbatim>\<open>encoding/base32\<close> does: one, three or six digits yield no byte.  The buffer of
  eight digits starts as zeros.
\<close>

definition b32_pack :: "byte list \<Rightarrow> byte list" where
  "b32_pack ds = (case take 8 (ds @ [0, 0, 0, 0, 0, 0, 0, 0]) of
      [d0, d1, d2, d3, d4, d5, d6, d7] \<Rightarrow>
        (let b0 = push_bit 3 d0 OR drop_bit 2 d1;
             b1 = push_bit 6 d1 OR push_bit 1 d2 OR drop_bit 4 d3;
             b2 = push_bit 4 d3 OR drop_bit 1 d4;
             b3 = push_bit 7 d4 OR push_bit 2 d5 OR drop_bit 3 d6;
             b4 = push_bit 5 d6 OR d7
         in if length ds = 8 then [b0, b1, b2, b3, b4]
            else if length ds = 7 then [b0, b1, b2, b3]
            else if length ds = 5 then [b0, b1, b2]
            else if length ds = 4 then [b0, b1]
            else if length ds = 2 then [b0]
            else [])
    | _ \<Rightarrow> [])"

function b32_decode :: "string \<Rightarrow> byte list option" where
  "b32_decode s =
    (if s = [] then Some []
     else case those (map b32_digit (take 8 s)) of
         None \<Rightarrow> None
       | Some d \<Rightarrow> map_option (\<lambda>r. b32_pack d @ r) (b32_decode (drop 8 s)))"
  by pat_completeness auto
termination by (relation "measure length") auto

declare b32_encode.simps [simp del] b32_decode.simps [simp del]

datatype totp_error = BadBase32 | EmptySecret | RandFailed

definition GenerateSecret :: "byte list option \<Rightarrow> totp_error + string" where
  "GenerateSecret rand = (case rand of None \<Rightarrow> Inl RandFailed | Some buf \<Rightarrow> Inr (b32_encode buf))"

definition DecodeSecret :: "string \<Rightarrow> totp_error + byte list" where
  "DecodeSecret encoded =
    (case b32_decode (filter (\<lambda>c. c \<noteq> CHR 0x0A \<and> c \<noteq> CHR 0x0D) (to_upper (remove_space encoded))) of
       None \<Rightarrow> Inl BadBase32
     | Some [] \<Rightarrow> Inl EmptySecret
     | Some decoded \<Rightarrow> Inr decoded)"

section \<open>The digest and the shape of a code\<close>

lemma length_sha1 [simp]: "length (sha1 m) = 20"
  by (simp add: sha1_def Let_def split: prod.splits)

lemma length_hmac_sha1 [simp]: "length (hmac_sha1 key msg) = 20"
  by (simp add: hmac_sha1_def)

lemma and_mask_take_bit: "w AND 0x0f = take_bit 4 (w :: byte)" "w AND 31 = take_bit 5 (w :: byte)"
  by (simp_all add: take_bit_eq_mask mask_eq_exp_minus_1)

lemma unat_take_bit_less: "unat (take_bit k (w :: byte)) < 2 ^ k"
  by (simp add: unsigned_take_bit_eq)

lemma unat_nibble: "unat (b AND 0x0f :: byte) \<le> 15"
  using unat_take_bit_less[of 4 b] by (simp add: and_mask_take_bit)

lemma pow10_Digits: "pow10 Digits = 1000000"
  by (simp add: Digits_def eval_nat_numeral)

lemma sprintf_0d_shape:
  assumes "n < 10 ^ width" "0 < width"
  shows "length (sprintf_0d width n) = width \<and> (\<forall>c \<in> set (sprintf_0d width n). is_digit c)"
  using length_show_nat_le[OF assms] show_nat_digits[of _ n]
  by (auto simp: sprintf_0d_def Let_def is_digit_def)

text \<open>The generator never reads outside the digest and yields six decimal digits.\<close>

lemma generateAtCounter_Some:
  "\<exists>s. generateAtCounter secret counter = Some s \<and> length s = Digits \<and> (\<forall>c \<in> set s. is_digit c)"
proof -
  let ?sum = "hmac_sha1 secret (be64_bytes counter)"
  let ?off = "unat (last ?sum AND 0x0f)"
  have "?off + 4 \<le> length ?sum" using unat_nibble[of "last ?sum"] by simp
  then obtain s where s: "slice ?sum ?off (?off + 4) = Some s" by (simp add: slice_def)
  let ?code = "unat ((be32 s AND 0x7fffffff) mod pow10 Digits)"
  have "?code < 10 ^ Digits"
    by (simp add: pow10_Digits unat_mod) (simp add: Digits_def)
  then have "length (sprintf_0d Digits ?code) = Digits \<and> (\<forall>c \<in> set (sprintf_0d Digits ?code). is_digit c)"
    by (intro sprintf_0d_shape) (simp_all add: Digits_def)
  then show ?thesis using s by (simp add: generateAtCounter_def Let_def)
qed

lemma digit_not_ws: "is_digit c \<Longrightarrow> c \<notin> ws_first \<and> c \<notin> ws_last"
  by (auto simp: is_digit_def ws_first_iff ws_last_iff)

lemma trim_space_digits: "\<forall>c \<in> set s. is_digit c \<Longrightarrow> trim_space s = s"
  by (rule trim_space_id) (metis digit_not_ws hd_in_set last_in_set)

section \<open>Base32 round trip\<close>

lemma find_index_nth: "distinct xs \<Longrightarrow> i < length xs \<Longrightarrow> find_index (xs ! i) xs = Some i"
  by (induction xs arbitrary: i) (auto simp: nth_Cons split: nat.splits)

lemma base32_alphabet_simps [simp]: "distinct base32_alphabet" "length base32_alphabet = 32"
  by (simp_all add: base32_alphabet_def)

lemma unat_and_31: "unat (w AND 31 :: byte) < 32"
  using unat_take_bit_less[of 5 w] by (simp add: and_mask_take_bit)

lemma b32_digit_char [simp]: "b32_digit (b32_char w) = Some (w AND 31)"
  using unat_and_31[of w] by (simp add: b32_digit_def b32_char_def find_index_nth)

lemma those_digits: "those (map b32_digit (map b32_char ws)) = Some (map (\<lambda>w. w AND 31) ws)"
  by (induction ws) simp_all

declare push_bit_Suc [simp del]

lemma less_8_cases: "n < LENGTH(8) \<Longrightarrow> n = 0 \<or> n = 1 \<or> n = 2 \<or> n = 3 \<or> n = 4 \<or> n = 5 \<or> n = 6 \<or> n = (7 :: nat)"
  by auto

lemma bit_byte_high: "8 \<le> n \<Longrightarrow> bit (b :: byte) n = False"
  using bit_imp_le_length[of b n] by auto

text \<open>Each byte is recovered from the five-bit digits it was cut into.\<close>

lemma b32_bits:
  fixes a b c d e :: byte
  shows
    "push_bit 3 (take_bit 5 (drop_bit 3 a)) OR drop_bit 2 (take_bit 5 (push_bit 2 a OR drop_bit 6 b)) = a"
    "push_bit 3 (take_bit 5 (drop_bit 3 a)) OR drop_bit 2 (take_bit 5 (push_bit 2 a)) = a"
    "push_bit 6 (take_bit 5 (push_bit 2 a OR drop_bit 6 b)) OR push_bit 1 (take_bit 5 (drop_bit 1 b))
      OR drop_bit 4 (take_bit 5 (push_bit 4 b OR drop_bit 4 c)) = b"
    "push_bit 6 (take_bit 5 (push_bit 2 a OR drop_bit 6 b)) OR push_bit 1 (take_bit 5 (drop_bit 1 b))
      OR drop_bit 4 (take_bit 5 (push_bit 4 b)) = b"
    "push_bit 4 (take_bit 5 (push_bit 4 b OR drop_bit 4 c))
      OR drop_bit 1 (take_bit 5 (push_bit 1 c OR drop_bit 7 d)) = c"
    "push_bit 4 (take_bit 5 (push_bit 4 b OR drop_bit 4 c)) OR drop_bit 1 (take_bit 5 (push_bit 1 c)) = c"
    "push_bit 7 (take_bit 5 (push_bit 1 c OR drop_bit 7 d)) OR push_bit 2 (take_bit 5 (drop_bit 2 d))
      OR drop_bit 3 (take_bit 5 (push_bit 3 d OR drop_bit 5 e)) = d"
    "push_bit 7 (take_bit 5 (push_bit 1 c OR drop_bit 7 d)) OR push_bit 2 (take_bit 5 (drop_bit 2 d))
      OR drop_bit 3 (take_bit 5 (push_bit 3 d)) = d"
    "push_bit 5 (take_bit 5 (push_bit 3 d OR drop_bit 5 e)) OR take_bit 5 e = e"
  by (rule bit_word_eqI, (drule less_8_cases; elim disjE; simp add: bit_simps bit_byte_high eval_nat_numeral))+

lemma b32_pack_quantum:
  assumes "bs \<noteq> []" "length bs \<le> 5"
  shows "b32_pack (map (\<lambda>w. w AND 31) (b32_quantum bs)) = bs"
  using assms
  by (cases bs rule: b32_quantum.cases)
     (simp_all add: b32_pack_def and_mask_take_bit b32_bits [simplified] Let_def)

lemma length_b32_quantum: "5 \<le> length bs \<Longrightarrow> length (b32_quantum bs) = 8"
  "length (b32_quantum bs) \<le> 8" "bs \<noteq> [] \<Longrightarrow> b32_quantum bs \<noteq> []"
  by (cases bs rule: b32_quantum.cases; simp)+

lemma b32_Nil [simp]: "b32_encode [] = []" "b32_decode [] = Some []"
  by (subst b32_encode.simps, simp) (subst b32_decode.simps, simp)

lemma b32_decode_quantum:
  assumes "bs \<noteq> []" "length bs \<le> 5" "length bs = 5 \<or> s = []"
  shows "b32_decode (map b32_char (b32_quantum bs) @ s) = map_option (\<lambda>r. bs @ r) (b32_decode s)"
proof -
  let ?q = "map b32_char (b32_quantum bs)"
  have q: "take 8 (?q @ s) = ?q" "drop 8 (?q @ s) = s"
    using assms(3) length_b32_quantum(1)[of bs] length_b32_quantum(2)[of bs] by auto
  have "?q \<noteq> []" using length_b32_quantum(3)[OF assms(1)] by simp
  then show ?thesis
    by (subst b32_decode.simps, subst q, subst q, subst those_digits) (simp add: b32_pack_quantum assms)
qed

lemma b32_decode_encode: "b32_decode (b32_encode bs) = Some bs"
proof (induction bs rule: b32_encode.induct)
  case (1 bs)
  show ?case
  proof (cases "bs = []")
    case True
    then show ?thesis by simp
  next
    case False
    have "length (take 5 bs) = 5 \<or> b32_encode (drop 5 bs) = []"
      by (cases "length bs < 5") auto
    with False have "b32_decode (map b32_char (b32_quantum (take 5 bs)) @ b32_encode (drop 5 bs))
        = map_option (\<lambda>r. take 5 bs @ r) (b32_decode (b32_encode (drop 5 bs)))"
      by (intro b32_decode_quantum) auto
    then show ?thesis using False 1 by (subst b32_encode.simps) simp
  qed
qed

definition b32_plain :: "char \<Rightarrow> bool" where
  "b32_plain c \<longleftrightarrow> upper_char c = c \<and> c \<notin> ws_first \<and> c \<noteq> CHR 0x0A \<and> c \<noteq> CHR 0x0D"

lemma b32_plain_alphabet: "c \<in> set base32_alphabet \<Longrightarrow> b32_plain c"
  by (auto simp: base32_alphabet_def b32_plain_def upper_char_def ws_first_iff)

lemma b32_encode_plain: "c \<in> set (b32_encode bs) \<Longrightarrow> b32_plain c"
proof (induction bs rule: b32_encode.induct)
  case (1 bs)
  have "b32_plain (b32_char w)" for w
    by (simp add: b32_char_def unat_and_31 b32_plain_alphabet)
  with 1 show ?case
    by (subst (asm) (2) b32_encode.simps) (auto split: if_splits)
qed

lemma remove_space_id: "set s \<inter> ws_first = {} \<Longrightarrow> remove_space s = s"
proof -
  have "set s \<inter> ws_first = {} \<Longrightarrow> remove_space_fuel 0 s = s"
    by (induction s) (auto simp: ws_first_def first_token_0I)
  then show "set s \<inter> ws_first = {} \<Longrightarrow> remove_space s = s" by (simp add: remove_space_def)
qed

lemma DecodeSecret_encode:
  assumes "bs \<noteq> []" shows "DecodeSecret (b32_encode bs) = Inr bs"
proof -
  have p: "\<forall>c \<in> set (b32_encode bs). b32_plain c" using b32_encode_plain by blast
  then have "remove_space (b32_encode bs) = b32_encode bs"
    by (intro remove_space_id) (auto simp: b32_plain_def)
  moreover have "to_upper (b32_encode bs) = b32_encode bs"
    using p by (auto simp: to_upper_def b32_plain_def intro: map_idI)
  moreover have "filter (\<lambda>c. c \<noteq> CHR 0x0A \<and> c \<noteq> CHR 0x0D) (b32_encode bs) = b32_encode bs"
    using p by (auto simp: b32_plain_def filter_id_conv)
  ultimately show ?thesis
    using assms by (simp add: DecodeSecret_def b32_decode_encode split: list.split)
qed

section \<open>Validation accepts the codes of the window\<close>

lemma validate_steps_iff:
  "validate_steps secret code base ds \<longleftrightarrow>
    (\<exists>d \<in> set ds. 0 \<le> sint (base + word_of_int d) \<and>
       generateAtCounter secret (base + word_of_int d) = Some code)"
  by (induction ds) (auto simp: Let_def not_less)

lemma step_of_nonneg:
  assumes "0 \<le> t" "unix t < 2 ^ 63"
  shows "step_of t = word_of_int (unix t div 30)" "0 \<le> unix t"
proof -
  show nn: "0 \<le> unix t" using assms by (simp add: unix_def second_def)
  have "uint (step_of t) = unix t div 30"
    using nn assms(2)
    by (simp add: step_of_def TimeStep_def uint_div uint_word_of_int take_bit_int_eq_self)
  then show "step_of t = word_of_int (unix t div 30)" by (metis word_of_int_uint)
qed

lemma sint_small: "0 \<le> i \<Longrightarrow> i < 2 ^ 63 \<Longrightarrow> sint (word_of_int i :: 64 word) = i"
  by (simp add: sint_sbintrunc' signed_take_bit_int_eq_self)

lemma validate_steps_window:
  assumes gen: "Generate secret t = Some code"
    and t: "0 \<le> t" "unix t < 2 ^ 63" and now: "0 \<le> now" "unix now < 2 ^ 63"
    and close: "\<bar>unix t div 30 - unix now div 30\<bar> \<le> StepWindow"
  shows "validate_steps secret code (step_of now) [- StepWindow .. StepWindow]"
proof -
  let ?d = "unix t div 30 - unix now div 30"
  have s: "step_of now + word_of_int ?d = step_of t"
    by (simp add: step_of_nonneg(1)[OF t] step_of_nonneg(1)[OF now])
  have "0 \<le> sint (step_of t)"
    using step_of_nonneg[OF t] t by (simp add: sint_small)
  then show ?thesis
    using gen close s unfolding validate_steps_iff Generate_def
    by (intro bexI[of _ ?d]) (auto simp: StepWindow_def)
qed

lemma Validate_generated:
  assumes gen: "Generate secret t = Some code"
    and t: "0 \<le> t" "unix t < 2 ^ 63" and now: "0 \<le> now" "unix now < 2 ^ 63"
    and close: "\<bar>unix t div 30 - unix now div 30\<bar> \<le> StepWindow"
  shows "Validate secret code now used nodeID = Claim used nodeID code now"
proof -
  have "length code = Digits" "\<forall>c \<in> set code. is_digit c"
    using gen generateAtCounter_Some[of secret "step_of t"] by (auto simp: Generate_def)
  then show ?thesis
    using validate_steps_window[OF assms] by (simp add: Validate_def trim_space_digits)
qed

section \<open>No replay within the lifetime of an entry\<close>

lemma pruneLocked_get:
  "gomap_wf (seen c) \<Longrightarrow> mget (seen (pruneLocked c now)) k =
    (case mget (seen c) k of None \<Rightarrow> None | Some at \<Rightarrow> if now - at > ttl c then None else Some at)"
  by (simp add: pruneLocked_def mget_filter split: option.splits)

lemma pruneLocked_simps [simp]: "ttl (pruneLocked c now) = ttl c"
  "gomap_wf (seen c) \<Longrightarrow> gomap_wf (seen (pruneLocked c now))"
  by (simp_all add: pruneLocked_def)

lemma Claim_wf:
  assumes "Claim (Some c) n code now = (ok, c')" "gomap_wf (seen c)"
  shows "\<exists>d. c' = Some d \<and> gomap_wf (seen d) \<and> ttl d = ttl c"
  using assms by (auto simp: Claim_def Let_def split: if_splits)

text \<open>An entry younger than the lifetime survives, and a claim of its key is refused.\<close>

lemma Claim_keeps:
  assumes "Claim (Some c) n code now = (ok, Some d)" "gomap_wf (seen c)"
    and "mget (seen c) k = Some at" "now - at \<le> ttl c"
  shows "mget (seen d) k = Some at" "k = claim_key n code \<Longrightarrow> \<not> ok"
  using assms by (auto simp: Claim_def Let_def pruneLocked_get split: if_splits)

lemma Claim_records:
  assumes "Claim (Some c) n code now = (True, Some d)"
  shows "mget (seen d) (claim_key n code) = Some now"
  using assms by (auto simp: Claim_def Let_def split: if_splits)

lemma Validate_Some:
  assumes "Validate secret code now (Some c) n = (ok, c')" "gomap_wf (seen c)"
  obtains d where "c' = Some d" "gomap_wf (seen d)" "ttl d = ttl c"
    "d = c \<and> \<not> ok \<or> Claim (Some c) n (trim_space code) now = (ok, Some d)"
  using assms Claim_wf[of c n "trim_space code" now]
  by (fastforce simp: Validate_def Let_def split: if_splits)

text \<open>A sequence of validations that share the cache, oldest first.\<close>

record request =
  rq_secret :: "byte list"
  rq_code :: string
  rq_now :: gotime
  rq_node :: string

fun run_validate :: "ReplayCache option \<Rightarrow> request list \<Rightarrow> bool list" where
  "run_validate c [] = []"
| "run_validate c (r # rs) =
    (case Validate (rq_secret r) (rq_code r) (rq_now r) c (rq_node r) of
       (ok, c') \<Rightarrow> ok # run_validate c' rs)"

definition rq_key :: "request \<Rightarrow> string" where
  "rq_key r = claim_key (rq_node r) (trim_space (rq_code r))"

lemma length_run_validate [simp]: "length (run_validate c rs) = length rs"
  by (induction rs arbitrary: c) (auto split: prod.splits)

lemma run_validate_blocked:
  assumes "gomap_wf (seen c)" "mget (seen c) (rq_key (rs ! j)) = Some at" "j < length rs"
    and "\<forall>i \<le> j. rq_now (rs ! i) - at \<le> ttl c"
  shows "\<not> run_validate (Some c) rs ! j"
  using assms
proof (induction rs arbitrary: c j)
  case (Cons r rs)
  obtain ok c' where v: "Validate (rq_secret r) (rq_code r) (rq_now r) (Some c) (rq_node r) = (ok, c')"
    by fastforce
  from Validate_Some[OF this Cons.prems(1)] obtain d where
    d: "c' = Some d" "gomap_wf (seen d)" "ttl d = ttl c"
      "d = c \<and> \<not> ok \<or> Claim (Some c) (rq_node r) (trim_space (rq_code r)) (rq_now r) = (ok, Some d)" .
  have now: "rq_now r - at \<le> ttl c" using Cons.prems(4) by (metis le0 nth_Cons_0)
  have keep: "mget (seen d) (rq_key ((r # rs) ! j)) = Some at"
    using d(4) Claim_keeps(1)[OF _ Cons.prems(1,2) now] Cons.prems(2) by blast
  show ?case
  proof (cases j)
    case 0
    then have "\<not> ok"
      using d(4) Claim_keeps(2)[OF _ Cons.prems(1,2) now] by (auto simp: rq_key_def)
    with 0 v show ?thesis by simp
  next
    case (Suc i)
    have "\<not> run_validate (Some d) rs ! i"
      using Suc keep d Cons.prems(3,4) by (intro Cons.IH) auto
    with Suc v d show ?thesis by simp
  qed
qed simp

lemma run_validate_gap:
  assumes "gomap_wf (seen c)" "i < j" "j < length rs" "sorted (map rq_now rs)"
    and "run_validate (Some c) rs ! i" "run_validate (Some c) rs ! j"
    and "rq_key (rs ! i) = rq_key (rs ! j)"
  shows "rq_now (rs ! j) - rq_now (rs ! i) > ttl c"
  using assms
proof (induction rs arbitrary: c i j)
  case (Cons r rs)
  obtain ok c' where v: "Validate (rq_secret r) (rq_code r) (rq_now r) (Some c) (rq_node r) = (ok, c')"
    by fastforce
  from Validate_Some[OF this Cons.prems(1)] obtain d where
    d: "c' = Some d" "gomap_wf (seen d)" "ttl d = ttl c"
      "d = c \<and> \<not> ok \<or> Claim (Some c) (rq_node r) (trim_space (rq_code r)) (rq_now r) = (ok, Some d)" .
  obtain j' where j: "j = Suc j'" using Cons.prems(2) by (cases j) auto
  show ?case
  proof (cases i)
    case 0
    then have "ok" using Cons.prems(5) v by simp
    then have rec: "mget (seen d) (rq_key (rs ! j')) = Some (rq_now r)"
      using d(4) Claim_records Cons.prems(7) 0 j by (fastforce simp: rq_key_def)
    show ?thesis
    proof (rule ccontr)
      assume "\<not> ?thesis"
      then have "rq_now (rs ! j') - rq_now r \<le> ttl d" using 0 j d by simp
      moreover have "rq_now (rs ! i') \<le> rq_now (rs ! j')" if "i' \<le> j'" for i'
        using Cons.prems(3,4) j that by (auto simp: sorted_iff_nth_mono)
      ultimately have "\<forall>i' \<le> j'. rq_now (rs ! i') - rq_now r \<le> ttl d" by force
      then have "\<not> run_validate (Some d) rs ! j'"
        using run_validate_blocked[OF d(2) rec] Cons.prems(3) j by simp
      then show False using Cons.prems(6) v d j by simp
    qed
  next
    case (Suc i')
    have "rq_now (rs ! j') - rq_now (rs ! i') > ttl d"
      using Suc j d v Cons.prems by (intro Cons.IH) auto
    then show ?thesis using Suc j d by simp
  qed
qed simp

section \<open>Properties\<close>

text \<open>
  A secret survives its text form: what \<open>GenerateSecret\<close> writes,
  \<open>DecodeSecret\<close> reads back, for any non-empty random buffer.
\<close>

theorem totp_secret_roundtrip:
  assumes "GenerateSecret (Some buf) = Inr text" "buf \<noteq> []"
  shows "DecodeSecret text = Inr buf"
  using assms by (auto simp: GenerateSecret_def DecodeSecret_encode)

theorem totp_secret_roundtrip_witness:
  "\<exists>text. GenerateSecret (Some [0xde, 0xad, 0xbe, 0xef, 0x00, 0x01]) = Inr text \<and>
    DecodeSecret text = Inr [0xde, 0xad, 0xbe, 0xef, 0x00, 0x01]"
  using totp_secret_roundtrip[of "[0xde, 0xad, 0xbe, 0xef, 0x00, 0x01]"]
  by (simp add: GenerateSecret_def)

text \<open>
  \<^bold>\<open>C30\<close>  Clocks may differ by two time steps either way: the code \<open>Generate\<close>
  yields at time \<open>t\<close> is six digits long and is accepted by \<open>Validate\<close> at every time
  \<open>now\<close> whose time step is at most two away, unless this node used it within the
  cache's lifetime.
\<close>

theorem totp_generated_accepted:
  assumes "Generate secret t = Some code"
    and "0 \<le> t" "unix t < 2 ^ 63" "0 \<le> now" "unix now < 2 ^ 63"
    and "\<bar>unix t div 30 - unix now div 30\<bar> \<le> 2"
    and "\<forall>c. used = Some c \<longrightarrow> gomap_wf (seen c) \<and>
      (\<forall>at. mget (seen c) (claim_key nodeID code) = Some at \<longrightarrow> now - at > ttl c)"
  shows "length code = 6 \<and> fst (Validate secret code now used nodeID)"
proof -
  have "length code = 6"
    using assms(1) generateAtCounter_Some[of secret "step_of t"] by (auto simp: Generate_def Digits_def)
  moreover have "Validate secret code now used nodeID = Claim used nodeID code now"
    using assms by (intro Validate_generated) (simp_all add: StepWindow_def)
  moreover have "fst (Claim used nodeID code now)"
    using assms(7) by (auto simp: Claim_def Let_def pruneLocked_get split: option.splits)
  ultimately show ?thesis by simp
qed

theorem totp_generated_accepted_witness:
  "\<exists>code. Generate [1, 2, 3] (100 * second) = Some code \<and>
    fst (Validate [1, 2, 3] code (130 * second) (Some NewReplayCache) ''node-1'')"
proof -
  obtain code where c: "Generate [1, 2, 3] (100 * second) = Some code"
    using generateAtCounter_Some unfolding Generate_def by blast
  have "fst (Validate [1, 2, 3] code (130 * second) (Some NewReplayCache) ''node-1'')"
    using totp_generated_accepted[OF c, of "130 * second" "Some NewReplayCache" "''node-1''"]
    by (simp add: unix_def second_def NewReplayCache_def)
  with c show ?thesis by blast
qed

text \<open>
  \<^bold>\<open>C8\<close>  No code is accepted twice: in any sequence of validations with
  non-decreasing times that share a fresh cache, once a code of a node has been
  accepted, every validation of the same code for that node within the next three
  minutes is refused.  The window in which one time step's code can validate at
  all is shorter than that: if the two steps of tolerance around the two times
  touch, the times are less than 150 seconds apart.
\<close>

theorem totp_no_replay:
  assumes "sorted (map rq_now rs)" "i < j" "j < length rs"
    and "run_validate (Some NewReplayCache) rs ! i"
    and "rq_node (rs ! i) = rq_node (rs ! j)"
    and "trim_space (rq_code (rs ! i)) = trim_space (rq_code (rs ! j))"
    and "rq_now (rs ! j) - rq_now (rs ! i) \<le> 180 * second
      \<or> unix (rq_now (rs ! j)) div 30 - StepWindow \<le> unix (rq_now (rs ! i)) div 30 + StepWindow"
  shows "\<not> run_validate (Some NewReplayCache) rs ! j"
proof
  assume "run_validate (Some NewReplayCache) rs ! j"
  then have "rq_now (rs ! j) - rq_now (rs ! i) > ttl NewReplayCache"
    using assms by (intro run_validate_gap) (auto simp: rq_key_def NewReplayCache_def)
  then have gap: "rq_now (rs ! j) - rq_now (rs ! i) > 180 * second"
    by (simp add: NewReplayCache_def StepWindow_def TimeStep_def second_def)
  then have "unix (rq_now (rs ! i)) + 180 \<le> unix (rq_now (rs ! j))"
    by (simp add: unix_def second_def)
  then have "unix (rq_now (rs ! i)) div 30 + 2 < unix (rq_now (rs ! j)) div 30 - 2" by presburger
  with gap assms(7) show False by (simp add: StepWindow_def)
qed

definition demo_request :: "int \<Rightarrow> string \<Rightarrow> request" where
  "demo_request t code =
    \<lparr> rq_secret = [1], rq_code = code, rq_now = t * second, rq_node = ''n'' \<rparr>"

theorem totp_no_replay_witness:
  "\<exists>code. Generate [1] 0 = Some code \<and>
    run_validate (Some NewReplayCache) [demo_request 0 code, demo_request 29 code] ! 0 \<and>
    \<not> run_validate (Some NewReplayCache) [demo_request 0 code, demo_request 29 code] ! 1"
proof -
  obtain code where c: "Generate [1] 0 = Some code"
    using generateAtCounter_Some unfolding Generate_def by blast
  let ?rs = "[demo_request 0 code, demo_request 29 code]"
  have v: "fst (Validate [1] code 0 (Some NewReplayCache) ''n'')"
    using Validate_generated[OF c] by (simp add: unix_def second_def StepWindow_def NewReplayCache_def
        Claim_def pruneLocked_def Let_def)
  then have a: "run_validate (Some NewReplayCache) ?rs ! 0"
    by (cases "Validate [1] code 0 (Some NewReplayCache) ''n''") (simp add: demo_request_def)
  have "\<not> run_validate (Some NewReplayCache) ?rs ! 1"
    using totp_no_replay[of ?rs 0 1] a by (simp add: demo_request_def second_def)
  with a c show ?thesis by blast
qed

end
