(* ===== verification/Go_Paths.thy ===== *)
theory Go_Paths
  imports Go_Prelude
begin

text \<open>
  Package \<^verbatim>\<open>path/filepath\<close> on a POSIX host: \<^verbatim>\<open>Clean\<close>, \<^verbatim>\<open>Join\<close>, \<^verbatim>\<open>Dir\<close>, \<^verbatim>\<open>Base\<close>,
  \<^verbatim>\<open>IsAbs\<close>, \<^verbatim>\<open>Ext\<close>, \<^verbatim>\<open>Rel\<close>, and the decoding of a string into runes that \<^verbatim>\<open>range\<close> performs.
  The lemmas give the shape of a cleaned path and show when a joined path stays
  below its base.
\<close>

section \<open>Runes\<close>

definition byte_in :: "nat \<Rightarrow> nat \<Rightarrow> char \<Rightarrow> bool" where
  "byte_in lo hi c \<longleftrightarrow> lo \<le> (of_char c :: nat) \<and> (of_char c :: nat) \<le> hi"

text \<open>The width of the first rune; an invalid byte is a rune of its own.\<close>

definition rune_len :: "string \<Rightarrow> nat" where
  "rune_len s = (case s of [] \<Rightarrow> 0
    | b0 # r \<Rightarrow>
       (let cont = byte_in 128 191;
            two = (case r of b1 # _ \<Rightarrow> cont b1 | _ \<Rightarrow> False);
            three = (\<lambda>lo hi. case r of b1 # b2 # _ \<Rightarrow> byte_in lo hi b1 \<and> cont b2 | _ \<Rightarrow> False);
            four = (\<lambda>lo hi. case r of b1 # b2 # b3 # _ \<Rightarrow> byte_in lo hi b1 \<and> cont b2 \<and> cont b3 | _ \<Rightarrow> False)
        in if byte_in 194 223 b0 \<and> two then 2
           else if byte_in 224 224 b0 \<and> three 160 191 then 3
           else if (byte_in 225 236 b0 \<or> byte_in 238 239 b0) \<and> three 128 191 then 3
           else if byte_in 237 237 b0 \<and> three 128 159 then 3
           else if byte_in 240 240 b0 \<and> four 144 191 then 4
           else if byte_in 241 243 b0 \<and> four 128 191 then 4
           else if byte_in 244 244 b0 \<and> four 128 143 then 4
           else 1))"

lemma rune_len_pos: "s \<noteq> [] \<Longrightarrow> 0 < rune_len s"
  by (cases s) (simp_all add: rune_len_def Let_def)

function runes :: "string \<Rightarrow> string list" where
  "runes s = (if s = [] then [] else take (rune_len s) s # runes (drop (rune_len s) s))"
  by pat_completeness auto
termination by (relation "measure length") (auto simp: rune_len_pos)

declare runes.simps [simp del]

lemma runes_Nil [simp]: "runes [] = []"
  by (subst runes.simps) simp

definition is_ascii :: "char \<Rightarrow> bool" where
  "is_ascii c \<longleftrightarrow> (of_char c :: nat) < 128"

lemma runes_ascii_Cons: "is_ascii c \<Longrightarrow> runes (c # s) = [c] # runes s"
  by (subst runes.simps) (simp add: rune_len_def Let_def byte_in_def is_ascii_def)

lemma runes_ascii: "\<forall>c \<in> set s. is_ascii c \<Longrightarrow> runes s = map (\<lambda>c. [c]) s"
  by (induction s) (simp_all add: runes_ascii_Cons)

section \<open>Clean and Join\<close>

definition slash :: char where "slash = CHR ''/''"

definition is_abs :: "string \<Rightarrow> bool" where
  "is_abs p \<longleftrightarrow> has_prefix p ''/''"

text \<open>The stack of components Clean keeps, processed from the left.\<close>

fun norm_comps :: "bool \<Rightarrow> string list \<Rightarrow> string list \<Rightarrow> string list" where
  "norm_comps rooted stack [] = stack"
| "norm_comps rooted stack (c # cs) =
    (if c = [] \<or> c = ''.'' then norm_comps rooted stack cs
     else if c = ''..'' then
       (if stack \<noteq> [] \<and> last stack \<noteq> ''..'' then norm_comps rooted (butlast stack) cs
        else if rooted then norm_comps rooted stack cs
        else norm_comps rooted (stack @ [''..'']) cs)
     else norm_comps rooted (stack @ [c]) cs)"

definition render :: "bool \<Rightarrow> string list \<Rightarrow> string" where
  "render rooted cs = (if rooted then ''/'' @ join ''/'' cs else if cs = [] then ''.'' else join ''/'' cs)"

definition comps :: "string \<Rightarrow> string list" where
  "comps p = norm_comps (is_abs p) [] (split_char slash p)"

definition clean :: "string \<Rightarrow> string" where
  "clean p = render (is_abs p) (comps p)"

definition path_join :: "string list \<Rightarrow> string" where
  "path_join elems = (let es = filter (\<lambda>e. e \<noteq> []) elems in if es = [] then [] else clean (join ''/'' es))"

text \<open>\<^verbatim>\<open>Dir\<close>: everything up to the last separator, cleaned.\<close>

definition path_dir :: "string \<Rightarrow> string" where
  "path_dir p = clean (rev (dropWhile (\<lambda>c. c \<noteq> slash) (rev p)))"

definition path_base :: "string \<Rightarrow> string" where
  "path_base p = (if p = [] then ''.''
     else let q = rev (dropWhile (\<lambda>c. c = slash) (rev p))
          in if q = [] then ''/'' else rev (takeWhile (\<lambda>c. c \<noteq> slash) (rev q)))"

definition path_ext :: "string \<Rightarrow> string" where
  "path_ext p = (let b = rev (takeWhile (\<lambda>c. c \<noteq> slash) (rev p)) in
     if CHR ''.'' \<in> set b then CHR ''.'' # rev (takeWhile (\<lambda>c. c \<noteq> CHR ''.'') (rev b)) else [])"

text \<open>
  \<^verbatim>\<open>Rel\<close> of two paths that are both absolute or both relative: \<open>None\<close> when a
  relative base would have to be climbed above its start.
\<close>

fun strip_common :: "string list \<Rightarrow> string list \<Rightarrow> string list \<times> string list" where
  "strip_common (a # as) (b # bs) = (if a = b then strip_common as bs else (a # as, b # bs))"
| "strip_common as bs = (as, bs)"

definition path_rel :: "string \<Rightarrow> string \<Rightarrow> string option" where
  "path_rel base targ =
    (if is_abs base \<noteq> is_abs targ then None
     else case strip_common (comps base) (comps targ) of
       (bs, ts) \<Rightarrow>
         if ''..'' \<in> set bs then None
         else Some (render False (replicate (length bs) ''..'' @ ts)))"

section \<open>Shape of cleaned paths\<close>

text \<open>A plain segment is a single name that is neither empty, nor dot, nor dot-dot.\<close>

definition plain_seg :: "string \<Rightarrow> bool" where
  "plain_seg s \<longleftrightarrow> s \<noteq> [] \<and> s \<noteq> ''.'' \<and> s \<noteq> ''..'' \<and> slash \<notin> set s"

lemma norm_comps_append: "norm_comps r st (xs @ ys) = norm_comps r (norm_comps r st xs) ys"
  by (induction xs arbitrary: st) auto

lemma norm_comps_plain: "\<forall>c \<in> set cs. plain_seg c \<Longrightarrow> norm_comps r st cs = st @ cs"
  by (induction cs arbitrary: st) (auto simp: plain_seg_def)

text \<open>The components of a rooted path are plain segments: no dot-dot survives.\<close>

definition push_comp :: "string list \<Rightarrow> string \<Rightarrow> string list" where
  "push_comp st c =
    (if c = [] \<or> c = ''.'' then st
     else if c = ''..'' then (if st \<noteq> [] \<and> last st \<noteq> ''..'' then butlast st else st)
     else st @ [c])"

lemma norm_comps_push: "norm_comps True st (c # cs) = norm_comps True (push_comp st c) cs"
  by (simp add: push_comp_def)

lemma push_comp_plain: "\<forall>d \<in> set st. plain_seg d \<Longrightarrow> slash \<notin> set c \<Longrightarrow> \<forall>d \<in> set (push_comp st c). plain_seg d"
  by (auto simp: push_comp_def plain_seg_def dest: in_set_butlastD)

lemma norm_comps_rooted:
  "\<forall>c \<in> set st. plain_seg c \<Longrightarrow> \<forall>c \<in> set cs. slash \<notin> set c \<Longrightarrow>
    \<forall>c \<in> set (norm_comps True st cs). plain_seg c"
proof (induction cs arbitrary: st)
  case (Cons c cs)
  have "\<forall>d \<in> set (push_comp st c). plain_seg d"
    by (rule push_comp_plain) (use Cons.prems in simp_all)
  then show ?case unfolding norm_comps_push by (rule Cons.IH) (use Cons.prems in simp)
qed simp

lemma split_char_no_slash: "\<forall>c \<in> set (split_char slash p). slash \<notin> set c"
  using split_char_no_sep by blast

lemma comps_abs_plain: "is_abs p \<Longrightarrow> \<forall>c \<in> set (comps p). plain_seg c"
  using norm_comps_rooted[of "[]" "split_char slash p"] split_char_no_slash[of p] by (simp add: comps_def)

lemma split_char_join:
  assumes "\<forall>c \<in> set cs. slash \<notin> set c" "cs \<noteq> []"
  shows "split_char slash (join ''/'' cs) = cs"
proof -
  have nosep: "slash \<notin> set w \<Longrightarrow> split_char slash w = [w]" for w
    by (induction w) auto
  have app: "slash \<notin> set w \<Longrightarrow> split_char slash (w @ CHR ''/'' # s) = w # split_char slash s" for w s
    by (induction w) (auto simp: slash_def)
  show ?thesis using assms
  proof (induction cs)
    case (Cons c cs)
    then show ?case by (cases "cs = []") (auto simp: nosep join_Cons app)
  qed simp
qed

lemma is_abs_Cons [simp]: "is_abs (c # p) \<longleftrightarrow> c = slash"
  by (auto simp: is_abs_def has_prefix_def slash_def)

lemma is_abs_Nil [simp]: "\<not> is_abs []"
  by (simp add: is_abs_def has_prefix_def)

lemma comps_render_rooted:
  assumes "\<forall>c \<in> set cs. plain_seg c"
  shows "comps (render True cs) = cs" "is_abs (render True cs)"
proof -
  show ab: "is_abs (render True cs)" by (simp add: render_def slash_def)
  have "split_char slash (render True cs) = [] # (if cs = [] then [[]] else cs)"
  proof (cases "cs = []")
    case False
    have "split_char slash (join ''/'' cs) = cs"
      using assms False by (intro split_char_join) (auto simp: plain_seg_def)
    then show ?thesis using False by (simp add: render_def slash_def)
  qed (simp add: render_def slash_def)
  with ab assms show "comps (render True cs) = cs"
    by (cases "cs = []") (simp_all add: comps_def norm_comps_plain)
qed

lemma clean_abs_idem: "is_abs p \<Longrightarrow> clean (clean p) = clean p"
  by (simp add: clean_def comps_render_rooted[OF comps_abs_plain])

lemma is_abs_clean: "is_abs p \<Longrightarrow> is_abs (clean p)"
  by (simp add: clean_def comps_render_rooted[OF comps_abs_plain])

lemma comps_clean_abs: "is_abs p \<Longrightarrow> comps (clean p) = comps p"
  by (simp add: clean_def comps_render_rooted[OF comps_abs_plain])

section \<open>Staying below a directory\<close>

text \<open>Lexical containment, by components.\<close>

definition below :: "string \<Rightarrow> string \<Rightarrow> bool" where
  "below root p \<longleftrightarrow> is_abs p \<and> prefix (comps root) (comps p)"

lemma split_char_append_sep: "split_char slash (p @ ''/'' @ q) = split_char slash p @ split_char slash q"
proof (induction p)
  case (Cons c p)
  then show ?case by (cases "split_char slash p") (auto simp: slash_def)
qed (simp add: slash_def)

lemma comps_append: "is_abs p \<Longrightarrow> comps (p @ ''/'' @ q) = norm_comps True (comps p) (split_char slash q)"
proof -
  assume ab: "is_abs p"
  then have "is_abs (p @ ''/'' @ q)" by (cases p) simp_all
  with ab show ?thesis by (simp only: comps_def split_char_append_sep norm_comps_append)
qed

lemma comps_join_segs:
  assumes "is_abs p" "\<forall>s \<in> set segs. plain_seg s"
  shows "comps (path_join (p # segs)) = comps p @ segs" "is_abs (path_join (p # segs))"
proof -
  have p: "p \<noteq> []" using assms(1) by auto
  have ne: "filter (\<lambda>e. e \<noteq> []) (p # segs) = p # segs"
    using assms(2) p by (auto simp: plain_seg_def filter_id_conv)
  have j: "join ''/'' (p # segs) = (if segs = [] then p else p @ ''/'' @ join ''/'' segs)"
    by (simp add: join_Cons)
  have ab: "is_abs (join ''/'' (p # segs))" unfolding j using assms(1) by (cases p) simp_all
  have "comps (join ''/'' (p # segs)) = comps p @ segs"
  proof (cases "segs = []")
    case False
    have "split_char slash (join ''/'' segs) = segs"
      using assms(2) False by (intro split_char_join) (auto simp: plain_seg_def)
    then show ?thesis using False assms comps_append[OF assms(1), of "join ''/'' segs"]
      by (simp add: j norm_comps_plain)
  qed (simp add: j)
  then show "comps (path_join (p # segs)) = comps p @ segs" "is_abs (path_join (p # segs))"
    using ab ne by (simp_all add: path_join_def comps_clean_abs is_abs_clean)
qed

lemma below_join: "is_abs p \<Longrightarrow> \<forall>s \<in> set segs. plain_seg s \<Longrightarrow> below p (path_join (p # segs))"
  by (simp add: below_def comps_join_segs)

lemma below_trans: "below a b \<Longrightarrow> below b c \<Longrightarrow> below a c"
  by (auto simp: below_def intro: prefix_order.trans)

lemma slash_code: "of_char CHR ''/'' = (47 :: nat)"
  by simp

lemma trim_space_abs: "is_abs p \<Longrightarrow> trim_space p \<noteq> []"
proof -
  assume "is_abs p"
  then have "CHR ''/'' \<in> set p" by (cases p) (auto simp: slash_def)
  moreover have "CHR ''/'' = char_of n \<longleftrightarrow> n = 47" if "n < 256" for n :: nat
    using that by (metis of_char_of char_of_char mod_less slash_code)
  then have "\<forall>t \<in> set ws_tokens. CHR ''/'' \<notin> set t"
    by (simp add: ws_tokens_def bytes_of_def)
  ultimately have "CHR ''/'' \<in> set (trim_space p)" by (rule trim_space_keeps)
  then show ?thesis by auto
qed

section \<open>The parent directory\<close>

lemma join_snoc: "cs \<noteq> [] \<Longrightarrow> join sep (cs @ [c]) = join sep cs @ sep @ c"
proof (induction cs)
  case (Cons d cs)
  then show ?case by (cases "cs = []") (simp_all add: join_Cons)
qed simp

lemma path_dir_sep:
  assumes "slash \<notin> set c"
  shows "path_dir (x @ ''/'' @ c) = clean (x @ ''/'')"
proof -
  have "dropWhile (\<lambda>c. c \<noteq> slash) (rev c @ slash # rev x) = slash # rev x"
    using assms by (auto simp: dropWhile_append)
  then show ?thesis by (simp add: path_dir_def slash_def)
qed

lemma comps_path_dir:
  assumes "is_abs p" "clean p = p" "comps p = cs @ [c]"
  shows "comps (path_dir p) = cs" "is_abs (path_dir p)"
proof -
  have pl: "\<forall>d \<in> set (cs @ [c]). plain_seg d" using comps_abs_plain[OF assms(1)] assms(3) by simp
  have p: "p = ''/'' @ join ''/'' (cs @ [c])"
    using assms by (metis clean_def render_def)
  define x where "x = (if cs = [] then [] else ''/'' @ join ''/'' cs)"
  have px: "p = x @ ''/'' @ c" using p by (auto simp: x_def join_snoc)
  have dir: "path_dir p = clean (x @ ''/'')"
    unfolding px by (rule path_dir_sep) (use pl in \<open>auto simp: plain_seg_def\<close>)
  have ab: "is_abs (x @ ''/'')" by (simp add: x_def slash_def)
  have "comps (x @ ''/'') = cs"
  proof (cases "cs = []")
    case True
    then show ?thesis by (simp add: x_def comps_def slash_def)
  next
    case False
    have x: "x = render True cs" using False by (simp add: x_def render_def)
    then have "is_abs x" "comps x = cs" using comps_render_rooted[of cs] pl by simp_all
    then show ?thesis using comps_append[of x "[]"] by simp
  qed
  with ab show "comps (path_dir p) = cs" "is_abs (path_dir p)"
    by (simp_all add: dir comps_clean_abs is_abs_clean)
qed

lemma clean_path_join: "is_abs p \<Longrightarrow> \<forall>s \<in> set segs. plain_seg s \<Longrightarrow> clean (path_join (p # segs)) = path_join (p # segs)"
proof -
  assume a: "is_abs p" "\<forall>s \<in> set segs. plain_seg s"
  then have "p \<noteq> []" by auto
  moreover have "is_abs (join ''/'' (filter (\<lambda>e. e \<noteq> []) (p # segs)))"
    using a(1) \<open>p \<noteq> []\<close> by (cases p; cases "filter (\<lambda>e. e \<noteq> []) segs") simp_all
  ultimately show ?thesis by (simp add: path_join_def clean_abs_idem)
qed

lemma comps_parent:
  assumes "is_abs p" "\<forall>s \<in> set (segs @ [c]). plain_seg s"
  shows "comps (path_dir (path_join (p # segs @ [c]))) = comps p @ segs" "is_abs (path_dir (path_join (p # segs @ [c])))"
  using comps_path_dir[OF comps_join_segs(2)[OF assms] clean_path_join[OF assms], of "comps p @ segs" c] comps_join_segs(1)[OF assms]
  by simp_all

section \<open>Containment of printed paths\<close>

lemma path_join_abs: "is_abs p \<Longrightarrow> is_abs (path_join (p # xs)) \<and> clean (path_join (p # xs)) = path_join (p # xs)"
proof -
  assume a: "is_abs p"
  let ?es = "filter (\<lambda>e. e \<noteq> []) (p # xs)"
  have "p \<noteq> []" using a by auto
  then have "is_abs (join ''/'' ?es)" using a by (cases p; cases "filter (\<lambda>e. e \<noteq> []) xs") simp_all
  with \<open>p \<noteq> []\<close> show ?thesis by (simp add: path_join_def is_abs_clean clean_abs_idem)
qed

text \<open>A printed path followed by a separator starts with another exactly when it lies below it.\<close>

lemma clean_prefix_comps:
  assumes "is_abs p" "is_abs q" "has_prefix (clean q @ ''/'') (clean p @ ''/'')"
  shows "prefix (comps p) (comps q)"
proof (cases "comps p = []")
  case False
  have pl: "\<forall>c \<in> set (comps p). plain_seg c" "\<forall>c \<in> set (comps q). plain_seg c" using comps_abs_plain assms(1,2) by blast+
  have sp: "split_char slash (join ''/'' cs @ ''/'' @ t) = (if cs = [] then [[]] else cs) @ split_char slash t"
    if "\<forall>c \<in> set cs. plain_seg c" for cs t
    using split_char_join[of cs] that by (auto simp: split_char_append_sep plain_seg_def simp del: append_Cons)
  obtain t where t: "clean q @ ''/'' = clean p @ ''/'' @ t" using has_prefixD[OF assms(3)] by (metis append.assoc)
  then have "join ''/'' (comps q) @ ''/'' @ [] = join ''/'' (comps p) @ ''/'' @ t"
    using assms(1,2) by (simp add: clean_def render_def)
  then have "split_char slash (join ''/'' (comps q) @ ''/'' @ []) = split_char slash (join ''/'' (comps p) @ ''/'' @ t)" by simp
  then have e: "(if comps q = [] then [[]] else comps q) @ [[]] = comps p @ split_char slash t"
    unfolding sp[OF pl(1)] sp[OF pl(2)] using False by simp
  have "hd (comps p) \<noteq> []" using pl(1) False by (simp add: plain_seg_def)
  with e False have q: "comps q \<noteq> []" by (cases "comps p") (auto split: if_splits)
  obtain us u where "split_char slash t = us @ [u]" by (cases "split_char slash t" rule: rev_cases) simp_all
  with e q show ?thesis by (auto simp: prefix_def)
qed simp

text \<open>A relative path that does not start by going up leads below its base.\<close>

lemma strip_common_split: "strip_common as bs = (as', bs') \<Longrightarrow> \<exists>p. as = p @ as' \<and> bs = p @ bs'"
proof (induction as bs rule: strip_common.induct)
  case (1 a as b bs)
  then show ?case by (cases "a = b") (auto intro: exI[of _ "a # p" for p])
qed auto

lemma path_rel_below:
  assumes "path_rel base targ = Some rel" "rel \<noteq> ''..''" "\<not> has_prefix rel ''../''"
  shows "prefix (comps base) (comps targ)"
proof -
  obtain bs ts where b: "strip_common (comps base) (comps targ) = (bs, ts)" by fastforce
  then have rel: "rel = render False (replicate (length bs) ''..'' @ ts)"
    using assms(1) by (auto simp: path_rel_def split: if_splits)
  have "bs = []"
  proof (rule ccontr)
    assume "bs \<noteq> []"
    then obtain ws where w: "replicate (length bs) ''..'' @ ts = ''..'' # ws" by (cases bs) auto
    show False using assms(2,3) by (cases "ws = []") (auto simp: rel w render_def join_Cons has_prefix_def)
  qed
  then show ?thesis using strip_common_split[OF b] by (auto simp: prefix_def)
qed

end
