(* ===== verification/Machines.thy ===== *)
theory Machines
  imports Go_Prelude
begin

text \<open>
  Components whose correctness depends on how their operations interleave are
  modelled as guarded machines: \<open>step s e = Some s'\<close> when event \<open>e\<close> is enabled in
  state \<open>s\<close> and leads to \<open>s'\<close>, and \<open>None\<close> when it is not enabled.  The step
  functions are executable, so a schedule is a list of events that can be run.
\<close>

primrec exec :: "('s \<Rightarrow> 'e \<Rightarrow> 's option) \<Rightarrow> 's \<Rightarrow> 'e list \<Rightarrow> 's option" where
  "exec step s [] = Some s"
| "exec step s (e # es) = (case step s e of None \<Rightarrow> None | Some s' \<Rightarrow> exec step s' es)"

inductive reach :: "('s \<Rightarrow> 'e \<Rightarrow> 's option) \<Rightarrow> 's \<Rightarrow> 's \<Rightarrow> bool" for step init where
  reach_init: "reach step init init"
| reach_step: "reach step init s \<Longrightarrow> step s e = Some s' \<Longrightarrow> reach step init s'"

lemma exec_append:
  "exec step s (es @ fs) = (case exec step s es of None \<Rightarrow> None | Some s' \<Rightarrow> exec step s' fs)"
  by (induction es arbitrary: s) (auto split: option.splits)

lemma exec_snoc: "exec step s (es @ [e]) = Option.bind (exec step s es) (\<lambda>s'. step s' e)"
  by (cases "exec step s es") (simp_all add: exec_append split: option.split)

lemma exec_Cons_Some:
  "exec step s (e # es) = Some t \<longleftrightarrow> (\<exists>s'. step s e = Some s' \<and> exec step s' es = Some t)"
  by (auto split: option.splits)

lemma exec_caseD: "(case exec step s es of None \<Rightarrow> False | Some m \<Rightarrow> P m) \<Longrightarrow> \<exists>m. exec step s es = Some m \<and> P m"
  by (simp split: option.splits)

lemma reach_iff_exec: "reach step init s \<longleftrightarrow> (\<exists>es. exec step init es = Some s)"
proof
  assume "reach step init s"
  then show "\<exists>es. exec step init es = Some s"
  proof induction
    case reach_init
    have "exec step init [] = Some init" by simp
    then show ?case ..
  next
    case (reach_step s e s')
    then obtain es where "exec step init es = Some s" by blast
    with reach_step have "exec step init (es @ [e]) = Some s'" by (simp add: exec_snoc)
    then show ?case ..
  qed
next
  have "exec step s es = Some t \<Longrightarrow> reach step init s \<Longrightarrow> reach step init t" for es s t
    by (induction es arbitrary: s) (auto split: option.splits intro: reach.reach_step)
  then show "\<exists>es. exec step init es = Some s \<Longrightarrow> reach step init s"
    by (blast intro: reach.reach_init)
qed

lemma exec_reach: "exec step init es = Some s \<Longrightarrow> reach step init s"
  by (auto simp: reach_iff_exec)

text \<open>An invariant of a machine whose events satisfy a side condition.\<close>

locale guarded_machine =
  fixes step :: "'s \<Rightarrow> 'e \<Rightarrow> 's option"
    and allowed :: "'e \<Rightarrow> bool"
    and inv :: "'s \<Rightarrow> bool"
  assumes step_inv: "inv s \<Longrightarrow> allowed e \<Longrightarrow> step s e = Some s' \<Longrightarrow> inv s'"
begin

lemma exec_inv: "inv s \<Longrightarrow> \<forall>e \<in> set es. allowed e \<Longrightarrow> exec step s es = Some s' \<Longrightarrow> inv s'"
  by (induction es arbitrary: s) (auto split: option.splits intro: step_inv)

lemma reach_inv: "\<forall>e. allowed e \<Longrightarrow> inv s \<Longrightarrow> reach step s s' \<Longrightarrow> inv s'"
  by (auto simp: reach_iff_exec intro: exec_inv)

end

text \<open>
  A trap: a set of states that the allowed events never leave and in which they
  never change some observation.
\<close>

locale machine_trap = guarded_machine step allowed inv
  for step :: "'s \<Rightarrow> 'e \<Rightarrow> 's option" and allowed :: "'e \<Rightarrow> bool" and inv :: "'s \<Rightarrow> bool" +
  fixes obs :: "'s \<Rightarrow> 'o"
  assumes step_obs: "inv s \<Longrightarrow> allowed e \<Longrightarrow> step s e = Some s' \<Longrightarrow> obs s' = obs s"
begin

lemma exec_obs: "inv s \<Longrightarrow> \<forall>e \<in> set es. allowed e \<Longrightarrow> exec step s es = Some s' \<Longrightarrow> obs s' = obs s"
proof (induction es arbitrary: s)
  case (Cons e es)
  then obtain t where "step s e = Some t" "exec step t es = Some s'"
    by (auto split: option.splits)
  moreover have "inv t" "obs t = obs s"
    using calculation(1) Cons.prems step_inv step_obs by auto
  ultimately show ?case using Cons.IH[of t] Cons.prems by simp
qed simp

end

end
