(* ===== verification/File_Upload.thy ===== *)
theory File_Upload
  imports Go_Paths Go_Digest Machines
begin

text \<open>
  Chunked uploads of a file to the host: \<^verbatim>\<open>common/agent/host_file_upload.go\<close>.

  The uploads in progress are objects that goroutines keep using after they have left the table, so there
  is a heap of them, as for sessions.  An open file is an inode: the disk maps the components of absolute
  paths to inodes and inodes to their bytes, directories included.  Whether a system call fails, and whether
  the stream context is already cancelled, are inputs of a request.  Paths are POSIX paths and symbolic
  links are not followed.
\<close>

section \<open>State\<close>

definition maxUploadChunkBytes :: int where
  "maxUploadChunkBytes = 1024 * 1024"

definition maxUploadTotalBytes :: "64 word" where
  "maxUploadTotalBytes = 10 * 1024 * 1024"

record uploadSession =
  tmpPath :: string
  us_file :: "nat option"
  us_written :: "64 word"
  us_uploadID :: string

record disk =
  names :: "(string list, nat) gomap"
  inodes :: "string list"

record uploads =
  uploadSessions :: "(string, nat) gomap"
  us_heap :: "uploadSession list"
  us_disk :: disk

record NodeFileUploadRequest =
  fu_upload_id :: string
  fu_path :: string
  fu_offset :: "64 word"
  fu_data :: string
  fu_total_size :: "64 word"
  fu_sha256 :: string
  fu_overwrite :: bool
  fu_final :: bool

datatype upload_error =
    IdAndPathRequired | InvalidPath | TotalTooLarge | ChunkTooLarge | CreateTemp | UploadClosed | OffsetMismatch
  | Canceled | WriteFailed | SizeMismatch | OpenChecksum | ChecksumMismatch | CloseFailed | DestinationExists | StatFailed | RenameFailed

record NodeFileUploadResult =
  fr_upload_id :: string
  fr_ok :: bool
  fr_bytes_written :: "64 word"
  fr_path :: string
  fr_error :: "upload_error option"

record faults =
  f_open :: bool
  f_canceled :: bool
  f_write :: bool
  f_read :: bool
  f_close :: bool
  f_stat :: bool
  f_rename :: bool

definition no_faults :: faults where
  "no_faults = \<lparr> f_open = False, f_canceled = False, f_write = False, f_read = False, f_close = False, f_stat = False, f_rename = False \<rparr>"

lemma no_faults_simps [simp]: "\<not> f_open no_faults" "\<not> f_canceled no_faults" "\<not> f_write no_faults" "\<not> f_read no_faults"
  "\<not> f_close no_faults" "\<not> f_stat no_faults" "\<not> f_rename no_faults"
  by (simp_all add: no_faults_def)

definition no_uploads :: "disk \<Rightarrow> uploads" where
  "no_uploads d = \<lparr> uploadSessions = [], us_heap = [], us_disk = d \<rparr>"

section \<open>Names\<close>

definition isWindowsReservedName :: "string \<Rightarrow> bool" where
  "isWindowsReservedName name =
    (let stem = (if CHR ''.'' \<in> set name then rev (tl (dropWhile (\<lambda>c. c \<noteq> CHR ''.'') (rev name))) else name)
     in name \<noteq> [] \<and> to_upper stem \<in> set ([''CON'', ''PRN'', ''AUX'', ''NUL'']
          @ map (\<lambda>d. ''COM'' @ [d]) ''123456789'' @ map (\<lambda>d. ''LPT'' @ [d]) ''123456789''))"

definition validateUploadPath :: "string \<Rightarrow> bool" where
  "validateUploadPath p \<longleftrightarrow>
    (let cleaned = clean p in
     p \<noteq> [] \<and> CHR 0x00 \<notin> set p \<and> is_abs cleaned \<and> \<not> has_prefix cleaned ''//'' \<and>
     list_all (\<lambda>part. part \<noteq> ''..'' \<and> \<not> isWindowsReservedName part) (split_char slash cleaned))"

definition upload_char :: "char \<Rightarrow> bool" where
  "upload_char c \<longleftrightarrow> byte_in 97 122 c \<or> byte_in 65 90 c \<or> byte_in 48 57 c \<or> c = CHR ''-''"

definition upload_rune :: "string \<Rightarrow> char" where
  "upload_rune r = (case r of [c] \<Rightarrow> if upload_char c then c else CHR ''-'' | _ \<Rightarrow> CHR ''-'')"

definition sanitizeUploadID :: "string \<Rightarrow> string" where
  "sanitizeUploadID i = (let b = map upload_rune (runes i) in if b = [] then ''upload'' else b)"

definition tmp_name :: "string \<Rightarrow> string \<Rightarrow> string" where
  "tmp_name dest uploadID = dest @ ''.upload-'' @ sanitizeUploadID uploadID @ ''.tmp''"

section \<open>Disk\<close>

definition open_trunc :: "string \<Rightarrow> disk \<Rightarrow> nat \<times> disk" where
  "open_trunc p d = (case mget (names d) (comps p) of
      Some i \<Rightarrow> (i, d\<lparr> inodes := (inodes d)[i := []] \<rparr>)
    | None \<Rightarrow> (length (inodes d), \<lparr> names = mput (comps p) (length (inodes d)) (names d), inodes = inodes d @ [[]] \<rparr>))"

text \<open>Writing at an offset; a hole reads as zero bytes.\<close>

definition write_at :: "nat \<Rightarrow> string \<Rightarrow> string \<Rightarrow> string" where
  "write_at off data content =
    take off content @ replicate (off - length content) CHR 0x00 @ data @ drop (off + length data) content"

definition write_inode :: "nat \<Rightarrow> nat \<Rightarrow> string \<Rightarrow> disk \<Rightarrow> disk" where
  "write_inode i off data d = d\<lparr> inodes := (inodes d)[i := write_at off data (inodes d ! i)] \<rparr>"

definition write_chunk :: "nat \<Rightarrow> nat \<Rightarrow> string \<Rightarrow> disk \<Rightarrow> disk" where
  "write_chunk i off data d = (if data = [] then d else write_inode i off data d)"

definition remove_name :: "string \<Rightarrow> disk \<Rightarrow> disk" where
  "remove_name p d = d\<lparr> names := mdel (comps p) (names d) \<rparr>"

definition rename :: "string \<Rightarrow> string \<Rightarrow> disk \<Rightarrow> disk option" where
  "rename p q d = map_option (\<lambda>i. d\<lparr> names := mput (comps q) i (mdel (comps p) (names d)) \<rparr>) (mget (names d) (comps p))"

section \<open>Requests\<close>

definition upd_upload :: "nat \<Rightarrow> (uploadSession \<Rightarrow> uploadSession) \<Rightarrow> uploads \<Rightarrow> uploads" where
  "upd_upload a f u = u\<lparr> us_heap := (us_heap u)[a := f (us_heap u ! a)] \<rparr>"

definition on_disk :: "(disk \<Rightarrow> disk) \<Rightarrow> uploads \<Rightarrow> uploads" where
  "on_disk f u = u\<lparr> us_disk := f (us_disk u) \<rparr>"

definition dropUploadSession :: "nat \<Rightarrow> uploads \<Rightarrow> uploads" where
  "dropUploadSession a u =
    (let i = us_uploadID (us_heap u ! a)
     in if mget (uploadSessions u) i = Some a then u\<lparr> uploadSessions := mdel i (uploadSessions u) \<rparr> else u)"

definition abortUpload :: "nat \<Rightarrow> uploads \<Rightarrow> uploads" where
  "abortUpload a u =
    dropUploadSession a (on_disk (remove_name (tmpPath (us_heap u ! a))) (upd_upload a (\<lambda>s. s\<lparr> us_file := None \<rparr>) u))"

definition verifyUploadChecksum :: "faults \<Rightarrow> string \<Rightarrow> string \<Rightarrow> disk \<Rightarrow> upload_error option" where
  "verifyUploadChecksum f p expectedHex d =
    (if f_read f then Some OpenChecksum
     else case mget (names d) (comps p) of
         None \<Rightarrow> Some OpenChecksum
       | Some i \<Rightarrow>
           if equal_fold (hex_encode (sha256 (bytes_of_string (inodes d ! i)))) expectedHex then None else Some ChecksumMismatch)"

definition upload_checks :: "NodeFileUploadRequest \<Rightarrow> upload_error option" where
  "upload_checks req =
    (let uploadID = trim_space (fu_upload_id req); dest = trim_space (fu_path req) in
     if uploadID = [] \<or> dest = [] then Some IdAndPathRequired
     else if \<not> validateUploadPath dest then Some InvalidPath
     else if maxUploadTotalBytes < fu_total_size req then Some TotalTooLarge
     else if maxUploadChunkBytes < int (length (fu_data req)) then Some ChunkTooLarge
     else None)"

text \<open>Finding or making the upload, under the lock of the table.\<close>

definition upload_open :: "faults \<Rightarrow> NodeFileUploadRequest \<Rightarrow> uploads \<Rightarrow> (upload_error + nat) \<times> uploads" where
  "upload_open f req u =
    (let uploadID = trim_space (fu_upload_id req); dest = trim_space (fu_path req) in
     case mget (uploadSessions u) uploadID of
       Some a \<Rightarrow> (Inr a, u)
     | None \<Rightarrow>
         if f_open f then (Inl CreateTemp, u)
         else let tmp = tmp_name dest uploadID; (i, d) = open_trunc tmp (us_disk u)
           in (Inr (length (us_heap u)),
               u\<lparr> us_disk := d, uploadSessions := mput uploadID (length (us_heap u)) (uploadSessions u),
                  us_heap := us_heap u @ [\<lparr> tmpPath = tmp, us_file = Some i, us_written = 0, us_uploadID = uploadID \<rparr>] \<rparr>))"

text \<open>The end of a final chunk, once the temporary file is closed.\<close>

definition upload_finish :: "faults \<Rightarrow> NodeFileUploadRequest \<Rightarrow> nat \<Rightarrow> uploads \<Rightarrow> upload_error option \<times> uploads" where
  "upload_finish f req a u =
    (let dest = trim_space (fu_path req); tmp = tmpPath (us_heap u ! a);
         discard = (\<lambda>u. dropUploadSession a (on_disk (remove_name tmp) u))
     in if \<not> fu_overwrite req \<and> f_stat f then (Some StatFailed, discard u)
        else if \<not> fu_overwrite req \<and> mget (names (us_disk u)) (comps dest) \<noteq> None then (Some DestinationExists, discard u)
        else case (if f_rename f then None else rename tmp dest (us_disk u)) of
            None \<Rightarrow> (Some RenameFailed, discard u)
          | Some d \<Rightarrow> (None, dropUploadSession a (u\<lparr> us_disk := d \<rparr>)))"

text \<open>The body, under the lock of the upload.  The result is the error and the number of bytes reported.\<close>

definition upload_chunk :: "faults \<Rightarrow> NodeFileUploadRequest \<Rightarrow> nat \<Rightarrow> uploads \<Rightarrow> (upload_error option \<times> 64 word) \<times> uploads" where
  "upload_chunk f req a u0 =
    (let s = us_heap u0 ! a in
     case us_file s of
       None \<Rightarrow> ((Some UploadClosed, 0), u0)
     | Some i \<Rightarrow>
         if fu_offset req \<noteq> us_written s then ((Some OffsetMismatch, 0), abortUpload a u0)
         else if f_canceled f then ((Some Canceled, 0), abortUpload a u0)
         else if fu_data req \<noteq> [] \<and> f_write f then ((Some WriteFailed, 0), abortUpload a u0)
         else let w = us_written s + of_nat (length (fu_data req));
                  u = upd_upload a (\<lambda>s. s\<lparr> us_written := w \<rparr>) (on_disk (write_chunk i (unat (us_written s)) (fu_data req)) u0)
           in if \<not> fu_final req then ((None, w), u)
              else if w \<noteq> fu_total_size req then ((Some SizeMismatch, w), abortUpload a u)
              else case (if fu_sha256 req = [] then None else verifyUploadChecksum f (tmpPath s) (fu_sha256 req) (us_disk u)) of
                  Some e \<Rightarrow> ((Some e, w), abortUpload a u)
                | None \<Rightarrow>
                    if f_close f then ((Some CloseFailed, w), abortUpload a u)
                    else let (e, u) = upload_finish f req a (upd_upload a (\<lambda>s. s\<lparr> us_file := None \<rparr>) u) in ((e, w), u))"

definition upload_result :: "NodeFileUploadRequest \<Rightarrow> upload_error option \<times> 64 word \<Rightarrow> NodeFileUploadResult" where
  "upload_result req ew = \<lparr> fr_upload_id = fu_upload_id req, fr_ok = (fst ew = None), fr_bytes_written = snd ew, fr_path = fu_path req, fr_error = fst ew \<rparr>"

definition RunFileUpload :: "faults \<Rightarrow> NodeFileUploadRequest \<Rightarrow> uploads \<Rightarrow> NodeFileUploadResult \<times> uploads" where
  "RunFileUpload f req u = (case upload_checks req of
      Some e \<Rightarrow> (upload_result req (Some e, 0), u)
    | None \<Rightarrow>
        (case upload_open f req u of
           (Inl e, u) \<Rightarrow> (upload_result req (Some e, 0), u)
         | (Inr a, u) \<Rightarrow> (let (ew, u) = upload_chunk f req a u in (upload_result req ew, u))))"


text \<open>
  Every request runs in a goroutine of its own: between the section under the lock of the table and the one
  under the lock of the upload others may run.  A call that is past its first section waits with the upload it found.
\<close>

record upload_calls =
  uc_uploads :: uploads
  uc_waiting :: "(nat, faults \<times> NodeFileUploadRequest \<times> nat) gomap"
  uc_results :: "(nat, NodeFileUploadResult) gomap"

datatype upload_event = UOpen nat faults NodeFileUploadRequest | UBody nat

fun call_of :: "upload_event \<Rightarrow> nat" where
  "call_of (UOpen c f req) = c"
| "call_of (UBody c) = c"

fun upload_step :: "upload_calls \<Rightarrow> upload_event \<Rightarrow> upload_calls option" where
  "upload_step st (UOpen c f req) =
    (if mget (uc_waiting st) c \<noteq> None \<or> mget (uc_results st) c \<noteq> None then None
     else Some (case upload_checks req of
         Some e \<Rightarrow> st\<lparr> uc_results := mput c (upload_result req (Some e, 0)) (uc_results st) \<rparr>
       | None \<Rightarrow>
          (case upload_open f req (uc_uploads st) of
             (Inl e, u) \<Rightarrow> st\<lparr> uc_uploads := u, uc_results := mput c (upload_result req (Some e, 0)) (uc_results st) \<rparr>
           | (Inr a, u) \<Rightarrow> st\<lparr> uc_uploads := u, uc_waiting := mput c (f, req, a) (uc_waiting st) \<rparr>)))"
| "upload_step st (UBody c) = (case mget (uc_waiting st) c of
      None \<Rightarrow> None
    | Some (f, req, a) \<Rightarrow> Some (let (ew, u) = upload_chunk f req a (uc_uploads st) in
        \<lparr> uc_uploads = u, uc_waiting = mdel c (uc_waiting st), uc_results = mput c (upload_result req ew) (uc_results st) \<rparr>))"

definition no_calls :: "disk \<Rightarrow> upload_calls" where
  "no_calls d = \<lparr> uc_uploads = no_uploads d, uc_waiting = [], uc_results = [] \<rparr>"

text \<open>A request whose sections follow each other is a run of the function.\<close>

lemma call_is_request:
  assumes "mget (uc_waiting st) c = None" "mget (uc_results st) c = None" "upload_checks req = None" "upload_open f req (uc_uploads st) = (Inr a, u)"
  shows "\<exists>st'. exec upload_step st [UOpen c f req, UBody c] = Some st' \<and>
    RunFileUpload f req (uc_uploads st) = (the (mget (uc_results st') c), uc_uploads st')"
  using assms by (simp add: RunFileUpload_def split_beta Let_def)


section \<open>Requests of other uploads\<close>

text \<open>
  \<open>guarded\<close> protects the upload \<open>uid\<close>, a set of names and a set of inodes from all other uploads:
  none of them has such an inode open or such a name as temporary file.
\<close>

definition guarded :: "string \<Rightarrow> string list set \<Rightarrow> nat set \<Rightarrow> uploads \<Rightarrow> bool" where
  "guarded uid N P u \<longleftrightarrow>
    (\<forall>k b. mget (uploadSessions u) k = Some b \<longrightarrow> b < length (us_heap u) \<and> us_uploadID (us_heap u ! b) = k) \<and>
    (\<forall>b < length (us_heap u). us_uploadID (us_heap u ! b) \<noteq> uid \<longrightarrow> comps (tmpPath (us_heap u ! b)) \<notin> N \<and>
       (\<forall>j. us_file (us_heap u ! b) = Some j \<longrightarrow> j < length (inodes (us_disk u)) \<and> j \<notin> P)) \<and>
    (\<forall>p i. mget (names (us_disk u)) p = Some i \<longrightarrow> i < length (inodes (us_disk u)) \<and> (i \<in> P \<longrightarrow> p \<in> N)) \<and>
    (\<forall>i \<in> P. i < length (inodes (us_disk u)))"

definition same_upload :: "string \<Rightarrow> string list set \<Rightarrow> nat set \<Rightarrow> uploads \<Rightarrow> uploads \<Rightarrow> bool" where
  "same_upload uid N P u v \<longleftrightarrow>
    mget (uploadSessions v) uid = mget (uploadSessions u) uid \<and> length (us_heap u) \<le> length (us_heap v) \<and>
    (\<forall>b < length (us_heap u). us_uploadID (us_heap u ! b) = uid \<longrightarrow> us_heap v ! b = us_heap u ! b) \<and>
    (\<forall>p \<in> N. mget (names (us_disk v)) p = mget (names (us_disk u)) p) \<and>
    (\<forall>i \<in> P. inodes (us_disk v) ! i = inodes (us_disk u) ! i)"

lemma guarded_table: "guarded uid N P u \<Longrightarrow> mget (uploadSessions u) k = Some b \<Longrightarrow> b < length (us_heap u) \<and> us_uploadID (us_heap u ! b) = k"
  by (simp add: guarded_def)

lemma guarded_session:
  "guarded uid N P u \<Longrightarrow> b < length (us_heap u) \<Longrightarrow> us_uploadID (us_heap u ! b) \<noteq> uid \<Longrightarrow> comps (tmpPath (us_heap u ! b)) \<notin> N"
  "guarded uid N P u \<Longrightarrow> b < length (us_heap u) \<Longrightarrow> us_uploadID (us_heap u ! b) \<noteq> uid \<Longrightarrow> us_file (us_heap u ! b) = Some j \<Longrightarrow>
    j < length (inodes (us_disk u)) \<and> j \<notin> P"
  unfolding guarded_def by blast+

lemma same_refl [simp]: "same_upload uid N P u u"
  by (simp add: same_upload_def)

lemma same_trans: "same_upload uid N P u v \<Longrightarrow> same_upload uid N P v w \<Longrightarrow> same_upload uid N P u w"
  by (auto simp: same_upload_def)

definition other :: "string \<Rightarrow> nat \<Rightarrow> uploads \<Rightarrow> bool" where
  "other uid b u \<longleftrightarrow> b < length (us_heap u) \<and> us_uploadID (us_heap u ! b) \<noteq> uid"

text \<open>One step of another upload: it keeps the guard, the protected things, and what is other.\<close>

definition keeps :: "string \<Rightarrow> string list set \<Rightarrow> nat set \<Rightarrow> uploads \<Rightarrow> uploads \<Rightarrow> bool" where
  "keeps uid N P u v \<longleftrightarrow> guarded uid N P v \<and> same_upload uid N P u v \<and> (\<forall>b. other uid b u \<longrightarrow> other uid b v)"

lemma keeps_trans: "keeps uid N P u v \<Longrightarrow> keeps uid N P v w \<Longrightarrow> keeps uid N P u w"
  by (auto simp: keeps_def intro: same_trans)

lemma keeps_refl: "guarded uid N P u \<Longrightarrow> keeps uid N P u u"
  by (simp add: keeps_def)

lemma keeps_heap:
  assumes "guarded uid N P u" "other uid b u"
    "us_uploadID (f (us_heap u ! b)) = us_uploadID (us_heap u ! b)" "tmpPath (f (us_heap u ! b)) = tmpPath (us_heap u ! b)"
    "us_file (f (us_heap u ! b)) \<in> {None, us_file (us_heap u ! b)}"
  shows "keeps uid N P u (upd_upload b f u)"
proof -
  have h: "us_heap (upd_upload b f u) ! c = (if c = b then f (us_heap u ! b) else us_heap u ! c)" if "c < length (us_heap u)" for c
    using that by (simp add: upd_upload_def nth_list_update)
  have l: "length (us_heap (upd_upload b f u)) = length (us_heap u)" "us_disk (upd_upload b f u) = us_disk u" "uploadSessions (upd_upload b f u) = uploadSessions u"
    by (simp_all add: upd_upload_def)
  have "guarded uid N P (upd_upload b f u)"
    unfolding guarded_def l
  proof (intro conjI allI impI)
    show "c < length (us_heap u)" if "mget (uploadSessions u) k = Some c" for k c using assms(1) that unfolding guarded_def by blast
    then show "us_uploadID (us_heap (upd_upload b f u) ! c) = k" if "mget (uploadSessions u) k = Some c" for k c
      using assms(1,3) that h unfolding guarded_def by (metis (no_types))
    show "comps (tmpPath (us_heap (upd_upload b f u) ! c)) \<notin> N" if "c < length (us_heap u)" "us_uploadID (us_heap (upd_upload b f u) ! c) \<noteq> uid" for c
      using assms(1,3,4) that h unfolding guarded_def by metis
    show "j < length (inodes (us_disk u))" "j \<notin> P"
      if "c < length (us_heap u)" "us_uploadID (us_heap (upd_upload b f u) ! c) \<noteq> uid" "us_file (us_heap (upd_upload b f u) ! c) = Some j" for c j
    proof -
      have "us_file (us_heap u ! c) = Some j" "us_uploadID (us_heap u ! c) \<noteq> uid" using that assms(3,5) h[OF that(1)] by (auto split: if_splits)
      then show "j < length (inodes (us_disk u))" "j \<notin> P" using assms(1) that(1) unfolding guarded_def by blast+
    qed
  qed (use assms(1) in \<open>unfold guarded_def, blast+\<close>)
  moreover have "same_upload uid N P u (upd_upload b f u)"
    using assms(2) h unfolding same_upload_def l other_def by auto
  moreover have "other uid c u \<Longrightarrow> other uid c (upd_upload b f u)" for c using assms(3) h by (auto simp: other_def l)
  ultimately show ?thesis by (simp add: keeps_def)
qed

lemma keeps_table:
  assumes "guarded uid N P u" "k \<noteq> uid"
  shows "keeps uid N P u (u\<lparr> uploadSessions := mdel k (uploadSessions u) \<rparr>)"
  using assms unfolding keeps_def guarded_def same_upload_def other_def by simp

lemma keeps_drop: "guarded uid N P u \<Longrightarrow> other uid b u \<Longrightarrow> keeps uid N P u (dropUploadSession b u)"
  unfolding dropUploadSession_def Let_def by (auto simp: other_def intro: keeps_table keeps_refl)

lemma keeps_remove:
  assumes "guarded uid N P u" "other uid b u"
  shows "keeps uid N P u (on_disk (remove_name (tmpPath (us_heap u ! b))) u)"
proof -
  have "comps (tmpPath (us_heap u ! b)) \<notin> N" using assms unfolding guarded_def other_def by blast
  with assms(1) show ?thesis unfolding keeps_def guarded_def same_upload_def other_def on_disk_def remove_name_def by auto
qed

lemma keeps_write:
  assumes "guarded uid N P u" "j \<notin> P"
  shows "keeps uid N P u (on_disk (write_inode j off data) u)"
proof -
  have "(inodes (us_disk u))[j := x] ! i = inodes (us_disk u) ! i" if "i \<in> P" for i x using that assms(2) by (metis nth_list_update_neq)
  with assms(1) show ?thesis unfolding keeps_def guarded_def same_upload_def other_def on_disk_def write_inode_def by simp
qed


lemma keeps_rename:
  assumes "guarded uid N P u" "other uid b u" "comps dest \<notin> N" "rename (tmpPath (us_heap u ! b)) dest (us_disk u) = Some d"
  shows "keeps uid N P u (u\<lparr> us_disk := d \<rparr>)"
proof -
  let ?t = "comps (tmpPath (us_heap u ! b))"
  have t: "?t \<notin> N" using assms(1,2) unfolding guarded_def other_def by blast
  obtain i where i: "mget (names (us_disk u)) ?t = Some i" "d = (us_disk u)\<lparr> names := mput (comps dest) i (mdel ?t (names (us_disk u))) \<rparr>"
    using assms(4) by (auto simp: rename_def)
  then have "i \<notin> P" "i < length (inodes (us_disk u))" using assms(1) t unfolding guarded_def by blast+
  with assms(1,3) i t show ?thesis unfolding keeps_def guarded_def same_upload_def other_def by (auto split: if_splits)
qed

lemma other_keeps: "keeps uid N P u v \<Longrightarrow> other uid b u \<Longrightarrow> other uid b v"
  by (simp add: keeps_def)

lemma guarded_keeps: "keeps uid N P u v \<Longrightarrow> guarded uid N P v"
  by (simp add: keeps_def)

lemma keeps_abort:
  assumes "guarded uid N P u" "other uid b u"
  shows "keeps uid N P u (abortUpload b u)"
proof -
  let ?u1 = "upd_upload b (\<lambda>s. s\<lparr> us_file := None \<rparr>) u"
  have 1: "keeps uid N P u ?u1" using assms by (intro keeps_heap) simp_all
  have t: "tmpPath (us_heap ?u1 ! b) = tmpPath (us_heap u ! b)" using assms(2) by (simp add: upd_upload_def other_def)
  let ?u2 = "on_disk (remove_name (tmpPath (us_heap u ! b))) ?u1"
  have 2: "keeps uid N P ?u1 ?u2" using keeps_remove[OF guarded_keeps[OF 1] other_keeps[OF 1 assms(2)]] unfolding t .
  have 3: "keeps uid N P ?u2 (dropUploadSession b ?u2)"
    by (rule keeps_drop[OF guarded_keeps[OF 2] other_keeps[OF 2 other_keeps[OF 1 assms(2)]]])
  show ?thesis unfolding abortUpload_def by (rule keeps_trans[OF keeps_trans[OF 1 2] 3])
qed

lemma keeps_finish:
  assumes "guarded uid N P u" "other uid b u" "comps (trim_space (fu_path req)) \<notin> N"
  shows "keeps uid N P u (snd (upload_finish f req b u))"
proof -
  have d: "keeps uid N P u (dropUploadSession b (on_disk (remove_name (tmpPath (us_heap u ! b))) u))"
    using keeps_remove[OF assms(1,2)] keeps_drop by (metis keeps_trans guarded_keeps other_keeps assms(2))
  have r: "keeps uid N P u (dropUploadSession b (u\<lparr> us_disk := d \<rparr>))" if "rename (tmpPath (us_heap u ! b)) (trim_space (fu_path req)) (us_disk u) = Some d" for d
    using keeps_rename[OF assms that] keeps_drop by (metis keeps_trans guarded_keeps other_keeps assms(2))
  show ?thesis unfolding upload_finish_def Let_def using d r by (auto split: option.splits if_splits)
qed

lemma keeps_chunk:
  assumes "guarded uid N P u" "other uid b u" "comps (trim_space (fu_path req)) \<notin> N"
  shows "keeps uid N P u (snd (upload_chunk f req b u))"
proof (cases "us_file (us_heap u ! b)")
  case (Some i)
  let ?s = "us_heap u ! b"
  let ?w = "us_written ?s + of_nat (length (fu_data req))"
  let ?u1 = "on_disk (write_chunk i (unat (us_written ?s)) (fu_data req)) u"
  let ?u2 = "upd_upload b (\<lambda>s. s\<lparr> us_written := ?w \<rparr>) ?u1"
  let ?u3 = "upd_upload b (\<lambda>s. s\<lparr> us_file := None \<rparr>) ?u2"
  note ab = keeps_abort[OF assms(1,2)]
  have "i \<notin> P" using assms(1,2) Some unfolding guarded_def other_def by blast
  then have 1: "keeps uid N P u ?u1" using keeps_write[OF assms(1)] keeps_refl[OF assms(1)] by (cases "fu_data req = []") (simp_all add: on_disk_def write_chunk_def)
  note g1 = guarded_keeps[OF 1] and o1 = other_keeps[OF 1 assms(2)]
  have 2: "keeps uid N P u ?u2" by (rule keeps_trans[OF 1]) (rule keeps_heap[OF g1 o1]; simp)
  note g2 = guarded_keeps[OF 2] and o2 = other_keeps[OF 2 assms(2)]
  have a2: "keeps uid N P u (abortUpload b ?u2)" by (rule keeps_trans[OF 2 keeps_abort[OF g2 o2]])
  have 3: "keeps uid N P u ?u3" by (rule keeps_trans[OF 2]) (rule keeps_heap[OF g2 o2]; simp)
  have "keeps uid N P u (snd (upload_finish f req b ?u3))"
    by (rule keeps_trans[OF 3 keeps_finish[OF guarded_keeps[OF 3] other_keeps[OF 3 assms(2)] assms(3)]])
  with ab a2 2 Some show ?thesis unfolding upload_chunk_def Let_def by (auto simp: split_beta split: option.splits if_splits)
qed (simp add: upload_chunk_def keeps_refl assms(1))

definition apart :: "string \<Rightarrow> string list set \<Rightarrow> NodeFileUploadRequest \<Rightarrow> bool" where
  "apart uid N req \<longleftrightarrow> (let i = trim_space (fu_upload_id req); dest = trim_space (fu_path req) in
     i \<noteq> uid \<and> comps dest \<notin> N \<and> comps (tmp_name dest i) \<notin> N)"

lemma open_trunc_guarded:
  assumes g: "\<forall>p i. mget (names d0) p = Some i \<longrightarrow> i < length (inodes d0) \<and> (i \<in> P \<longrightarrow> p \<in> N)" "\<forall>i \<in> P. i < length (inodes d0)"
    and t: "comps p \<notin> N" and o: "open_trunc p d0 = (j, d)"
  shows "j \<notin> P" "j < length (inodes d)" "length (inodes d0) \<le> length (inodes d)"
    "mget (names d) q = Some i \<Longrightarrow> i < length (inodes d) \<and> (i \<in> P \<longrightarrow> q \<in> N)"
    "q \<in> N \<Longrightarrow> mget (names d) q = mget (names d0) q" "i \<in> P \<Longrightarrow> inodes d ! i = inodes d0 ! i"
proof -
  consider (old) "mget (names d0) (comps p) = Some j" "d = d0\<lparr> inodes := (inodes d0)[j := []] \<rparr>"
    | (new) "j = length (inodes d0)" "d = \<lparr> names = mput (comps p) j (names d0), inodes = inodes d0 @ [[]] \<rparr>"
    using o by (auto simp: open_trunc_def split: option.splits)
  note c = this
  show j: "j \<notin> P" using c g t by cases auto
  show "j < length (inodes d)" using c g by cases auto
  show "length (inodes d0) \<le> length (inodes d)" using c by cases auto
  show "mget (names d) q = Some i \<Longrightarrow> i < length (inodes d) \<and> (i \<in> P \<longrightarrow> q \<in> N)"
    using c j g(1) by cases (auto split: if_splits simp: less_SucI)
  show "q \<in> N \<Longrightarrow> mget (names d) q = mget (names d0) q" using c t by cases auto
  show "i \<in> P \<Longrightarrow> inodes d ! i = inodes d0 ! i"
    using c j g(2) by cases (simp_all add: nth_append, metis nth_list_update_neq)
qed

lemma keeps_open:
  assumes "guarded uid N P u" "apart uid N req" "upload_open f req u = (r, v)"
  shows "keeps uid N P u v" "r = Inr b \<Longrightarrow> other uid b v"
proof -
  let ?i = "trim_space (fu_upload_id req)"
  let ?t = "tmp_name (trim_space (fu_path req)) ?i"
  have ap: "?i \<noteq> uid" "comps ?t \<notin> N" using assms(2) by (simp_all add: apart_def Let_def)
  have "keeps uid N P u v \<and> (r = Inr b \<longrightarrow> other uid b v)"
  proof (cases "mget (uploadSessions u) ?i")
    case (Some a)
    have "v = u \<and> r = Inr a" using assms(3) by (simp add: upload_open_def Let_def Some)
    moreover have "other uid a u" using guarded_table[OF assms(1) Some] ap(1) by (simp add: other_def)
    ultimately show ?thesis using keeps_refl[OF assms(1)] by (metis sum.inject(2))
  next
    case None
    show ?thesis
    proof (cases "f_open f")
      case True
      then show ?thesis using assms(3) None keeps_refl[OF assms(1)] by (auto simp: upload_open_def Let_def)
    next
      case False
      obtain j d where o: "open_trunc ?t (us_disk u) = (j, d)" by (meson surj_pair)
      let ?s = "\<lparr> tmpPath = ?t, us_file = Some j, us_written = 0, us_uploadID = ?i \<rparr>"
      have v: "v = u\<lparr> us_disk := d, uploadSessions := mput ?i (length (us_heap u)) (uploadSessions u), us_heap := us_heap u @ [?s] \<rparr>" "r = Inr (length (us_heap u))"
        using assms(3) None False o by (simp_all add: upload_open_def Let_def)
      have g: "\<forall>p i. mget (names (us_disk u)) p = Some i \<longrightarrow> i < length (inodes (us_disk u)) \<and> (i \<in> P \<longrightarrow> p \<in> N)" "\<forall>i \<in> P. i < length (inodes (us_disk u))"
        using assms(1) unfolding guarded_def by blast+
      note d = open_trunc_guarded[OF g ap(2) o]
      have h: "us_heap v ! c = (if c < length (us_heap u) then us_heap u ! c else ?s)" if "c < length (us_heap v)" for c
        using that by (auto simp: v nth_append less_Suc_eq)
      have "guarded uid N P v" unfolding guarded_def
      proof (intro conjI allI impI)
        show "c < length (us_heap v)" "us_uploadID (us_heap v ! c) = k" if "mget (uploadSessions v) k = Some c" for k c
          using that guarded_table[OF assms(1), of k c] by (auto simp: v(1) nth_append split: if_splits)
        show "comps (tmpPath (us_heap v ! c)) \<notin> N" if "c < length (us_heap v)" "us_uploadID (us_heap v ! c) \<noteq> uid" for c
          using that ap(2) h[OF that(1)] guarded_session(1)[OF assms(1), of c] by (simp split: if_splits)
        show "k < length (inodes (us_disk v))" "k \<notin> P" if "c < length (us_heap v)" "us_uploadID (us_heap v ! c) \<noteq> uid" "us_file (us_heap v ! c) = Some k" for c k
          using that d(1-3) h[OF that(1)] guarded_session(2)[OF assms(1), of c k] by (auto simp: v(1) split: if_splits)
      qed (use d g(2) in \<open>auto simp: v intro: less_le_trans\<close>)
      moreover have "same_upload uid N P u v" using d(5,6) ap(1) by (auto simp: same_upload_def v nth_append)
      moreover have "other uid c u \<Longrightarrow> other uid c v" for c by (auto simp: other_def v nth_append)
      moreover have "other uid (length (us_heap u)) v" using ap(1) by (simp add: other_def v)
      ultimately show ?thesis by (auto simp: keeps_def v(2))
    qed
  qed
  then show "keeps uid N P u v" "r = Inr b \<Longrightarrow> other uid b v" by blast+
qed

lemma keeps_request:
  assumes "guarded uid N P u" "apart uid N req"
  shows "keeps uid N P u (snd (RunFileUpload f req u))"
proof -
  obtain r v where o: "upload_open f req u = (r, v)" by (meson surj_pair)
  note k = keeps_open[OF assms o]
  have p: "comps (trim_space (fu_path req)) \<notin> N" using assms(2) by (simp add: apart_def Let_def)
  have "keeps uid N P u (snd (upload_chunk f req b v))" if "r = Inr b" for b
    by (rule keeps_trans[OF k(1) keeps_chunk[OF guarded_keeps[OF k(1)] k(2)[OF that] p]])
  then show ?thesis using k(1) keeps_refl[OF assms(1)] o
    by (auto simp: RunFileUpload_def split_beta split: option.splits sum.splits prod.splits)
qed


section \<open>Requests of the upload itself\<close>

lemma split_char_suffix: "slash \<notin> set s \<Longrightarrow> split_char slash (p @ s) = butlast (split_char slash p) @ [last (split_char slash p) @ s]"
proof (induction p)
  case Nil
  have "split_char slash s = [s]" using Nil by (induction s) auto
  then show ?case by simp
next
  case (Cons c p)
  then show ?case by (cases "split_char slash p") auto
qed

lemma sanitizeUploadID_no_slash: "slash \<notin> set (sanitizeUploadID i)"
proof -
  have f: "upload_rune r \<noteq> slash" for r
    by (auto simp: upload_rune_def upload_char_def byte_in_def slash_def split: list.split)
  then have "slash \<notin> set (map upload_rune (runes i))" by (metis imageE list.set_map)
  then show ?thesis unfolding sanitizeUploadID_def Let_def by (auto simp: slash_def)
qed

lemma norm_comps_snoc: "norm_comps True [] (b @ [l]) = push_comp (norm_comps True [] b) l"
  by (simp add: norm_comps_append push_comp_def)

lemma norm_comps_segs:
  "\<forall>c \<in> set st. c \<noteq> [] \<and> slash \<notin> set c \<Longrightarrow> \<forall>c \<in> set cs. slash \<notin> set c \<Longrightarrow> \<forall>c \<in> set (norm_comps r st cs). c \<noteq> [] \<and> slash \<notin> set c"
proof (induction cs arbitrary: st)
  case (Cons c cs)
  let ?ok = "\<lambda>st. \<forall>c \<in> set st. c \<noteq> [] \<and> slash \<notin> set c"
  have cs: "\<forall>c \<in> set cs. slash \<notin> set c" "slash \<notin> set c" using Cons.prems(2) by simp_all
  have b: "?ok (butlast st)" using Cons.prems(1) by (auto dest: in_set_butlastD)
  have d: "?ok (st @ [''..''])" using Cons.prems(1) by (simp add: slash_def)
  have s: "?ok (st @ [c])" if "c \<noteq> []" using Cons.prems(1) cs(2) that by simp
  note IH = Cons.IH[OF Cons.prems(1) cs(1)] Cons.IH[OF b cs(1)] Cons.IH[OF d cs(1)]
  show ?case
  proof (cases "c = []")
    case False
    with IH Cons.IH[OF s[OF False] cs(1)] show ?thesis by (simp split: if_split)
  qed (use IH(1) in simp)
qed simp

lemma is_abs_of_clean:
  assumes "is_abs (clean p)"
  shows "is_abs p"
proof (rule ccontr)
  assume n: "\<not> is_abs p"
  have c: "\<forall>c \<in> set (comps p). c \<noteq> [] \<and> slash \<notin> set c"
    unfolding comps_def by (rule norm_comps_segs) (simp_all add: split_char_no_slash)
  have "\<not> is_abs (render False (comps p))"
  proof (cases "comps p")
    case (Cons x xs)
    then obtain y ys where "x = y # ys" "y \<noteq> slash" using c by (cases x) auto
    with Cons show ?thesis by (cases xs) (simp_all add: render_def)
  qed (simp add: render_def slash_def)
  with assms n show False by (simp add: clean_def)
qed

text \<open>The temporary file is never the destination.\<close>

lemma tmp_not_dest:
  assumes "is_abs dest"
  shows "comps (tmp_name dest i) \<noteq> comps dest"
proof -
  let ?s = "''.upload-'' @ sanitizeUploadID i @ ''.tmp''"
  let ?b = "butlast (split_char slash dest)" and ?l = "last (split_char slash dest)"
  have s: "slash \<notin> set ?s" using sanitizeUploadID_no_slash[of i] by (auto simp: slash_def)
  have ab: "is_abs (dest @ ?s)" using assms by (cases dest) simp_all
  have "slash \<notin> set ?l" using split_char_no_slash[of dest] by (meson last_in_set split_char_ne)
  with s have pl: "plain_seg (?l @ ?s)" by (auto simp: plain_seg_def append_eq_Cons_conv)
  have "comps (dest @ ?s) = norm_comps True [] (?b @ [?l @ ?s])" using split_char_suffix[OF s, of dest] ab by (simp add: comps_def)
  also have "\<dots> = norm_comps True [] ?b @ [?l @ ?s]" using pl by (simp add: norm_comps_append norm_comps_plain)
  finally have c: "comps (dest @ ?s) = norm_comps True [] ?b @ [?l @ ?s]" .
  have "comps dest = norm_comps True [] (?b @ [?l])" using assms by (simp add: comps_def)
  also have "\<dots> = push_comp (norm_comps True [] ?b) ?l" by (rule norm_comps_snoc)
  finally have "length (comps dest) = length (comps (dest @ ?s)) \<Longrightarrow> comps dest = norm_comps True [] ?b @ [?l]"
    using c by (auto simp: push_comp_def split: if_splits)
  with c show ?thesis unfolding tmp_name_def by fastforce
qed

definition holding :: "string \<Rightarrow> string \<Rightarrow> nat \<Rightarrow> string \<Rightarrow> nat \<Rightarrow> uploads \<Rightarrow> bool" where
  "holding uid tmp i acc a u \<longleftrightarrow>
     mget (uploadSessions u) uid = Some a \<and> a < length (us_heap u) \<and>
     us_heap u ! a = \<lparr> tmpPath = tmp, us_file = Some i, us_written = of_nat (length acc), us_uploadID = uid \<rparr> \<and>
     mget (names (us_disk u)) (comps tmp) = Some i \<and> i < length (inodes (us_disk u)) \<and> inodes (us_disk u) ! i = acc"

lemma write_at_end: "write_at (length acc) data acc = acc @ data"
  by (simp add: write_at_def)

lemma guarded_own:
  assumes "guarded uid N P u" "a < length (us_heap u)" "us_uploadID (us_heap u ! a) = uid" "us_uploadID (f (us_heap u ! a)) = uid"
  shows "guarded uid N P (upd_upload a f u)"
proof -
  have h: "us_heap (upd_upload a f u) ! c = (if c = a then f (us_heap u ! a) else us_heap u ! c)" if "c < length (us_heap u)" for c
    using that by (simp add: upd_upload_def nth_list_update)
  have l: "length (us_heap (upd_upload a f u)) = length (us_heap u)" "us_disk (upd_upload a f u) = us_disk u" "uploadSessions (upd_upload a f u) = uploadSessions u"
    by (simp_all add: upd_upload_def)
  show ?thesis unfolding guarded_def l
  proof (intro conjI allI impI)
    show "c < length (us_heap u)" "us_uploadID (us_heap (upd_upload a f u) ! c) = k" if "mget (uploadSessions u) k = Some c" for k c
      using guarded_table[OF assms(1) that] h assms(3,4) by (auto split: if_splits)
    show "comps (tmpPath (us_heap (upd_upload a f u) ! c)) \<notin> N" if "c < length (us_heap u)" "us_uploadID (us_heap (upd_upload a f u) ! c) \<noteq> uid" for c
      using that h[OF that(1)] assms(4) guarded_session(1)[OF assms(1), of c] by (auto split: if_splits)
    show "j < length (inodes (us_disk u))" "j \<notin> P"
      if "c < length (us_heap u)" "us_uploadID (us_heap (upd_upload a f u) ! c) \<noteq> uid" "us_file (us_heap (upd_upload a f u) ! c) = Some j" for c j
      using that h[OF that(1)] assms(4) guarded_session(2)[OF assms(1), of c j] by (auto split: if_splits)
  qed (use assms(1) in \<open>unfold guarded_def, blast+\<close>)
qed

lemma guarded_inode: "guarded uid N P u \<Longrightarrow> guarded uid N P (on_disk (\<lambda>d. d\<lparr> inodes := (inodes d)[i := x] \<rparr>) u)"
  by (simp add: guarded_def on_disk_def)

text \<open>A chunk that is not the last.\<close>

lemma own_more:
  assumes H: "holding uid tmp i acc a u" and G: "guarded uid N P u"
    and r: "fu_offset req = of_nat (length acc)" "\<not> fu_final req" "length acc < 2 ^ 64"
    and c: "upload_chunk no_faults req a u = (ew, v)"
  shows "ew = (None, of_nat (length (acc @ fu_data req)))" "holding uid tmp i (acc @ fu_data req) a v" "guarded uid N P v"
    "names (us_disk v) = names (us_disk u)"
proof -
  let ?w = "of_nat (length (acc @ fu_data req)) :: 64 word"
  let ?d = "write_chunk i (length acc) (fu_data req)"
  have s: "us_heap u ! a = \<lparr> tmpPath = tmp, us_file = Some i, us_written = of_nat (length acc), us_uploadID = uid \<rparr>" "a < length (us_heap u)"
    using H by (simp_all add: holding_def)
  have un: "unat (of_nat (length acc) :: 64 word) = length acc" using r(3) by (simp add: unat_of_nat take_bit_nat_eq_self)
  have e: "ew = (None, ?w) \<and> v = upd_upload a (\<lambda>s. s\<lparr> us_written := ?w \<rparr>) (on_disk ?d u)"
    using c r(1,2) s un by (auto simp: upload_chunk_def Let_def)
  then show "ew = (None, ?w)" ..
  have od: "on_disk ?d u = on_disk (\<lambda>d. d\<lparr> inodes := (inodes d)[i := acc @ fu_data req] \<rparr>) u"
    using H by (cases u; cases "us_disk u") (auto simp: on_disk_def write_chunk_def write_inode_def write_at_end holding_def)
  show "holding uid tmp i (acc @ fu_data req) a v" using H s unfolding conjunct2[OF e] od by (auto simp: holding_def upd_upload_def on_disk_def)
  show "guarded uid N P v" unfolding conjunct2[OF e] od
    by (rule guarded_own[OF guarded_inode[OF G]]) (use s in \<open>simp_all add: on_disk_def\<close>)
  show "names (us_disk v) = names (us_disk u)" unfolding conjunct2[OF e] od by (simp add: upd_upload_def on_disk_def)
qed


text \<open>The last chunk.\<close>

definition checksum_ok :: "NodeFileUploadRequest \<Rightarrow> string \<Rightarrow> bool" where
  "checksum_ok req content \<longleftrightarrow>
    fu_sha256 req = [] \<or> equal_fold (hex_encode (sha256 (bytes_of_string content))) (fu_sha256 req)"

lemma own_last:
  assumes H: "holding uid tmp i acc a u" and G: "guarded uid N {i} u" and N: "N = {comps tmp, comps dest}" and TD: "comps tmp \<noteq> comps dest"
    and r: "fu_offset req = of_nat (length acc)" "fu_final req" "length acc < 2 ^ 64" "fu_total_size req = of_nat (length (acc @ fu_data req))"
      "dest = trim_space (fu_path req)" "fu_overwrite req \<or> mget (names (us_disk u)) (comps dest) = None" "checksum_ok req (acc @ fu_data req)"
    and c: "upload_chunk no_faults req a u = (ew, v)"
  shows "ew = (None, of_nat (length (acc @ fu_data req)))" "mget (uploadSessions v) uid = None"
    "mget (names (us_disk v)) (comps tmp) = None" "mget (names (us_disk v)) (comps dest) = Some i" "inodes (us_disk v) ! i = acc @ fu_data req"
    "guarded uid N {i} v"
proof -
  let ?new = "acc @ fu_data req"
  let ?w = "of_nat (length acc) + of_nat (length (fu_data req)) :: 64 word"
  let ?u1 = "on_disk (\<lambda>d. d\<lparr> inodes := (inodes d)[i := ?new] \<rparr>) u"
  let ?u2 = "upd_upload a (\<lambda>s. s\<lparr> us_written := ?w \<rparr>) ?u1"
  let ?u3 = "upd_upload a (\<lambda>s. s\<lparr> us_file := None \<rparr>) ?u2"
  have s: "us_heap u ! a = \<lparr> tmpPath = tmp, us_file = Some i, us_written = of_nat (length acc), us_uploadID = uid \<rparr>" "a < length (us_heap u)"
      "mget (names (us_disk u)) (comps tmp) = Some i" "i < length (inodes (us_disk u))" "mget (uploadSessions u) uid = Some a"
    using H by (simp_all add: holding_def)
  have un: "unat (of_nat (length acc) :: 64 word) = length acc" using r(3) by (simp add: unat_of_nat take_bit_nat_eq_self)
  have od: "on_disk (write_chunk i (length acc) (fu_data req)) u = ?u1"
    using H by (cases u; cases "us_disk u") (auto simp: on_disk_def write_chunk_def write_inode_def write_at_end holding_def)
  have ck: "verifyUploadChecksum no_faults tmp (fu_sha256 req) (us_disk ?u2) = None" if "fu_sha256 req \<noteq> []"
    using that r(7) s by (auto simp: checksum_ok_def verifyUploadChecksum_def upd_upload_def on_disk_def)
  have h3: "us_heap ?u3 ! a = \<lparr> tmpPath = tmp, us_file = None, us_written = ?w, us_uploadID = uid \<rparr>" using s by (simp add: upd_upload_def on_disk_def)
  let ?d = "(us_disk ?u3)\<lparr> names := mput (comps dest) i (mdel (comps tmp) (names (us_disk u))) \<rparr>"
  have rn: "rename tmp dest (us_disk ?u3) = Some ?d" using s by (simp add: rename_def upd_upload_def on_disk_def)
  have fi: "upload_finish no_faults req a ?u3 = (None, dropUploadSession a (?u3\<lparr> us_disk := ?d \<rparr>))"
    using r(5,6) rn h3 by (auto simp: upload_finish_def Let_def upd_upload_def on_disk_def)
  have dr: "dropUploadSession a (?u3\<lparr> us_disk := ?d \<rparr>) = ?u3\<lparr> us_disk := ?d, uploadSessions := mdel uid (uploadSessions u) \<rparr>"
    using h3 s by (simp add: dropUploadSession_def Let_def upd_upload_def on_disk_def)
  have "upload_chunk no_faults req a u = ((None, ?w), dropUploadSession a (?u3\<lparr> us_disk := ?d \<rparr>))"
    using r(1,2,4) s un ck fi od by (simp add: upload_chunk_def Let_def)
  then have e: "ew = (None, ?w)" "v = ?u3\<lparr> us_disk := ?d, uploadSessions := mdel uid (uploadSessions u) \<rparr>" using c dr by simp_all
  show "ew = (None, of_nat (length ?new))" by (simp add: e(1))
  show "mget (uploadSessions v) uid = None" "mget (names (us_disk v)) (comps tmp) = None" "mget (names (us_disk v)) (comps dest) = Some i" "inodes (us_disk v) ! i = ?new"
    using TD s by (simp_all add: e(2) upd_upload_def on_disk_def)
  have G3: "guarded uid N {i} ?u3"
    by (intro guarded_own guarded_inode G) (use s in \<open>simp_all add: upd_upload_def on_disk_def\<close>)
  then show "guarded uid N {i} v" using s(4) by (auto simp: e(2) guarded_def N upd_upload_def on_disk_def split: if_splits)
qed

text \<open>The first chunk makes the temporary file.\<close>

lemma own_open:
  assumes G: "guarded uid N {} u" and N: "comps (tmp_name dest uid) \<in> N" and r: "trim_space (fu_upload_id req) = uid" "trim_space (fu_path req) = dest"
    and n: "mget (uploadSessions u) uid = None" "mget (names (us_disk u)) (comps (tmp_name dest uid)) = None"
  shows "\<exists>a i v. upload_open no_faults req u = (Inr a, v) \<and> holding uid (tmp_name dest uid) i [] a v \<and> guarded uid N {i} v \<and>
    (\<forall>p. p \<noteq> comps (tmp_name dest uid) \<longrightarrow> mget (names (us_disk v)) p = mget (names (us_disk u)) p)"
proof -
  let ?t = "tmp_name dest uid" and ?i = "length (inodes (us_disk u))" and ?a = "length (us_heap u)"
  let ?d = "\<lparr> names = mput (comps ?t) ?i (names (us_disk u)), inodes = inodes (us_disk u) @ [[]] \<rparr>"
  let ?s = "\<lparr> tmpPath = ?t, us_file = Some ?i, us_written = 0, us_uploadID = uid \<rparr>"
  let ?v = "u\<lparr> us_disk := ?d, uploadSessions := mput uid ?a (uploadSessions u), us_heap := us_heap u @ [?s] \<rparr>"
  have o: "upload_open no_faults req u = (Inr ?a, ?v)"
    using n r by (simp add: upload_open_def Let_def open_trunc_def)
  have "holding uid ?t ?i [] ?a ?v" by (simp add: holding_def)
  moreover have "guarded uid N {?i} ?v" unfolding guarded_def
  proof (intro conjI allI impI)
    show "c < length (us_heap ?v)" "us_uploadID (us_heap ?v ! c) = k" if "mget (uploadSessions ?v) k = Some c" for k c
      using that guarded_table[OF G, of k c] by (auto simp: nth_append split: if_splits)
    show "comps (tmpPath (us_heap ?v ! c)) \<notin> N" if "c < length (us_heap ?v)" "us_uploadID (us_heap ?v ! c) \<noteq> uid" for c
      using that guarded_session(1)[OF G, of c] by (auto simp: nth_append less_Suc_eq split: if_splits)
    show "j < length (inodes (us_disk ?v))" "j \<notin> {?i}" if "c < length (us_heap ?v)" "us_uploadID (us_heap ?v ! c) \<noteq> uid" "us_file (us_heap ?v ! c) = Some j" for c j
      using that guarded_session(2)[OF G, of c j] by (auto simp: nth_append less_Suc_eq split: if_splits)
    have old: "k < ?i" if "mget (names (us_disk u)) p = Some k" for p k using G that unfolding guarded_def by blast
    show "k < length (inodes (us_disk ?v))" "k \<in> {?i} \<Longrightarrow> p \<in> N" if "mget (names (us_disk ?v)) p = Some k" for p k
      using that old[of p k] N by (auto split: if_splits)
  qed simp
  ultimately show ?thesis using o by (intro exI[of _ ?a] exI[of _ ?i] exI[of _ ?v]) simp
qed


section \<open>Whole uploads\<close>

primrec run_requests :: "(faults \<times> NodeFileUploadRequest) list \<Rightarrow> uploads \<Rightarrow> NodeFileUploadResult list \<times> uploads" where
  "run_requests [] u = ([], u)"
| "run_requests (r # rs) u =
    (let (ack, u) = RunFileUpload (fst r) (snd r) u; (acks, u) = run_requests rs u in (ack # acks, u))"

text \<open>The requests that send the pieces \<open>ds\<close> from offset \<open>n\<close> on.\<close>

fun chunk_requests :: "NodeFileUploadRequest \<Rightarrow> nat \<Rightarrow> string list \<Rightarrow> NodeFileUploadRequest list" where
  "chunk_requests t n [] = []"
| "chunk_requests t n (d # ds) =
    t\<lparr> fu_offset := of_nat n, fu_data := d, fu_final := (ds = []) \<rparr> # chunk_requests t (n + length d) ds"

definition delivered :: "string \<Rightarrow> string \<Rightarrow> string \<Rightarrow> string \<Rightarrow> uploads \<Rightarrow> bool" where
  "delivered uid tmp dest content u \<longleftrightarrow> mget (uploadSessions u) uid = None \<and> mget (names (us_disk u)) (comps tmp) = None \<and>
     (\<exists>i. mget (names (us_disk u)) (comps dest) = Some i \<and> inodes (us_disk u) ! i = content)"

definition own_calls :: "nat list \<Rightarrow> NodeFileUploadRequest list \<Rightarrow> upload_event list" where
  "own_calls cs reqs = concat (map2 (\<lambda>c req. [UOpen c no_faults req, UBody c]) cs reqs)"

definition answered :: "nat \<Rightarrow> upload_calls \<Rightarrow> bool" where
  "answered c st \<longleftrightarrow> (case mget (uc_results st) c of None \<Rightarrow> False | Some r \<Rightarrow> fr_ok r)"

lemma own_request:
  assumes "upload_checks req = None" "upload_open no_faults req u = (Inr a, w)" "upload_chunk no_faults req a w = (ew, v)"
  shows "RunFileUpload no_faults req u = (upload_result req ew, v)"
  using assms by (simp add: RunFileUpload_def)

text \<open>What is fixed of the requests of one upload.\<close>

definition template_ok :: "NodeFileUploadRequest \<Rightarrow> string \<Rightarrow> bool" where
  "template_ok t content \<longleftrightarrow>
    trim_space (fu_upload_id t) \<noteq> [] \<and> validateUploadPath (trim_space (fu_path t)) \<and>
    length content \<le> unat maxUploadTotalBytes \<and> fu_total_size t = of_nat (length content) \<and> checksum_ok t content"

lemma template_checks:
  assumes "template_ok t content" "int (length d) \<le> maxUploadChunkBytes"
  shows "upload_checks (t\<lparr> fu_offset := n, fu_data := d, fu_final := f \<rparr>) = None"
proof -
  have "trim_space (fu_path t) \<noteq> []" using assms(1) by (auto simp: template_ok_def validateUploadPath_def)
  moreover have "(of_nat (length content) :: 64 word) \<le> maxUploadTotalBytes" if "length content \<le> unat maxUploadTotalBytes"
    using that by (simp add: word_le_nat_alt unat_of_nat take_bit_eq_mod)
  ultimately show ?thesis using assms by (auto simp: upload_checks_def Let_def template_ok_def not_less)
qed

subsection \<open>The calls of others\<close>

text \<open>The calls outside \<open>C\<close> that wait are past the first section of other uploads.\<close>

definition strangers :: "nat set \<Rightarrow> string \<Rightarrow> string list set \<Rightarrow> upload_calls \<Rightarrow> bool" where
  "strangers C uid N st \<longleftrightarrow> (\<forall>c f req b. c \<notin> C \<longrightarrow> mget (uc_waiting st) c = Some (f, req, b) \<longrightarrow>
     other uid b (uc_uploads st) \<and> comps (trim_space (fu_path req)) \<notin> N)"

definition keep_away :: "nat set \<Rightarrow> string \<Rightarrow> string list set \<Rightarrow> upload_event list \<Rightarrow> bool" where
  "keep_away C uid N es \<longleftrightarrow> (\<forall>c f req. UOpen c f req \<in> set es \<and> c \<notin> C \<longrightarrow> apart uid N req)"

definition same_calls :: "nat set \<Rightarrow> upload_calls \<Rightarrow> upload_calls \<Rightarrow> bool" where
  "same_calls C st st' \<longleftrightarrow> (\<forall>c \<in> C. mget (uc_waiting st') c = mget (uc_waiting st) c \<and> mget (uc_results st') c = mget (uc_results st) c)"

lemma keep_away_Cons: "keep_away C uid N (e # es) \<Longrightarrow> keep_away C uid N [e] \<and> keep_away C uid N es"
  by (auto simp: keep_away_def)

lemma keep_away_append: "keep_away C uid N (es @ fs) \<Longrightarrow> keep_away C uid N es \<and> keep_away C uid N fs"
  by (auto simp: keep_away_def)

lemma strangers_mono: "strangers C uid N st \<Longrightarrow> (\<And>b. other uid b (uc_uploads st) \<Longrightarrow> other uid b u) \<Longrightarrow> strangers C uid N (st\<lparr> uc_uploads := u \<rparr>)"
  by (auto simp: strangers_def)

lemma stranger_step:
  assumes g: "guarded uid N P (uc_uploads st)" and s: "strangers C uid N st" and k: "keep_away C uid N [e]" and c: "call_of e \<notin> C"
    and e: "upload_step st e = Some st'"
  shows "keeps uid N P (uc_uploads st) (uc_uploads st') \<and> strangers C uid N st' \<and> same_calls C st st'"
proof (cases e)
  case (UOpen n f req)
  have ap: "apart uid N req" using k c UOpen by (auto simp: keep_away_def)
  have sc: "same_calls C st st'" using e c UOpen by (auto simp: same_calls_def split: if_splits option.splits prod.splits sum.splits)
  show ?thesis
  proof (cases "upload_checks req")
    case None
    obtain r u where o: "upload_open f req (uc_uploads st) = (r, u)" by (meson surj_pair)
    note K = keeps_open[OF g ap o]
    have u: "uc_uploads st' = u" using e UOpen None o by (auto split: if_splits sum.splits)
    have "strangers C uid N (st\<lparr> uc_uploads := u \<rparr>)" by (rule strangers_mono[OF s other_keeps[OF K(1)]])
    then have "strangers C uid N st'"
      using e UOpen None o K(2) ap by (auto simp: strangers_def apart_def Let_def split: if_splits sum.splits)
    with K(1) sc u show ?thesis by simp
  next
    case (Some x)
    then have "st' = st\<lparr> uc_results := mput n (upload_result req (Some x, 0)) (uc_results st) \<rparr>" using e UOpen by (auto split: if_splits)
    then show ?thesis using s sc keeps_refl[OF g] by (auto simp: strangers_def)
  qed
next
  case (UBody n)
  obtain f req b where w: "mget (uc_waiting st) n = Some (f, req, b)" using e UBody by (auto split: option.splits)
  obtain ew u where o: "upload_chunk f req b (uc_uploads st) = (ew, u)" by (meson surj_pair)
  have b: "other uid b (uc_uploads st)" "comps (trim_space (fu_path req)) \<notin> N" using s w c UBody by (auto simp: strangers_def)
  have K: "keeps uid N P (uc_uploads st) u" using keeps_chunk[OF g b, of f] o by simp
  have st': "st' = \<lparr> uc_uploads = u, uc_waiting = mdel n (uc_waiting st), uc_results = mput n (upload_result req ew) (uc_results st) \<rparr>"
    using e UBody w o by simp
  have "strangers C uid N st'" using strangers_mono[OF s other_keeps[OF K]] by (auto simp: st' strangers_def split: if_splits)
  moreover have "same_calls C st st'" using c UBody by (auto simp: st' same_calls_def)
  ultimately show ?thesis using K by (simp add: st')
qed

lemma stranger_run:
  assumes "guarded uid N P (uc_uploads st)" "strangers C uid N st" "keep_away C uid N es" "\<forall>e \<in> set es. call_of e \<notin> C"
    "exec upload_step st es = Some st'"
  shows "keeps uid N P (uc_uploads st) (uc_uploads st') \<and> strangers C uid N st' \<and> same_calls C st st'"
  using assms
proof (induction es arbitrary: st)
  case Nil
  then show ?case by (simp add: keeps_refl same_calls_def)
next
  case (Cons e es)
  obtain st1 where st1: "upload_step st e = Some st1" "exec upload_step st1 es = Some st'" using Cons.prems(5) by (auto split: option.splits)
  have 1: "keeps uid N P (uc_uploads st) (uc_uploads st1)" "strangers C uid N st1" "same_calls C st st1"
    using stranger_step[OF Cons.prems(1,2) _ _ st1(1)] keep_away_Cons[OF Cons.prems(3)] Cons.prems(4) by auto
  from Cons.IH[OF guarded_keeps[OF 1(1)] 1(2) _ _ st1(2)] keep_away_Cons[OF Cons.prems(3)] Cons.prems(4)
  have "keeps uid N P (uc_uploads st1) (uc_uploads st')" "strangers C uid N st'" "same_calls C st1 st'" by auto
  with 1 show ?case by (auto simp: same_calls_def intro: keeps_trans)
qed

text \<open>Strangers up to the next event of the upload itself.\<close>

lemma split_own:
  assumes "exec upload_step st es = Some st'" "filter (\<lambda>e. call_of e \<in> C) es = x # xs" "keep_away C uid N es"
    "guarded uid N P (uc_uploads st)" "strangers C uid N st"
  obtains st1 st2 post where "keeps uid N P (uc_uploads st) (uc_uploads st1)" "strangers C uid N st1" "same_calls C st st1"
    "upload_step st1 x = Some st2" "exec upload_step st2 post = Some st'" "filter (\<lambda>e. call_of e \<in> C) post = xs" "keep_away C uid N post"
proof -
  obtain pre post where es: "es = pre @ x # post" "\<forall>e \<in> set pre. call_of e \<notin> C" "filter (\<lambda>e. call_of e \<in> C) post = xs"
    using assms(2) by (auto simp: filter_eq_Cons_iff)
  obtain st1 where st1: "exec upload_step st pre = Some st1" "exec upload_step st1 (x # post) = Some st'"
    using assms(1) by (auto simp: es(1) exec_append split: option.splits)
  obtain st2 where st2: "upload_step st1 x = Some st2" "exec upload_step st2 post = Some st'" using st1(2) by (auto split: option.splits)
  have k: "keep_away C uid N pre" "keep_away C uid N post"
    using keep_away_append[of C uid N pre "x # post"] keep_away_Cons[of C uid N x post] assms(3) es(1) by auto
  from stranger_run[OF assms(4,5) k(1) es(2) st1(1)] st2 es(3) k(2) show ?thesis using that by blast
qed

text \<open>What the events of the upload itself do to the calls of others.\<close>

lemma chunk_ids: "map us_uploadID (us_heap (snd (upload_chunk f req a u))) = map us_uploadID (us_heap u)"
proof -
  have u: "map us_uploadID (us_heap (upd_upload b g v)) = map us_uploadID (us_heap v)" if "\<And>s. us_uploadID (g s) = us_uploadID s" for b g v
    using that by (cases "b < length (us_heap v)") (simp_all add: upd_upload_def map_update list_update_same_conv list_update_beyond)
  have d: "us_heap (dropUploadSession b v) = us_heap v" "us_heap (on_disk g v) = us_heap v" for b g v
    by (simp_all add: dropUploadSession_def Let_def on_disk_def)
  have a: "map us_uploadID (us_heap (abortUpload b v)) = map us_uploadID (us_heap v)" for b v by (simp add: abortUpload_def d u)
  have "us_heap (snd (upload_finish f req b v)) = us_heap v" for b v by (simp add: upload_finish_def Let_def d split: option.split)
  then show ?thesis by (simp add: upload_chunk_def Let_def split_beta a d u split: option.split)
qed

lemma other_chunk: "other uid b u \<Longrightarrow> upload_chunk f req a u = (ew, v) \<Longrightarrow> other uid b v"
  using chunk_ids[of f req a u] unfolding other_def by (metis length_map nth_map snd_conv)

lemma other_open: "other uid b u \<Longrightarrow> upload_open f req u = (r, v) \<Longrightarrow> other uid b v"
  by (auto simp: other_def upload_open_def Let_def nth_append split: option.splits if_splits prod.splits)

lemma strangers_own:
  "strangers C uid N st \<Longrightarrow> (\<And>b. other uid b (uc_uploads st) \<Longrightarrow> other uid b (uc_uploads st')) \<Longrightarrow>
    (\<And>x. x \<notin> C \<Longrightarrow> mget (uc_waiting st') x = mget (uc_waiting st) x) \<Longrightarrow> strangers C uid N st'"
  by (auto simp: strangers_def)

subsection \<open>The calls of the upload\<close>

text \<open>From the body of a call that waits to the end of the upload.\<close>

lemma upload_rest:
  assumes "holding uid tmp i acc a (uc_uploads st)" "guarded uid N {i} (uc_uploads st)" "N = {comps tmp, comps dest}" "comps tmp \<noteq> comps dest"
    "uid = trim_space (fu_upload_id t)" "dest = trim_space (fu_path t)" "template_ok t (acc @ d @ concat ds)"
    "fu_overwrite t \<or> mget (names (us_disk (uc_uploads st))) (comps dest) = None"
    "\<forall>x \<in> set ds. int (length x) \<le> maxUploadChunkBytes" "strangers C uid N st"
    "mget (uc_waiting st) c = Some (no_faults, t\<lparr> fu_offset := of_nat (length acc), fu_data := d, fu_final := (ds = []) \<rparr>, a)"
    "distinct (c # cs)" "set (c # cs) \<subseteq> C" "length cs = length ds"
    "filter (\<lambda>e. call_of e \<in> C) es = UBody c # own_calls cs (chunk_requests t (length acc + length d) ds)"
    "keep_away C uid N es" "exec upload_step st es = Some st'"
  shows "delivered uid tmp dest (acc @ d @ concat ds) (uc_uploads st') \<and> (\<forall>x \<in> set (c # cs). answered x st') \<and>
    (\<forall>x \<in> C - set (c # cs). mget (uc_results st') x = mget (uc_results st) x)"
  using assms
proof (induction ds arbitrary: acc d c cs st es)
  case Nil
  let ?req = "t\<lparr> fu_offset := of_nat (length acc), fu_data := d, fu_final := True \<rparr>"
  obtain st1 st2 post where s: "keeps uid N {i} (uc_uploads st) (uc_uploads st1)" "strangers C uid N st1" "same_calls C st st1"
    "upload_step st1 (UBody c) = Some st2" "exec upload_step st2 post = Some st'" "filter (\<lambda>e. call_of e \<in> C) post = []" "keep_away C uid N post"
    by (rule split_own[OF Nil.prems(17,15,16,2,10)]) (use Nil.prems(14) in \<open>simp add: own_calls_def\<close>)
  have k: "guarded uid N {i} (uc_uploads st1)" "same_upload uid N {i} (uc_uploads st) (uc_uploads st1)" using s(1) by (simp_all add: keeps_def)
  have H: "holding uid tmp i acc a (uc_uploads st1)" using Nil.prems(1,3) k by (auto simp: holding_def same_upload_def guarded_def)
  have w: "mget (uc_waiting st1) c = Some (no_faults, ?req, a)" using s(3) Nil.prems(11,13) by (simp add: same_calls_def)
  obtain ew v where c: "upload_chunk no_faults ?req a (uc_uploads st1) = (ew, v)" by (meson surj_pair)
  have st2: "st2 = \<lparr> uc_uploads = v, uc_waiting = mdel c (uc_waiting st1), uc_results = mput c (upload_result ?req ew) (uc_results st1) \<rparr>"
    using s(4) w c by simp
  have len: "length acc < 2 ^ 64" using Nil.prems(7) by (simp add: template_ok_def maxUploadTotalBytes_def)
  have pre: "fu_offset ?req = of_nat (length acc)" "fu_final ?req" "fu_total_size ?req = of_nat (length (acc @ fu_data ?req))"
    "dest = trim_space (fu_path ?req)" "fu_overwrite ?req \<or> mget (names (us_disk (uc_uploads st1))) (comps dest) = None" "checksum_ok ?req (acc @ fu_data ?req)"
    using Nil.prems(3,6,7,8) k(2) by (auto simp: template_ok_def checksum_ok_def same_upload_def)
  note L = own_last[OF H k(1) Nil.prems(3,4) pre(1,2) len pre(3-6) c]
  have S: "strangers C uid N st2" by (rule strangers_own[OF s(2)]) (use other_chunk[OF _ c] Nil.prems(13) in \<open>auto simp: st2\<close>)
  have no: "\<forall>e \<in> set post. call_of e \<notin> C" using s(6) by (simp add: filter_empty_conv)
  have K: "keeps uid N {i} v (uc_uploads st')" "same_calls C st2 st'"
    using stranger_run[OF _ S s(7) no s(5)] L(6) by (simp_all add: st2)
  have "delivered uid tmp dest (acc @ d) (uc_uploads st')"
    using K(1) L(2-5) Nil.prems(3) by (auto simp: delivered_def keeps_def same_upload_def)
  moreover have "answered c st'" using K(2) Nil.prems(13) L(1) by (simp add: answered_def same_calls_def st2 upload_result_def)
  moreover have "\<forall>x \<in> C - {c}. mget (uc_results st') x = mget (uc_results st) x" using K(2) s(3) by (auto simp: same_calls_def st2)
  ultimately show ?case using Nil.prems(14) by simp
next
  case (Cons d' ds)
  let ?req = "t\<lparr> fu_offset := of_nat (length acc), fu_data := d, fu_final := False \<rparr>"
  let ?req' = "t\<lparr> fu_offset := of_nat (length (acc @ d)), fu_data := d', fu_final := (ds = []) \<rparr>"
  obtain c' cs' where cs: "cs = c' # cs'" "length cs' = length ds" using Cons.prems(14) by (cases cs) auto
  have fl: "filter (\<lambda>e. call_of e \<in> C) es = UBody c # UOpen c' no_faults ?req' # UBody c' # own_calls cs' (chunk_requests t (length (acc @ d) + length d') ds)"
    using Cons.prems(15) by (simp add: cs own_calls_def)
  obtain st1 st2 post where s: "keeps uid N {i} (uc_uploads st) (uc_uploads st1)" "strangers C uid N st1" "same_calls C st st1"
    "upload_step st1 (UBody c) = Some st2" "exec upload_step st2 post = Some st'"
    "filter (\<lambda>e. call_of e \<in> C) post = UOpen c' no_faults ?req' # UBody c' # own_calls cs' (chunk_requests t (length (acc @ d) + length d') ds)" "keep_away C uid N post"
    by (rule split_own[OF Cons.prems(17) fl Cons.prems(16,2,10)])
  have k: "guarded uid N {i} (uc_uploads st1)" "same_upload uid N {i} (uc_uploads st) (uc_uploads st1)" using s(1) by (simp_all add: keeps_def)
  have H: "holding uid tmp i acc a (uc_uploads st1)" using Cons.prems(1,3) k by (auto simp: holding_def same_upload_def guarded_def)
  have w: "mget (uc_waiting st1) c = Some (no_faults, ?req, a)" using s(3) Cons.prems(11,13) by (simp add: same_calls_def)
  obtain ew v where c: "upload_chunk no_faults ?req a (uc_uploads st1) = (ew, v)" by (meson surj_pair)
  have st2: "st2 = \<lparr> uc_uploads = v, uc_waiting = mdel c (uc_waiting st1), uc_results = mput c (upload_result ?req ew) (uc_results st1) \<rparr>"
    using s(4) w c by simp
  have len: "length acc < 2 ^ 64" using Cons.prems(7) by (simp add: template_ok_def maxUploadTotalBytes_def)
  have M: "ew = (None, of_nat (length (acc @ d)))" "holding uid tmp i (acc @ d) a v" "guarded uid N {i} v" "names (us_disk v) = names (us_disk (uc_uploads st1))"
    using own_more[OF H k(1) _ _ len c] by simp_all
  have S: "strangers C uid N st2" by (rule strangers_own[OF s(2)]) (use other_chunk[OF _ c] Cons.prems(13) in \<open>auto simp: st2\<close>)
  have G2: "guarded uid N {i} (uc_uploads st2)" using M(3) by (simp add: st2)
  obtain st3 st4 post2 where q: "keeps uid N {i} (uc_uploads st2) (uc_uploads st3)" "strangers C uid N st3" "same_calls C st2 st3"
    "upload_step st3 (UOpen c' no_faults ?req') = Some st4" "exec upload_step st4 post2 = Some st'"
    "filter (\<lambda>e. call_of e \<in> C) post2 = UBody c' # own_calls cs' (chunk_requests t (length (acc @ d) + length d') ds)" "keep_away C uid N post2"
    by (rule split_own[OF s(5,6,7) G2 S])
  have k3: "guarded uid N {i} (uc_uploads st3)" "same_upload uid N {i} v (uc_uploads st3)" using q(1) by (simp_all add: keeps_def st2)
  have H3: "holding uid tmp i (acc @ d) a (uc_uploads st3)" using M(2) Cons.prems(3) k3 by (auto simp: holding_def same_upload_def guarded_def)
  have ck: "upload_checks ?req' = None" using template_checks[OF Cons.prems(7)] Cons.prems(9) by simp
  have op: "upload_open no_faults ?req' (uc_uploads st3) = (Inr a, uc_uploads st3)"
    using H3 Cons.prems(5) by (simp add: upload_open_def Let_def holding_def)
  have st4: "st4 = st3\<lparr> uc_waiting := mput c' (no_faults, ?req', a) (uc_waiting st3) \<rparr>" using q(4) ck op by (simp split: if_splits)
  have ow: "fu_overwrite t \<or> mget (names (us_disk (uc_uploads st4))) (comps dest) = None"
    using Cons.prems(3,8) k(2) k3(2) M(4) by (auto simp: st4 same_upload_def)
  have S4: "strangers C uid N st4" by (rule strangers_own[OF q(2)]) (use Cons.prems(13) in \<open>auto simp: st4 cs\<close>)
  have "delivered uid tmp dest ((acc @ d) @ d' @ concat ds) (uc_uploads st') \<and> (\<forall>x \<in> set (c' # cs'). answered x st') \<and>
      (\<forall>x \<in> C - set (c' # cs'). mget (uc_results st') x = mget (uc_results st4) x)"
    by (rule Cons.IH[OF _ _ Cons.prems(3-6) _ ow _ S4 _ _ _ cs(2) q(6,7,5)]) (use H3 k3(1) Cons.prems(7,9,12,13) in \<open>simp_all add: st4 cs\<close>)
  moreover have "mget (uc_results st4) x = mget (uc_results st2) x" if "x \<in> C" for x using q(3) that by (simp add: same_calls_def st4)
  moreover have "mget (uc_results st2) c = Some (upload_result ?req ew)" by (simp add: st2)
  moreover have "mget (uc_results st2) x = mget (uc_results st) x" if "x \<in> C" "x \<noteq> c" for x using s(3) that by (simp add: same_calls_def st2)
  ultimately show ?case using Cons.prems(12,13) M(1) by (auto simp: cs answered_def upload_result_def)
qed

definition disk_ok :: "disk \<Rightarrow> bool" where
  "disk_ok d \<longleftrightarrow> list_all (\<lambda>(p, i). i < length (inodes d)) (names d)"

lemma disk_ok_get: "disk_ok d \<Longrightarrow> mget (names d) p = Some i \<Longrightarrow> i < length (inodes d)"
  by (auto simp: disk_ok_def list_all_iff dest: map_of_SomeD)

lemma guarded_no_uploads: "disk_ok d \<Longrightarrow> guarded uid N {} (no_uploads d)"
  by (auto simp: guarded_def no_uploads_def dest: disk_ok_get)

lemma open_again:
  assumes "upload_checks req = None" "upload_open no_faults req u = (Inr a, w)" "mget (uploadSessions w) (trim_space (fu_upload_id req)) = Some a"
  shows "RunFileUpload no_faults req w = RunFileUpload no_faults req u"
proof -
  have "upload_open no_faults req w = (Inr a, w)" using assms(3) by (simp add: upload_open_def Let_def)
  with assms(1,2) show ?thesis by (simp add: RunFileUpload_def)
qed

text \<open>
  \<^bold>\<open>C3\<close>. An upload in pieces of at most 1 MiB and 10 MiB in all, whose requests are sent one after the other
  under one id, arrives, in every interleaving of the two locked sections of its requests with those of other
  requests that name neither its destination nor its temporary file: each of its requests is answered with success,
  the destination holds the concatenation of the pieces, and neither the temporary file nor the upload is left.
  The other requests may fail in any way.  Ids are mapped to temporary names with loss, so an upload of
  another id to the same destination need not keep away.
\<close>

theorem upload_arrives:
  assumes "disk_ok d" "uid = trim_space (fu_upload_id t)" "dest = trim_space (fu_path t)" "template_ok t (concat ds)"
    "ds \<noteq> []" "\<forall>x \<in> set ds. int (length x) \<le> maxUploadChunkBytes"
    "mget (names d) (comps (tmp_name dest uid)) = None" "fu_overwrite t \<or> mget (names d) (comps dest) = None"
    "distinct cs" "length cs = length ds"
    "filter (\<lambda>e. call_of e \<in> set cs) es = own_calls cs (chunk_requests t 0 ds)"
    "\<forall>c f req. UOpen c f req \<in> set es \<and> c \<notin> set cs \<longrightarrow> apart uid {comps (tmp_name dest uid), comps dest} req"
    "exec upload_step (no_calls d) es = Some st"
  shows "delivered uid (tmp_name dest uid) dest (concat ds) (uc_uploads st) \<and> (\<forall>c \<in> set cs. answered c st)"
proof -
  let ?tmp = "tmp_name dest uid" and ?C = "set cs" let ?N = "{comps ?tmp, comps dest}"
  have "is_abs dest" using assms(3,4) by (simp add: is_abs_of_clean template_ok_def validateUploadPath_def Let_def)
  then have td: "comps ?tmp \<noteq> comps dest" by (rule tmp_not_dest)
  obtain x xs where ds: "ds = x # xs" using assms(5) by (cases ds) auto
  obtain c cs' where cs: "cs = c # cs'" "length cs' = length xs" using assms(10) ds by (cases cs) auto
  let ?req = "t\<lparr> fu_offset := of_nat (length ([] :: string)), fu_data := x, fu_final := (xs = []) \<rparr>"
  have fl: "filter (\<lambda>e. call_of e \<in> ?C) es = UOpen c no_faults ?req # UBody c # own_calls cs' (chunk_requests t (length ([] :: string) + length x) xs)"
    using assms(11) by (simp add: cs ds own_calls_def)
  have ka: "keep_away ?C uid ?N es" using assms(12) by (simp add: keep_away_def)
  have G: "guarded uid ?N {} (uc_uploads (no_calls d))" using guarded_no_uploads[OF assms(1)] by (simp add: no_calls_def)
  have S: "strangers ?C uid ?N (no_calls d)" by (simp add: strangers_def no_calls_def)
  obtain st1 st2 post where s: "keeps uid ?N {} (uc_uploads (no_calls d)) (uc_uploads st1)" "strangers ?C uid ?N st1" "same_calls ?C (no_calls d) st1"
    "upload_step st1 (UOpen c no_faults ?req) = Some st2" "exec upload_step st2 post = Some st"
    "filter (\<lambda>e. call_of e \<in> ?C) post = UBody c # own_calls cs' (chunk_requests t (length ([] :: string) + length x) xs)" "keep_away ?C uid ?N post"
    by (rule split_own[OF assms(13) fl ka G S])
  have k: "guarded uid ?N {} (uc_uploads st1)" "same_upload uid ?N {} (no_uploads d) (uc_uploads st1)" using s(1) by (simp_all add: keeps_def no_calls_def)
  have n: "mget (uploadSessions (uc_uploads st1)) uid = None" "mget (names (us_disk (uc_uploads st1))) (comps ?tmp) = None"
    "mget (names (us_disk (uc_uploads st1))) (comps dest) = mget (names d) (comps dest)"
    using k(2) assms(7) by (simp_all add: same_upload_def no_uploads_def)
  obtain a i w where w: "upload_open no_faults ?req (uc_uploads st1) = (Inr a, w)" "holding uid ?tmp i [] a w" "guarded uid ?N {i} w"
    "\<forall>p. p \<noteq> comps ?tmp \<longrightarrow> mget (names (us_disk w)) p = mget (names (us_disk (uc_uploads st1))) p"
    using own_open[OF k(1) _ _ _ n(1,2), of ?req] assms(2,3) by auto
  have ck: "upload_checks ?req = None" using template_checks[OF assms(4)] assms(6) ds by simp
  have st2: "st2 = st1\<lparr> uc_uploads := w, uc_waiting := mput c (no_faults, ?req, a) (uc_waiting st1) \<rparr>" using s(4) ck w(1) by (simp split: if_splits)
  have S2: "strangers ?C uid ?N st2" by (rule strangers_own[OF s(2)]) (use other_open[OF _ w(1)] in \<open>auto simp: st2 cs\<close>)
  have "delivered uid ?tmp dest ([] @ x @ concat xs) (uc_uploads st) \<and> (\<forall>y \<in> set (c # cs'). answered y st) \<and>
      (\<forall>y \<in> ?C - set (c # cs'). mget (uc_results st) y = mget (uc_results st2) y)"
    by (rule upload_rest[OF _ _ refl td assms(2,3) _ _ _ S2 _ _ _ cs(2) s(6,7,5)])
      (use w(2-4) n(3) td assms(4,6,8,9) in \<open>auto simp: st2 cs ds\<close>)
  then show ?thesis by (simp add: cs ds)
qed

text \<open>
  What a positive acknowledgement says about sizes: the chunk has at most 1 MiB, the reported
  number is the end of the chunk as a 64-bit number, and for a final chunk it is the announced total, at
  most 10 MiB.
\<close>

theorem upload_limits:
  assumes "RunFileUpload f req u = (res, v)" "fr_ok res"
  shows "length (fu_data req) \<le> 1048576 \<and> fu_total_size req \<le> 10485760 \<and>
    fr_bytes_written res = fu_offset req + of_nat (length (fu_data req)) \<and>
    (fu_final req \<longrightarrow> fr_bytes_written res = fu_total_size req)"
proof -
  have ck: "upload_checks req = None" using assms by (auto simp: RunFileUpload_def upload_result_def split: option.splits)
  obtain a w where "upload_open f req u = (Inr a, w)"
    using assms ck by (auto simp: RunFileUpload_def upload_result_def split: sum.splits prod.splits)
  moreover obtain e b v' where c: "upload_chunk f req a w = ((e, b), v')" by (metis surj_pair)
  ultimately have res: "e = None" "fr_bytes_written res = b" using assms ck by (auto simp: RunFileUpload_def upload_result_def)
  have "b = fu_offset req + of_nat (length (fu_data req)) \<and> (fu_final req \<longrightarrow> b = fu_total_size req)"
    using c res(1) by (auto simp: upload_chunk_def Let_def split_beta split: option.splits if_splits)
  with ck res(2) show ?thesis
    by (auto simp: upload_checks_def Let_def maxUploadChunkBytes_def maxUploadTotalBytes_def split: if_splits)
qed

text \<open>
  The limit of 10 MiB is compared with the announced total only.  Chunks that announce a
  small total and are never final are all accepted, and the temporary file grows with each of them.
\<close>

definition endless_requests :: "NodeFileUploadRequest \<Rightarrow> nat \<Rightarrow> string list \<Rightarrow> NodeFileUploadRequest list" where
  "endless_requests t n ds = butlast (chunk_requests t n (ds @ [[]]))"

lemma endless_Cons: "endless_requests t n (d # ds) = t\<lparr> fu_offset := of_nat n, fu_data := d, fu_final := False \<rparr> # endless_requests t (n + length d) ds"
  by (cases ds) (simp_all add: endless_requests_def)

lemma checks_frame: "upload_checks (t\<lparr> fu_offset := n, fu_data := d, fu_final := f \<rparr>) = upload_checks (t\<lparr> fu_data := d \<rparr>)"
  by (simp add: upload_checks_def Let_def)

lemma endless_running:
  assumes "holding uid tmp i acc a u" "guarded uid N {i} u" "uid = trim_space (fu_upload_id t)"
    "\<forall>d \<in> set ds. upload_checks (t\<lparr> fu_data := d \<rparr>) = None" "length (acc @ concat ds) < 2 ^ 64"
    "run_requests (map (Pair no_faults) (endless_requests t (length acc) ds)) u = (acks, v)"
  shows "list_all fr_ok acks \<and> (\<exists>i. mget (names (us_disk v)) (comps tmp) = Some i \<and> inodes (us_disk v) ! i = acc @ concat ds)"
  using assms
proof (induction ds arbitrary: u acc acks)
  case Nil
  then show ?case by (auto simp: endless_requests_def holding_def)
next
  case (Cons d ds)
  let ?req = "t\<lparr> fu_offset := of_nat (length acc), fu_data := d, fu_final := False \<rparr>"
  obtain ew w where c: "upload_chunk no_faults ?req a u = (ew, w)" by (meson surj_pair)
  have op: "upload_open no_faults ?req u = (Inr a, u)" using Cons.prems(1,3) by (simp add: upload_open_def Let_def holding_def)
  have ck: "upload_checks ?req = None" using Cons.prems(4) by (simp add: checks_frame)
  note m = own_more[OF Cons.prems(1,2) _ _ _ c]
  have M: "ew = (None, of_nat (length (acc @ d)))" "holding uid tmp i (acc @ d) a w" "guarded uid N {i} w"
    using m Cons.prems(5) by simp_all
  obtain acks1 where a: "acks = upload_result ?req ew # acks1" "run_requests (map (Pair no_faults) (endless_requests t (length (acc @ d)) ds)) w = (acks1, v)"
    using Cons.prems(6) own_request[OF ck op c] by (auto simp: endless_Cons split: prod.splits)
  from Cons.IH[OF M(2,3) Cons.prems(3) _ _ a(2)] Cons.prems(4,5) a(1) M(1) show ?case by (auto simp: upload_result_def)
qed

theorem upload_without_end:
  assumes "disk_ok d" "uid = trim_space (fu_upload_id t)" "dest = trim_space (fu_path t)"
    "\<forall>x \<in> set ds. upload_checks (t\<lparr> fu_data := x \<rparr>) = None" "ds \<noteq> []" "length (concat ds) < 2 ^ 64"
    "mget (names d) (comps (tmp_name dest uid)) = None"
    "run_requests (map (Pair no_faults) (endless_requests t 0 ds)) (no_uploads d) = (acks, u)"
  shows "list_all fr_ok acks \<and>
    (\<exists>i. mget (names (us_disk u)) (comps (tmp_name dest uid)) = Some i \<and> inodes (us_disk u) ! i = concat ds)"
proof -
  obtain x xs where ds: "ds = x # xs" using assms(5) by (cases ds) auto
  let ?req = "t\<lparr> fu_offset := of_nat 0, fu_data := x, fu_final := False \<rparr>" and ?N = "{comps (tmp_name dest uid)}"
  obtain a i w where w: "upload_open no_faults ?req (no_uploads d) = (Inr a, w)" "holding uid (tmp_name dest uid) i [] a w" "guarded uid ?N {i} w"
    using own_open[OF guarded_no_uploads[OF assms(1)], of dest uid ?N ?req] assms(2,3,7) by (auto simp: no_uploads_def)
  have ck: "upload_checks ?req = None" using assms(4) ds by (simp add: checks_frame)
  have "RunFileUpload no_faults ?req w = RunFileUpload no_faults ?req (no_uploads d)"
    by (rule open_again[OF ck w(1)]) (use w(2) assms(2) in \<open>simp add: holding_def\<close>)
  then have "run_requests (map (Pair no_faults) (endless_requests t 0 ds)) w = (acks, u)"
    using assms(8) by (simp add: ds endless_Cons)
  from endless_running[OF w(2,3) assms(2,4), of acks u] this assms(6) show ?thesis by simp
qed

section \<open>Witnesses\<close>

definition demo_upload :: NodeFileUploadRequest where
  "demo_upload = \<lparr> fu_upload_id = ''u'', fu_path = ''/d/f'', fu_offset = 0, fu_data = [], fu_total_size = 4, fu_sha256 = [], fu_overwrite = False, fu_final = False \<rparr>"

definition demo_disk :: disk where
  "demo_disk = \<lparr> names = [([''d''], 0)], inodes = [[]] \<rparr>"

text \<open>The second request of the upload is held up between its sections by the failing request of another.\<close>

definition demo_upload_events :: "upload_event list" where
  "demo_upload_events = (case chunk_requests demo_upload 0 [''ab'', ''cd''] of
      [r1, r2] \<Rightarrow> [UOpen 0 no_faults r1, UBody 0, UOpen 1 (no_faults\<lparr> f_write := True \<rparr>) (demo_upload\<lparr> fu_upload_id := ''v'', fu_path := ''/d/g'', fu_data := ''x'' \<rparr>),
         UOpen 2 no_faults r2, UBody 1, UBody 2]
    | _ \<Rightarrow> [])"

theorem upload_arrives_witness:
  "\<exists>st. exec upload_step (no_calls demo_disk) demo_upload_events = Some st \<and>
    delivered ''u'' (tmp_name ''/d/f'' ''u'') ''/d/f'' ''abcd'' (uc_uploads st) \<and> answered 0 st \<and> answered 2 st"
proof -
  have "map_option (\<lambda>_. ()) (exec upload_step (no_calls demo_disk) demo_upload_events) = Some ()" by code_simp
  then obtain st where r: "exec upload_step (no_calls demo_disk) demo_upload_events = Some st" by auto
  have t: "trim_space (fu_upload_id demo_upload) = ''u''" "trim_space (fu_path demo_upload) = ''/d/f''" by code_simp+
  have "validateUploadPath ''/d/f''" by code_simp
  then have tm: "template_ok demo_upload (concat [''ab'', ''cd''])"
    unfolding template_ok_def checksum_ok_def t by (simp add: demo_upload_def maxUploadTotalBytes_def)
  have a: "disk_ok demo_disk" "\<forall>d \<in> set [''ab'', ''cd'']. int (length d) \<le> maxUploadChunkBytes"
    "mget (names demo_disk) (comps (tmp_name ''/d/f'' ''u'')) = None" "mget (names demo_disk) (comps ''/d/f'') = None"
    by (code_simp, simp add: maxUploadChunkBytes_def, code_simp, code_simp)
  have f: "filter (\<lambda>e. call_of e \<in> set [0, 2]) demo_upload_events = own_calls [0, 2] (chunk_requests demo_upload 0 [''ab'', ''cd''])" by code_simp
  have "apart ''u'' {comps (tmp_name ''/d/f'' ''u''), comps ''/d/f''} (demo_upload\<lparr> fu_upload_id := ''v'', fu_path := ''/d/g'', fu_data := ''x'' \<rparr>)" by code_simp
  then have o: "\<forall>c f req. UOpen c f req \<in> set demo_upload_events \<and> c \<notin> set [0, 2] \<longrightarrow> apart ''u'' {comps (tmp_name ''/d/f'' ''u''), comps ''/d/f''} req"
    by (auto simp: demo_upload_events_def)
  from upload_arrives[OF a(1) t[symmetric] tm _ a(2,3) _ _ _ f o r] a(4) r show ?thesis by simp
qed

text \<open>
  The ids \<^verbatim>\<open>a b\<close> and \<^verbatim>\<open>a-b\<close> give the same temporary file.  When both upload to one destination, the second
  truncates what the first has written; the first is told that its file arrived, and the destination holds parts of both.
\<close>

definition clash_request :: "string \<Rightarrow> nat \<Rightarrow> string \<Rightarrow> bool \<Rightarrow> NodeFileUploadRequest" where
  "clash_request i n x f = demo_upload\<lparr> fu_upload_id := i, fu_offset := of_nat n, fu_data := x, fu_final := f \<rparr>"

definition clash_events :: "upload_event list" where
  "clash_events = [UOpen 0 no_faults (clash_request ''a b'' 0 ''ab'' False), UBody 0, UOpen 1 no_faults (clash_request ''a-b'' 0 ''XY'' False), UBody 1,
     UOpen 2 no_faults (clash_request ''a b'' 2 ''cd'' True), UBody 2]"

theorem uploads_share_temp_file:
  "map_option (\<lambda>st. (answered 0 st, answered 2 st, map_option (\<lambda>i. inodes (us_disk (uc_uploads st)) ! i) (mget (names (us_disk (uc_uploads st))) (comps ''/d/f''))))
     (exec upload_step (no_calls demo_disk) clash_events) = Some (True, True, Some ''XYcd'')"
  by code_simp

theorem upload_limits_witness:
  "\<exists>res v. RunFileUpload no_faults (demo_upload\<lparr> fu_data := ''abcd'', fu_final := True \<rparr>) (no_uploads demo_disk) = (res, v) \<and> fr_bytes_written res = 4"
proof -
  let ?r = "RunFileUpload no_faults (demo_upload\<lparr> fu_data := ''abcd'', fu_final := True \<rparr>) (no_uploads demo_disk)"
  obtain res v where r: "?r = (res, v)" by (meson surj_pair)
  have "fr_ok (fst ?r)" by code_simp
  with upload_limits[OF r] r have "fr_bytes_written res = 4" by (simp add: demo_upload_def)
  with r show ?thesis by blast
qed

theorem upload_without_end_witness:
  "\<exists>acks u i. run_requests (map (Pair no_faults) (endless_requests (demo_upload\<lparr> fu_total_size := 0 \<rparr>) 0 [''ab'', ''cd''])) (no_uploads demo_disk) = (acks, u) \<and>
    mget (names (us_disk u)) (comps (tmp_name ''/d/f'' ''u'')) = Some i \<and> inodes (us_disk u) ! i = ''abcd''"
proof -
  let ?t = "demo_upload\<lparr> fu_total_size := 0 \<rparr>"
  obtain acks u where r: "run_requests (map (Pair no_faults) (endless_requests ?t 0 [''ab'', ''cd''])) (no_uploads demo_disk) = (acks, u)" by (meson surj_pair)
  have t: "''u'' = trim_space (fu_upload_id ?t)" "''/d/f'' = trim_space (fu_path ?t)" by code_simp+
  have "upload_checks (?t\<lparr> fu_data := ''ab'' \<rparr>) = None" "upload_checks (?t\<lparr> fu_data := ''cd'' \<rparr>) = None" by code_simp+
  moreover have "disk_ok demo_disk" "mget (names demo_disk) (comps (tmp_name ''/d/f'' ''u'')) = None" by code_simp+
  ultimately show ?thesis using upload_without_end[OF _ t _ _ _ _ r] r by auto
qed

end
