(* ===== verification/File_System.thy ===== *)
theory File_System
  imports Go_Paths
begin

text \<open>
  The part of package \<^verbatim>\<open>os\<close> the sources use, on an explicit store.

  A file system maps the components of an absolute path to a node.  The root
  always exists.  Symbolic links are nodes that are not followed.  Paths listed
  in \<open>denied\<close> refuse every operation, which stands for permissions and I/O errors.
  A file written from a marshalled JSON value keeps the value: \<open>Json v\<close> is the
  text \<^verbatim>\<open>encoding/json\<close> writes for \<open>v\<close>, which it reads back as \<open>v\<close>.

  The lemmas describe every operation by a lookup, and give the frame conditions:
  an operation on a path changes nothing that is not above or below it.
\<close>

section \<open>JSON values\<close>

datatype json =
    JNull
  | JBool bool
  | JNum int
  | JStr string
  | JArr "json list"
  | JObj "(string \<times> json) list"

fun jfield :: "json \<Rightarrow> string \<Rightarrow> json option" where
  "jfield (JObj kvs) k = mget kvs k"
| "jfield _ k = None"

fun jstr :: "json \<Rightarrow> string option" where
  "jstr (JStr s) = Some s"
| "jstr _ = None"

fun jstrings :: "json \<Rightarrow> string list option" where
  "jstrings (JArr xs) = those (map jstr xs)"
| "jstrings _ = None"

lemma jstrings_JArr [simp]: "jstrings (JArr (map JStr xs)) = Some xs"
  by (induction xs) (auto simp: comp_def)

datatype content = Text string | Json json

text \<open>\<^verbatim>\<open>json.Unmarshal\<close> of a file's bytes; text that was not marshalled is parsed by \<open>parse\<close>.\<close>

fun unmarshal :: "(string \<Rightarrow> json option) \<Rightarrow> content \<Rightarrow> json option" where
  "unmarshal parse (Text t) = parse t"
| "unmarshal parse (Json v) = Some v"

text \<open>
  A string field of a struct decoded by \<^verbatim>\<open>encoding/json\<close>: names match without regard to case,
  the last one wins, null leaves the field alone, any other type is an error.
\<close>

fun struct_field :: "string \<Rightarrow> (string \<times> json) list \<Rightarrow> string \<Rightarrow> string option" where
  "struct_field name [] acc = Some acc"
| "struct_field name ((k, v) # kvs) acc =
    (if \<not> equal_fold k name then struct_field name kvs acc
     else case v of JStr t \<Rightarrow> struct_field name kvs t | JNull \<Rightarrow> struct_field name kvs acc | _ \<Rightarrow> None)"

fun int_field :: "string \<Rightarrow> (string \<times> json) list \<Rightarrow> int \<Rightarrow> int option" where
  "int_field name [] acc = Some acc"
| "int_field name ((k, v) # kvs) acc =
    (if \<not> equal_fold k name then int_field name kvs acc
     else case v of JNum n \<Rightarrow> int_field name kvs n | JNull \<Rightarrow> int_field name kvs acc | _ \<Rightarrow> None)"

section \<open>The store\<close>

datatype node = NFile content | NDir | NLink string

type_synonym path = "string list"

datatype fs_error = ENOENT | ENOTDIR | EISDIR | EACCES | EEXIST | ENOTEMPTY | ENAMETOOLONG | ELOOP

record fs =
  nodes :: "(path, node) gomap"
  denied :: "path list"

definition lookup :: "fs \<Rightarrow> path \<Rightarrow> node option" where
  "lookup s p = (if p = [] then Some NDir else mget (nodes s) p)"

definition is_dir :: "fs \<Rightarrow> path \<Rightarrow> bool" where
  "is_dir s p \<longleftrightarrow> lookup s p = Some NDir"

definition stat :: "fs \<Rightarrow> string \<Rightarrow> fs_error + node" where
  "stat s p = (if comps p \<in> set (denied s) then Inl EACCES
     else case lookup s (comps p) of None \<Rightarrow> Inl ENOENT | Some n \<Rightarrow> Inr n)"

definition read_file :: "fs \<Rightarrow> string \<Rightarrow> fs_error + content" where
  "read_file s p = (if comps p \<in> set (denied s) then Inl EACCES
     else case lookup s (comps p) of
         None \<Rightarrow> Inl ENOENT
       | Some (NFile c) \<Rightarrow> Inr c
       | Some _ \<Rightarrow> Inl EISDIR)"

text \<open>\<^verbatim>\<open>os.MkdirAll\<close>: create every missing ancestor, from the root down.\<close>

fun mkdirs :: "fs \<Rightarrow> path \<Rightarrow> path \<Rightarrow> fs_error + fs" where
  "mkdirs s done [] = Inr s"
| "mkdirs s done (c # cs) =
    (let p = done @ [c] in
     if p \<in> set (denied s) then Inl EACCES
     else case lookup s p of
         None \<Rightarrow> mkdirs (s\<lparr> nodes := mput p NDir (nodes s) \<rparr>) p cs
       | Some NDir \<Rightarrow> mkdirs s p cs
       | Some _ \<Rightarrow> Inl ENOTDIR)"

definition mkdir_all :: "fs \<Rightarrow> string \<Rightarrow> fs_error + fs" where
  "mkdir_all s p = mkdirs s [] (comps p)"

definition write_file :: "fs \<Rightarrow> string \<Rightarrow> content \<Rightarrow> fs_error + fs" where
  "write_file s p c =
    (let q = comps p in
     if q \<in> set (denied s) then Inl EACCES
     else if q = [] \<or> lookup s q = Some NDir then Inl EISDIR
     else if \<not> is_dir s (butlast q) then Inl ENOENT
     else Inr (s\<lparr> nodes := mput q (NFile c) (nodes s) \<rparr>))"

definition remove_all :: "fs \<Rightarrow> string \<Rightarrow> fs_error + fs" where
  "remove_all s p =
    (let q = comps p in
     if q \<in> set (denied s) then Inl EACCES
     else Inr (s\<lparr> nodes := filter (\<lambda>(r, n). \<not> prefix q r) (nodes s) \<rparr>))"

text \<open>\<^verbatim>\<open>os.Remove\<close>: a file, a link or an empty directory.\<close>

definition remove_file :: "fs \<Rightarrow> string \<Rightarrow> fs_error + fs" where
  "remove_file s p =
    (let q = comps p in
     if q \<in> set (denied s) then Inl EACCES
     else if lookup s q = None then Inl ENOENT
     else if q = [] \<or> (\<exists>(r, n) \<in> set (nodes s). strict_prefix q r) then Inl ENOTEMPTY
     else Inr (s\<lparr> nodes := mdel q (nodes s) \<rparr>))"

definition symlink :: "fs \<Rightarrow> string \<Rightarrow> string \<Rightarrow> fs_error + fs" where
  "symlink s target p =
    (let q = comps p in
     if q \<in> set (denied s) then Inl EACCES
     else if lookup s q \<noteq> None then Inl EEXIST
     else if \<not> is_dir s (butlast q) then Inl ENOENT
     else Inr (s\<lparr> nodes := mput q (NLink target) (nodes s) \<rparr>))"

text \<open>\<^verbatim>\<open>os.Rename\<close> of a file over a file or a free name.\<close>

definition rename_file :: "fs \<Rightarrow> string \<Rightarrow> string \<Rightarrow> fs_error + fs" where
  "rename_file s p p' =
    (let q = comps p; q' = comps p' in
     if q \<in> set (denied s) \<or> q' \<in> set (denied s) then Inl EACCES
     else case lookup s q of
         Some (NFile c) \<Rightarrow>
           if q' = [] \<or> lookup s q' = Some NDir then Inl EISDIR
           else if \<not> is_dir s (butlast q') then Inl ENOENT
           else Inr (s\<lparr> nodes := mput q' (NFile c) (mdel q (nodes s)) \<rparr>)
       | None \<Rightarrow> Inl ENOENT
       | Some _ \<Rightarrow> Inl EISDIR)"

text \<open>
  \<^verbatim>\<open>os.ReadDir\<close>: the direct entries of a directory.  A name is never empty, a dot, a
  double dot or a text with a separator.
\<close>

definition read_dir :: "fs \<Rightarrow> string \<Rightarrow> fs_error + (string \<times> node) list" where
  "read_dir s p =
    (let q = comps p in
     if q \<in> set (denied s) then Inl EACCES
     else case lookup s q of
         None \<Rightarrow> Inl ENOENT
       | Some NDir \<Rightarrow> Inr (map (\<lambda>(r, n). (last r, n)) (filter (\<lambda>(r, n). r \<noteq> [] \<and> butlast r = q \<and> plain_seg (last r)) (nodes s)))
       | Some _ \<Rightarrow> Inl ENOTDIR)"

section \<open>Lookups after an operation\<close>

lemma lookup_Nil [simp]: "lookup s [] = Some NDir"
  by (simp add: lookup_def)

lemma lookup_mput [simp]:
  "p \<noteq> [] \<Longrightarrow> lookup (s\<lparr> nodes := mput p n (nodes s) \<rparr>) q = (if q = p then Some n else lookup s q)"
  by (simp add: lookup_def)

definition fs_wf :: "fs \<Rightarrow> bool" where
  "fs_wf s \<longleftrightarrow> gomap_wf (nodes s)"

lemma write_file_lookup:
  "write_file s p c = Inr s' \<Longrightarrow> lookup s' q = (if q = comps p then Some (NFile c) else lookup s q)"
  by (auto simp: write_file_def Let_def split: if_splits)

lemma write_file_read:
  "write_file s p c = Inr s' \<Longrightarrow> read_file s' p = Inr c"
  by (auto simp: write_file_def read_file_def Let_def split: if_splits)

lemma remove_all_lookup:
  assumes "fs_wf s" "remove_all s p = Inr s'"
  shows "lookup s' q = (if q = [] then Some NDir else if prefix (comps p) q then None else lookup s q)"
  using assms by (auto simp: remove_all_def Let_def lookup_def fs_wf_def mget_filter split: if_splits option.splits)

lemma mkdirs_lookup_mono:
  "mkdirs s d cs = Inr s' \<Longrightarrow> lookup s q = Some n \<Longrightarrow> lookup s' q = Some n"
proof (induction s d cs rule: mkdirs.induct)
  case (2 s d c cs)
  have "q \<noteq> d @ [c]" if "lookup s (d @ [c]) = None" using that "2.prems"(2) by auto
  with 2 show ?case by (auto simp: Let_def split: if_splits option.splits node.splits)
qed simp

lemma mkdirs_frame:
  "mkdirs s d cs = Inr s' \<Longrightarrow> \<not> prefix q (d @ cs) \<Longrightarrow> lookup s' q = lookup s q"
proof (induction s d cs rule: mkdirs.induct)
  case (2 s d c cs)
  have "q \<noteq> d @ [c]" using "2.prems"(2) by (auto simp: prefix_def)
  with 2 show ?case by (auto simp: Let_def split: if_splits option.splits node.splits)
qed simp

lemma mkdirs_dir:
  "mkdirs s d cs = Inr s' \<Longrightarrow> is_dir s d \<Longrightarrow> prefix q (d @ cs) \<Longrightarrow> prefix d q \<Longrightarrow> is_dir s' q"
proof (induction s d cs rule: mkdirs.induct)
  case (1 s d)
  then show ?case by (auto dest: prefix_order.antisym)
next
  case (2 s d c cs)
  let ?p = "d @ [c]"
  have nd: "?p \<notin> set (denied s)" using "2.prems"(1) by (auto simp: Let_def split: if_splits)
  obtain s1 where s1: "mkdirs s1 ?p cs = Inr s'" "is_dir s1 ?p" "\<And>r. is_dir s r \<Longrightarrow> is_dir s1 r"
    and IH: "prefix ?p q \<Longrightarrow> is_dir s' q"
  proof (cases "lookup s ?p")
    case None
    let ?s1 = "s\<lparr> nodes := mput ?p NDir (nodes s) \<rparr>"
    have "mkdirs ?s1 ?p cs = Inr s'" using "2.prems"(1) nd None by (simp add: Let_def)
    moreover have "is_dir ?s1 ?p" by (simp add: is_dir_def)
    ultimately show ?thesis using that[of ?s1] "2.IH"(1)[OF refl nd None] None "2.prems"(3)
      by (auto simp: is_dir_def)
  next
    case (Some n)
    then have "n = NDir" using "2.prems"(1) nd by (auto simp: Let_def split: node.splits)
    with Some "2.prems"(1) nd have "mkdirs s ?p cs = Inr s'" by (simp add: Let_def)
    with Some \<open>n = NDir\<close> show ?thesis using that[of s] "2.IH"(2)[OF refl nd] "2.prems"(3) by (auto simp: is_dir_def)
  qed
  show ?case
  proof (cases "prefix ?p q")
    case True
    with IH show ?thesis by simp
  next
    case False
    with "2.prems"(3,4) have "q = d" by (auto simp: prefix_def) (metis Cons_eq_append_conv)
    then have "is_dir s1 q" using "2.prems"(2) s1(3) by blast
    then show ?thesis using mkdirs_lookup_mono[OF s1(1)] by (simp add: is_dir_def)
  qed
qed

lemma mkdir_all_is_dir: "mkdir_all s p = Inr s' \<Longrightarrow> is_dir s' (comps p)"
  unfolding mkdir_all_def by (rule mkdirs_dir) (auto simp: is_dir_def)

lemma mkdir_all_frame: "mkdir_all s p = Inr s' \<Longrightarrow> \<not> prefix q (comps p) \<Longrightarrow> lookup s' q = lookup s q"
  unfolding mkdir_all_def using mkdirs_frame[of s "[]"] by simp

lemma mkdir_all_keeps: "mkdir_all s p = Inr s' \<Longrightarrow> lookup s q = Some n \<Longrightarrow> lookup s' q = Some n"
  unfolding mkdir_all_def by (rule mkdirs_lookup_mono)

text \<open>No operation makes a file or directory vanish except the one that removes.\<close>

definition changed_only :: "(path \<Rightarrow> bool) \<Rightarrow> fs \<Rightarrow> fs \<Rightarrow> bool" where
  "changed_only P s s' \<longleftrightarrow> (\<forall>q. \<not> P q \<longrightarrow> lookup s' q = lookup s q)"

lemma changed_only_refl [simp, intro!]: "changed_only P s s"
  by (simp add: changed_only_def)

lemma changed_only_trans [trans]:
  "changed_only P s t \<Longrightarrow> changed_only P t u \<Longrightarrow> changed_only P s u"
  by (simp add: changed_only_def)

lemma changed_only_mono: "changed_only P s t \<Longrightarrow> (\<And>q. P q \<Longrightarrow> Q q) \<Longrightarrow> changed_only Q s t"
  by (auto simp: changed_only_def)

lemma write_file_changed: "write_file s p c = Inr s' \<Longrightarrow> changed_only (\<lambda>q. q = comps p) s s'"
  by (simp add: changed_only_def write_file_lookup)

lemma mkdir_all_changed: "mkdir_all s p = Inr s' \<Longrightarrow> changed_only (\<lambda>q. prefix q (comps p)) s s'"
  by (simp add: changed_only_def mkdir_all_frame)

lemma remove_all_changed: "fs_wf s \<Longrightarrow> remove_all s p = Inr s' \<Longrightarrow> changed_only (prefix (comps p)) s s'"
  by (simp add: changed_only_def remove_all_lookup)

lemma mkdirs_wf: "mkdirs s d cs = Inr s' \<Longrightarrow> fs_wf s \<Longrightarrow> fs_wf s'"
proof (induction s d cs rule: mkdirs.induct)
  case (2 s d c cs)
  then show ?case by (auto simp: fs_wf_def Let_def split: if_splits option.splits node.splits)
qed simp

lemma fs_wf_ops [go_pres]:
  "mkdir_all s p = Inr s' \<Longrightarrow> fs_wf s \<Longrightarrow> fs_wf s'"
  "write_file s p c = Inr s' \<Longrightarrow> fs_wf s \<Longrightarrow> fs_wf s'"
  "remove_all s p = Inr s' \<Longrightarrow> fs_wf s \<Longrightarrow> fs_wf s'"
  "symlink s t p = Inr s' \<Longrightarrow> fs_wf s \<Longrightarrow> fs_wf s'"
  "rename_file s p p' = Inr s' \<Longrightarrow> fs_wf s \<Longrightarrow> fs_wf s'"
  "remove_file s p = Inr s' \<Longrightarrow> fs_wf s \<Longrightarrow> fs_wf s'"
  by (auto simp: mkdir_all_def write_file_def remove_all_def symlink_def remove_file_def rename_file_def fs_wf_def Let_def
      dest: mkdirs_wf[unfolded fs_wf_def] split: if_splits option.splits node.splits)

lemmas fs_changed = write_file_changed mkdir_all_changed remove_all_changed

section \<open>Confinement\<close>

text \<open>
  An operation is confined to a set of directories when it changes nothing
  outside them, except that it may create missing directories on the way to one.
\<close>

definition confined :: "path set \<Rightarrow> fs \<Rightarrow> fs \<Rightarrow> bool" where
  "confined D s s' \<longleftrightarrow>
    (\<forall>q. (\<forall>d \<in> D. \<not> prefix d q) \<longrightarrow> lookup s' q = lookup s q \<or>
       ((\<exists>d \<in> D. strict_prefix q d) \<and> lookup s q = None \<and> lookup s' q = Some NDir)) \<and>
    (fs_wf s \<longrightarrow> fs_wf s')"

lemma confined_refl [simp, intro!]: "confined D s s"
  by (simp add: confined_def)

lemma confined_trans [trans]: "confined D s t \<Longrightarrow> confined D t u \<Longrightarrow> confined D s u"
  unfolding confined_def by (metis option.distinct(1))

lemma confined_mono:
  assumes "confined D s t" "\<And>d. d \<in> D \<Longrightarrow> \<exists>e \<in> E. prefix e d"
  shows "confined E s t"
  unfolding confined_def
proof (intro conjI allI impI)
  fix q assume q: "\<forall>e \<in> E. \<not> prefix e q"
  then have "\<forall>d \<in> D. \<not> prefix d q" using assms(2) prefix_order.trans by blast
  with assms(1) have "lookup t q = lookup s q \<or> ((\<exists>d \<in> D. strict_prefix q d) \<and> lookup s q = None \<and> lookup t q = Some NDir)"
    unfolding confined_def by blast
  moreover have "\<exists>e \<in> E. strict_prefix q e" if "d \<in> D" "strict_prefix q d" for d
  proof -
    obtain e where e: "e \<in> E" "prefix e d" using assms(2)[OF \<open>d \<in> D\<close>] by blast
    have "prefix q e" using prefix_same_cases[of q d e] that(2) e q by (auto simp: strict_prefix_def)
    with q e(1) show ?thesis by (metis prefix_order.less_le prefix_order.order_refl)
  qed
  ultimately show "lookup t q = lookup s q \<or> ((\<exists>d \<in> E. strict_prefix q d) \<and> lookup s q = None \<and> lookup t q = Some NDir)"
    by blast
next
  assume "fs_wf s" with assms(1) show "fs_wf t" by (simp add: confined_def)
qed

text \<open>Making a directory, or one above a directory that is to be made.\<close>

lemma confined_mkdir_above: "mkdir_all s p = Inr s' \<Longrightarrow> prefix (comps p) d \<Longrightarrow> confined {d} s s'"
proof -
  assume m: "mkdir_all s p = Inr s'" and p: "prefix (comps p) d"
  have "lookup s' q = lookup s q \<or> (strict_prefix q d \<and> lookup s q = None \<and> lookup s' q = Some NDir)"
    if "\<not> prefix d q" for q
  proof (cases "prefix q (comps p)")
    case True
    then have "is_dir s' q" "strict_prefix q d"
      using mkdirs_dir[of s "[]" "comps p" s' q] m p that
      by (auto simp: mkdir_all_def is_dir_def strict_prefix_def intro: prefix_order.trans)
    then show ?thesis using mkdir_all_keeps[OF m, of q] by (cases "lookup s q") (auto simp: is_dir_def)
  qed (simp add: mkdir_all_frame[OF m])
  then show ?thesis using fs_wf_ops(1)[OF m] by (auto simp: confined_def)
qed

lemma confined_mkdir_all: "mkdir_all s p = Inr s' \<Longrightarrow> confined {comps p} s s'"
  using confined_mkdir_above[OF _ prefix_order.refl] .

lemma confined_write_file: "write_file s p c = Inr s' \<Longrightarrow> confined {comps p} s s'"
  using fs_wf_ops(2) by (auto simp: confined_def write_file_lookup)

lemma remove_all_lookup_out: "remove_all s p = Inr s' \<Longrightarrow> \<not> prefix (comps p) q \<Longrightarrow> lookup s' q = lookup s q"
proof -
  assume r: "remove_all s p = Inr s'" and q: "\<not> prefix (comps p) q"
  have "map_of (filter (\<lambda>(r, n). \<not> prefix (comps p) r) m) q = map_of m q" for m :: "(path \<times> node) list"
    using q by (induction m) auto
  then show ?thesis using r by (auto simp: remove_all_def Let_def lookup_def split: if_splits)
qed

lemma remove_all_lookup_in: "remove_all s p = Inr s' \<Longrightarrow> prefix (comps p) q \<Longrightarrow> q \<noteq> [] \<Longrightarrow> lookup s' q = None"
proof -
  assume r: "remove_all s p = Inr s'" and q: "prefix (comps p) q" "q \<noteq> []"
  have "map_of (filter (\<lambda>(r, n). \<not> prefix (comps p) r) m) q = None" for m :: "(path \<times> node) list"
    using q by (induction m) auto
  then show ?thesis using r q(2) by (auto simp: remove_all_def Let_def lookup_def split: if_splits)
qed

lemma confined_remove_all: "remove_all s p = Inr s' \<Longrightarrow> confined {comps p} s s'"
  using fs_wf_ops(3) by (auto simp: confined_def remove_all_lookup_out)

lemma confined_symlink: "symlink s t p = Inr s' \<Longrightarrow> comps p \<noteq> [] \<Longrightarrow> confined {comps p} s s'"
proof -
  assume "symlink s t p = Inr s'" "comps p \<noteq> []"
  then have "lookup s' q = (if q = comps p then Some (NLink t) else lookup s q)" for q
    by (auto simp: symlink_def Let_def split: if_splits)
  then show ?thesis using fs_wf_ops(4)[OF \<open>symlink s t p = Inr s'\<close>] by (auto simp: confined_def)
qed

lemma remove_file_lookup: "remove_file s p = Inr s' \<Longrightarrow> lookup s' q = (if q = comps p then None else lookup s q)"
  by (auto simp: remove_file_def lookup_def mget_mdel Let_def split: if_splits)

lemma confined_remove_file: "remove_file s p = Inr s' \<Longrightarrow> confined {comps p} s s'"
  using fs_wf_ops(6) by (auto simp: confined_def remove_file_lookup)

lemmas confined_ops = confined_mkdir_all confined_write_file confined_remove_all

text \<open>The form in which confinement is used: an operation on a path below one of the directories.\<close>

lemma confined_sub: "confined {q} s t \<Longrightarrow> d \<in> D \<Longrightarrow> prefix d q \<Longrightarrow> confined D s t"
  by (erule confined_mono) auto

lemma confined_keeps:
  "confined D s s' \<Longrightarrow> \<forall>d \<in> D. \<not> prefix d q \<Longrightarrow> lookup s q = Some n \<Longrightarrow> lookup s' q = Some n"
  unfolding confined_def by fastforce

lemma confined_apart:
  "confined D s t \<Longrightarrow> \<forall>d \<in> D. \<not> prefix d q \<and> \<not> prefix q d \<Longrightarrow> lookup t q = lookup s q"
  unfolding confined_def by (meson prefix_order.less_imp_le)

lemma confined_wf: "confined D s s' \<Longrightarrow> fs_wf s \<Longrightarrow> fs_wf s'"
  by (simp add: confined_def)

section \<open>Sequences of operations\<close>

type_synonym fs_outcome = "fs_error option \<times> fs"

definition try_fs :: "fs \<Rightarrow> fs_error + fs \<Rightarrow> fs_outcome" where
  "try_fs s r = (case r of Inl e \<Rightarrow> (Some e, s) | Inr s' \<Rightarrow> (None, s'))"

lemma try_fs_simps [simp]: "try_fs s (Inl e) = (Some e, s)" "try_fs s (Inr s') = (None, s')"
  by (simp_all add: try_fs_def)

lemma try_fs_None: "try_fs s r = (None, s') \<longleftrightarrow> r = Inr s'"
  by (cases r) auto

text \<open>\<^verbatim>\<open>err != nil && !os.IsNotExist(err)\<close>: an absent file is no error.\<close>

definition try_remove :: "fs \<Rightarrow> string \<Rightarrow> fs_outcome" where
  "try_remove s p = (case remove_file s p of
      Inl ENOENT \<Rightarrow> (None, s) | Inl e \<Rightarrow> (Some e, s) | Inr s' \<Rightarrow> (None, s'))"

lemma try_remove_absent: "try_remove s p = (None, s') \<Longrightarrow> lookup s' (comps p) = None"
  by (auto simp: try_remove_def remove_file_lookup split: sum.splits fs_error.splits)
     (auto simp: remove_file_def Let_def split: if_splits)

lemma confined_and_then_fs:
  "confined D s (snd r) \<Longrightarrow> (\<And>t. confined D s t \<Longrightarrow> confined D s (snd (f t))) \<Longrightarrow> confined D s (snd (and_then r f))"
  by (rule and_then_inv)

lemma confined_try_fs: "confined D s t \<Longrightarrow> (\<And>t'. r = Inr t' \<Longrightarrow> confined D t t') \<Longrightarrow> confined D s (snd (try_fs t r))"
  by (cases r) (auto intro: confined_trans)

lemma confined_try_remove: "confined D s t \<Longrightarrow> d \<in> D \<Longrightarrow> prefix d (comps p) \<Longrightarrow> confined D s (snd (try_remove t p))"
  by (auto simp: try_remove_def split: sum.splits fs_error.splits
      intro: confined_trans[OF _ confined_sub[OF confined_remove_file]])

text \<open>Making the directory of a file and writing the file, the way every configuration file is written.\<close>

definition write_in_dir :: "fs \<Rightarrow> string \<Rightarrow> content \<Rightarrow> fs_outcome" where
  "write_in_dir s p c = and_then (try_fs s (mkdir_all s (path_dir p))) (\<lambda>s. try_fs s (write_file s p c))"

lemma write_in_dir_reads: "write_in_dir s p c = (None, s') \<Longrightarrow> read_file s' p = Inr c"
  by (auto simp: write_in_dir_def and_then_None try_fs_None dest: write_file_read)

lemma confined_write_in_dir:
  assumes "is_abs p" "clean p = p" "comps p = d @ [c]" "prefix e d" "e \<in> D" "confined D s t"
  shows "confined D s (snd (write_in_dir t p x))"
proof -
  have cd: "comps (path_dir p) = d" by (rule comps_path_dir(1)[OF assms(1-3)])
  have mk: "confined D s t'" if "mkdir_all t (path_dir p) = Inr t'" for t'
    using confined_trans[OF assms(6) confined_sub[OF confined_mkdir_all[OF that] assms(5)]] assms(4) cd by simp
  have wr: "confined D s t''" if "confined D s t'" "write_file t' p x = Inr t''" for t' t''
    using confined_trans[OF that(1) confined_sub[OF confined_write_file[OF that(2)] assms(5)]] assms(3,4) by (simp add: prefix_append)
  show ?thesis unfolding write_in_dir_def
    by (rule and_then_inv; cases "mkdir_all t (path_dir p)") (auto simp: mk assms(6) try_fs_def split: sum.splits intro: wr)
qed

lemma confined_try_mkdir:
  "confined D s t \<Longrightarrow> e \<in> D \<Longrightarrow> prefix e (comps p) \<Longrightarrow> confined D s (snd (try_fs t (mkdir_all t p)))"
  by (rule confined_try_fs) (auto intro: confined_sub[OF confined_mkdir_all])

lemma confined_try_write:
  "confined D s t \<Longrightarrow> e \<in> D \<Longrightarrow> prefix e (comps p) \<Longrightarrow> confined D s (snd (try_fs t (write_file t p c)))"
  by (rule confined_try_fs) (auto intro: confined_sub[OF confined_write_file])

lemma confined_try_remove_all:
  "confined D s t \<Longrightarrow> e \<in> D \<Longrightarrow> prefix e (comps p) \<Longrightarrow> confined D s (snd (try_fs t (remove_all t p)))"
  by (rule confined_try_fs) (auto intro: confined_sub[OF confined_remove_all])

lemma confined_try_mkdir_above:
  "confined D s t \<Longrightarrow> e \<in> D \<Longrightarrow> prefix (comps p) e \<Longrightarrow> confined D s (snd (try_fs t (mkdir_all t p)))"
  by (rule confined_try_fs) (auto intro: confined_sub[OF confined_mkdir_above])

lemma comps_root: "comps ''/'' = []"
  by (simp add: comps_def slash_def)

lemma read_dir_plain: "read_dir s d = Inr entries \<Longrightarrow> (name, k) \<in> set entries \<Longrightarrow> plain_seg name"
  by (auto simp: read_dir_def Let_def split: if_splits option.splits node.splits)

lemma path_dir_above:
  assumes "is_abs p" "clean p = p"
  shows "prefix (comps (path_dir p)) (comps p)"
proof (cases "comps p" rule: rev_cases)
  case Nil
  then have "p = ''/''" using assms by (simp add: clean_def render_def)
  then have "path_dir p = ''/''" by (simp add: path_dir_def slash_def clean_def comps_root render_def)
  then show ?thesis by (simp add: comps_root)
next
  case (snoc cs c)
  then show ?thesis using comps_path_dir(1)[OF assms snoc] by simp
qed

lemma path_dir_near:
  assumes "is_abs p" "clean p = p" "prefix r (comps p)"
  shows "prefix r (comps (path_dir p)) \<or> prefix (comps (path_dir p)) r"
  using path_dir_above[OF assms(1,2)] assms(3) prefix_same_cases by blast

text \<open>Writing a file at or below a directory, wherever below it.\<close>

lemma confined_write_at:
  assumes "is_abs p" "clean p = p" "e \<in> D" "prefix e (comps p)" "confined D s t"
  shows "confined D s (snd (write_in_dir t p x))"
proof -
  have "prefix e (comps (path_dir p)) \<or> prefix (comps (path_dir p)) e" by (rule path_dir_near[OF assms(1,2,4)])
  then have "confined D s (snd (try_fs t (mkdir_all t (path_dir p))))"
    using confined_try_mkdir[OF assms(5,3)] confined_try_mkdir_above[OF assms(5,3)] by blast
  then show ?thesis unfolding write_in_dir_def
    by (rule and_then_inv) (rule confined_try_write[OF _ assms(3,4)])
qed

end
