(* ===== verification/Linked_Files.thy ===== *)
theory Linked_Files
  imports File_System
begin

text \<open>
  Package \<^verbatim>\<open>os\<close> where symbolic links are followed, on the store of \<^verbatim>\<open>File_System\<close>.

  A path is walked one component at a time from the root, the way the kernel
  resolves a name: a link is replaced by its target, a relative target starts at
  the directory that holds the link, a double dot leaves a directory physically,
  and more than forty links are an error.  The operations of \<^verbatim>\<open>File_System\<close> then act
  on the place the walk ends at.  The callers modelled here pass cleaned absolute paths.

  The locale \<open>path_guard\<close> is the contract of a check that admits a name below a
  directory.  Such a check looks at the text of the path.  Its client lemmas show
  that what passes it stays below the directory as long as no link lies on the way.
\<close>

section \<open>Walking a path\<close>

definition link_limit :: nat where
  "link_limit = 40"

fun walk :: "nat \<Rightarrow> fs \<Rightarrow> path \<Rightarrow> path \<Rightarrow> fs_error + path" where
  "walk n s d [] = Inr d"
| "walk n s d (c # cs) =
    (if c = [] \<or> c = ''.'' then walk n s d cs
     else if c = ''..'' then walk n s (butlast d) cs
     else case lookup s (d @ [c]) of
         Some (NLink t) \<Rightarrow> (case n of
             0 \<Rightarrow> Inl ELOOP
           | Suc m \<Rightarrow> walk m s (if is_abs t then [] else d) (split_char slash t @ cs))
       | Some NDir \<Rightarrow> walk n s (d @ [c]) cs
       | Some (NFile k) \<Rightarrow> if cs = [] then Inr (d @ [c]) else Inl ENOTDIR
       | None \<Rightarrow> if cs = [] then Inr (d @ [c]) else Inl ENOENT)"

definition follow :: "fs \<Rightarrow> string \<Rightarrow> fs_error + path" where
  "follow s p = walk link_limit s [] (comps p)"

text \<open>The place of a name whose last component is not followed.\<close>

definition place :: "fs \<Rightarrow> string \<Rightarrow> fs_error + path" where
  "place s p = (if comps p = [] then Inr []
     else case walk link_limit s [] (butlast (comps p)) of
         Inl e \<Rightarrow> Inl e
       | Inr d \<Rightarrow> Inr (d @ [last (comps p)]))"

definition at_place :: "fs_error + path \<Rightarrow> (string \<Rightarrow> fs_error + 'a) \<Rightarrow> fs_error + 'a" where
  "at_place r f = (case r of Inl e \<Rightarrow> Inl e | Inr q \<Rightarrow> f (render True q))"

section \<open>The operations\<close>

definition stat_link :: "fs \<Rightarrow> string \<Rightarrow> fs_error + node" where
  "stat_link s p = at_place (follow s p) (stat s)"

definition read_link :: "fs \<Rightarrow> string \<Rightarrow> fs_error + content" where
  "read_link s p = at_place (follow s p) (read_file s)"

definition read_dir_link :: "fs \<Rightarrow> string \<Rightarrow> fs_error + (string \<times> node) list" where
  "read_dir_link s p = at_place (follow s p) (read_dir s)"

text \<open>\<^verbatim>\<open>os.OpenFile\<close> for writing, with creation and truncation: the last component is followed too.\<close>

definition write_link :: "fs \<Rightarrow> string \<Rightarrow> content \<Rightarrow> fs_error + fs" where
  "write_link s p c = at_place (follow s p) (\<lambda>q. write_file s q c)"

definition remove_link :: "fs \<Rightarrow> string \<Rightarrow> fs_error + fs" where
  "remove_link s p = at_place (place s p) (remove_file s)"

definition make_link :: "fs \<Rightarrow> string \<Rightarrow> string \<Rightarrow> fs_error + fs" where
  "make_link s target p = at_place (place s p) (symlink s target)"

text \<open>\<^verbatim>\<open>os.RemoveAll\<close>: nothing to do when the parent is missing.\<close>

definition remove_all_link :: "fs \<Rightarrow> string \<Rightarrow> fs_error + fs" where
  "remove_all_link s p = (case place s p of
      Inl ENOENT \<Rightarrow> Inr s
    | Inl e \<Rightarrow> Inl e
    | Inr q \<Rightarrow> remove_all s (render True q))"

text \<open>\<^verbatim>\<open>os.MkdirAll\<close>: an ancestor that is a link to a directory is entered.\<close>

fun mkdirs_link :: "fs \<Rightarrow> path \<Rightarrow> path \<Rightarrow> fs_error + fs" where
  "mkdirs_link s d [] = Inr s"
| "mkdirs_link s d (c # cs) =
    (let p = d @ [c] in
     if p \<in> set (denied s) then Inl EACCES
     else case lookup s p of
         None \<Rightarrow> mkdirs_link (s\<lparr> nodes := mput p NDir (nodes s) \<rparr>) p cs
       | Some NDir \<Rightarrow> mkdirs_link s p cs
       | Some (NFile k) \<Rightarrow> Inl ENOTDIR
       | Some (NLink t) \<Rightarrow> (case walk link_limit s d [c] of
             Inl e \<Rightarrow> Inl EEXIST
           | Inr q \<Rightarrow> if is_dir s q then mkdirs_link s q cs
               else if lookup s q = None then Inl EEXIST else Inl ENOTDIR))"

definition mkdir_all_link :: "fs \<Rightarrow> string \<Rightarrow> fs_error + fs" where
  "mkdir_all_link s p = mkdirs_link s [] (comps p)"

definition write_in_dir_link :: "fs \<Rightarrow> string \<Rightarrow> content \<Rightarrow> fs_outcome" where
  "write_in_dir_link s p c =
    and_then (try_fs s (mkdir_all_link s (path_dir p))) (\<lambda>s. try_fs s (write_link s p c))"

text \<open>
  The operations an extraction uses, with and without following links.
\<close>

record file_ops =
  os_mkdir_all :: "fs \<Rightarrow> string \<Rightarrow> fs_error + fs"
  os_write :: "fs \<Rightarrow> string \<Rightarrow> content \<Rightarrow> fs_error + fs"

definition plain_ops :: file_ops where
  "plain_ops = \<lparr> os_mkdir_all = mkdir_all, os_write = write_file \<rparr>"

definition link_ops :: file_ops where
  "link_ops = \<lparr> os_mkdir_all = mkdir_all_link, os_write = write_link \<rparr>"

definition write_in_dir_by :: "file_ops \<Rightarrow> fs \<Rightarrow> string \<Rightarrow> content \<Rightarrow> fs_outcome" where
  "write_in_dir_by os s p c =
    and_then (try_fs s (os_mkdir_all os s (path_dir p))) (\<lambda>s. try_fs s (os_write os s p c))"

lemma ops_simps [simp]:
  "os_mkdir_all plain_ops = mkdir_all" "os_mkdir_all link_ops = mkdir_all_link"
  "write_in_dir_by plain_ops = write_in_dir" "write_in_dir_by link_ops = write_in_dir_link"
  by (simp_all add: plain_ops_def link_ops_def write_in_dir_by_def write_in_dir_def write_in_dir_link_def fun_eq_iff)

section \<open>The place a walk ends at\<close>

text \<open>No place above a path, nor the path itself, is a link.\<close>

definition straight :: "fs \<Rightarrow> path \<Rightarrow> bool" where
  "straight s p \<longleftrightarrow> (\<forall>q t. prefix q p \<longrightarrow> lookup s q \<noteq> Some (NLink t))"

lemma straight_snoc: "straight s d \<Longrightarrow> \<forall>t. lookup s (d @ [c]) \<noteq> Some (NLink t) \<Longrightarrow> straight s (d @ [c])"
  by (auto simp: straight_def)

lemma straight_butlast: "straight s d \<Longrightarrow> straight s (butlast d)"
  unfolding straight_def using prefixeq_butlast prefix_order.trans by blast

lemma straight_root: "straight s []"
  by (simp add: straight_def)

text \<open>A walk ends at a physical place.\<close>

lemma walk_ends_straight: "straight s d \<Longrightarrow> walk n s d cs = Inr q \<Longrightarrow> straight s q"
proof (induction n s d cs rule: walk.induct)
  case (2 n s d c cs)
  show ?case
  proof (cases "c = [] \<or> c = ''.'' \<or> c = ''..''")
    case True
    then show ?thesis using 2 by (auto split: if_splits simp: straight_butlast)
  next
    case False
    then have c: "\<not> (c = [] \<or> c = ''.'')" "c \<noteq> ''..''" by simp_all
    show ?thesis
    proof (cases "lookup s (d @ [c])")
      case None
      then show ?thesis using c 2(5,6) straight_snoc[OF 2(5)] by (auto split: if_splits)
    next
      case (Some nd)
      show ?thesis
      proof (cases nd)
        case (NLink t)
        then show ?thesis using c Some 2(4)[OF c Some NLink] 2(5,6) by (auto simp: straight_root split: nat.splits)
      next
        case NDir
        then show ?thesis using c Some 2(3)[OF c Some NDir] 2(6) straight_snoc[OF 2(5)] by auto
      qed (use c Some 2(6) straight_snoc[OF 2(5)] in \<open>auto split: if_splits\<close>)
    qed
  qed
qed simp

lemma walk_plain:
  "\<forall>c \<in> set d. plain_seg c \<Longrightarrow> \<forall>c \<in> set cs. slash \<notin> set c \<Longrightarrow> walk n s d cs = Inr q \<Longrightarrow> \<forall>c \<in> set q. plain_seg c"
proof (induction n s d cs rule: walk.induct)
  case (2 n s d c cs)
  have spl: "\<forall>x \<in> set (split_char slash t @ cs). slash \<notin> set x" for t
    using 2(6) split_char_no_sep by fastforce
  show ?case
  proof (cases "c = [] \<or> c = ''.'' \<or> c = ''..''")
    case True
    then show ?thesis using 2 by (auto split: if_splits dest: in_set_butlastD)
  next
    case False
    then have pc: "\<forall>x \<in> set (d @ [c]). plain_seg x" using 2(5,6) by (auto simp: plain_seg_def)
    show ?thesis
    proof (cases "lookup s (d @ [c])")
      case None
      then show ?thesis using False 2(7) pc by (auto split: if_splits)
    next
      case (Some nd)
      show ?thesis
      proof (cases nd)
        case (NLink t)
        then show ?thesis using False Some 2(4)[OF _ _ Some NLink] 2(5,7) spl[of t] by (auto split: nat.splits)
      next
        case NDir
        then show ?thesis using False Some 2(3)[OF _ _ Some NDir pc] 2(6,7) by auto
      qed (use False Some 2(7) pc in \<open>auto split: if_splits\<close>)
    qed
  qed
qed simp


lemma follow_plain: "is_abs p \<Longrightarrow> follow s p = Inr q \<Longrightarrow> \<forall>c \<in> set q. plain_seg c"
  using walk_plain[of "[]" "comps p"] comps_abs_plain[of p] by (auto simp: follow_def plain_seg_def)

text \<open>Writing a file at the place a walk ends at does not lead the walk elsewhere.\<close>

lemma walk_after_write:
  assumes "lookup s q = None \<or> (\<exists>k. lookup s q = Some (NFile k))"
    "\<forall>r. lookup s' r = (if r = q then Some (NFile c) else lookup s r)"
  shows "walk n s d cs = Inr q \<Longrightarrow> walk n s' d cs = Inr q"
  using assms
proof (induction n s d cs rule: walk.induct)
  case (2 n s d x cs)
  show ?case
  proof (cases "x = [] \<or> x = ''.'' \<or> x = ''..''")
    case True
    then show ?thesis using 2 by (auto split: if_splits)
  next
    case False
    then have x: "\<not> (x = [] \<or> x = ''.'')" "x \<noteq> ''..''" by simp_all
    have l: "lookup s' (d @ [x]) = (if d @ [x] = q then Some (NFile c) else lookup s (d @ [x]))" using 2(7) by simp
    show ?thesis
    proof (cases "lookup s (d @ [x])")
      case None
      then show ?thesis using x 2(5) l by (auto split: if_splits)
    next
      case (Some nd)
      show ?thesis
      proof (cases nd)
        case (NLink t)
        have "d @ [x] \<noteq> q" using Some NLink 2(6) by auto
        then show ?thesis using x Some NLink 2(4)[OF x Some NLink] 2(5,6,7) l by (cases n) auto
      next
        case NDir
        have "d @ [x] \<noteq> q" using Some NDir 2(6) by auto
        then show ?thesis using x Some NDir 2(3)[OF x Some NDir] 2(5,6,7) l by auto
      qed (use x Some 2(5) l in \<open>auto split: if_splits\<close>)
    qed
  qed
qed simp

section \<open>Where no link lies on the way\<close>

definition no_links :: "fs \<Rightarrow> path \<Rightarrow> bool" where
  "no_links s r \<longleftrightarrow> (\<forall>q t. prefix q r \<or> prefix r q \<longrightarrow> lookup s q \<noteq> Some (NLink t))"

lemma no_links_straight: "no_links s r \<Longrightarrow> prefix r p \<or> prefix p r \<Longrightarrow> straight s p"
  unfolding no_links_def straight_def by (meson prefix_order.trans prefix_same_cases)

lemma straight_prefix: "straight s p \<Longrightarrow> prefix q p \<Longrightarrow> straight s q"
  unfolding straight_def using prefix_order.trans by blast

lemma straight_step: "straight s (d @ c # cs) \<Longrightarrow> lookup s (d @ [c]) \<noteq> Some (NLink t)" "straight s (d @ c # cs) \<Longrightarrow> straight s ((d @ [c]) @ cs)"
  by (auto simp: straight_def)

lemma walk_straight:
  "straight s (d @ cs) \<Longrightarrow> \<forall>c \<in> set cs. plain_seg c \<Longrightarrow> walk n s d cs = Inr q \<Longrightarrow> q = d @ cs"
proof (induction cs arbitrary: d)
  case (Cons c cs)
  have "plain_seg c" using Cons.prems by simp
  then show ?case using Cons.prems Cons.IH[OF straight_step(2)[OF Cons.prems(1)]] straight_step(1)[OF Cons.prems(1)]
    by (auto simp: plain_seg_def split: option.splits node.splits if_splits)
qed simp

lemma mkdirs_straight: "straight s (d @ cs) \<Longrightarrow> mkdirs_link s d cs = mkdirs s d cs"
proof (induction cs arbitrary: s d)
  case (Cons c cs)
  let ?s = "s\<lparr> nodes := mput (d @ [c]) NDir (nodes s) \<rparr>"
  have "straight ?s ((d @ [c]) @ cs)"
    using straight_step(2)[OF Cons.prems] by (auto simp: straight_def)
  then show ?case using Cons.IH[of ?s "d @ [c]"] Cons.IH[OF straight_step(2)[OF Cons.prems]] straight_step(1)[OF Cons.prems]
    by (auto simp: Let_def split: option.splits node.splits)
qed simp

lemma mkdir_all_straight: "straight s (comps p) \<Longrightarrow> mkdir_all_link s p = mkdir_all s p"
  by (simp add: mkdir_all_link_def mkdir_all_def mkdirs_straight)

lemma follow_straight: "straight s (comps p) \<Longrightarrow> is_abs p \<Longrightarrow> follow s p = Inr q \<Longrightarrow> q = comps p"
  using walk_straight[of s "[]" "comps p"] comps_abs_plain[of p] by (simp add: follow_def)

lemma place_straight: "straight s (comps p) \<Longrightarrow> is_abs p \<Longrightarrow> place s p = Inr q \<Longrightarrow> q = comps p"
  using walk_straight[of s "[]" "butlast (comps p)"] comps_abs_plain[of p]
    straight_prefix[of s "comps p" "butlast (comps p)"]
  by (auto simp: place_def prefixeq_butlast dest: in_set_butlastD split: if_splits sum.splits) (metis append_butlast_last_id append_Nil in_set_butlastD)

lemma write_straight:
  assumes "straight s (comps p)" "is_abs p" "write_link s p c = Inr s'"
  shows "write_file s (clean p) c = Inr s'"
  using assms follow_straight[OF assms(1,2)] by (auto simp: write_link_def at_place_def clean_def split: sum.splits)

lemma remove_all_straight:
  assumes "straight s (comps p)" "is_abs p" "remove_all_link s p = Inr s'"
  shows "s' = s \<or> remove_all s (clean p) = Inr s'"
  using assms place_straight[OF assms(1,2)] by (auto simp: remove_all_link_def clean_def split: sum.splits fs_error.splits)

section \<open>What keeps below a directory\<close>

definition kept :: "path \<Rightarrow> fs \<Rightarrow> fs \<Rightarrow> bool" where
  "kept r s t \<longleftrightarrow> confined {r} s t \<and> no_links t r"

lemma kept_refl: "no_links s r \<Longrightarrow> kept r s s"
  by (simp add: kept_def)

lemma kept_and_then:
  "kept r s (snd x) \<Longrightarrow> (\<And>w. kept r s w \<Longrightarrow> kept r s (snd (f w))) \<Longrightarrow> kept r s (snd (and_then x f))"
  by (rule and_then_inv)

lemma no_links_mono: "no_links s r \<Longrightarrow> (\<And>q t. lookup s' q = Some (NLink t) \<Longrightarrow> lookup s q = Some (NLink t)) \<Longrightarrow> no_links s' r"
  unfolding no_links_def by blast

lemma mkdirs_links: "mkdirs s d cs = Inr s' \<Longrightarrow> lookup s' q = Some (NLink t) \<Longrightarrow> lookup s q = Some (NLink t)"
proof (induction cs arbitrary: s d)
  case (Cons c cs)
  show ?case
  proof (cases "lookup s (d @ [c])")
    case None
    let ?s = "s\<lparr> nodes := mput (d @ [c]) NDir (nodes s) \<rparr>"
    have "mkdirs ?s (d @ [c]) cs = Inr s'" using Cons.prems(1) None by (auto simp: Let_def split: if_splits)
    then have "lookup ?s q = Some (NLink t)" using Cons.IH Cons.prems(2) by blast
    then show ?thesis by (auto split: if_splits)
  next
    case (Some n)
    then show ?thesis using Cons by (cases n) (auto simp: Let_def split: if_splits)
  qed
qed simp

lemma kept_mkdir:
  assumes "kept r s t" "prefix r (comps p) \<or> prefix (comps p) r"
  shows "kept r s (snd (try_fs t (mkdir_all_link t p)))"
proof -
  have st: "straight t (comps p)" using no_links_straight[of t r "comps p"] assms by (simp add: kept_def)
  have "confined {r} s (snd (try_fs t (mkdir_all t p)))"
    using assms confined_try_mkdir[of "{r}" s t r p] confined_try_mkdir_above[of "{r}" s t r p] by (auto simp: kept_def)
  moreover have "no_links (snd (try_fs t (mkdir_all t p))) r"
    using assms(1) mkdirs_links[of t "[]" "comps p"]
    by (cases "mkdir_all t p") (auto simp: kept_def mkdir_all_def intro: no_links_mono)
  ultimately show ?thesis by (simp add: kept_def mkdir_all_straight[OF st])
qed

lemma kept_write:
  assumes "kept r s t" "is_abs p" "prefix r (comps p)"
  shows "kept r s (snd (try_fs t (write_link t p c)))"
proof (cases "write_link t p c")
  case (Inr t')
  have st: "straight t (comps p)" using no_links_straight[of t r "comps p"] assms by (simp add: kept_def)
  have w: "write_file t (clean p) c = Inr t'" by (rule write_straight[OF st assms(2) Inr])
  have "confined {r} s t'"
    using confined_trans[of "{r}" s t t'] confined_sub[OF confined_write_file[OF w], of r "{r}"] assms
    by (simp add: kept_def comps_clean_abs)
  moreover have "no_links t' r"
    using assms(1) by (auto simp: kept_def write_file_lookup[OF w] intro: no_links_mono split: if_splits)
  ultimately show ?thesis by (simp add: Inr kept_def)
qed (use assms(1) in simp)

lemma remove_all_sub: "remove_all s p = Inr s' \<Longrightarrow> lookup s' q = Some n \<Longrightarrow> lookup s q = Some n"
proof (cases "prefix (comps p) q")
  case True
  assume r: "remove_all s p = Inr s'" and l: "lookup s' q = Some n"
  have "map_of (filter (\<lambda>(r, n). \<not> prefix (comps p) r) m) q = None" for m :: "(path \<times> node) list"
    using True by (induction m) auto
  then show ?thesis using r l by (auto simp: remove_all_def Let_def lookup_def split: if_splits)
qed (simp add: remove_all_lookup_out)

lemma kept_remove_all:
  assumes "kept r s t" "is_abs p" "prefix r (comps p)"
  shows "kept r s (snd (try_fs t (remove_all_link t p)))"
proof (cases "remove_all_link t p")
  case (Inr t')
  have st: "straight t (comps p)" using no_links_straight[of t r "comps p"] assms by (simp add: kept_def)
  have "kept r s t'" if w: "remove_all t (clean p) = Inr t'"
  proof -
    have "confined {r} s t'"
      using confined_trans[of "{r}" s t t'] confined_sub[OF confined_remove_all[OF w], of r "{r}"] assms
      by (simp add: kept_def comps_clean_abs)
    moreover have "lookup t' q = Some n \<Longrightarrow> lookup t q = Some n" for q n
      using w remove_all_sub by blast
    ultimately show ?thesis using assms(1) by (auto simp: kept_def intro: no_links_mono)
  qed
  then show ?thesis using remove_all_straight[OF st assms(2) Inr] assms(1) Inr by auto
qed (use assms(1) in simp)

lemma kept_write_in_dir:
  assumes "kept r s t" "is_abs p" "clean p = p" "prefix r (comps p)"
  shows "kept r s (snd (write_in_dir_link t p c))"
  unfolding write_in_dir_link_def
  by (rule and_then_inv) (use kept_mkdir[OF assms(1) path_dir_near[OF assms(2-4)]] kept_write assms in auto)

section \<open>Checks on the text of a path\<close>

locale path_guard =
  fixes guard :: "string \<Rightarrow> string \<Rightarrow> 'e + string" and root_ok :: "string \<Rightarrow> bool"
  assumes guard_clean: "root_ok root \<Longrightarrow> guard root name = Inr p \<Longrightarrow> is_abs p \<and> clean p = p"
    and guard_below: "root_ok root \<Longrightarrow> guard root name = Inr p \<Longrightarrow> prefix (comps root) (comps p)"
begin

lemma guarded_mkdir:
  "root_ok root \<Longrightarrow> guard root name = Inr p \<Longrightarrow> prefix r (comps root) \<Longrightarrow> kept r s t \<Longrightarrow>
    kept r s (snd (try_fs t (mkdir_all_link t p)))"
  using kept_mkdir guard_below prefix_order.trans by blast

lemma guarded_mkdir_parent:
  "root_ok root \<Longrightarrow> guard root name = Inr p \<Longrightarrow> prefix r (comps root) \<Longrightarrow> kept r s t \<Longrightarrow>
    kept r s (snd (try_fs t (mkdir_all_link t (path_dir p))))"
  using kept_mkdir path_dir_near guard_below guard_clean prefix_order.trans by metis

lemma guarded_write:
  "root_ok root \<Longrightarrow> guard root name = Inr p \<Longrightarrow> prefix r (comps root) \<Longrightarrow> kept r s t \<Longrightarrow>
    kept r s (snd (try_fs t (write_link t p c)))"
  using kept_write guard_below guard_clean prefix_order.trans by metis

lemma guarded_write_in_dir:
  "root_ok root \<Longrightarrow> guard root name = Inr p \<Longrightarrow> prefix r (comps root) \<Longrightarrow> kept r s t \<Longrightarrow>
    kept r s (snd (write_in_dir_link t p c))"
  using kept_write_in_dir guard_below guard_clean prefix_order.trans by metis

lemma guarded_remove:
  "root_ok root \<Longrightarrow> guard root name = Inr p \<Longrightarrow> prefix r (comps root) \<Longrightarrow> kept r s t \<Longrightarrow>
    kept r s (snd (try_fs t (remove_all_link t p)))"
  using kept_remove_all guard_below guard_clean prefix_order.trans by metis

end

lemma fold_and_then_kept:
  "kept r s (snd x0) \<Longrightarrow> (\<And>x w. x \<in> set xs \<Longrightarrow> kept r s w \<Longrightarrow> kept r s (snd (f x w))) \<Longrightarrow>
    kept r s (snd (fold (\<lambda>x r. and_then r (f x)) xs x0))"
proof (induction xs arbitrary: x0)
  case (Cons x xs)
  show ?case by (simp, rule Cons.IH) (use Cons.prems in \<open>auto intro: kept_and_then\<close>)
qed simp

section \<open>A written file is read back\<close>

lemma write_link_read:
  assumes "is_abs p" "write_link s p c = Inr s'"
  shows "read_link s' p = Inr c" "stat_link s' p = Inr (NFile c)"
proof -
  obtain q where q: "follow s p = Inr q" "write_file s (render True q) c = Inr s'"
    using assms(2) by (auto simp: write_link_def at_place_def split: sum.splits)
  have cq: "comps (render True q) = q" using comps_render_rooted(1) follow_plain[OF assms(1) q(1)] by blast
  have "\<forall>t. lookup s q \<noteq> Some (NLink t)"
    using walk_ends_straight[OF straight_root] q(1) by (auto simp: follow_def straight_def)
  moreover have "lookup s q \<noteq> Some NDir" using q(2) cq by (auto simp: write_file_def Let_def split: if_splits)
  ultimately have free: "lookup s q = None \<or> (\<exists>k. lookup s q = Some (NFile k))"
    by (metis node.exhaust option.exhaust)
  have f: "follow s' p = Inr q"
    using walk_after_write[OF free] q write_file_lookup[OF q(2)] cq by (simp add: follow_def)
  have "q \<notin> set (denied s')" "lookup s' q = Some (NFile c)"
    using q(2) cq by (auto simp: write_file_def Let_def split: if_splits)
  then show "read_link s' p = Inr c" "stat_link s' p = Inr (NFile c)"
    by (simp_all add: read_link_def stat_link_def at_place_def f read_file_def stat_def cq)
qed

end
