(* ===== verification/Build_Archive.thy ===== *)
theory Build_Archive
  imports Linked_Files
begin

text \<open>
  The archive source of a build: \<^verbatim>\<open>common/build/archive.go\<close>.

  The reply to the download is an argument \<open>get\<close>.  The entries \<^verbatim>\<open>archive/tar\<close> and
  \<^verbatim>\<open>archive/zip\<close> find in the bytes of a file are arguments \<open>tar_of\<close> and \<open>zip_of\<close>.  A
  body that breaks off leaves the bytes it delivered.  Links are followed, as the
  operating system follows them.

  Every entry name passes a check on its text.  The lemmas show that an archive
  without symbolic links stays below its destination, and that one with a
  relative link does not.
\<close>

section \<open>Archives\<close>

datatype build_kind = BDir | BReg string bool | BSymlink string | BOther

record build_entry =
  be_name :: string
  be_kind :: build_kind

datatype build_tar = BNotGzip | BTar "build_entry list" bool

record zip_file =
  zf_name :: string
  zf_is_dir :: bool
  zf_opens :: bool
  zf_bytes :: string
  zf_copied :: bool

datatype build_zip = BNotZip | BZip "zip_file list"

datatype archive_reply = ArchiveBadUrl | ArchiveUnreachable | ArchiveReply int string bool

datatype archive_error =
    APrepare fs_error | ABadUrl | ADownload | AStatus int | ACreate fs_error | AInterrupted | ATooLarge
  | AOpen fs_error | AFormat | AGzip | ATar | AZip | AEscapes | AFs fs_error | ABody | ASubdir | ANoRoot

type_synonym archive_outcome = "archive_error option \<times> fs"

definition as_archive :: "(fs_error \<Rightarrow> archive_error) \<Rightarrow> fs_outcome \<Rightarrow> archive_outcome" where
  "as_archive err r = (map_option err (fst r), snd r)"

lemma snd_as_archive [simp]: "snd (as_archive err r) = snd r"
  by (simp add: as_archive_def)

section \<open>Extraction\<close>

definition safeJoin :: "string \<Rightarrow> string \<Rightarrow> archive_error + string" where
  "safeJoin root name =
    (let cl = clean name in
     if cl = ''.'' then Inr root
     else if is_abs cl \<or> has_prefix cl ''..'' then Inl AEscapes
     else let target = path_join [root, cl] in
       if target \<noteq> root \<and> \<not> has_prefix target (root @ ''/'') then Inl AEscapes
       else Inr target)"

text \<open>One turn of the loop over a tar archive.\<close>

definition extract_tar_entry :: "string \<Rightarrow> build_entry \<Rightarrow> fs \<Rightarrow> archive_outcome" where
  "extract_tar_entry root e s = (case safeJoin root (be_name e) of
      Inl err \<Rightarrow> (Some err, s)
    | Inr target \<Rightarrow> (case be_kind e of
          BDir \<Rightarrow> as_archive AFs (try_fs s (mkdir_all_link s target))
        | BReg bytes copied \<Rightarrow>
            and_then (as_archive AFs (write_in_dir_link s target (Text bytes))) (\<lambda>s. (if copied then None else Some ABody, s))
        | BSymlink link \<Rightarrow>
            if link = [] \<or> is_abs link then (None, s)
            else and_then (as_archive AFs (try_fs s (mkdir_all_link s (path_dir target)))) (\<lambda>s.
              let s = snd (try_fs s (remove_link s target)) in
              (None, snd (try_fs s (make_link s link target))))
        | BOther \<Rightarrow> (None, s)))"

definition extract_tar :: "build_tar \<Rightarrow> string \<Rightarrow> fs \<Rightarrow> archive_outcome" where
  "extract_tar t dest s = (case t of
      BNotGzip \<Rightarrow> (Some AGzip, s)
    | BTar entries whole \<Rightarrow>
        and_then (fold (\<lambda>e r. and_then r (extract_tar_entry (clean dest) e)) entries (None, s))
          (\<lambda>s. (if whole then None else Some ATar, s)))"

definition extract_zip_file :: "string \<Rightarrow> zip_file \<Rightarrow> fs \<Rightarrow> archive_outcome" where
  "extract_zip_file root z s = (case safeJoin root (zf_name z) of
      Inl err \<Rightarrow> (Some err, s)
    | Inr target \<Rightarrow>
        if zf_is_dir z then as_archive AFs (try_fs s (mkdir_all_link s target))
        else and_then (as_archive AFs (try_fs s (mkdir_all_link s (path_dir target)))) (\<lambda>s.
          if \<not> zf_opens z then (Some ABody, s)
          else and_then (as_archive AFs (try_fs s (write_link s target (Text (zf_bytes z))))) (\<lambda>s.
            (if zf_copied z then None else Some ABody, s))))"

definition extract_zip :: "build_zip \<Rightarrow> string \<Rightarrow> fs \<Rightarrow> archive_outcome" where
  "extract_zip z dest s = (case z of
      BNotZip \<Rightarrow> (Some AZip, s)
    | BZip files \<Rightarrow> fold (\<lambda>z r. and_then r (extract_zip_file (clean dest) z)) files (None, s))"

text \<open>The first bytes of a file tell the format; no marshalled JSON value starts with either mark.\<close>

definition magic :: "content \<Rightarrow> string" where
  "magic c = (case c of Text t \<Rightarrow> take 4 t | Json v \<Rightarrow> [])"

definition extractArchive ::
  "(content \<Rightarrow> build_tar) \<Rightarrow> (content \<Rightarrow> build_zip) \<Rightarrow> string \<Rightarrow> string \<Rightarrow> fs \<Rightarrow> archive_outcome" where
  "extractArchive tar_of zip_of archivePath dest s = (case read_link s archivePath of
      Inl e \<Rightarrow> (Some (AOpen e), s)
    | Inr c \<Rightarrow>
        if 2 \<le> length (magic c) \<and> take 2 (magic c) = [CHR 0x1F, CHR 0x8B] then extract_tar (tar_of c) dest s
        else if 4 \<le> length (magic c) \<and> take 2 (magic c) = ''PK'' then extract_zip (zip_of c) dest s
        else (Some AFormat, s))"

section \<open>Fetching\<close>

definition maxArchiveBytes :: int where
  "maxArchiveBytes = 2147483648"

text \<open>At most one byte more than the limit is read.\<close>

definition limited :: "string \<Rightarrow> string" where
  "limited body = (if maxArchiveBytes < int (length body) then take (nat (maxArchiveBytes + 1)) body else body)"

definition downloadArchive :: "(string \<Rightarrow> archive_reply) \<Rightarrow> string \<Rightarrow> string \<Rightarrow> fs \<Rightarrow> archive_outcome" where
  "downloadArchive get url dest s = (case get url of
      ArchiveBadUrl \<Rightarrow> (Some ABadUrl, s)
    | ArchiveUnreachable \<Rightarrow> (Some ADownload, s)
    | ArchiveReply status body whole \<Rightarrow>
        if status < 200 \<or> 300 \<le> status then (Some (AStatus status), s)
        else and_then (as_archive ACreate (try_fs s (write_link s dest (Text (limited body))))) (\<lambda>s.
          if maxArchiveBytes < int (length body) then (Some ATooLarge, s)
          else (if whole then None else Some AInterrupted, s)))"

definition singleSubdir :: "string \<Rightarrow> fs \<Rightarrow> string option" where
  "singleSubdir root s = (case read_dir_link s root of
      Inr [(name, NDir)] \<Rightarrow> Some (path_join [root, name])
    | _ \<Rightarrow> None)"

text \<open>The directory a fetched archive is built in: the second half of \<^verbatim>\<open>fetchArchive\<close>.\<close>

definition project_root :: "string \<Rightarrow> string \<Rightarrow> fs \<Rightarrow> archive_error + string" where
  "project_root rawRoot subdir s =
    (let inner = (case singleSubdir rawRoot s of Some d \<Rightarrow> d | None \<Rightarrow> rawRoot);
         sub = trim_left (trim_right (trim_space subdir) ''/'') ''/'';
         root = (if sub = [] then inner else path_join [inner, sub])
     in if sub \<noteq> [] \<and> (case path_rel rawRoot root of None \<Rightarrow> True | Some rel \<Rightarrow> has_prefix rel ''..'') then Inl ASubdir
        else case stat_link s root of Inr NDir \<Rightarrow> Inr root | _ \<Rightarrow> Inl ANoRoot)"

definition build_fetchArchive ::
  "(string \<Rightarrow> archive_reply) \<Rightarrow> (content \<Rightarrow> build_tar) \<Rightarrow> (content \<Rightarrow> build_zip) \<Rightarrow> string \<Rightarrow> string \<Rightarrow> string \<Rightarrow> fs
    \<Rightarrow> (archive_error + string) \<times> fs" where
  "build_fetchArchive get tar_of zip_of url destDir subdir s =
    (let archivePath = path_join [destDir, ''.source.archive''];
         rawRoot = path_join [destDir, ''.extract'']
     in case and_then (as_archive APrepare (try_fs s (mkdir_all_link s destDir))) (\<lambda>s.
            and_then (downloadArchive get url archivePath s) (\<lambda>s.
            and_then (as_archive AFs (try_fs s (mkdir_all_link s rawRoot)))
              (extractArchive tar_of zip_of archivePath rawRoot)))
        of (Some e, s) \<Rightarrow> (Inl e, s)
         | (None, s) \<Rightarrow> (project_root rawRoot subdir s, s))"

section \<open>The check on entry names\<close>

lemma safeJoin_below:
  assumes "is_abs root" "clean root = root" "safeJoin root name = Inr p"
  shows "is_abs p \<and> clean p = p" "prefix (comps root) (comps p)"
proof -
  have j: "is_abs (path_join [root, x])" "clean (path_join [root, x]) = path_join [root, x]" for x
    using path_join_abs[OF assms(1)] by blast+
  have "p = root \<or> (\<exists>x. p = path_join [root, x] \<and> has_prefix p (root @ ''/''))"
    using assms(3) by (auto simp: safeJoin_def Let_def split: if_splits)
  then consider "p = root" | x where "p = path_join [root, x]" "has_prefix p (root @ ''/'')" by blast
  then have "(is_abs p \<and> clean p = p) \<and> prefix (comps root) (comps p)"
  proof cases
    case 2
    obtain t where "p = root @ ''/'' @ t" using has_prefixD[OF 2(2)] by auto
    then have "has_prefix (clean p @ ''/'') (clean root @ ''/'')"
      using 2(1) j[of x] assms(2) by (simp add: has_prefix_def)
    then show ?thesis using clean_prefix_comps[OF assms(1), of p] 2 j by simp
  qed (use assms in simp)
  then show "is_abs p \<and> clean p = p" "prefix (comps root) (comps p)" by blast+
qed

interpretation entry_names: path_guard safeJoin "\<lambda>r. is_abs r \<and> clean r = r"
  using safeJoin_below by unfold_locales blast+

definition no_symlinks :: "build_tar \<Rightarrow> bool" where
  "no_symlinks t = (case t of BNotGzip \<Rightarrow> True
     | BTar entries whole \<Rightarrow> list_all (\<lambda>e. case be_kind e of BSymlink _ \<Rightarrow> False | _ \<Rightarrow> True) entries)"


section \<open>An archive without links stays below its destination\<close>

lemma extract_tar_entry_kept:
  assumes "is_abs root" "clean root = root" "prefix r (comps root)" "kept r s t" "\<forall>l. be_kind e \<noteq> BSymlink l"
  shows "kept r s (snd (extract_tar_entry root e t))"
proof (cases "safeJoin root (be_name e)")
  case (Inr p)
  note g = entry_names.guarded_mkdir[OF conjI[OF assms(1,2)] Inr assms(3,4)] entry_names.guarded_write_in_dir[OF conjI[OF assms(1,2)] Inr assms(3,4)]
  show ?thesis using assms(4,5) g
    by (cases "be_kind e") (auto simp: extract_tar_entry_def Inr intro!: kept_and_then)
qed (use assms(4) in \<open>simp add: extract_tar_entry_def\<close>)

lemma extract_zip_file_kept:
  assumes "is_abs root" "clean root = root" "prefix r (comps root)" "kept r s t"
  shows "kept r s (snd (extract_zip_file root z t))"
proof (cases "safeJoin root (zf_name z)")
  case (Inr p)
  note g = entry_names.guarded_mkdir[OF conjI[OF assms(1,2)] Inr assms(3,4)] entry_names.guarded_mkdir_parent[OF conjI[OF assms(1,2)] Inr assms(3,4)]
    entry_names.guarded_write[OF conjI[OF assms(1,2)] Inr assms(3)]
  show ?thesis using assms(4) g by (auto simp: extract_zip_file_def Inr intro!: kept_and_then)
qed (use assms(4) in \<open>simp add: extract_zip_file_def\<close>)

lemma extract_tar_kept:
  assumes "is_abs dest" "prefix r (comps dest)" "kept r s t" "no_symlinks a"
  shows "kept r s (snd (extract_tar a dest t))"
proof (cases a)
  case (BTar entries whole)
  have e: "\<forall>l. be_kind e \<noteq> BSymlink l" if "e \<in> set entries" for e
    using assms(4) that by (auto simp: no_symlinks_def BTar list_all_iff split: build_kind.splits)
  have "kept r s (snd (fold (\<lambda>e r. and_then r (extract_tar_entry (clean dest) e)) entries (None, t)))"
    by (rule fold_and_then_kept)
      (use assms extract_tar_entry_kept[OF is_abs_clean[OF assms(1)] clean_abs_idem[OF assms(1)]] e in
        \<open>auto simp: comps_clean_abs\<close>)
  then show ?thesis unfolding BTar extract_tar_def build_tar.case by (rule and_then_inv) simp
qed (use assms(3) in \<open>simp add: extract_tar_def\<close>)

lemma extract_zip_kept:
  assumes "is_abs dest" "prefix r (comps dest)" "kept r s t"
  shows "kept r s (snd (extract_zip z dest t))"
proof (cases z)
  case (BZip files)
  show ?thesis unfolding BZip extract_zip_def build_zip.case
    by (rule fold_and_then_kept)
      (use assms extract_zip_file_kept[OF is_abs_clean[OF assms(1)] clean_abs_idem[OF assms(1)]] in
        \<open>auto simp: comps_clean_abs\<close>)
qed (use assms(3) in \<open>simp add: extract_zip_def\<close>)

lemma extractArchive_kept:
  assumes "is_abs dest" "prefix r (comps dest)" "kept r s t" "\<forall>c. no_symlinks (tar_of c)"
  shows "kept r s (snd (extractArchive tar_of zip_of path dest t))"
  using extract_tar_kept[OF assms(1-3)] extract_zip_kept[OF assms(1-3)] assms(3,4)
  by (auto simp: extractArchive_def split: sum.splits)

lemma downloadArchive_kept:
  assumes "is_abs dest" "prefix r (comps dest)" "kept r s t"
  shows "kept r s (snd (downloadArchive get url dest t))"
  using kept_write[OF assms(3,1,2)] assms(3)
  by (auto simp: downloadArchive_def split: archive_reply.splits intro!: kept_and_then)

lemma project_root_below:
  assumes "is_abs raw" "project_root raw subdir s = Inr root"
  shows "prefix (comps raw) (comps root)" "stat_link s root = Inr NDir"
proof -
  show "stat_link s root = Inr NDir"
    using assms(2) by (auto simp: project_root_def Let_def split: if_splits sum.splits node.splits)
  have inner: "prefix (comps raw) (comps d)" if single: "singleSubdir raw s = Some d" for d
  proof -
    obtain name where n: "read_dir_link s raw = Inr [(name, NDir)]" "d = path_join [raw, name]"
      using single by (auto simp: singleSubdir_def split: sum.splits list.splits prod.splits node.splits)
    obtain d' where "read_dir s d' = Inr [(name, NDir)]"
      using n(1) by (auto simp: read_dir_link_def at_place_def split: sum.splits)
    then have "plain_seg name" using read_dir_plain[of s d' "[(name, NDir)]" name NDir] by simp
    then show ?thesis using comps_join_segs(1)[OF assms(1), of "[name]"] n(2) by simp
  qed
  have "rel \<noteq> ''..''" "\<not> has_prefix rel ''../''" if up: "\<not> has_prefix rel ''..''" for rel
  proof -
    show "rel \<noteq> ''..''" using up by (auto simp: has_prefix_def)
    have "has_prefix (''../'' @ t) ''..''" for t by (simp add: has_prefix_def)
    then show "\<not> has_prefix rel ''../''" using up has_prefixD[of rel "''../''"] by metis
  qed
  then show "prefix (comps raw) (comps root)"
    using assms(2) inner path_rel_below[of raw root]
    by (auto simp: project_root_def Let_def split: if_splits sum.splits node.splits option.splits)
qed


text \<open>
  \<^bold>\<open>C11\<close>. Fetching the archive of a build changes nothing outside the directory it is given, whatever the
  server replies, the archive contains and the subdirectory says, as long as that directory is
  reached without symbolic links and the archive has none.  A directory it returns exists and lies
  below the extracted tree.
\<close>

theorem build_archive_confined:
  assumes "is_abs destDir" "no_links s (comps destDir)" "\<forall>c. no_symlinks (tar_of c)"
    "build_fetchArchive get tar_of zip_of url destDir subdir s = (r, s')"
  shows "confined {comps destDir} s s' \<and>
    (\<forall>root. r = Inr root \<longrightarrow> prefix (comps destDir @ [''.extract'']) (comps root) \<and> stat_link s' root = Inr NDir)"
proof -
  let ?r = "comps destDir"
  have pl: "plain_seg ''.extract''" "plain_seg ''.source.archive''" by (simp_all add: plain_seg_def slash_def)
  have raw: "is_abs (path_join [destDir, ''.extract''])" "comps (path_join [destDir, ''.extract'']) = ?r @ [''.extract'']"
    and arc: "is_abs (path_join [destDir, ''.source.archive''])" "prefix ?r (comps (path_join [destDir, ''.source.archive'']))"
    using comps_join_segs[OF assms(1), of "[''.extract'']"] comps_join_segs[OF assms(1), of "[''.source.archive'']"] pl
    by (simp_all del: append_Cons)
  have "kept ?r s (snd (and_then (as_archive APrepare (try_fs s (mkdir_all_link s destDir))) (\<lambda>s.
            and_then (downloadArchive get url (path_join [destDir, ''.source.archive'']) s) (\<lambda>s.
            and_then (as_archive AFs (try_fs s (mkdir_all_link s (path_join [destDir, ''.extract'']))))
              (extractArchive tar_of zip_of (path_join [destDir, ''.source.archive'']) (path_join [destDir, ''.extract'']))))))"
    using kept_refl[OF assms(2)]
    by (intro kept_and_then) (simp_all add: kept_mkdir raw downloadArchive_kept[OF arc] extractArchive_kept[OF raw(1) _ _ assms(3)])
  then have "kept ?r s s' \<and> (\<forall>root. r = Inr root \<longrightarrow> project_root (path_join [destDir, ''.extract'']) subdir s' = Inr root)"
    using assms(4) by (auto simp: build_fetchArchive_def Let_def split: prod.splits option.splits)
  then show ?thesis using project_root_below[OF raw(1)] raw(2) by (auto simp: kept_def)
qed

theorem build_archive_confined_witness:
  "fst (build_fetchArchive (\<lambda>url. ArchiveReply 200 [CHR 0x1F, CHR 0x8B] True)
      (\<lambda>c. BTar [\<lparr> be_name = ''app/main'', be_kind = BReg ''x'' True \<rparr>] True) (\<lambda>c. BNotZip) ''u'' ''/w'' [] \<lparr> nodes = [], denied = [] \<rparr>)
    = Inr ''/w/.extract/app'' \<and>
   confined {comps ''/w''} \<lparr> nodes = [], denied = [] \<rparr> (snd (build_fetchArchive (\<lambda>url. ArchiveReply 200 [CHR 0x1F, CHR 0x8B] True)
      (\<lambda>c. BTar [\<lparr> be_name = ''app/main'', be_kind = BReg ''x'' True \<rparr>] True) (\<lambda>c. BNotZip) ''u'' ''/w'' [] \<lparr> nodes = [], denied = [] \<rparr>))"
proof
  show "fst (build_fetchArchive (\<lambda>url. ArchiveReply 200 [CHR 0x1F, CHR 0x8B] True)
      (\<lambda>c. BTar [\<lparr> be_name = ''app/main'', be_kind = BReg ''x'' True \<rparr>] True) (\<lambda>c. BNotZip) ''u'' ''/w'' [] \<lparr> nodes = [], denied = [] \<rparr>)
    = Inr ''/w/.extract/app''" by code_simp
  have "is_abs ''/w''" by code_simp
  moreover have "no_links \<lparr> nodes = [], denied = [] \<rparr> (comps ''/w'')"
    by (auto simp: no_links_def lookup_def split: if_splits)
  moreover have "\<forall>c. no_symlinks ((\<lambda>c. BTar [\<lparr> be_name = ''app/main'', be_kind = BReg ''x'' True \<rparr>] True) c)"
    by (simp add: no_symlinks_def)
  ultimately show "confined {comps ''/w''} \<lparr> nodes = [], denied = [] \<rparr> (snd (build_fetchArchive (\<lambda>url. ArchiveReply 200 [CHR 0x1F, CHR 0x8B] True)
      (\<lambda>c. BTar [\<lparr> be_name = ''app/main'', be_kind = BReg ''x'' True \<rparr>] True) (\<lambda>c. BNotZip) ''u'' ''/w'' [] \<lparr> nodes = [], denied = [] \<rparr>))"
    by (rule build_archive_confined[OF _ _ _ prod.collapse[symmetric], THEN conjunct1])
qed

section \<open>A link leads out\<close>

lemma walk_dirs:
  "\<forall>q. prefix q (d @ cs) \<longrightarrow> is_dir s q \<Longrightarrow> \<forall>c \<in> set cs. plain_seg c \<Longrightarrow> walk n s d (cs @ ds) = walk n s (d @ cs) ds"
proof (induction cs arbitrary: d)
  case (Cons c cs)
  have "lookup s (d @ [c]) = Some NDir" "plain_seg c" using Cons.prems by (auto simp: is_dir_def)
  then show ?case using Cons.IH[of "d @ [c]"] Cons.prems by (auto simp: plain_seg_def)
qed simp

lemma mkdirs_dirs:
  "\<forall>q. prefix q (d @ cs) \<longrightarrow> is_dir s q \<Longrightarrow> denied s = [] \<Longrightarrow> mkdirs_link s d (cs @ ds) = mkdirs_link s (d @ cs) ds"
proof (induction cs arbitrary: d)
  case (Cons c cs)
  have "lookup s (d @ [c]) = Some NDir" using Cons.prems by (auto simp: is_dir_def)
  then show ?case using Cons.IH[of "d @ [c]"] Cons.prems by (simp add: Let_def)
qed simp


lemma walk_out:
  "\<forall>q. prefix q (d @ [x]) \<longrightarrow> is_dir s q \<Longrightarrow> lookup s (d @ [x, c]) = Some (NLink ''..'') \<Longrightarrow> plain_seg c \<Longrightarrow>
    walk (Suc n) s (d @ [x]) (c # ds) = walk n s d ds"
  by (simp add: plain_seg_def slash_def is_abs_def has_prefix_def)

text \<open>The archive: a link to the directory above, and a file behind the link.\<close>

definition escaping_tar :: "string \<Rightarrow> build_tar" where
  "escaping_tar bytes = BTar [\<lparr> be_name = ''out'', be_kind = BSymlink ''..'' \<rparr>,
     \<lparr> be_name = ''out/hosts'', be_kind = BReg bytes True \<rparr>] True"

definition with_link :: "fs \<Rightarrow> path \<Rightarrow> fs" where
  "with_link s p = s\<lparr> nodes := mput (p @ [''out'']) (NLink ''..'') (nodes s) \<rparr>"

lemma with_link_dirs:
  "\<forall>q. prefix q p \<longrightarrow> is_dir s q \<Longrightarrow> \<forall>q. prefix q p \<longrightarrow> is_dir (with_link s p) q"
  by (auto simp: with_link_def is_dir_def)

lemma join_append: "xs \<noteq> [] \<Longrightarrow> ys \<noteq> [] \<Longrightarrow> join sep (xs @ ys) = join sep xs @ sep @ join sep ys"
proof (induction xs)
  case (Cons x xs)
  then show ?case by (cases "xs = []") (simp_all add: join_Cons)
qed simp

lemma path_join_extends:
  assumes "is_abs root" "clean root = root" "comps root \<noteq> []" "\<forall>s \<in> set segs. plain_seg s" "segs \<noteq> []"
  shows "has_prefix (path_join (root # segs)) (root @ ''/'')"
proof -
  have r: "root = ''/'' @ join ''/'' (comps root)" using assms(1,2) by (metis clean_def render_def)
  have "path_join (root # segs) = ''/'' @ join ''/'' (comps root @ segs)"
    using comps_join_segs[OF assms(1,4)] path_join_abs[OF assms(1), of segs] by (metis clean_def render_def)
  also have "\<dots> = (''/'' @ join ''/'' (comps root)) @ ''/'' @ join ''/'' segs"
    using join_append[OF assms(3,5)] by simp
  finally show ?thesis unfolding r[symmetric] by (simp add: has_prefix_def)
qed

lemma plain_names: "plain_seg ''out''" "plain_seg ''hosts''"
  by (simp_all add: plain_seg_def slash_def)

lemma safeJoin_names:
  assumes "is_abs root" "clean root = root" "comps root \<noteq> []"
  shows "safeJoin root ''out'' = Inr (path_join [root, ''out''])"
    "safeJoin root ''out/hosts'' = Inr (path_join [root, ''out'', ''hosts''])"
proof -
  have c: "clean ''out'' = ''out''" "clean ''out/hosts'' = ''out/hosts''" by code_simp+
  have a: "\<not> is_abs ''out''" "\<not> is_abs ''out/hosts''" "\<not> has_prefix ''out'' ''..''" "\<not> has_prefix ''out/hosts'' ''..''"
    by code_simp+
  have j: "path_join [root, ''out/hosts''] = path_join [root, ''out'', ''hosts'']"
    by (simp add: path_join_def)
  show "safeJoin root ''out'' = Inr (path_join [root, ''out''])"
    "safeJoin root ''out/hosts'' = Inr (path_join [root, ''out'', ''hosts''])"
    using path_join_extends[OF assms, of "[''out'']"] path_join_extends[OF assms, of "[''out'', ''hosts'']"] plain_names
    by (simp_all add: safeJoin_def Let_def c a j slash_def)
qed

lemma escape_link:
  assumes "is_abs root" "clean root = root" "comps root \<noteq> []" "\<forall>q. prefix q (comps root) \<longrightarrow> is_dir s q" "denied s = []"
    "lookup s (comps root @ [''out'']) = None"
  shows "extract_tar_entry root \<lparr> be_name = ''out'', be_kind = BSymlink ''..'' \<rparr> s = (None, with_link s (comps root))"
proof -
  let ?p = "path_join [root, ''out'']"
  have pl: "\<forall>c \<in> set (comps root). plain_seg c" by (rule comps_abs_plain[OF assms(1)])
  have cp: "comps ?p = comps root @ [''out'']" using comps_join_segs(1)[OF assms(1), of "[''out'']"] plain_names by simp
  have cd: "comps (path_dir ?p) = comps root" using comps_parent(1)[OF assms(1), of "[]" "''out''"] plain_names by simp
  have cr: "comps (render True (comps root @ [''out''])) = comps root @ [''out'']"
    by (rule comps_render_rooted(1)) (use pl plain_names in auto)
  have mk: "mkdir_all_link s (path_dir ?p) = Inr s"
    using mkdirs_dirs[of "[]" "comps root" s "[]"] assms(4,5) by (simp add: mkdir_all_link_def cd)
  have pp: "place s ?p = Inr (comps root @ [''out''])"
    using walk_dirs[of "[]" "comps root" s link_limit "[]"] assms(4) pl by (simp add: place_def cp)
  have rm: "remove_link s ?p = Inl ENOENT" using assms(5,6) by (simp add: remove_link_def at_place_def pp remove_file_def cr)
  have ln: "make_link s ''..'' ?p = Inr (with_link s (comps root))"
    using assms(4,5,6) by (simp add: make_link_def at_place_def pp symlink_def cr with_link_def)
  have up: "\<not> is_abs ''..''" by code_simp
  show ?thesis by (simp add: extract_tar_entry_def safeJoin_names(1)[OF assms(1-3)] mk rm ln up as_archive_def slash_def)
qed

lemma escape_file:
  assumes "is_abs root" "clean root = root" "comps root = d @ [x]" "\<forall>q. prefix q (comps root) \<longrightarrow> is_dir s q" "denied s = []"
    "lookup s (comps root @ [''out'']) = Some (NLink ''..'')"
    "lookup s (d @ [''hosts'']) = None \<or> (\<exists>k. lookup s (d @ [''hosts'']) = Some (NFile k))"
  shows "extract_tar_entry root \<lparr> be_name = ''out/hosts'', be_kind = BReg bytes True \<rparr> s =
    (None, s\<lparr> nodes := mput (d @ [''hosts'']) (NFile (Text bytes)) (nodes s) \<rparr>)"
proof -
  let ?p = "path_join [root, ''out'', ''hosts'']"
  have pl: "\<forall>c \<in> set (d @ [x]). plain_seg c" using comps_abs_plain[OF assms(1)] assms(3) by simp
  have dirs: "\<forall>q. prefix q (d @ [x]) \<longrightarrow> is_dir s q" using assms(3,4) by simp
  have cp: "comps ?p = (d @ [x]) @ [''out'', ''hosts'']"
    using comps_join_segs(1)[OF assms(1), of "[''out'', ''hosts'']"] plain_names assms(3) by simp
  have cd: "comps (path_dir ?p) = (d @ [x]) @ [''out'']"
    using comps_parent(1)[OF assms(1), of "[''out'']" "''hosts''"] plain_names assms(3) by simp
  have cr: "comps (render True (d @ [''hosts''])) = d @ [''hosts'']"
    by (rule comps_render_rooted(1)) (use pl plain_names in auto)
  have l: "lookup s (d @ [x, ''out'']) = Some (NLink ''..'')" using assms(3,6) by simp
  note out = walk_out[OF dirs l plain_names(1)]
  have lim: "link_limit = Suc 39" by (simp add: link_limit_def)
  have dd: "is_dir s d" using dirs by simp
  have mk: "mkdir_all_link s (path_dir ?p) = Inr s"
    using mkdirs_dirs[of "[]" "d @ [x]" s "[''out'']"] dirs assms(5) l dd out[of 39 "[]"]
    by (simp add: mkdir_all_link_def cd lim del: walk.simps(2))
  have fo: "follow s ?p = Inr (d @ [''hosts''])"
    using walk_dirs[of "[]" "d @ [x]" s link_limit "[''out'', ''hosts'']"] dirs pl out[of 39 "[''hosts'']"] assms(7)
    by (auto simp: follow_def cp lim simp del: walk.simps(2)) (auto simp: plain_seg_def)
  have wr: "write_link s ?p (Text bytes) = Inr (s\<lparr> nodes := mput (d @ [''hosts'']) (NFile (Text bytes)) (nodes s) \<rparr>)"
    using assms(5,7) dd by (auto simp: write_link_def at_place_def fo write_file_def cr)
  show ?thesis using safeJoin_names(2)[OF assms(1,2)] assms(3)
    by (simp add: extract_tar_entry_def write_in_dir_link_def mk wr as_archive_def)
qed

text \<open>
  An archive whose entry names all pass the check still writes outside its destination.  It
  holds a relative link to the parent directory and a file behind that link.  The extraction
  succeeds, and the file is in the directory above the destination.
\<close>

theorem archive_link_escapes:
  assumes "is_abs dest" "comps dest = d @ [x]" "\<forall>q. prefix q (comps dest) \<longrightarrow> is_dir s q" "denied s = []"
    "lookup s (comps dest @ [''out'']) = None" "lookup s (d @ [''hosts'']) = None \<or> (\<exists>k. lookup s (d @ [''hosts'']) = Some (NFile k))"
  shows "\<exists>s'. extract_tar (escaping_tar bytes) dest s = (None, s') \<and> lookup s' (d @ [''hosts'']) = Some (NFile (Text bytes))"
proof -
  let ?s = "with_link s (comps dest)"
  have r: "is_abs (clean dest)" "clean (clean dest) = clean dest" "comps (clean dest) = d @ [x]"
    using assms(1,2) by (simp_all add: is_abs_clean clean_abs_idem comps_clean_abs)
  have l: "extract_tar_entry (clean dest) \<lparr> be_name = ''out'', be_kind = BSymlink ''..'' \<rparr> s = (None, ?s)"
    using escape_link[OF r(1,2)] r(3) assms(2-5) by simp
  have "extract_tar_entry (clean dest) \<lparr> be_name = ''out/hosts'', be_kind = BReg bytes True \<rparr> ?s =
      (None, ?s\<lparr> nodes := mput (d @ [''hosts'']) (NFile (Text bytes)) (nodes ?s) \<rparr>)"
    by (rule escape_file[OF r]) (use with_link_dirs[OF assms(3)] assms(2,4-6) r(3) in \<open>auto simp: with_link_def is_dir_def\<close>)
  then show ?thesis by (simp add: extract_tar_def escaping_tar_def l)
qed


theorem archive_link_escapes_witness:
  "\<exists>s'. extract_tar (escaping_tar ''x'') ''/w/src'' \<lparr> nodes = [([''w''], NDir), ([''w'', ''src''], NDir)], denied = [] \<rparr> = (None, s') \<and>
     lookup s' [''w'', ''hosts''] = Some (NFile (Text ''x''))"
proof -
  let ?s = "\<lparr> nodes = [([''w''], NDir), ([''w'', ''src''], NDir)], denied = [] \<rparr>"
  have c: "comps ''/w/src'' = [''w''] @ [''src'']" "is_abs ''/w/src''" by code_simp+
  have "prefix q [''w'', ''src''] \<Longrightarrow> is_dir ?s q" for q
    by (auto simp: is_dir_def lookup_def prefix_Cons)
  then have "\<forall>q. prefix q (comps ''/w/src'') \<longrightarrow> is_dir ?s q" by (simp add: c)
  from archive_link_escapes[OF c(2,1) this] show ?thesis by (simp add: c lookup_def)
qed

end
