(* ===== verification/Session_Spec.thy ===== *)
theory Session_Spec
  imports Go_Paths
begin

text \<open>
  What the server asks of a session and how the node reads it: the message types
  of \<^verbatim>\<open>NodeCreateSession\<close> and its parts (the fields the sources read), and the pure
  functions of \<^verbatim>\<open>execution/session.go\<close>, \<^verbatim>\<open>execution/environments.go\<close>,
  \<^verbatim>\<open>execution/worktree.go\<close> and \<^verbatim>\<open>execution/editorconfig.go\<close> that normalise names,
  choose modes, and build arguments and environments.

  The lemmas show that every directory name derived from a wire value is a single
  plain path segment and that dedupe keys identify a message and its attempt.
\<close>

section \<open>Messages\<close>

record NodeLLMConfig =
  llm_endpoint :: string
  llm_apiKey :: string
  llm_model :: string
  llm_protocol :: string
  llm_headers :: "(string, string) gomap"
  llm_extra :: "(string, string) gomap"

record EnvVarSpec =
  ev_name :: string
  ev_value :: string

record NodeGitSpec =
  git_url :: string
  git_branch :: string
  git_commit :: string
  git_username :: string
  git_password :: string
  git_token :: string
  git_create_branch :: bool
  git_new_branch :: string

record MCPServerSpec =
  mcp_name :: string
  mcp_type :: string
  mcp_transport :: string
  mcp_url :: string
  mcp_command :: string
  mcp_args :: "string list"
  mcp_env :: "EnvVarSpec list"
  mcp_headers :: "EnvVarSpec list"

record SkillSpec =
  sk_name :: string
  sk_url :: string
  sk_ref :: string
  sk_path :: string
  sk_username :: string
  sk_password :: string
  sk_token :: string
  sk_source :: string

record NodePluginSpec =
  pl_name :: string
  pl_url :: string

record NodeCreateSession =
  cs_session_id :: string
  cs_task_id :: string
  cs_editor_id :: string
  cs_editor_session_id :: string
  cs_project_id :: string
  cs_provider :: string
  cs_model :: string
  cs_mode :: string
  cs_driver :: string
  cs_guest_image :: string
  cs_env_mode :: string
  cs_env_id :: string
  cs_system_prompt :: string
  cs_interactive :: bool
  cs_defer_start :: bool
  cs_tags :: "(string, string) gomap"
  cs_env :: "EnvVarSpec list"
  cs_llm :: "NodeLLMConfig option"
  cs_git :: "NodeGitSpec option"
  cs_mcps :: "MCPServerSpec list"
  cs_skills :: "SkillSpec list"
  cs_plugins :: "NodePluginSpec list"
  cs_active_skills :: "string list"
  cs_active_plugins :: "string list"

record NodeSessionInput =
  in_session_id :: string
  in_kind :: string
  in_text :: string
  in_client_message_id :: string
  in_delivery_attempt :: "32 word"
  in_model :: string
  in_mode :: string
  in_llm :: "NodeLLMConfig option"

text \<open>Indexing a nil or missing map entry yields the empty string.\<close>

definition tag :: "NodeCreateSession \<Rightarrow> string \<Rightarrow> string" where
  "tag spec k = (case mget (cs_tags spec) k of None \<Rightarrow> [] | Some v \<Rightarrow> v)"

record sessionOptions =
  workRoot :: string
  providers :: "string list"
  docker :: bool
  systemEnvAllowed :: bool

section \<open>Names\<close>

definition session_char :: "char \<Rightarrow> bool" where
  "session_char c \<longleftrightarrow> byte_in 97 122 c \<or> byte_in 65 90 c \<or> byte_in 48 57 c \<or> c = CHR ''-'' \<or> c = CHR ''_''"

definition sanitize_rune :: "string \<Rightarrow> char" where
  "sanitize_rune r = (case r of [c] \<Rightarrow> if session_char c then c else CHR ''-'' | _ \<Rightarrow> CHR ''-'')"

definition trim_char :: "char \<Rightarrow> string \<Rightarrow> string" where
  "trim_char c s = rev (dropWhile (\<lambda>x. x = c) (rev (dropWhile (\<lambda>x. x = c) s)))"

definition sanitizeSessionDir :: "string \<Rightarrow> string" where
  "sanitizeSessionDir s =
    (let out = trim_char CHR ''-'' (map sanitize_rune (runes s)) in if out = [] then ''session'' else out)"

definition safeSubdirSegment :: "string \<Rightarrow> string" where
  "safeSubdirSegment name =
    (let trimmed = trim_space name in
     if trimmed = [] then []
     else if CHR ''/'' \<in> set trimmed \<or> CHR 0x5C \<in> set trimmed \<or> trimmed = ''.'' \<or> trimmed = ''..''
        \<or> contains trimmed ''..'' then []
     else if path_base trimmed \<noteq> trimmed then []
     else trimmed)"

definition normalizeActivationNames :: "string list \<Rightarrow> string list" where
  "normalizeActivationNames names = filter (\<lambda>n. n \<noteq> []) (map trim_space names)"

definition messageKey :: "NodeSessionInput \<Rightarrow> string" where
  "messageKey inp =
    (let messageID = trim_space (in_client_message_id inp);
         attempt = (if in_delivery_attempt inp = 0 then 1 else in_delivery_attempt inp)
     in if messageID = [] then [] else messageID @ '':'' @ show_nat (unat attempt))"

definition resumeThreadHint :: "NodeCreateSession option \<Rightarrow> string" where
  "resumeThreadHint spec = (case spec of None \<Rightarrow> [] | Some s \<Rightarrow> trim_space (tag s ''resume_thread_id''))"

definition normalizeProvider :: "string \<Rightarrow> string" where
  "normalizeProvider provider =
    (let p = to_lower (trim_space provider) in
     if p \<in> {''claude'', ''claude-code'', ''claude_code''} then ''claude''
     else if p = ''codex'' then ''codex''
     else if p \<in> {''gemini'', ''gemini-cli'', ''gemini_cli''} then ''gemini''
     else if p \<in> {''opencode'', ''open-code'', ''open_code''} then ''opencode''
     else if p \<in> {''cursor'', ''cursor-agent'', ''cursor_agent''} then ''cursor''
     else p)"

definition hasProvider :: "sessionOptions \<Rightarrow> string \<Rightarrow> bool" where
  "hasProvider opts provider \<longleftrightarrow> (\<exists>p \<in> set (providers opts). equal_fold p (trim_space provider))"

section \<open>Modes\<close>

definition envModeIsolated :: string where "envModeIsolated = ''isolated''"
definition envModeSystem :: string where "envModeSystem = ''system''"
definition envModeShared :: string where "envModeShared = ''shared''"
definition workspaceModeWorktree :: string where "workspaceModeWorktree = ''worktree''"
definition workspaceModeExternal :: string where "workspaceModeExternal = ''external''"
definition workspaceModeFresh :: string where "workspaceModeFresh = ''fresh''"

definition isSystemEnv :: "NodeCreateSession \<Rightarrow> bool" where
  "isSystemEnv spec \<longleftrightarrow> equal_fold (trim_space (cs_env_mode spec)) envModeSystem"

definition isSharedEnv :: "NodeCreateSession \<Rightarrow> bool" where
  "isSharedEnv spec \<longleftrightarrow> equal_fold (trim_space (cs_env_mode spec)) envModeShared"

definition ownsHomeResources :: "NodeCreateSession \<Rightarrow> bool" where
  "ownsHomeResources spec \<longleftrightarrow> \<not> isSystemEnv spec \<and> \<not> isSharedEnv spec"

definition workspaceMode :: "NodeCreateSession \<Rightarrow> string" where
  "workspaceMode spec = to_lower (trim_space (tag spec ''workspace_mode''))"

definition env_id_tag :: "NodeCreateSession \<Rightarrow> string" where
  "env_id_tag spec = trim_space (tag spec ''env_id'')"

definition usesWorktree :: "NodeCreateSession \<Rightarrow> bool" where
  "usesWorktree spec \<longleftrightarrow> workspaceMode spec = workspaceModeWorktree \<and> env_id_tag spec \<noteq> []"

definition isASCIILetter :: "char \<Rightarrow> bool" where
  "isASCIILetter b \<longleftrightarrow> byte_in 97 122 b \<or> byte_in 65 90 b"

definition nativeNodePath :: "bool \<Rightarrow> string \<Rightarrow> string" where
  "nativeNodePath windows p =
    (if \<not> windows then p
     else case p of
         a # b # c # r \<Rightarrow> if a = CHR ''/'' \<and> isASCIILetter b \<and> c = CHR '':'' then b # c # r else p
       | _ \<Rightarrow> p)"

text \<open>The path functions are those of a POSIX host, so \<open>nativeNodePath\<close> is the identity here.\<close>

definition importedCheckoutPath :: "NodeCreateSession \<Rightarrow> string" where
  "importedCheckoutPath spec =
    (let p = nativeNodePath False (trim_space (tag spec ''external_workdir'')) in
     if p = [] \<or> \<not> is_abs p \<or> CHR 0x00 \<in> set p then []
     else if ''..'' \<in> set (filter (\<lambda>w. w \<noteq> []) (split_char slash p)) then []
     else clean p)"

definition externalWorktreePath :: "NodeCreateSession \<Rightarrow> string" where
  "externalWorktreePath spec =
    (if workspaceMode spec \<noteq> workspaceModeExternal \<and> workspaceMode spec \<noteq> workspaceModeFresh then []
     else importedCheckoutPath spec)"

definition envDir :: "sessionOptions \<Rightarrow> string \<Rightarrow> string" where
  "envDir opts envID = path_join [workRoot opts, ''envs'', sanitizeSessionDir envID]"

definition envRepoDir :: "sessionOptions \<Rightarrow> string \<Rightarrow> string" where
  "envRepoDir opts envID = path_join [envDir opts envID, ''repo'']"

definition envWorktreeDir :: "sessionOptions \<Rightarrow> string \<Rightarrow> string \<Rightarrow> string" where
  "envWorktreeDir opts envID taskID = path_join [envDir opts envID, ''worktrees'', sanitizeSessionDir taskID]"

section \<open>Arguments and environments\<close>

definition promptArgs ::
  "string \<Rightarrow> string \<Rightarrow> string \<Rightarrow> string \<Rightarrow> string \<Rightarrow> string \<Rightarrow> string list \<Rightarrow> string list \<Rightarrow> bool \<Rightarrow> string list" where
  "promptArgs provider model mode stateRoot workspace home activeSkills activePlugins systemEnv =
    [''prompt'', ''--provider'', provider, ''--state-root'', stateRoot, ''--workspace'', workspace, ''--home'', home]
    @ (if trim_space model \<noteq> [] then [''--model'', trim_space model] else [])
    @ (if trim_space mode \<noteq> [] then [''--mode'', trim_space mode] else [])
    @ (if systemEnv then [''--system-env''] else [])
    @ concat (map (\<lambda>s. if trim_space s \<noteq> [] then [''--skill'', trim_space s] else []) activeSkills)
    @ concat (map (\<lambda>p. if trim_space p \<noteq> [] then [''--plugin'', trim_space p] else []) activePlugins)"

definition llmEnv :: "NodeLLMConfig \<Rightarrow> string list" where
  "llmEnv llm =
    (let endpoint = trim_space (llm_endpoint llm); key = trim_space (llm_apiKey llm); model = trim_space (llm_model llm) in
     (if endpoint \<noteq> [] then
        [''LLM_API_ENDPOINT='' @ endpoint, ''OPENAI_BASE_URL='' @ endpoint, ''ANTHROPIC_BASE_URL='' @ endpoint] else [])
     @ (if key \<noteq> [] then
        [''LLM_API_KEY='' @ key, ''OPENAI_API_KEY='' @ key, ''ANTHROPIC_API_KEY='' @ key, ''ANTHROPIC_AUTH_TOKEN='' @ key] else [])
     @ (if model \<noteq> [] then [''LLM_MODEL='' @ model, ''ANTHROPIC_MODEL='' @ model] else [])
     @ concat (map (\<lambda>(k, v). if trim_space k \<noteq> [] then [trim_space k @ ''='' @ v] else []) (llm_extra llm)))"

definition buildEnv ::
  "string list \<Rightarrow> string \<Rightarrow> string \<Rightarrow> NodeCreateSession \<Rightarrow> NodeLLMConfig option \<Rightarrow> string list" where
  "buildEnv environ workDir home spec llm =
    environ
    @ [''WORKSPACE='' @ workDir, ''HOME='' @ home, ''USERPROFILE='' @ home]
    @ concat (map (\<lambda>item. if trim_space (ev_name item) = [] then [] else [trim_space (ev_name item) @ ''='' @ ev_value item]) (cs_env spec))
    @ (case llm of None \<Rightarrow> [] | Some l \<Rightarrow> llmEnv l)"

section \<open>Derived names are plain segments\<close>

lemma session_char_ascii: "session_char c \<Longrightarrow> is_ascii c"
  by (auto simp: session_char_def byte_in_def is_ascii_def)

lemma sanitize_rune_char: "session_char (sanitize_rune r)"
  by (auto simp: sanitize_rune_def session_char_def split: list.splits)

lemma set_trim_char: "set (trim_char c s) \<subseteq> set s"
  by (auto simp: trim_char_def dest!: set_dropWhileD)

lemma trim_char_hd: "trim_char c s \<noteq> [] \<Longrightarrow> hd (trim_char c s) \<noteq> c"
proof -
  let ?t = "dropWhile (\<lambda>x. x = c) s"
  assume ne: "trim_char c s \<noteq> []"
  have p: "prefix (trim_char c s) ?t"
    using suffix_dropWhile[of "\<lambda>x. x = c" "rev ?t"] by (simp add: trim_char_def suffix_to_prefix)
  with ne obtain r where "?t = trim_char c s @ r" by (auto simp: prefix_def)
  then have "?t \<noteq> []" "hd ?t = hd (trim_char c s)" using ne by auto
  then show ?thesis using hd_dropWhile[of "\<lambda>x. x = c" s] by simp
qed

lemma trim_char_last: "trim_char c s \<noteq> [] \<Longrightarrow> last (trim_char c s) \<noteq> c"
  using hd_dropWhile[of "\<lambda>x. x = c" "rev (dropWhile (\<lambda>x. x = c) s)"]
  by (auto simp: trim_char_def last_rev)

lemma dropWhile_hd_id: "s = [] \<or> hd s \<noteq> c \<Longrightarrow> dropWhile (\<lambda>x. x = c) s = s"
  by (cases s) auto

lemma trim_char_id: "s = [] \<or> hd s \<noteq> c \<and> last s \<noteq> c \<Longrightarrow> trim_char c s = s"
  by (auto simp: trim_char_def dropWhile_hd_id hd_rev)

lemma sanitize_chars: "c \<in> set (sanitizeSessionDir s) \<Longrightarrow> session_char c"
proof -
  assume c: "c \<in> set (sanitizeSessionDir s)"
  have "session_char d" if "d \<in> set (trim_char CHR ''-'' (map sanitize_rune (runes s)))" for d
    using that set_trim_char[of "CHR ''-''" "map sanitize_rune (runes s)"] sanitize_rune_char by auto
  moreover have "\<forall>d \<in> set ''session''. session_char d"
    by (simp add: session_char_def byte_in_def)
  ultimately show ?thesis
    using c unfolding sanitizeSessionDir_def Let_def
    by (cases "trim_char CHR ''-'' (map sanitize_rune (runes s)) = []") (simp_all only: if_True if_False simp_thms)
qed

lemma sanitize_ne: "sanitizeSessionDir s \<noteq> []"
  by (simp add: sanitizeSessionDir_def Let_def)

lemma plain_seg_chars: "s \<noteq> [] \<Longrightarrow> \<forall>c \<in> set s. session_char c \<Longrightarrow> plain_seg s"
  by (auto simp: plain_seg_def session_char_def byte_in_def slash_def)

lemma plain_sanitize [simp]: "plain_seg (sanitizeSessionDir s)"
  using plain_seg_chars sanitize_ne sanitize_chars by blast

text \<open>Sanitising is idempotent: a sanitised name names the same directory.\<close>

lemma sanitize_id:
  assumes "s \<noteq> []" "\<forall>c \<in> set s. session_char c" "hd s \<noteq> CHR ''-''" "last s \<noteq> CHR ''-''"
  shows "sanitizeSessionDir s = s"
proof -
  have "runes s = map (\<lambda>c. [c]) s" using assms(2) session_char_ascii by (blast intro: runes_ascii)
  then have "map sanitize_rune (runes s) = s"
    using assms(2) by (simp add: comp_def sanitize_rune_def map_idI)
  then show ?thesis using assms by (simp add: sanitizeSessionDir_def Let_def trim_char_id)
qed

lemma sanitize_ends: "hd (sanitizeSessionDir s) \<noteq> CHR ''-''" "last (sanitizeSessionDir s) \<noteq> CHR ''-''"
  by (simp_all add: sanitizeSessionDir_def Let_def trim_char_hd trim_char_last)

lemma sanitize_idem [simp]: "sanitizeSessionDir (sanitizeSessionDir s) = sanitizeSessionDir s"
  using sanitize_id sanitize_ne sanitize_chars sanitize_ends by blast

lemma safeSubdir_plain: "safeSubdirSegment name \<noteq> [] \<Longrightarrow> plain_seg (safeSubdirSegment name)"
  by (auto simp: safeSubdirSegment_def plain_seg_def slash_def Let_def split: if_splits)

lemma plain_lits [simp]:
  "plain_seg ''envs''" "plain_seg ''repo''" "plain_seg ''worktrees''" "plain_seg ''tasks''"
  "plain_seg ''.agent-compose''" "plain_seg ''sessions''" "plain_seg ''state''" "plain_seg ''skills''"
  "plain_seg ''plugins''" "plain_seg ''home''" "plain_seg ''agents''" "plain_seg ''mcp''"
  "plain_seg ''config.json''" "plain_seg ''activation.json''" "plain_seg ''system-prompts''"
  "plain_seg ''system-prompt.txt''" "plain_seg ''.agents''" "plain_seg ''README.md''"
  by (simp_all add: plain_seg_def slash_def)

lemma envDir_below:
  assumes "is_abs (workRoot opts)"
  shows "comps (envDir opts e) = comps (workRoot opts) @ [''envs'', sanitizeSessionDir e]" "is_abs (envDir opts e)"
  using comps_join_segs[OF assms, of "[''envs'', sanitizeSessionDir e]"] by (simp_all add: envDir_def)

section \<open>Dedupe keys\<close>

definition effective_attempt :: "NodeSessionInput \<Rightarrow> 32 word" where
  "effective_attempt i = (if in_delivery_attempt i = 0 then 1 else in_delivery_attempt i)"

lemma digits_no_colon: "CHR '':'' \<notin> set (show_nat n)"
  using show_nat_digits[of "CHR '':''" n] by (auto simp: is_digit_def)

lemma append_sep_inj:
  assumes "c \<notin> set x" "c \<notin> set y" "a @ c # x = b @ c # y"
  shows "a = b \<and> x = y"
proof -
  have "takeWhile (\<lambda>d. d \<noteq> c) (rev (a @ c # x)) = rev x" "takeWhile (\<lambda>d. d \<noteq> c) (rev (b @ c # y)) = rev y"
    using assms(1,2) by (auto simp: takeWhile_append)
  with assms(3) have "x = y" by simp
  with assms(3) show ?thesis by simp
qed

lemma messageKey_inj:
  assumes "trim_space (in_client_message_id i) \<noteq> []" "messageKey i = messageKey j"
  shows "trim_space (in_client_message_id i) = trim_space (in_client_message_id j) \<and>
    effective_attempt i = effective_attempt j"
proof -
  have j: "trim_space (in_client_message_id j) \<noteq> []"
    using assms by (auto simp: messageKey_def Let_def split: if_splits)
  have "trim_space (in_client_message_id i) @ CHR '':'' # show_nat (unat (effective_attempt i))
      = trim_space (in_client_message_id j) @ CHR '':'' # show_nat (unat (effective_attempt j))"
    using assms j by (simp add: messageKey_def Let_def effective_attempt_def)
  from append_sep_inj[OF digits_no_colon digits_no_colon this] show ?thesis
    by (auto intro: unsigned_word_eqI)
qed

section \<open>Imported checkouts\<close>

lemma importedCheckoutPath_shape:
  "importedCheckoutPath spec \<noteq> [] \<Longrightarrow>
    is_abs (importedCheckoutPath spec) \<and> (\<forall>c \<in> set (comps (importedCheckoutPath spec)). plain_seg c)"
  by (auto simp: importedCheckoutPath_def Let_def is_abs_clean comps_clean_abs comps_abs_plain split: if_splits)

section \<open>A session to run the examples on\<close>

definition demo_spec :: NodeCreateSession where
  "demo_spec = \<lparr> cs_session_id = ''s1'', cs_task_id = ''t1'', cs_editor_id = [], cs_editor_session_id = [],
     cs_project_id = [], cs_provider = ''claude'', cs_model = [], cs_mode = [], cs_driver = [], cs_guest_image = [],
     cs_env_mode = [], cs_env_id = [], cs_system_prompt = [], cs_interactive = True, cs_defer_start = False,
     cs_tags = [], cs_env = [], cs_llm = None, cs_git = None, cs_mcps = [], cs_skills = [], cs_plugins = [],
     cs_active_skills = [], cs_active_plugins = [] \<rparr>"

definition demo_opts :: sessionOptions where
  "demo_opts = \<lparr> workRoot = ''/w'', providers = [''claude''], docker = False, systemEnvAllowed = False \<rparr>"

end
