(* ===== verification/Editor_Config.thy ===== *)
theory Editor_Config
  imports File_System Session_Spec "HOL-Library.List_Lexorder" "HOL-Library.Char_ord"
begin

text \<open>
  The configuration files a session's editor reads: \<^verbatim>\<open>execution/editorconfig.go\<close> without the
  resource synchronisation.

  Every writer is a function on the file system.  Two arguments stand for
  \<^verbatim>\<open>encoding/json\<close>: \<open>parse\<close> reads a text as a JSON value, \<open>marshal\<close> prints one.
  \<^verbatim>\<open>%q\<close> is \<open>go_quote\<close>; bytes above 127 are taken to be printable text.  The order
  \<^verbatim>\<open>sort.Slice\<close> gives servers with the same name is the order they came in.
\<close>

datatype cfg_error = CfgFs fs_error | CfgPanic

type_synonym cfg_outcome = "cfg_error option \<times> fs"

definition as_cfg :: "fs_outcome \<Rightarrow> cfg_outcome" where
  "as_cfg r = (map_option CfgFs (fst r), snd r)"

section \<open>Text\<close>

definition hex_lower :: "nat \<Rightarrow> char" where
  "hex_lower n = ''0123456789abcdef'' ! n"

definition quote_char :: "char \<Rightarrow> string" where
  "quote_char c =
    (if c = CHR 0x22 then [CHR 0x5C, CHR 0x22]
     else if c = CHR 0x5C then [CHR 0x5C, CHR 0x5C]
     else if c = CHR 0x07 then [CHR 0x5C, CHR ''a'']
     else if c = CHR 0x08 then [CHR 0x5C, CHR ''b'']
     else if c = CHR 0x0C then [CHR 0x5C, CHR ''f'']
     else if c = CHR 0x0A then [CHR 0x5C, CHR ''n'']
     else if c = CHR 0x0D then [CHR 0x5C, CHR ''r'']
     else if c = CHR 0x09 then [CHR 0x5C, CHR ''t'']
     else if c = CHR 0x0B then [CHR 0x5C, CHR ''v'']
     else if (of_char c :: nat) < 32 \<or> (of_char c :: nat) = 127
       then [CHR 0x5C, CHR ''x'', hex_lower (of_char c div 16), hex_lower (of_char c mod 16)]
     else [c])"

definition go_quote :: "string \<Rightarrow> string" where
  "go_quote s = [CHR 0x22] @ concat (map quote_char s) @ [CHR 0x22]"

definition text_of :: "(json \<Rightarrow> string) \<Rightarrow> content \<Rightarrow> string" where
  "text_of marshal c = (case c of Text t \<Rightarrow> t | Json v \<Rightarrow> marshal v)"

text \<open>\<^verbatim>\<open>existing, _ := os.ReadFile(path)\<close>: an unreadable file reads as empty.\<close>

definition read_text :: "(json \<Rightarrow> string) \<Rightarrow> fs \<Rightarrow> string \<Rightarrow> string" where
  "read_text marshal s p = (case read_file s p of Inl _ \<Rightarrow> [] | Inr c \<Rightarrow> text_of marshal c)"

section \<open>Managed blocks\<close>

definition replaceManagedTextBlock :: "string \<Rightarrow> string \<Rightarrow> string \<Rightarrow> string \<Rightarrow> string" where
  "replaceManagedTextBlock existing start fin block =
    (case (index_of existing start, index_of existing fin) of
       (Some s, Some e) \<Rightarrow>
         if s < e then
           (let before = take s existing; after = drop (e + length fin) existing in
            if block = [] then trim_right before nl @ trim_left after nl else before @ block @ after)
         else if block = [] then existing
         else if trim_space existing = [] then block
         else trim_right existing nl @ nl @ nl @ block @ nl
     | _ \<Rightarrow>
         if block = [] then existing
         else if trim_space existing = [] then block
         else trim_right existing nl @ nl @ nl @ block @ nl)"

definition extractManagedTextBlock :: "string \<Rightarrow> string \<Rightarrow> string \<Rightarrow> string" where
  "extractManagedTextBlock existing start fin =
    (case (index_of existing start, index_of existing fin) of
       (Some s, Some e) \<Rightarrow> if s < e then take (e + length fin - s) (drop s existing) else []
     | _ \<Rightarrow> [])"

definition codexManagedMCPStart :: string where
  "codexManagedMCPStart = ''# agent-compose managed mcp start''"

definition codexManagedMCPEnd :: string where
  "codexManagedMCPEnd = ''# agent-compose managed mcp end''"

definition llmKeyEnvVar :: string where
  "llmKeyEnvVar = ''AGENT_COMPOSE_LLM_KEY''"

section \<open>MCP servers\<close>

definition isRemoteMCP :: "MCPServerSpec \<Rightarrow> bool" where
  "isRemoteMCP mcp \<longleftrightarrow> \<not> equal_fold (trim_space (mcp_type mcp)) ''local'' \<and>
     trim_space (mcp_command mcp) = [] \<and> trim_space (mcp_url mcp) \<noteq> []"

definition resolve_url :: "string \<Rightarrow> MCPServerSpec \<Rightarrow> MCPServerSpec" where
  "resolve_url origin mcp =
    (let url = trim_space (mcp_url mcp) in
     if \<not> isRemoteMCP mcp \<or> url = [] \<or> \<not> has_prefix url ''/'' then mcp
     else mcp\<lparr> mcp_url := origin @ url \<rparr>)"

text \<open>\<open>origin\<close> is what \<^verbatim>\<open>gatewayOrigin()\<close> returns, empty when there is none.\<close>

definition resolveMCPURLs :: "string \<Rightarrow> MCPServerSpec list \<Rightarrow> MCPServerSpec list" where
  "resolveMCPURLs origin mcps =
    (if mcps = [] \<or> trim_space origin = [] then mcps
     else map (resolve_url (trim_right (trim_space origin) ''/'')) mcps)"

definition normalizeRuntimeTransport :: "string \<Rightarrow> string \<Rightarrow> string" where
  "normalizeRuntimeTransport transport url =
    (let t = to_lower (trim_space transport);
         trimmed = takeWhile (\<lambda>c. c \<notin> set ''?#'') (to_lower (trim_space url))
     in if t = ''sse'' then ''sse''
        else if t \<in> set [''http'', ''streamable_http'', ''streamable-http''] then ''http''
        else if has_suffix (trim_right trimmed ''/'') ''/sse'' then ''sse'' else ''http'')"

definition runtimeEnvMap :: "EnvVarSpec list \<Rightarrow> json option" where
  "runtimeEnvMap items =
    (let out = fold (\<lambda>item m. let name = trim_space (ev_name item) in
           if name = [] then m else mput name (JObj [(''value'', JStr (ev_value item))]) m) items []
     in if out = [] then None else Some (JObj out))"

definition opt_field :: "string \<Rightarrow> json option \<Rightarrow> (string \<times> json) list" where
  "opt_field k v = (case v of None \<Rightarrow> [] | Some x \<Rightarrow> [(k, x)])"

definition list_field :: "string \<Rightarrow> string list \<Rightarrow> (string \<times> json) list" where
  "list_field k xs = (if xs = [] then [] else [(k, JArr (map JStr xs))])"

definition runtime_entry :: "MCPServerSpec \<Rightarrow> json" where
  "runtime_entry mcp =
    (if isRemoteMCP mcp
     then JObj ([(''type'', JStr ''remote''),
                 (''transport'', JStr (normalizeRuntimeTransport (mcp_transport mcp) (mcp_url mcp))),
                 (''url'', JStr (trim_space (mcp_url mcp)))] @ opt_field ''headers'' (runtimeEnvMap (mcp_headers mcp)))
     else JObj ([(''type'', JStr ''local''), (''command'', JStr (trim_space (mcp_command mcp)))]
                @ list_field ''args'' (mcp_args mcp) @ opt_field ''env'' (runtimeEnvMap (mcp_env mcp))))"

text \<open>One entry per trimmed name, the last server of a name wins.\<close>

definition servers_by_name :: "(MCPServerSpec \<Rightarrow> json) \<Rightarrow> MCPServerSpec list \<Rightarrow> (string, json) gomap" where
  "servers_by_name entry mcps = fold (\<lambda>mcp m. let name = trim_space (mcp_name mcp) in
     if name = [] then m else mput name (entry mcp) m) mcps []"

definition runtimeMCPConfigPath :: "string \<Rightarrow> string" where
  "runtimeMCPConfigPath stateRoot = path_join [stateRoot, ''agents'', ''mcp'', ''config.json'']"

definition writeRuntimeMCPConfig :: "string \<Rightarrow> MCPServerSpec list \<Rightarrow> fs \<Rightarrow> fs_outcome" where
  "writeRuntimeMCPConfig stateRoot mcps s =
    (let path = runtimeMCPConfigPath stateRoot; servers = servers_by_name runtime_entry mcps
     in if servers = [] then try_remove s path
        else write_in_dir s path (Json (JObj [(''mcps'', JObj servers)])))"

definition agentSystemPromptPath :: "string \<Rightarrow> string" where
  "agentSystemPromptPath stateRoot = path_join [stateRoot, ''agents'', ''system-prompts'', ''system-prompt.txt'']"

definition writeAgentSystemPrompt :: "string \<Rightarrow> string \<Rightarrow> fs \<Rightarrow> fs_outcome" where
  "writeAgentSystemPrompt stateRoot prompt s = write_in_dir s (agentSystemPromptPath stateRoot) (Text prompt)"

section \<open>Codex\<close>

definition codexConfigPath :: "string \<Rightarrow> string" where
  "codexConfigPath home = path_join [home, ''.codex'', ''config.toml'']"

definition normalizeWireAPI :: "string \<Rightarrow> string" where
  "normalizeWireAPI protocol =
    (let p = to_lower (trim_space protocol) in
     if p \<in> set [''chat'', ''chat_completions'', ''chat-completions''] then ''chat''
     else if p \<in> set [''responses'', []] then ''responses''
     else p)"

definition codexModelCatalogFilename :: string where
  "codexModelCatalogFilename = ''ai-lubricant-model-catalog.json''"

record codexCatalogRow =
  row_name :: string
  row_model :: string
  row_context :: int

definition catalog_row :: "json \<Rightarrow> codexCatalogRow option" where
  "catalog_row v = (case v of
      JNull \<Rightarrow> Some \<lparr> row_name = [], row_model = [], row_context = 0 \<rparr>
    | JObj kvs \<Rightarrow>
        (case (struct_field ''name'' kvs [], struct_field ''model'' kvs [], int_field ''context_window'' kvs 0) of
           (Some n, Some m, Some c) \<Rightarrow> Some \<lparr> row_name = n, row_model = m, row_context = c \<rparr>
         | _ \<Rightarrow> None)
    | _ \<Rightarrow> None)"

definition catalog_rows :: "json \<Rightarrow> codexCatalogRow list option" where
  "catalog_rows v = (case v of JNull \<Rightarrow> Some [] | JArr vs \<Rightarrow> those (map catalog_row vs) | _ \<Rightarrow> None)"

definition catalog_entry :: "nat \<Rightarrow> codexCatalogRow \<Rightarrow> json" where
  "catalog_entry i row =
    (let name = (if trim_space (row_name row) = [] then row_model row else trim_space (row_name row));
         ctx = (if row_context row \<le> 0 then 128000 else row_context row)
     in JObj [(''slug'', JStr (row_model row)), (''display_name'', JStr name), (''description'', JStr name),
              (''context_window'', JNum ctx), (''max_context_window'', JNum ctx), (''priority'', JNum (1000 + int i)),
              (''additional_speed_tiers'', JArr []), (''service_tiers'', JArr []),
              (''availability_nux'', JNull), (''upgrade'', JNull)])"

definition catalog_entries :: "codexCatalogRow list \<Rightarrow> json list" where
  "catalog_entries rows = map (\<lambda>(i, row). catalog_entry i row)
     (filter (\<lambda>(i, row). trim_space (row_model row) \<noteq> []) (enumerate 0 rows))"

text \<open>The head line, empty when there is no catalog or it could not be written.\<close>

definition writeCodexModelCatalog :: "(string \<Rightarrow> json option) \<Rightarrow> string \<Rightarrow> string \<Rightarrow> fs \<Rightarrow> string \<times> fs" where
  "writeCodexModelCatalog parse home raw s =
    (if trim_space raw = [] then ([], s)
     else case Option.bind (parse (trim_space raw)) catalog_rows of
         None \<Rightarrow> ([], s)
       | Some rows \<Rightarrow>
           if catalog_entries rows = [] then ([], s)
           else let dir = path_dir (codexConfigPath home) in
             case mkdir_all s dir of
               Inl _ \<Rightarrow> ([], s)
             | Inr s' \<Rightarrow>
                 (case write_file s' (path_join [dir, codexModelCatalogFilename])
                     (Json (JObj [(''models'', JArr (catalog_entries rows))])) of
                    Inl _ \<Rightarrow> ([], s')
                  | Inr s'' \<Rightarrow> (''model_catalog_json = '' @ go_quote codexModelCatalogFilename @ nl, s'')))"

definition existingModelCatalogField :: "string \<Rightarrow> string" where
  "existingModelCatalogField existing =
    (case filter (\<lambda>line. has_prefix (trim_space line) ''model_catalog_json'') (split_char CHR 0x0A existing) of
       [] \<Rightarrow> [] | line # _ \<Rightarrow> line @ nl)"

definition extra_of :: "NodeLLMConfig \<Rightarrow> string \<Rightarrow> string" where
  "extra_of llm k = (case mget (llm_extra llm) k of None \<Rightarrow> [] | Some v \<Rightarrow> v)"

definition codex_provider_section :: "string \<Rightarrow> string \<Rightarrow> string" where
  "codex_provider_section baseURL wireAPI =
    concat (map (\<lambda>l. l @ nl)
      [[], ''[model_providers.agent_compose]'', ''name = '' @ go_quote ''agent-compose'',
       ''base_url = '' @ go_quote baseURL, ''env_key = '' @ go_quote llmKeyEnvVar, ''wire_api = '' @ go_quote wireAPI,
       ''request_max_retries = 30'', ''stream_max_retries = 50'', ''stream_idle_timeout_ms = 120000'', [],
       ''[shell_environment_policy]'', ''inherit = '' @ go_quote ''all'', [],
       ''[history]'', ''persistence = '' @ go_quote ''save-all''])"

definition writeCodexRuntimeConfig ::
  "(string \<Rightarrow> json option) \<Rightarrow> (json \<Rightarrow> string) \<Rightarrow> string \<Rightarrow> NodeLLMConfig \<Rightarrow> fs \<Rightarrow> fs_outcome" where
  "writeCodexRuntimeConfig parse marshal home llm s =
    (let baseURL = trim_right (trim_space (llm_endpoint llm)) ''/'';
         model = trim_space (llm_model llm);
         path = codexConfigPath home
     in if baseURL = [] then (None, s)
        else and_then (try_fs s (mkdir_all s (path_dir path))) (\<lambda>s.
          let effort = trim_space (extra_of llm ''REASONING_EFFORT'');
              existing = read_text marshal s path;
              managed = extractManagedTextBlock existing codexManagedMCPStart codexManagedMCPEnd;
              (catalogHead, s) = writeCodexModelCatalog parse home (extra_of llm ''CODEX_MODEL_CATALOG'') s;
              head = ''model_provider = '' @ go_quote ''agent_compose'' @ nl @ ''model = '' @ go_quote model @ nl
                @ (if effort \<noteq> [] then ''model_reasoning_effort = '' @ go_quote effort @ nl else [])
                @ (if catalogHead \<noteq> [] then catalogHead else existingModelCatalogField existing)
                @ codex_provider_section baseURL (normalizeWireAPI (llm_protocol llm));
              out = head @ (if managed \<noteq> [] then nl @ managed @ nl else [])
          in try_fs s (write_file s path (Text out))))"

definition codex_pairs :: "EnvVarSpec list \<Rightarrow> string" where
  "codex_pairs items = concat (map (\<lambda>h. ev_name h @ '' = '' @ go_quote (ev_value h) @ nl) items)"

definition codex_server :: "(json \<Rightarrow> string) \<Rightarrow> MCPServerSpec \<Rightarrow> string" where
  "codex_server marshal mcp =
    (let name = trim_space (mcp_name mcp) in
     if name = [] then []
     else ''[mcp_servers.'' @ name @ '']'' @ nl @
       (if isRemoteMCP mcp
        then ''url = '' @ go_quote (trim_space (mcp_url mcp)) @ nl @
          (if mcp_headers mcp = [] then []
           else ''[mcp_servers.'' @ name @ ''.http_headers]'' @ nl @ codex_pairs (mcp_headers mcp))
        else ''command = '' @ go_quote (trim_space (mcp_command mcp)) @ nl @
          (if mcp_args mcp = [] then [] else ''args = '' @ marshal (JArr (map JStr (mcp_args mcp))) @ nl) @
          (if mcp_env mcp = [] then []
           else ''[mcp_servers.'' @ name @ ''.env]'' @ nl @ codex_pairs (mcp_env mcp))))"

definition buildCodexManagedMCPBlock :: "(json \<Rightarrow> string) \<Rightarrow> MCPServerSpec list \<Rightarrow> string" where
  "buildCodexManagedMCPBlock marshal mcps =
    (if mcps = [] then []
     else codexManagedMCPStart @ nl @ concat (map (codex_server marshal) (sort_key mcp_name mcps)) @ codexManagedMCPEnd)"

definition writeCodexMCPConfig :: "(json \<Rightarrow> string) \<Rightarrow> string \<Rightarrow> MCPServerSpec list \<Rightarrow> fs \<Rightarrow> fs_outcome" where
  "writeCodexMCPConfig marshal home mcps s =
    (let path = codexConfigPath home in
     and_then (try_fs s (mkdir_all s (path_dir path))) (\<lambda>s.
       let merged = replaceManagedTextBlock (read_text marshal s path) codexManagedMCPStart codexManagedMCPEnd
             (buildCodexManagedMCPBlock marshal mcps)
       in if trim_space merged = [] then try_remove s path
          else try_fs s (write_file s path (Text merged))))"

section \<open>Opencode\<close>

definition openCodeConfigPath :: "string \<Rightarrow> string" where
  "openCodeConfigPath home = path_join [home, ''.config'', ''opencode'', ''opencode.json'']"

text \<open>
  The decoded map.  \<open>None\<close> is the nil map that the document \<^verbatim>\<open>null\<close> leaves behind.
\<close>

definition loadOpenCodeConfig ::
  "(string \<Rightarrow> json option) \<Rightarrow> (json \<Rightarrow> string) \<Rightarrow> fs \<Rightarrow> string \<Rightarrow> fs_error + (string, json) gomap option" where
  "loadOpenCodeConfig parse marshal s p = (case read_file s p of
      Inl ENOENT \<Rightarrow> Inr (Some [])
    | Inl e \<Rightarrow> Inl e
    | Inr c \<Rightarrow>
        if trim_space (text_of marshal c) = [] then Inr (Some [])
        else (case unmarshal parse c of
                Some (JObj kvs) \<Rightarrow> Inr (Some kvs)
              | Some JNull \<Rightarrow> Inr None
              | _ \<Rightarrow> Inr (Some [])))"

definition saveOpenCodeConfig :: "string \<Rightarrow> (string, json) gomap option \<Rightarrow> fs \<Rightarrow> fs_outcome" where
  "saveOpenCodeConfig p payload s =
    write_in_dir s p (Json (case payload of None \<Rightarrow> JNull | Some kvs \<Rightarrow> JObj kvs))"

definition writeOpenCodeRuntimeConfig ::
  "(string \<Rightarrow> json option) \<Rightarrow> (json \<Rightarrow> string) \<Rightarrow> string \<Rightarrow> NodeLLMConfig \<Rightarrow> fs \<Rightarrow> cfg_outcome" where
  "writeOpenCodeRuntimeConfig parse marshal home llm s =
    (let baseURL = trim_right (trim_space (llm_endpoint llm)) ''/'';
         path = openCodeConfigPath home;
         model = trim_space (llm_model llm)
     in if baseURL = [] then (None, s)
        else case loadOpenCodeConfig parse marshal s path of
            Inl e \<Rightarrow> (Some (CfgFs e), s)
          | Inr None \<Rightarrow> (Some CfgPanic, s)
          | Inr (Some payload) \<Rightarrow>
              let provider = (case mget payload ''provider'' of Some (JObj kvs) \<Rightarrow> kvs | _ \<Rightarrow> []);
                  own = JObj [(''options'', JObj [(''baseURL'', JStr baseURL), (''apiKey'', JStr (trim_space (llm_apiKey llm)))])];
                  payload = mput ''provider'' (JObj (mput ''agent-compose'' own provider)) payload;
                  payload = (if model \<noteq> [] then mput ''model'' (JStr (''agent-compose/'' @ model)) payload else payload)
              in as_cfg (saveOpenCodeConfig path (Some payload) s))"

definition plain_pairs :: "EnvVarSpec list \<Rightarrow> json option" where
  "plain_pairs items = (if items = [] then None
     else Some (JObj (fold (\<lambda>i m. mput (ev_name i) (JStr (ev_value i)) m) items [])))"

definition opencode_entry :: "MCPServerSpec \<Rightarrow> json" where
  "opencode_entry mcp =
    (if isRemoteMCP mcp
     then JObj ([(''type'', JStr ''remote''), (''url'', JStr (trim_space (mcp_url mcp)))]
                @ opt_field ''headers'' (plain_pairs (mcp_headers mcp)))
     else JObj ([(''type'', JStr ''local''), (''command'', JArr (map JStr (trim_space (mcp_command mcp) # mcp_args mcp)))]
                @ opt_field ''environment'' (plain_pairs (mcp_env mcp))))"

definition writeOpenCodeMCPConfig ::
  "(string \<Rightarrow> json option) \<Rightarrow> (json \<Rightarrow> string) \<Rightarrow> string \<Rightarrow> MCPServerSpec list \<Rightarrow> fs \<Rightarrow> cfg_outcome" where
  "writeOpenCodeMCPConfig parse marshal home mcps s =
    (let path = openCodeConfigPath home; mcpMap = servers_by_name opencode_entry mcps in
     case loadOpenCodeConfig parse marshal s path of
         Inl e \<Rightarrow> (Some (CfgFs e), s)
       | Inr None \<Rightarrow> if mcpMap = [] then as_cfg (saveOpenCodeConfig path None s) else (Some CfgPanic, s)
       | Inr (Some payload) \<Rightarrow>
           as_cfg (saveOpenCodeConfig path
             (Some (if mcpMap = [] then mdel ''mcp'' payload else mput ''mcp'' (JObj mcpMap) payload)) s))"

section \<open>Claude\<close>

definition claude_entry :: "MCPServerSpec \<Rightarrow> json" where
  "claude_entry mcp =
    (if isRemoteMCP mcp
     then JObj ([(''type'', JStr ''http''), (''url'', JStr (trim_space (mcp_url mcp)))]
                @ opt_field ''headers'' (plain_pairs (mcp_headers mcp)))
     else JObj ([(''command'', JStr (trim_space (mcp_command mcp)))] @ list_field ''args'' (mcp_args mcp)
                @ opt_field ''env'' (plain_pairs (mcp_env mcp))))"

definition writeClaudeMCPConfig :: "string \<Rightarrow> MCPServerSpec list \<Rightarrow> fs \<Rightarrow> fs_outcome" where
  "writeClaudeMCPConfig home mcps s =
    (let path = path_join [home, ''.mcp.json''] in
     if mcps = [] then try_remove s path
     else write_in_dir s path (Json (JObj [(''mcpServers'', JObj (servers_by_name claude_entry mcps))])))"

section \<open>Dispatch by provider\<close>

definition writeLLMConfig ::
  "(string \<Rightarrow> json option) \<Rightarrow> (json \<Rightarrow> string) \<Rightarrow> string \<Rightarrow> string \<Rightarrow> NodeLLMConfig option \<Rightarrow> fs \<Rightarrow> cfg_outcome" where
  "writeLLMConfig parse marshal provider home llm s = (case llm of
      None \<Rightarrow> (None, s)
    | Some l \<Rightarrow>
        if normalizeProvider provider = ''codex'' then as_cfg (writeCodexRuntimeConfig parse marshal home l s)
        else if normalizeProvider provider = ''opencode'' then writeOpenCodeRuntimeConfig parse marshal home l s
        else (None, s))"

definition write_native_mcp ::
  "(string \<Rightarrow> json option) \<Rightarrow> (json \<Rightarrow> string) \<Rightarrow> string \<Rightarrow> string \<Rightarrow> MCPServerSpec list \<Rightarrow> fs \<Rightarrow> cfg_outcome" where
  "write_native_mcp parse marshal provider home mcps s =
    (if normalizeProvider provider = ''codex'' then as_cfg (writeCodexMCPConfig marshal home mcps s)
     else if normalizeProvider provider = ''opencode'' then writeOpenCodeMCPConfig parse marshal home mcps s
     else if normalizeProvider provider = ''claude'' then as_cfg (writeClaudeMCPConfig home mcps s)
     else (None, s))"

definition writeMCPConfig ::
  "(string \<Rightarrow> json option) \<Rightarrow> (json \<Rightarrow> string) \<Rightarrow> string \<Rightarrow> string \<Rightarrow> string \<Rightarrow> string \<Rightarrow> NodeCreateSession option \<Rightarrow>
    MCPServerSpec list \<Rightarrow> fs \<Rightarrow> cfg_outcome" where
  "writeMCPConfig parse marshal origin provider home stateRoot spec mcps s =
    (let mcps = resolveMCPURLs origin mcps in
     and_then (as_cfg (writeRuntimeMCPConfig stateRoot mcps s)) (\<lambda>s.
       case spec of
         Some sp \<Rightarrow> if isSharedEnv sp then (None, s) else write_native_mcp parse marshal provider home mcps s
       | None \<Rightarrow> write_native_mcp parse marshal provider home mcps s))"

section \<open>Managed blocks are replaced exactly\<close>

text \<open>A marker starts with a hash sign and has no other.\<close>

definition marker :: "string \<Rightarrow> bool" where
  "marker m \<longleftrightarrow> m \<noteq> [] \<and> hd m = CHR ''#'' \<and> CHR ''#'' \<notin> set (tl m)"

lemma index_of_first:
  assumes "\<forall>i < length a. \<not> prefix p (drop i (a @ p @ b))"
  shows "index_of (a @ p @ b) p = Some (length a)"
  using assms
proof (induction a)
  case Nil
  have "has_prefix (p @ b) p" by simp
  then show ?case by (cases "p @ b") simp_all
next
  case (Cons c a)
  have "\<not> has_prefix (c # a @ p @ b) p" using Cons.prems by (force simp: has_prefix_iff_prefix)
  moreover have "\<forall>i < length a. \<not> prefix p (drop i (a @ p @ b))"
    using Cons.prems by (metis Suc_less_eq append_Cons drop_Suc_Cons length_Cons)
  ultimately show ?case using Cons.IH by simp
qed

text \<open>
  An occurrence of a marker in a text followed by another hash sign lies inside
  the text.
\<close>

lemma marker_inside:
  assumes "marker m" "prefix m (drop i (a @ CHR ''#'' # r))" "i < length a"
  shows "sublist m a"
proof -
  let ?d = "drop i a"
  have d: "drop i (a @ CHR ''#'' # r) = ?d @ CHR ''#'' # r" using assms(3) by simp
  have "length m \<le> length ?d"
  proof (rule ccontr)
    assume "\<not> length m \<le> length ?d"
    then have len: "length ?d < length m" by simp
    from assms(2) obtain zs where "?d @ CHR ''#'' # r = m @ zs" unfolding d by (auto simp: prefix_def)
    then have "(?d @ CHR ''#'' # r) ! length ?d = (m @ zs) ! length ?d" by simp
    then have "m ! length ?d = (?d @ CHR ''#'' # r) ! length ?d"
      using len by (simp only: nth_append if_True)
    then have "m ! length ?d = CHR ''#''" by (simp only: nth_append_length)
    moreover obtain k where k: "length ?d = Suc k" using assms(3) by (cases "length ?d") simp_all
    moreover obtain h t where t: "m = h # t" using len by (cases m) auto
    ultimately have "t ! k = CHR ''#''" "k < length t" using len by simp_all
    with nth_mem[of k t] have "CHR ''#'' \<in> set (tl m)" using t by (metis list.sel(3))
    with assms(1) show False by (simp add: marker_def)
  qed
  then have "prefix m ?d" using assms(2) unfolding d by (metis prefix_append prefix_order.dual_order.strict_trans1 append_Nil2 prefix_length_prefix prefixI)
  then show ?thesis by (meson suffix_drop prefix_imp_sublist suffix_imp_sublist sublist_order.order.trans)
qed

lemma index_of_marker:
  assumes "marker m" "\<not> sublist m a"
  shows "index_of (a @ m @ b) m = Some (length a)"
proof (rule index_of_first, intro allI impI notI)
  fix i assume i: "i < length a" "prefix m (drop i (a @ m @ b))"
  obtain m' where "m = CHR ''#'' # m'" using assms(1) by (cases m) (auto simp: marker_def)
  then have "a @ m @ b = a @ CHR ''#'' # (m' @ b)" by simp
  with marker_inside[OF assms(1) _ i(1)] i(2) assms(2) show False by metis
qed

definition managed :: "string \<Rightarrow> string \<Rightarrow> string \<Rightarrow> string" where
  "managed start fin body = start @ body @ fin"

text \<open>Two different markers, neither of which starts the other, in a text around a block.\<close>

lemma managed_positions:
  assumes "marker start" "marker fin" "\<not> prefix fin start" "length fin \<le> length start"
    "\<not> sublist start pre" "\<not> sublist fin pre" "\<not> sublist fin body"
  shows "index_of (pre @ managed start fin body @ post) start = Some (length pre)"
    "index_of (pre @ managed start fin body @ post) fin = Some (length pre + length start + length body)"
proof -
  show "index_of (pre @ managed start fin body @ post) start = Some (length pre)"
    unfolding managed_def using index_of_marker[OF assms(1,5)] by simp
  have "\<not> sublist fin (pre @ start @ body)"
  proof
    assume "sublist fin (pre @ start @ body)"
    then obtain xs ys where xs: "pre @ start @ body = xs @ fin @ ys" by (auto simp: sublist_def)
    obtain f where f: "fin = CHR ''#'' # f" "CHR ''#'' \<notin> set f" using assms(2) by (cases fin) (auto simp: marker_def)
    obtain s where s: "start = CHR ''#'' # s" "CHR ''#'' \<notin> set s" using assms(1) by (cases start) (auto simp: marker_def)
    have px: "prefix fin (drop (length xs) (pre @ start @ body))" unfolding xs by simp
    consider "length xs < length pre" | "length xs = length pre" | "length pre < length xs" "length xs < length pre + length start"
      | "length pre + length start \<le> length xs" by linarith
    then show False
    proof cases
      case 1
      have "pre @ start @ body = pre @ CHR ''#'' # (s @ body)" using s by simp
      with marker_inside[OF assms(2) _ 1] px assms(6) show False by metis
    next
      case 2
      then have "prefix fin (start @ body)" using px by simp
      then have "prefix fin start" using assms(4) by (metis prefix_append prefix_length_prefix prefixI)
      with assms(3) show False by simp
    next
      case 3
      then have "(pre @ start @ body) ! length xs = CHR ''#''" unfolding xs f by simp
      moreover have "(pre @ start @ body) ! length xs = start ! (length xs - length pre)"
        using 3 by (simp add: nth_append less_diff_conv2)
      moreover have "start ! (length xs - length pre) \<in> set s" using 3 s by (auto simp: nth_Cons')
      ultimately show False using s(2) by simp
    next
      case 4
      then have "drop (length xs) (pre @ start @ body) = drop (length xs - length pre - length start) body" by simp
      with px have "prefix fin (drop (length xs - length pre - length start) body)" by simp
      then have "sublist fin body" by (meson suffix_drop prefix_imp_sublist suffix_imp_sublist sublist_order.order.trans)
      with assms(7) show False by simp
    qed
  qed
  from index_of_marker[OF assms(2) this, of post]
  show "index_of (pre @ managed start fin body @ post) fin = Some (length pre + length start + length body)"
    by (simp add: managed_def)
qed

lemma replace_managed:
  assumes "marker start" "marker fin" "\<not> prefix fin start" "length fin \<le> length start"
    "\<not> sublist start pre" "\<not> sublist fin pre" "\<not> sublist fin body"
  shows "replaceManagedTextBlock (pre @ managed start fin body @ post) start fin block =
      (if block = [] then trim_right pre nl @ trim_left post nl else pre @ block @ post)"
    "extractManagedTextBlock (pre @ managed start fin body @ post) start fin = managed start fin body"
proof -
  have "start \<noteq> []" using assms(1) by (auto simp: marker_def)
  then show "replaceManagedTextBlock (pre @ managed start fin body @ post) start fin block =
      (if block = [] then trim_right pre nl @ trim_left post nl else pre @ block @ post)"
    "extractManagedTextBlock (pre @ managed start fin body @ post) start fin = managed start fin body"
    by (simp_all add: replaceManagedTextBlock_def extractManagedTextBlock_def managed_positions[OF assms] Let_def)
      (simp_all add: managed_def)
qed

section \<open>Where the files are\<close>

lemma plain_files [simp]:
  "plain_seg ''.codex''" "plain_seg ''config.toml''" "plain_seg ''config.json''" "plain_seg ''.mcp.json''"
  "plain_seg ''.config''" "plain_seg ''opencode''" "plain_seg ''opencode.json''" "plain_seg ''system-prompts''"
  "plain_seg ''system-prompt.txt''" "plain_seg codexModelCatalogFilename"
  by (simp_all add: plain_seg_def slash_def codexModelCatalogFilename_def)

lemma confined_write_below:
  assumes "is_abs root" "\<forall>x \<in> set segs. plain_seg x" "segs \<noteq> []" "e \<in> D" "prefix e (comps root @ butlast segs)" "confined D s t"
  shows "confined D s (snd (write_in_dir t (path_join (root # segs)) c))"
proof (rule confined_write_in_dir[where d = "comps root @ butlast segs" and c = "last segs" and e = e])
  show "comps (path_join (root # segs)) = (comps root @ butlast segs) @ [last segs]"
    using comps_join_segs(1)[OF assms(1,2)] assms(3) by simp
qed (use comps_join_segs(2)[OF assms(1,2)] clean_path_join[OF assms(1,2)] assms in auto)

lemma confined_remove_below:
  assumes "is_abs root" "\<forall>x \<in> set segs. plain_seg x" "e \<in> D" "prefix e (comps root @ segs)" "confined D s t"
  shows "confined D s (snd (try_remove t (path_join (root # segs))))"
  using confined_try_remove[OF assms(5,3), of "path_join (root # segs)"] comps_join_segs(1)[OF assms(1,2)] assms(4) by simp

lemma snd_as_cfg [simp]: "snd (as_cfg r) = snd r" "fst (as_cfg r) = None \<longleftrightarrow> fst r = None"
  by (simp_all add: as_cfg_def)

lemma confined_runtime_mcp:
  assumes "is_abs stateRoot" "comps stateRoot @ [''agents'', ''mcp''] \<in> D" "confined D s t"
  shows "confined D s (snd (writeRuntimeMCPConfig stateRoot mcps t))"
  using confined_write_below[OF assms(1) _ _ assms(2), of "[''agents'', ''mcp'', ''config.json'']", OF _ _ _ assms(3)]
    confined_remove_below[OF assms(1) _ assms(2), of "[''agents'', ''mcp'', ''config.json'']", OF _ _ assms(3)]
  by (simp add: writeRuntimeMCPConfig_def runtimeMCPConfigPath_def Let_def)

lemma codex_path:
  assumes "is_abs home"
  shows "comps (codexConfigPath home) = comps home @ [''.codex'', ''config.toml'']"
    "comps (path_dir (codexConfigPath home)) = comps home @ [''.codex'']" "is_abs (path_dir (codexConfigPath home))"
  using comps_join_segs(1)[OF assms, of "[''.codex'', ''config.toml'']"] comps_parent[OF assms, of "[''.codex'']" "''config.toml''"]
  by (simp_all add: codexConfigPath_def)

lemma confined_codex_mcp:
  assumes "is_abs home" "comps home \<in> D" "confined D s t"
  shows "confined D s (snd (writeCodexMCPConfig marshal home mcps t))"
proof -
  let ?p = "codexConfigPath home"
  have p: "prefix (comps home) (comps (path_dir ?p))" "prefix (comps home) (comps ?p)" by (simp_all add: codex_path[OF assms(1)])
  show ?thesis unfolding writeCodexMCPConfig_def Let_def
    by (rule and_then_inv, rule confined_try_mkdir[OF assms(3,2) p(1)])
       (simp add: confined_try_remove[OF _ assms(2) p(2)] confined_try_write[OF _ assms(2) p(2)])
qed

lemma confined_opencode_save:
  assumes "is_abs home" "comps home \<in> D" "confined D s t"
  shows "confined D s (snd (saveOpenCodeConfig (openCodeConfigPath home) payload t))"
  using confined_write_below[OF assms(1) _ _ assms(2), of "[''.config'', ''opencode'', ''opencode.json'']", OF _ _ _ assms(3)]
  by (simp add: saveOpenCodeConfig_def openCodeConfigPath_def)

lemma confined_native_mcp:
  assumes "is_abs home" "comps home \<in> D" "confined D s t"
  shows "confined D s (snd (write_native_mcp parse marshal provider home mcps t))"
proof -
  have "confined D s (snd (writeClaudeMCPConfig home mcps t))"
    using confined_write_below[OF assms(1) _ _ assms(2), of "[''.mcp.json'']", OF _ _ _ assms(3)]
      confined_remove_below[OF assms(1) _ assms(2), of "[''.mcp.json'']", OF _ _ assms(3)]
    by (simp add: writeClaudeMCPConfig_def Let_def)
  moreover have "confined D s (snd (writeOpenCodeMCPConfig parse marshal home mcps t))"
    using confined_opencode_save[OF assms] assms(3) by (auto simp: writeOpenCodeMCPConfig_def Let_def split: sum.splits option.splits)
  ultimately show ?thesis using confined_codex_mcp[OF assms] assms(3) by (simp add: write_native_mcp_def)
qed

lemma writeMCPConfig_confined:
  assumes "is_abs stateRoot" "is_abs home"
  shows "confined ({comps stateRoot @ [''agents'', ''mcp'']} \<union> (if (\<exists>sp. spec = Some sp \<and> isSharedEnv sp) then {} else {comps home})) s
    (snd (writeMCPConfig parse marshal origin provider home stateRoot spec mcps s))"
  unfolding writeMCPConfig_def Let_def
  by (rule and_then_inv) (auto intro!: confined_runtime_mcp assms confined_native_mcp split: option.splits)

section \<open>What the runtime reads\<close>

definition last_named :: "string \<Rightarrow> MCPServerSpec list \<Rightarrow> MCPServerSpec option" where
  "last_named n mcps = find (\<lambda>m. trim_space (mcp_name m) = n) (rev mcps)"

lemma last_named_snoc: "last_named n (mcps @ [m]) = (if trim_space (mcp_name m) = n then Some m else last_named n mcps)"
  by (simp add: last_named_def)

lemma servers_by_name_snoc:
  "servers_by_name f (mcps @ [m]) = (if trim_space (mcp_name m) = [] then servers_by_name f mcps
     else mput (trim_space (mcp_name m)) (f m) (servers_by_name f mcps))"
  by (simp add: servers_by_name_def Let_def)

lemma servers_by_name_get:
  "mget (servers_by_name f mcps) n = (if n = [] then None else map_option f (last_named n mcps))"
proof (induction mcps rule: rev_induct)
  case Nil
  then show ?case by (simp add: servers_by_name_def last_named_def)
next
  case (snoc m mcps)
  then show ?case by (auto simp: servers_by_name_snoc last_named_snoc mget_mput)
qed

lemma servers_empty: "servers_by_name f mcps = [] \<longleftrightarrow> (\<forall>m \<in> set mcps. trim_space (mcp_name m) = [])"
proof (induction mcps rule: rev_induct)
  case Nil
  then show ?case by (simp add: servers_by_name_def)
next
  case (snoc m mcps)
  have "mput k v al \<noteq> []" for k v and al :: "(string, json) gomap" by (cases al) auto
  with snoc show ?case by (auto simp: servers_by_name_snoc)
qed

section \<open>Properties\<close>

lemma codex_markers:
  "marker codexManagedMCPStart" "marker codexManagedMCPEnd" "\<not> prefix codexManagedMCPEnd codexManagedMCPStart"
  "length codexManagedMCPEnd \<le> length codexManagedMCPStart"
  by (simp_all add: marker_def codexManagedMCPStart_def codexManagedMCPEnd_def)

text \<open>
  \<^bold>\<open>C20\<close>. Rewriting the managed servers of a codex configuration replaces the managed block and keeps every
  byte of the user's text before and after it, provided that servers are left; when none is left, the block
  goes together with the newlines around it and nothing else.  What an LLM reconfiguration carries over is the
  block.  The text before the block holds neither marker and the block holds its end marker once; the text
  after it is arbitrary.
\<close>

theorem managed_block_exact:
  assumes "\<not> sublist codexManagedMCPStart pre" "\<not> sublist codexManagedMCPEnd pre" "\<not> sublist codexManagedMCPEnd body"
  shows "replaceManagedTextBlock (pre @ managed codexManagedMCPStart codexManagedMCPEnd body @ post)
      codexManagedMCPStart codexManagedMCPEnd block = (if block = [] then trim_right pre nl @ trim_left post nl else pre @ block @ post) \<and>
    extractManagedTextBlock (pre @ managed codexManagedMCPStart codexManagedMCPEnd body @ post) codexManagedMCPStart codexManagedMCPEnd = managed codexManagedMCPStart codexManagedMCPEnd body"
  using replace_managed[OF codex_markers assms] by simp

theorem managed_block_exact_witness:
  "replaceManagedTextBlock (''a = 1#'' @ managed codexManagedMCPStart codexManagedMCPEnd ''url'' @ nl @ ''b'')
      codexManagedMCPStart codexManagedMCPEnd ''X'' = ''a = 1#X'' @ nl @ ''b'' \<and>
   replaceManagedTextBlock (''a = 1#'' @ managed codexManagedMCPStart codexManagedMCPEnd ''url'' @ nl @ ''b'')
      codexManagedMCPStart codexManagedMCPEnd [] = ''a = 1#b''"
proof -
  have s: "\<not> sublist codexManagedMCPStart ''a = 1#''" "\<not> sublist codexManagedMCPEnd ''a = 1#''" "\<not> sublist codexManagedMCPEnd ''url''"
    by (auto simp: codexManagedMCPStart_def codexManagedMCPEnd_def dest!: sublist_length_le)
  have t: "trim_right ''a = 1#'' nl = ''a = 1#''" "trim_left (nl @ ''b'') nl = ''b''" by code_simp+
  from managed_block_exact[OF s, of "nl @ ''b''" "''X''"] managed_block_exact[OF s, of "nl @ ''b''" "[]"] t show ?thesis by simp
qed

text \<open>
  Clearing the last managed server joins lines: when text of the user follows
  the managed block, the newlines on both sides of the block go with it, and the
  line before the block and the line after it become one line.
\<close>

theorem clearing_servers_joins_lines:
  assumes "\<not> sublist codexManagedMCPStart (x @ nl)" "\<not> sublist codexManagedMCPEnd (x @ nl)" "\<not> sublist codexManagedMCPEnd body"
    "x \<noteq> []" "last x \<noteq> CHR 0x0A" "y \<noteq> []" "hd y \<noteq> CHR 0x0A"
  shows "replaceManagedTextBlock (x @ nl @ managed codexManagedMCPStart codexManagedMCPEnd body @ nl @ y)
    codexManagedMCPStart codexManagedMCPEnd [] = x @ y"
proof -
  have "trim_right (x @ nl) nl = x" using assms(4,5) by (cases x rule: rev_cases) (simp_all add: trim_right_def nl_def)
  moreover have "trim_left (nl @ y) nl = y" using assms(6,7) by (cases y) (simp_all add: trim_left_def nl_def)
  ultimately show ?thesis using replace_managed(1)[OF codex_markers assms(1-3), of "nl @ y" "[]"] by simp
qed

theorem clearing_servers_joins_lines_witness:
  "replaceManagedTextBlock (''a = 1'' @ nl @ managed codexManagedMCPStart codexManagedMCPEnd [] @ nl @ ''[b]'')
    codexManagedMCPStart codexManagedMCPEnd [] = ''a = 1[b]''"
proof -
  have s: "\<not> sublist codexManagedMCPStart (''a = 1'' @ nl)" "\<not> sublist codexManagedMCPEnd (''a = 1'' @ nl)" "\<not> sublist codexManagedMCPEnd []"
    by (auto simp: codexManagedMCPStart_def codexManagedMCPEnd_def nl_def dest!: sublist_length_le)
  from clearing_servers_joins_lines[OF s, of "''[b]''"] show ?thesis by simp
qed

text \<open>
  
  The MCP servers of a session, with their tokens, are written below the
  session's own state directory; the home directory is touched only when it is
  not shared between tasks.
\<close>

theorem mcp_servers_stay_private:
  assumes "is_abs stateRoot" "is_abs home"
  shows "confined ({comps stateRoot @ [''agents'', ''mcp'']} \<union> (if isSharedEnv spec then {} else {comps home})) s
    (snd (writeMCPConfig parse marshal origin provider home stateRoot (Some spec) mcps s))"
  using writeMCPConfig_confined[OF assms, of "Some spec"] by simp

theorem mcp_servers_stay_private_witness:
  "confined {comps ''/s'' @ [''agents'', ''mcp'']} \<lparr> nodes = [], denied = [] \<rparr>
    (snd (writeMCPConfig (\<lambda>_. None) (\<lambda>_. []) [] ''claude'' ''/h'' ''/s'' (Some (demo_spec\<lparr> cs_env_mode := ''shared'' \<rparr>)) []
      \<lparr> nodes = [], denied = [] \<rparr>))"
proof -
  have "isSharedEnv (demo_spec\<lparr> cs_env_mode := ''shared'' \<rparr>)" by code_simp
  with mcp_servers_stay_private[of "''/s''" "''/h''" "demo_spec\<lparr> cs_env_mode := ''shared'' \<rparr>"] show ?thesis
    by (simp add: slash_def)
qed

text \<open>
  
  After the runtime's MCP file has been written it holds exactly the named
  servers, one entry per trimmed name and the last specification of a name; when
  no server has a name there is no file.
\<close>

theorem runtime_mcp_exact:
  assumes "writeRuntimeMCPConfig stateRoot mcps s = (None, s')"
  shows "if \<forall>m \<in> set mcps. trim_space (mcp_name m) = [] then lookup s' (comps (runtimeMCPConfigPath stateRoot)) = None
    else \<exists>servers. read_file s' (runtimeMCPConfigPath stateRoot) = Inr (Json (JObj [(''mcps'', JObj servers)])) \<and>
      (\<forall>n. mget servers n = (if n = [] then None else map_option runtime_entry (last_named n mcps)))"
  using assms write_in_dir_reads try_remove_absent
  by (auto simp: writeRuntimeMCPConfig_def Let_def servers_empty servers_by_name_get split: if_splits)

definition demo_mcp :: MCPServerSpec where
  "demo_mcp = \<lparr> mcp_name = ''wf'', mcp_type = [], mcp_transport = [], mcp_url = ''/mcp/wf/sse'', mcp_command = [],
     mcp_args = [], mcp_env = [], mcp_headers = [] \<rparr>"

theorem runtime_mcp_exact_witness:
  "\<exists>s' servers. writeRuntimeMCPConfig ''/s'' [demo_mcp] \<lparr> nodes = [], denied = [] \<rparr> = (None, s') \<and>
    read_file s' (runtimeMCPConfigPath ''/s'') = Inr (Json (JObj [(''mcps'', JObj servers)])) \<and>
    mget servers ''wf'' = Some (runtime_entry demo_mcp)"
proof -
  let ?r = "writeRuntimeMCPConfig ''/s'' [demo_mcp] \<lparr> nodes = [], denied = [] \<rparr>"
  have f: "fst ?r = None" by code_simp
  obtain x s' where r: "?r = (x, s')" by (meson surj_pair)
  have x: "?r = (None, s')" using f r by (metis fst_conv)
  have t: "trim_space (mcp_name demo_mcp) = ''wf''" by code_simp
  from runtime_mcp_exact[OF x] t obtain servers where "read_file s' (runtimeMCPConfigPath ''/s'') = Inr (Json (JObj [(''mcps'', JObj servers)]))"
    "\<forall>n. mget servers n = (if n = [] then None else map_option runtime_entry (last_named n [demo_mcp]))" by auto
  with x show ?thesis by (auto simp: last_named_def t)
qed

text \<open>
  
  Setting the MCP servers of an opencode configuration leaves every other key
  of the file as it was, so the model settings and the user's own settings
  survive; it relies on a JSON object being printed as a non-blank text.
\<close>

theorem opencode_keeps_other_keys:
  assumes "\<And>kvs. trim_space (marshal (JObj kvs)) \<noteq> []"
    "loadOpenCodeConfig parse marshal s (openCodeConfigPath home) = Inr (Some old)" "gomap_wf old"
    "writeOpenCodeMCPConfig parse marshal home mcps s = (None, s')"
  shows "\<exists>new. loadOpenCodeConfig parse marshal s' (openCodeConfigPath home) = Inr (Some new) \<and>
    (\<forall>k. k \<noteq> ''mcp'' \<longrightarrow> mget new k = mget old k) \<and>
    mget new ''mcp'' = (if servers_by_name opencode_entry mcps = [] then None
      else Some (JObj (servers_by_name opencode_entry mcps)))"
proof -
  let ?m = "servers_by_name opencode_entry mcps" and ?p = "openCodeConfigPath home"
  define new where "new = (if ?m = [] then mdel ''mcp'' old else mput ''mcp'' (JObj ?m) old)"
  have "saveOpenCodeConfig ?p (Some new) s = (None, s')"
    using assms(2,4) by (auto simp: writeOpenCodeMCPConfig_def Let_def new_def as_cfg_def prod_eq_iff)
  then have "read_file s' ?p = Inr (Json (JObj new))"
    unfolding saveOpenCodeConfig_def by (auto dest: write_in_dir_reads)
  then have "loadOpenCodeConfig parse marshal s' ?p = Inr (Some new)"
    using assms(1) by (simp add: loadOpenCodeConfig_def text_of_def)
  moreover have "\<forall>k. k \<noteq> ''mcp'' \<longrightarrow> mget new k = mget old k"
    using assms(3) by (simp add: new_def mget_mput mget_mdel)
  moreover have "mget new ''mcp'' = (if ?m = [] then None else Some (JObj ?m))"
    using assms(3) by (simp add: new_def mget_mput mget_mdel)
  ultimately show ?thesis by blast
qed

definition demo_opencode :: fs where
  "demo_opencode = \<lparr> nodes = [([''h''], NDir), ([''h'', ''.config''], NDir), ([''h'', ''.config'', ''opencode''], NDir),
     ([''h'', ''.config'', ''opencode'', ''opencode.json''], NFile (Json (JObj [(''theme'', JStr ''dark'')])))], denied = [] \<rparr>"

theorem opencode_keeps_other_keys_witness:
  "\<exists>s' new. writeOpenCodeMCPConfig (\<lambda>_. None) (\<lambda>_. ''{}'') ''/h'' [demo_mcp] demo_opencode = (None, s') \<and>
    loadOpenCodeConfig (\<lambda>_. None) (\<lambda>_. ''{}'') s' (openCodeConfigPath ''/h'') = Inr (Some new) \<and> mget new ''theme'' = Some (JStr ''dark'')"
proof -
  let ?r = "writeOpenCodeMCPConfig (\<lambda>_. None) (\<lambda>_. ''{}'') ''/h'' [demo_mcp] demo_opencode"
  have f: "fst ?r = None" by code_simp
  obtain x s' where r: "?r = (x, s')" by (meson surj_pair)
  have x: "?r = (None, s')" using f r by (metis fst_conv)
  have t: "trim_space ''{}'' \<noteq> []" by code_simp
  have l: "loadOpenCodeConfig (\<lambda>_. None) (\<lambda>_. ''{}'') demo_opencode (openCodeConfigPath ''/h'') = Inr (Some [(''theme'', JStr ''dark'')])" by code_simp
  have w: "gomap_wf [(''theme'', JStr ''dark'')]" by (simp add: gomap_wf_def)
  from opencode_keeps_other_keys[OF t l w x] obtain new where
    "loadOpenCodeConfig (\<lambda>_. None) (\<lambda>_. ''{}'') s' (openCodeConfigPath ''/h'') = Inr (Some new)" "mget new ''theme'' = Some (JStr ''dark'')"
    by auto
  with x show ?thesis by blast
qed

text \<open>
  
  An opencode configuration whose content is the JSON document null crashes
  the node: decoding leaves a nil map, and storing the provider into it panics.
\<close>

theorem opencode_null_panics:
  assumes "read_file s (openCodeConfigPath home) = Inr (Text ''null'')" "parse ''null'' = Some JNull"
    "trim_right (trim_space (llm_endpoint llm)) ''/'' \<noteq> []"
  shows "fst (writeOpenCodeRuntimeConfig parse marshal home llm s) = Some CfgPanic"
proof -
  have "trim_space ''null'' = ''null''" by code_simp
  then show ?thesis using assms
    by (simp add: writeOpenCodeRuntimeConfig_def loadOpenCodeConfig_def text_of_def Let_def)
qed

theorem opencode_null_panics_witness:
  "fst (writeOpenCodeRuntimeConfig (\<lambda>t. if t = ''null'' then Some JNull else None) (\<lambda>_. []) ''/h''
      \<lparr> llm_endpoint = ''http://g'', llm_apiKey = [], llm_model = [], llm_protocol = [], llm_headers = [], llm_extra = [] \<rparr>
      \<lparr> nodes = [([''h'', ''.config'', ''opencode'', ''opencode.json''], NFile (Text ''null''))], denied = [] \<rparr>) = Some CfgPanic"
  by (rule opencode_null_panics) (code_simp | simp)+

end
