(* ===== verification/Go_Url.thy ===== *)
theory Go_Url
  imports Go_Paths
begin

text \<open>
  Package \<^verbatim>\<open>net/url\<close> for the URLs the sources parse: percent encoding, the split of
  a URL into scheme, authority, path, query and fragment, the split of an
  authority into userinfo and host, and the reassembly by \<^verbatim>\<open>URL.String\<close>.  The model
  covers hierarchical URLs (a scheme followed by two slashes); every other form
  is \<open>None\<close>, for which the callers have a branch.  Host names in brackets (IPv6
  literals) are taken as they are.
\<close>

section \<open>Percent encoding\<close>

definition hex_val :: "char \<Rightarrow> nat option" where
  "hex_val c = (let n = of_char c :: nat in
     if 48 \<le> n \<and> n \<le> 57 then Some (n - 48)
     else if 97 \<le> n \<and> n \<le> 102 then Some (n - 87)
     else if 65 \<le> n \<and> n \<le> 70 then Some (n - 55)
     else None)"

definition hex_digit :: "nat \<Rightarrow> char" where
  "hex_digit d = ''0123456789ABCDEF'' ! d"

fun unescape :: "string \<Rightarrow> string option" where
  "unescape [] = Some []"
| "unescape (c # s) =
    (if c = CHR ''%'' then
       (case s of
          a # b # r \<Rightarrow>
            (case (hex_val a, hex_val b) of
               (Some x, Some y) \<Rightarrow> map_option (\<lambda>t. char_of (16 * x + y) # t) (unescape r)
             | _ \<Rightarrow> None)
        | _ \<Rightarrow> None)
     else map_option (\<lambda>t. c # t) (unescape s))"

definition is_alnum :: "char \<Rightarrow> bool" where
  "is_alnum c \<longleftrightarrow> byte_in 97 122 c \<or> byte_in 65 90 c \<or> byte_in 48 57 c"

definition unreserved :: "char \<Rightarrow> bool" where
  "unreserved c \<longleftrightarrow> is_alnum c \<or> c \<in> set ''-_.~''"

text \<open>\<^verbatim>\<open>shouldEscape\<close> for a path and for a query component.\<close>

definition path_keeps :: "char \<Rightarrow> bool" where
  "path_keeps c \<longleftrightarrow> unreserved c \<or> c \<in> set ''$&+,/:;=@''"

definition escape_char :: "(char \<Rightarrow> bool) \<Rightarrow> char \<Rightarrow> string" where
  "escape_char keep c = (if keep c then [c]
     else [CHR ''%'', hex_digit (of_char c div 16), hex_digit (of_char c mod 16)])"

definition escape_with :: "(char \<Rightarrow> bool) \<Rightarrow> string \<Rightarrow> string" where
  "escape_with keep s = concat (map (escape_char keep) s)"

definition escape_path :: "string \<Rightarrow> string" where
  "escape_path = escape_with path_keeps"

text \<open>\<^verbatim>\<open>url.QueryEscape\<close>: a space becomes a plus sign.\<close>

definition query_escape :: "string \<Rightarrow> string" where
  "query_escape s = concat (map (\<lambda>c. if c = CHR '' '' then ''+''
     else if unreserved c then [c]
     else [CHR ''%'', hex_digit (of_char c div 16), hex_digit (of_char c mod 16)]) s)"

text \<open>\<^verbatim>\<open>validEncoded\<close> of a raw path.\<close>

definition valid_encoded_path :: "string \<Rightarrow> bool" where
  "valid_encoded_path s \<longleftrightarrow> (\<forall>c \<in> set s. path_keeps c \<or> c \<in> set ''!'' \<or> c = CHR 0x27 \<or> c \<in> set ''()*[]%'')"

definition escaped_path :: "string \<Rightarrow> string" where
  "escaped_path raw = (case unescape raw of None \<Rightarrow> [] | Some p \<Rightarrow>
     if escape_path p = raw then raw else if valid_encoded_path raw then raw else escape_path p)"

section \<open>Parsing\<close>

record url =
  u_scheme :: string
  u_user :: "(string \<times> string) option"
  u_host :: string
  u_path :: string
  u_force_query :: bool
  u_query :: string
  u_fragment :: string

definition valid_userinfo_char :: "char \<Rightarrow> bool" where
  "valid_userinfo_char c \<longleftrightarrow> is_alnum c \<or> c \<in> set ''-._:~!$&()*+,;=%@'' \<or> c = CHR 0x27"

definition ctl_byte :: "char \<Rightarrow> bool" where
  "ctl_byte c \<longleftrightarrow> (of_char c :: nat) < 32 \<or> (of_char c :: nat) = 127"

text \<open>The split at the last occurrence of a character.\<close>

definition rcut :: "char \<Rightarrow> string \<Rightarrow> (string \<times> string) option" where
  "rcut c s = (if c \<in> set s
     then Some (rev (tl (dropWhile (\<lambda>x. x \<noteq> c) (rev s))), rev (takeWhile (\<lambda>x. x \<noteq> c) (rev s)))
     else None)"

definition valid_port :: "string \<Rightarrow> bool" where
  "valid_port p \<longleftrightarrow> (\<forall>c \<in> set p. is_digit c)"

definition host_keeps :: "char \<Rightarrow> bool" where
  "host_keeps c \<longleftrightarrow> unreserved c \<or> c \<in> set ''!$&()*+,;=:[]<>'' \<or> c = CHR 0x27 \<or> c = CHR 0x22"

text \<open>In a host only non-ASCII bytes (and the percent sign itself) may be percent-encoded.\<close>

fun unescape_host :: "string \<Rightarrow> string option" where
  "unescape_host [] = Some []"
| "unescape_host (c # s) =
    (if c = CHR ''%'' then
       (case s of
          a # b # r \<Rightarrow>
            (case (hex_val a, hex_val b) of
               (Some x, Some y) \<Rightarrow>
                 if x < 8 \<and> 16 * x + y \<noteq> 37 then None
                 else map_option (\<lambda>t. char_of (16 * x + y) # t) (unescape_host r)
             | _ \<Rightarrow> None)
        | _ \<Rightarrow> None)
     else if is_ascii c \<and> \<not> host_keeps c then None
     else map_option (\<lambda>t. c # t) (unescape_host s))"

definition escape_host :: "string \<Rightarrow> string" where
  "escape_host = escape_with host_keeps"

definition parse_host :: "string \<Rightarrow> string option" where
  "parse_host h =
    (if has_prefix h ''['' then
       (case rcut CHR '']'' h of
          None \<Rightarrow> None
        | Some (_, rest) \<Rightarrow>
            if rest = [] \<or> (has_prefix rest '':'' \<and> valid_port (tl rest)) then unescape_host h else None)
     else case rcut CHR '':'' h of
         Some (_, port) \<Rightarrow> if valid_port port then unescape_host h else None
       | None \<Rightarrow> unescape_host h)"

definition parse_userinfo :: "string \<Rightarrow> (string \<times> string) option" where
  "parse_userinfo ui =
    (if \<not> (\<forall>c \<in> set ui. valid_userinfo_char c) then None
     else case cut ui '':'' of
       (u, p, found) \<Rightarrow>
         (case (unescape u, unescape p) of
            (Some u', Some p') \<Rightarrow> Some (u', if found then p' else [])
          | _ \<Rightarrow> None))"

definition parse_authority :: "string \<Rightarrow> ((string \<times> string) option \<times> string) option" where
  "parse_authority a = (case rcut CHR ''@'' a of
      None \<Rightarrow> map_option (\<lambda>h. (None, h)) (parse_host a)
    | Some (ui, h) \<Rightarrow>
        (case (parse_host h, parse_userinfo ui) of
           (Some h', Some u) \<Rightarrow> Some (Some u, h')
         | _ \<Rightarrow> None))"

definition scheme_char :: "char \<Rightarrow> bool" where
  "scheme_char c \<longleftrightarrow> is_alnum c \<or> c \<in> set ''+-.''"

definition scheme_start :: "char \<Rightarrow> bool" where
  "scheme_start c \<longleftrightarrow> byte_in 97 122 c \<or> byte_in 65 90 c"

definition url_parse :: "string \<Rightarrow> url option" where
  "url_parse raw = (case cut raw ''#'' of (u, frag, _) \<Rightarrow>
    (if \<exists>c \<in> set u. ctl_byte c then None
     else case cut u ''://'' of
       (sch, rest, False) \<Rightarrow> None
     | (sch, rest, True) \<Rightarrow>
         if sch = [] \<or> \<not> scheme_start (hd sch) \<or> \<not> (\<forall>c \<in> set sch. scheme_char c) then None
         else
           let force = (has_suffix rest ''?'' \<and> count_list rest CHR ''?'' = 1);
               (body, query, _) = (if force then (butlast rest, [], True) else cut rest ''?'');
               auth = takeWhile (\<lambda>c. c \<noteq> slash) body;
               path = dropWhile (\<lambda>c. c \<noteq> slash) body
           in case (parse_authority auth, unescape path, unescape frag) of
                (Some (user, host), Some _, Some _) \<Rightarrow>
                  Some \<lparr> u_scheme = to_lower sch, u_user = user, u_host = host, u_path = path,
                    u_force_query = force, u_query = query, u_fragment = frag \<rparr>
              | _ \<Rightarrow> None))"

definition userinfo_string :: "(string \<times> string) option \<Rightarrow> string" where
  "userinfo_string u = (case u of None \<Rightarrow> []
    | Some (n, p) \<Rightarrow> escape_with unreserved n @ (if p = [] then [] else '':'' @ escape_with unreserved p) @ ''@'')"

text \<open>\<^verbatim>\<open>URL.String\<close>; the path is kept in its raw form and the fragment as given.\<close>

definition url_string :: "url \<Rightarrow> string" where
  "url_string u = u_scheme u @ ''://'' @ userinfo_string (u_user u) @ escape_host (u_host u) @ escaped_path (u_path u)
    @ (if u_force_query u \<or> u_query u \<noteq> [] then ''?'' @ u_query u else [])
    @ (if u_fragment u \<noteq> [] then ''#'' @ u_fragment u else [])"

section \<open>No at sign survives the removal of the userinfo\<close>

lemma rcut_Some: "rcut c s = Some (a, b) \<Longrightarrow> s = a @ c # b \<and> c \<notin> set b"
proof -
  assume "rcut c s = Some (a, b)"
  then have c: "c \<in> set (rev s)" and a: "a = rev (tl (dropWhile (\<lambda>x. x \<noteq> c) (rev s)))"
    and b: "b = rev (takeWhile (\<lambda>x. x \<noteq> c) (rev s))"
    by (auto simp: rcut_def split: if_splits)
  obtain xs ys where xy: "rev s = xs @ c # ys" "c \<notin> set xs" using split_list_first[OF c] by blast
  then have "takeWhile (\<lambda>x. x \<noteq> c) (rev s) = xs" "dropWhile (\<lambda>x. x \<noteq> c) (rev s) = c # ys"
    by (auto simp: takeWhile_append dropWhile_append)
  then have ab: "a = rev ys" "b = rev xs" using a b by simp_all
  have "s = rev (xs @ c # ys)" using xy(1) by (metis rev_rev_ident)
  then show ?thesis using ab xy(2) by simp
qed

lemma rcut_None: "rcut c s = None \<longleftrightarrow> c \<notin> set s"
  by (simp add: rcut_def)

lemma hex_digit_alnum: "d < 16 \<Longrightarrow> hex_digit d \<in> set ''0123456789ABCDEF''"
  unfolding hex_digit_def by (rule nth_mem) simp

lemma escape_char_chars: "c \<in> set (escape_char keep d) \<Longrightarrow> keep c \<or> c \<in> set ''%0123456789ABCDEF''"
proof -
  assume c: "c \<in> set (escape_char keep d)"
  have "of_char d div 16 < (16 :: nat)" using nat_of_char_less_256[of d] by linarith
  with c hex_digit_alnum[of "of_char d div 16"] hex_digit_alnum[of "of_char d mod 16"] show ?thesis
    by (auto simp: escape_char_def split: if_splits)
qed

lemma escape_with_chars:
  "c \<in> set (escape_with keep s) \<Longrightarrow> keep c \<or> c \<in> set ''%0123456789ABCDEF''"
proof (induction s)
  case (Cons d s)
  then show ?case using escape_char_chars[of c keep d] unfolding escape_with_def by fastforce
qed (simp add: escape_with_def)

lemma escape_host_no_at: "CHR ''@'' \<notin> set (escape_host h)"
  using escape_with_chars[of "CHR ''@''" host_keeps h]
  by (auto simp: escape_host_def host_keeps_def unreserved_def is_alnum_def byte_in_def)

end
