(* ===== verification/Git_Workspace.thy ===== *)
theory Git_Workspace
  imports File_System Go_Url Session_Spec
begin

text \<open>
  Working trees from git: \<^verbatim>\<open>common/workspaces/git_workspace.go\<close>, \<^verbatim>\<open>provisionGit\<close>,
  \<^verbatim>\<open>runNodeGit\<close> and \<^verbatim>\<open>provisionAssociatedRepos\<close> of \<^verbatim>\<open>execution/session.go\<close>, and
  \<^verbatim>\<open>execution/worktree.go\<close>.

  The \<^verbatim>\<open>git\<close> program is an argument of the definitions that run it: a function from
  the file system, the working directory and the argument vector to a result and
  the file system it leaves behind.  The regular expressions of the redaction are
  the scanners they denote.
\<close>

section \<open>Workspace directories\<close>

record GitWorkspaceConfig =
  gw_url :: string
  gw_branch :: string
  gw_commit :: string
  gw_credential :: string
  gw_username :: string
  gw_password :: string
  gw_create_branch :: bool
  gw_new_branch :: string

definition HostWorkspaceInitialized :: "fs \<Rightarrow> string \<Rightarrow> fs_error + bool" where
  "HostWorkspaceInitialized s root = (case read_dir s root of
      Inl ENOENT \<Rightarrow> Inr False
    | Inl e \<Rightarrow> Inl e
    | Inr entries \<Rightarrow> Inr (\<exists>(name, n) \<in> set entries. name \<noteq> ''.agent-compose'' \<and> name \<noteq> ''.agent-compose-git-clone''))"

definition ResetStaleWorkspace :: "fs \<Rightarrow> string \<Rightarrow> fs_error + fs" where
  "ResetStaleWorkspace s root = (case stat s root of
      Inl ENOENT \<Rightarrow> Inr s
    | Inl e \<Rightarrow> Inl e
    | Inr _ \<Rightarrow> remove_all s root)"

definition GitCloneArgs :: "string \<Rightarrow> GitWorkspaceConfig \<Rightarrow> string \<Rightarrow> string list" where
  "GitCloneArgs cloneURL cfg clonePath =
    [''clone'', ''--depth'', ''1'', ''--recurse-submodules'', ''--shallow-submodules'']
    @ (if trim_space (gw_branch cfg) \<noteq> [] then [''--branch'', trim_space (gw_branch cfg)] else [])
    @ [cloneURL, clonePath]"

definition GitCommitFetchArgs :: "string \<Rightarrow> string list" where
  "GitCommitFetchArgs commit = [''fetch'', ''--depth'', ''1'', ''origin'', commit]"

section \<open>Credentials\<close>

definition ApplyGitCredentials :: "string \<Rightarrow> GitWorkspaceConfig \<Rightarrow> string" where
  "ApplyGitCredentials cloneURL cfg =
    (let trimmedURL = trim_space cloneURL;
         user = trim_space (gw_username cfg);
         pass = trim_space (gw_password cfg);
         credential = (if trim_space (gw_credential cfg) \<noteq> [] then trim_space (gw_credential cfg)
           else if user \<noteq> [] \<or> pass \<noteq> [] then query_escape user @ '':'' @ query_escape pass else [])
     in if trimmedURL = [] then []
        else if credential = [] then trimmedURL
        else if contains trimmedURL ''@'' then trimmedURL
        else if has_prefix trimmedURL ''https://'' then ''https://'' @ credential @ ''@'' @ trim_prefix trimmedURL ''https://''
        else if has_prefix trimmedURL ''http://'' then ''http://'' @ credential @ ''@'' @ trim_prefix trimmedURL ''http://''
        else trimmedURL)"

definition SplitGitCredentialURL :: "string \<Rightarrow> string \<times> string \<times> string \<times> bool" where
  "SplitGitCredentialURL cloneURL =
    (let trimmed = trim_space cloneURL in
     if trimmed = [] then (cloneURL, [], [], False)
     else if \<not> has_prefix trimmed ''http://'' \<and> \<not> has_prefix trimmed ''https://'' then (trimmed, [], [], False)
     else case url_parse trimmed of
         None \<Rightarrow> (trimmed, [], [], False)
       | Some u \<Rightarrow>
           (case u_user u of
              None \<Rightarrow> (trimmed, [], [], False)
            | Some (user, pass) \<Rightarrow>
                if user = [] \<and> pass = [] then (trimmed, [], [], False)
                else (url_string (u\<lparr> u_user := None \<rparr>), user, pass, True)))"

text \<open>Standard base64 with padding.\<close>

definition base64_alphabet :: string where
  "base64_alphabet = ''ABCDEFGHIJKLMNOPQRSTUVWXYZabcdefghijklmnopqrstuvwxyz0123456789+/''"

fun base64 :: "nat list \<Rightarrow> string" where
  "base64 (a # b # c # r) =
    [base64_alphabet ! (a div 4), base64_alphabet ! (a mod 4 * 16 + b div 16),
     base64_alphabet ! (b mod 16 * 4 + c div 64), base64_alphabet ! (c mod 64)] @ base64 r"
| "base64 [a, b] =
    [base64_alphabet ! (a div 4), base64_alphabet ! (a mod 4 * 16 + b div 16),
     base64_alphabet ! (b mod 16 * 4), CHR ''='']"
| "base64 [a] =
    [base64_alphabet ! (a div 4), base64_alphabet ! (a mod 4 * 16), CHR ''='', CHR ''='']"
| "base64 [] = []"

definition gitConfigURLOrigin :: "string \<Rightarrow> string" where
  "gitConfigURLOrigin remoteURL =
    (let trimmed = trim_space remoteURL in
     if trimmed = [] then []
     else case url_parse trimmed of
         None \<Rightarrow> []
       | Some u \<Rightarrow>
           if u_host u = [] then []
           else if u_scheme u \<noteq> ''http'' \<and> u_scheme u \<noteq> ''https'' then []
           else url_string (u\<lparr> u_user := None, u_path := [], u_query := [], u_fragment := [] \<rparr>))"

definition GitAuthHeaderArgs :: "string \<Rightarrow> string \<Rightarrow> string \<Rightarrow> string list" where
  "GitAuthHeaderArgs username password remoteURL =
    (let user = trim_space username; pass = trim_space password in
     if user = [] \<and> pass = [] then []
     else let encoded = base64 (map of_char (user @ '':'' @ pass));
              origin = gitConfigURLOrigin remoteURL;
              key = (if origin \<noteq> [] then ''http.'' @ origin @ ''.extraHeader'' else ''http.extraHeader'')
          in [''-c'', key @ ''=Authorization: Basic '' @ encoded])"

section \<open>Redaction\<close>

definition auth_end :: "char \<Rightarrow> bool" where
  "auth_end c \<longleftrightarrow> c \<in> set ''/?#''"

text \<open>
  A match of \<^verbatim>\<open>([A-Za-z][A-Za-z0-9+.\-]*://)([^/?#]*)@\<close> at the start of the string:
  the first group and what follows the match.
\<close>

definition match_userinfo :: "string \<Rightarrow> (string \<times> string) option" where
  "match_userinfo s = (case s of [] \<Rightarrow> None
    | c # _ \<Rightarrow>
        (let sch = takeWhile scheme_char s; rest = dropWhile scheme_char s in
         if \<not> scheme_start c \<or> \<not> has_prefix rest ''://'' then None
         else let body = drop 3 rest; auth = takeWhile (\<lambda>x. \<not> auth_end x) body in
           case rcut CHR ''@'' auth of
             None \<Rightarrow> None
           | Some (_, host) \<Rightarrow> Some (sch @ ''://'', host @ dropWhile (\<lambda>x. \<not> auth_end x) body)))"

lemma match_userinfo_shorter:
  assumes "match_userinfo s = Some (g, rest)" shows "length rest < length s"
proof -
  let ?r = "dropWhile scheme_char s" and ?p = "\<lambda>x. \<not> auth_end x"
  obtain ui host where rc: "rcut CHR ''@'' (takeWhile ?p (drop 3 ?r)) = Some (ui, host)"
      "rest = host @ dropWhile ?p (drop 3 ?r)"
    using assms by (auto simp: match_userinfo_def Let_def split: list.splits if_splits option.splits)
  have "length (takeWhile ?p (drop 3 ?r)) = length ui + 1 + length host"
    using rcut_Some[OF rc(1)] by simp
  then have "length rest < length (drop 3 ?r)"
    using rc(2) length_append[of "takeWhile ?p (drop 3 ?r)" "dropWhile ?p (drop 3 ?r)"] by simp
  also have "\<dots> \<le> length s"
    using length_dropWhile_le[of scheme_char s] by simp
  finally show ?thesis .
qed

function RedactGitURL :: "string \<Rightarrow> string" where
  "RedactGitURL s = (case match_userinfo s of
      Some (g, rest) \<Rightarrow> g @ ''***@'' @ RedactGitURL rest
    | None \<Rightarrow> (case s of [] \<Rightarrow> [] | c # r \<Rightarrow> c # RedactGitURL r))"
  by pat_completeness auto
termination by (relation "measure length") (auto simp: match_userinfo_shorter)

declare RedactGitURL.simps [simp del]

text \<open>\<^verbatim>\<open>\s\<close> of the regular expressions.\<close>

definition re_space :: "char \<Rightarrow> bool" where
  "re_space c \<longleftrightarrow> (of_char c :: nat) \<in> {9, 10, 12, 13, 32}"

text \<open>
  A match of \<^verbatim>\<open>(http\.[^=\s]*extraHeader=Authorization:\s*\S+\s+)\S+\<close> at the start:
  the first group and what follows the match.
\<close>

definition match_header :: "string \<Rightarrow> (string \<times> string) option" where
  "match_header s =
    (if \<not> has_prefix s ''http.'' then None
     else let body = drop 5 s;
              key = takeWhile (\<lambda>c. c \<noteq> CHR ''='' \<and> \<not> re_space c) body;
              rest = dropWhile (\<lambda>c. c \<noteq> CHR ''='' \<and> \<not> re_space c) body
       in if \<not> has_suffix key ''extraHeader'' \<or> \<not> has_prefix rest ''=Authorization:'' then None
          else let r1 = drop 15 rest;
                   sp1 = takeWhile re_space r1; r2 = dropWhile re_space r1;
                   tok1 = takeWhile (\<lambda>c. \<not> re_space c) r2; r3 = dropWhile (\<lambda>c. \<not> re_space c) r2;
                   sp2 = takeWhile re_space r3; r4 = dropWhile re_space r3;
                   tok2 = takeWhile (\<lambda>c. \<not> re_space c) r4; r5 = dropWhile (\<lambda>c. \<not> re_space c) r4
               in if tok1 = [] \<or> sp2 = [] \<or> tok2 = [] then None
                  else Some (''http.'' @ key @ ''=Authorization:'' @ sp1 @ tok1 @ sp2, r5))"

lemma length_dropWhiles:
  "length (dropWhile a (dropWhile b (dropWhile c (dropWhile d (drop n (dropWhile e xs)))))) \<le> length xs"
proof -
  have "length (drop n (dropWhile e xs)) \<le> length xs"
    using length_dropWhile_le[of e xs] by (simp add: le_diff_conv trans_le_add1)
  then show ?thesis by (meson length_dropWhile_le order_trans)
qed

lemma match_header_shorter: "match_header s = Some (g, rest) \<Longrightarrow> length rest < length s"
proof -
  assume m: "match_header s = Some (g, rest)"
  have "length rest \<le> length (drop 5 s)"
    using m length_dropWhiles by (auto simp: match_header_def Let_def simp del: length_drop split: if_splits)
  moreover have "has_prefix s ''http.''" using m by (auto simp: match_header_def split: if_splits)
  then have "5 \<le> length s" by (auto simp: has_prefix_iff_prefix dest: prefix_length_le)
  ultimately show ?thesis by simp
qed

function redact_headers :: "string \<Rightarrow> string" where
  "redact_headers s = (case match_header s of
      Some (g, rest) \<Rightarrow> g @ ''***'' @ redact_headers rest
    | None \<Rightarrow> (case s of [] \<Rightarrow> [] | c # r \<Rightarrow> c # redact_headers r))"
  by pat_completeness auto
termination by (relation "measure length") (auto simp: match_header_shorter)

declare redact_headers.simps [simp del]

definition RedactGitSecrets :: "string \<Rightarrow> string" where
  "RedactGitSecrets s = redact_headers (RedactGitURL s)"

section \<open>Running git\<close>

text \<open>
  The program \<^verbatim>\<open>git\<close>: from the file system, the directory it runs in (empty for the
  node's own) and its arguments to the file system it leaves and, when it fails,
  its combined output and the process error.  A run of the node keeps the commands
  it gave to git, in order.
\<close>

type_synonym git_prog = "fs \<Rightarrow> string \<Rightarrow> string list \<Rightarrow> (string \<times> string) option \<times> fs"

record git_world =
  gfs :: fs
  commands :: "(string \<times> string list) list"

datatype git_error =
    GitFailed string
  | FsFailed fs_error
  | NoNewBranch
  | NoTaskId
  | NotAWorkingTree string
  | NotProvisioned string

type_synonym 'e outcome = "'e option \<times> git_world"

definition on_fs :: "git_world \<Rightarrow> fs_error + fs \<Rightarrow> git_error outcome" where
  "on_fs w r = (case r of Inl e \<Rightarrow> (Some (FsFailed e), w) | Inr s \<Rightarrow> (None, w\<lparr> gfs := s \<rparr>))"

definition runNodeGit :: "git_prog \<Rightarrow> string \<Rightarrow> string list \<Rightarrow> git_world \<Rightarrow> git_error outcome" where
  "runNodeGit git dir args w =
    (let d = (if trim_space dir \<noteq> [] then dir else []);
         (failure, s) = git (gfs w) d args;
         w' = w\<lparr> gfs := s, commands := commands w @ [(d, args)] \<rparr>
     in case failure of
          None \<Rightarrow> (None, w')
        | Some (out, err) \<Rightarrow>
            let msg = (if trim_space out = [] then err else trim_space out)
            in (Some (GitFailed (''git '' @ RedactGitSecrets (join '' '' args) @ '' failed: '' @ RedactGitSecrets msg)), w'))"

definition git_config :: "NodeGitSpec \<Rightarrow> GitWorkspaceConfig" where
  "git_config g =
    (let password = trim_space (git_password g); token = trim_space (git_token g) in
     \<lparr> gw_url = trim_space (git_url g),
       gw_branch = trim_space (git_branch g),
       gw_commit = trim_space (git_commit g),
       gw_credential = [],
       gw_username = trim_space (git_username g),
       gw_password = (if token \<noteq> [] \<and> password = [] then token else password),
       gw_create_branch = git_create_branch g,
       gw_new_branch = trim_space (git_new_branch g) \<rparr>)"

text \<open>The clone URL without its userinfo, and the credential to send in its place.\<close>

definition clone_auth :: "GitWorkspaceConfig \<Rightarrow> string \<times> string \<times> string" where
  "clone_auth cfg = (case SplitGitCredentialURL (gw_url cfg) of
      (stripped, user, pass, True) \<Rightarrow>
        if gw_username cfg = [] \<and> gw_password cfg = [] then (stripped, user, pass)
        else (stripped, gw_username cfg, gw_password cfg)
    | (_, _, _, False) \<Rightarrow> (gw_url cfg, gw_username cfg, gw_password cfg))"

text \<open>What follows the clone: the requested commit, then the requested branch.\<close>

definition git_checkout :: "git_prog \<Rightarrow> string \<Rightarrow> string list \<Rightarrow> GitWorkspaceConfig \<Rightarrow> git_world \<Rightarrow> git_error outcome" where
  "git_checkout git workDir authArgs cfg w =
    and_then
      (if gw_commit cfg = [] then (None, w)
       else case runNodeGit git workDir (authArgs @ GitCommitFetchArgs (gw_commit cfg)) w of
           (None, w) \<Rightarrow> runNodeGit git workDir [''checkout'', ''FETCH_HEAD''] w
         | (Some _, w) \<Rightarrow> runNodeGit git workDir [''checkout'', gw_commit cfg] w) (\<lambda>w.
    if \<not> gw_create_branch cfg then (None, w)
    else let branch = trim_space (gw_new_branch cfg) in
      if branch = [] then (Some NoNewBranch, w)
      else runNodeGit git workDir [''checkout'', ''-b'', branch] w)"

definition provisionGit :: "git_prog \<Rightarrow> string \<Rightarrow> NodeGitSpec \<Rightarrow> git_world \<Rightarrow> git_error outcome" where
  "provisionGit git workDir g w =
    (let cfg = git_config g;
         (cloneURL, authUser, authPass) = clone_auth cfg;
         authArgs = GitAuthHeaderArgs authUser authPass cloneURL
     in case HostWorkspaceInitialized (gfs w) workDir of
          Inl e \<Rightarrow> (Some (FsFailed e), w)
        | Inr True \<Rightarrow> (None, w)
        | Inr False \<Rightarrow>
            and_then (on_fs w (ResetStaleWorkspace (gfs w) workDir)) (\<lambda>w.
            and_then (runNodeGit git [] (authArgs @ GitCloneArgs cloneURL cfg workDir) w)
              (git_checkout git workDir authArgs cfg)))"

section \<open>Associated repositories\<close>

definition depGitSpec :: "json \<Rightarrow> (string \<times> string \<times> string) option" where
  "depGitSpec v = (case v of
      JNull \<Rightarrow> Some ([], [], [])
    | JObj kvs \<Rightarrow>
        (case (struct_field ''url'' kvs [], struct_field ''branch'' kvs [], struct_field ''subdir'' kvs [],
               struct_field ''mode'' kvs []) of
           (Some u, Some b, Some d, Some _) \<Rightarrow> Some (u, b, d)
         | _ \<Rightarrow> None)
    | _ \<Rightarrow> None)"

definition bare_git :: "string \<Rightarrow> string \<Rightarrow> NodeGitSpec" where
  "bare_git u b = \<lparr> git_url = u, git_branch = b, git_commit = [], git_username = [], git_password = [],
     git_token = [], git_create_branch = False, git_new_branch = [] \<rparr>"

definition placeholder_note :: "string \<Rightarrow> string" where
  "placeholder_note projectName = ''# '' @ trim_space projectName @ [CHR 0x0A, CHR 0x0A] @
    ''This associated project was not cloned: the task's git credential has no read access to its repository.''
    @ [CHR 0x0A]"

definition provision_dep :: "git_prog \<Rightarrow> (string \<Rightarrow> json option) \<Rightarrow> string \<Rightarrow> EnvVarSpec \<Rightarrow> git_world \<Rightarrow> git_world" where
  "provision_dep git parse workDir item w =
    (let name = trim_space (ev_name item) in
     if has_prefix name ''AI_LUBRICANT_DEP_GIT_'' then
       (case Option.bind (parse (ev_value item)) depGitSpec of
          None \<Rightarrow> w
        | Some (u, b, d) \<Rightarrow>
            let subdir = safeSubdirSegment d in
            if subdir = [] \<or> trim_space u = [] then w
            else snd (provisionGit git (path_join [workDir, subdir]) (bare_git u b) w))
     else if has_prefix name ''AI_LUBRICANT_DEP_PLACEHOLDER_'' then
       (case cut (ev_value item) ''|'' of
          (_, _, False) \<Rightarrow> w
        | (projectName, subdirRaw, True) \<Rightarrow>
            let subdir = safeSubdirSegment subdirRaw; target = path_join [workDir, subdir] in
            if subdir = [] then w
            else case mkdir_all (gfs w) target of
                Inl _ \<Rightarrow> w
              | Inr s \<Rightarrow>
                  (case write_file s (path_join [target, ''README.md'']) (Text (placeholder_note projectName)) of
                     Inl _ \<Rightarrow> w\<lparr> gfs := s \<rparr>
                   | Inr s' \<Rightarrow> w\<lparr> gfs := s' \<rparr>))
     else w)"

definition provisionAssociatedRepos ::
  "git_prog \<Rightarrow> (string \<Rightarrow> json option) \<Rightarrow> string \<Rightarrow> NodeCreateSession \<Rightarrow> git_world \<Rightarrow> git_world" where
  "provisionAssociatedRepos git parse workDir spec w = fold (provision_dep git parse workDir) (cs_env spec) w"

section \<open>Worktrees\<close>

text \<open>The cut itself: a new branch, or the branch of the same name that already exists.\<close>

definition add_worktree ::
  "git_prog \<Rightarrow> string \<Rightarrow> string \<Rightarrow> string \<Rightarrow> string \<Rightarrow> git_world \<Rightarrow> (git_error + string) \<times> git_world" where
  "add_worktree git repoDir worktreeDir branch base w =
    (case runNodeGit git repoDir
        ([''worktree'', ''add'', ''-b'', branch, worktreeDir] @ (if base \<noteq> [] then [base] else [])) w of
       (None, w) \<Rightarrow> (Inr worktreeDir, w)
     | (Some err, w) \<Rightarrow>
         (case runNodeGit git repoDir [''worktree'', ''add'', worktreeDir, branch] w of
            (None, w) \<Rightarrow> (Inr worktreeDir, w)
          | (Some _, w) \<Rightarrow> (Inl err, w)))"

definition prepareWorktree ::
  "git_prog \<Rightarrow> sessionOptions \<Rightarrow> NodeCreateSession \<Rightarrow> NodeGitSpec \<Rightarrow> git_world \<Rightarrow> (git_error + string) \<times> git_world" where
  "prepareWorktree git opts spec g w =
    (let envID = env_id_tag spec;
         taskID = trim_space (cs_task_id spec);
         imported = importedCheckoutPath spec;
         repoDir = (if imported \<noteq> [] then imported else envRepoDir opts envID);
         worktreeDir = envWorktreeDir opts envID taskID;
         branch = (if trim_space (git_new_branch g) = [] then ''task/'' @ sanitizeSessionDir taskID
                   else trim_space (git_new_branch g))
     in if taskID = [] then (Inl NoTaskId, w)
        else case HostWorkspaceInitialized (gfs w) repoDir of
            Inl e \<Rightarrow> (Inl (FsFailed e), w)
          | Inr False \<Rightarrow> (Inl (if imported \<noteq> [] then NotAWorkingTree repoDir else NotProvisioned repoDir), w)
          | Inr True \<Rightarrow>
              (case HostWorkspaceInitialized (gfs w) worktreeDir of
                 Inl e \<Rightarrow> (Inl (FsFailed e), w)
               | Inr True \<Rightarrow> (Inr worktreeDir, w)
               | Inr False \<Rightarrow>
                   (case mkdir_all (gfs w) (path_dir worktreeDir) of
                      Inl e \<Rightarrow> (Inl (FsFailed e), w)
                    | Inr s \<Rightarrow>
                        add_worktree git repoDir worktreeDir branch (trim_space (git_branch g)) (w\<lparr> gfs := s \<rparr>))))"

definition ensureEnvRepo :: "git_prog \<Rightarrow> string \<Rightarrow> NodeGitSpec \<Rightarrow> git_world \<Rightarrow> git_error outcome" where
  "ensureEnvRepo git repoDir g w =
    (let cfg = (git_config g)\<lparr> gw_create_branch := False, gw_new_branch := [] \<rparr>;
         (cloneURL, authUser, authPass) = clone_auth cfg;
         authArgs = GitAuthHeaderArgs authUser authPass cloneURL
     in case HostWorkspaceInitialized (gfs w) repoDir of
          Inl e \<Rightarrow> (Some (FsFailed e), w)
        | Inr True \<Rightarrow> (None, w)
        | Inr False \<Rightarrow>
            and_then (on_fs w (ResetStaleWorkspace (gfs w) repoDir)) (\<lambda>w.
            and_then (on_fs w (mkdir_all (gfs w) (path_dir repoDir))) (\<lambda>w.
            and_then (runNodeGit git [] (authArgs @ GitCloneArgs cloneURL cfg repoDir) w) (\<lambda>w.
            if gw_commit cfg = [] then (None, w)
            else case runNodeGit git repoDir (authArgs @ GitCommitFetchArgs (gw_commit cfg)) w of
                (None, w) \<Rightarrow> (None, snd (runNodeGit git repoDir [''checkout'', ''FETCH_HEAD''] w))
              | (Some _, w) \<Rightarrow> (None, w)))))"

definition removeWorktree :: "git_prog \<Rightarrow> sessionOptions \<Rightarrow> string \<Rightarrow> string \<Rightarrow> string \<Rightarrow> git_world \<Rightarrow> git_world" where
  "removeWorktree git opts envID taskID repoDir w =
    (let repo = (if trim_space repoDir = [] then envRepoDir opts envID else repoDir);
         w' = (case remove_all (gfs w) (envWorktreeDir opts envID taskID) of
                 Inl _ \<Rightarrow> w | Inr s \<Rightarrow> w\<lparr> gfs := s \<rparr>)
     in snd (runNodeGit git repo [''worktree'', ''prune''] w'))"

definition sharedDepDirs :: "string list" where
  "sharedDepDirs = [''node_modules'', ''.venv'', ''venv'', ''.tox'', ''target/debug'', ''target/release'']"

definition linkDir :: "string \<Rightarrow> string \<Rightarrow> fs \<Rightarrow> fs_error + fs" where
  "linkDir src dst s = symlink s src dst"

fun linkSharedDeps :: "string \<Rightarrow> string \<Rightarrow> string list \<Rightarrow> fs \<Rightarrow> fs" where
  "linkSharedDeps worktreeDir sourceDir [] s = s"
| "linkSharedDeps worktreeDir sourceDir (name # names) s =
    linkSharedDeps worktreeDir sourceDir names
      (let src = path_join [sourceDir, name]; dst = path_join [worktreeDir, name] in
       if stat s src \<noteq> Inr NDir then s
       else case stat s dst of
           Inr _ \<Rightarrow> s
         | Inl _ \<Rightarrow>
             (case mkdir_all s (path_dir dst) of
                Inl _ \<Rightarrow> s
              | Inr s' \<Rightarrow> (case linkDir src dst s' of Inl _ \<Rightarrow> s' | Inr s'' \<Rightarrow> s'')))"

section \<open>Redaction hides the userinfo\<close>

text \<open>The authority part of a text from a URL on, as the redaction sees it.\<close>

definition after_at :: "string \<Rightarrow> string" where
  "after_at a = (case rcut CHR ''@'' a of None \<Rightarrow> a | Some (_, h) \<Rightarrow> h)"

lemma scheme_char_simps [simp]:
  "\<not> scheme_char CHR '':''" "\<not> scheme_char CHR ''/''" "\<not> scheme_char CHR ''@''" "auth_end CHR ''/''"
  "\<not> auth_end CHR ''@''" "\<not> auth_end CHR '':''"
  by (simp_all add: scheme_char_def is_alnum_def byte_in_def auth_end_def)

lemma scheme_start_char: "scheme_start c \<Longrightarrow> scheme_char c"
  by (auto simp: scheme_start_def scheme_char_def is_alnum_def)

lemma scheme_char_not_end: "scheme_char c \<Longrightarrow> \<not> auth_end c"
  by (auto simp: scheme_char_def auth_end_def is_alnum_def byte_in_def)

lemma rcut_append: "rcut c (x @ c # y) = Some (if c \<in> set y then x @ c # fst (the (rcut c y)) else x,
    if c \<in> set y then snd (the (rcut c y)) else y)"
  by (auto simp: rcut_def takeWhile_append dropWhile_append)

lemma rcut_append_none: "c \<notin> set y \<Longrightarrow> rcut c (x @ y) = map_option (\<lambda>(a, b). (a, b @ y)) (rcut c x)"
  by (auto simp: rcut_def takeWhile_append dropWhile_append)

definition is_scheme :: "string \<Rightarrow> bool" where
  "is_scheme sch \<longleftrightarrow> sch \<noteq> [] \<and> scheme_start (hd sch) \<and> (\<forall>c \<in> set sch. scheme_char c)"

definition url_text :: "string \<Rightarrow> string \<Rightarrow> string \<Rightarrow> string" where
  "url_text sch secret post = sch @ ''://'' @ secret @ ''@'' @ post"

lemma match_userinfo_scheme:
  assumes "sch \<noteq> []" "\<forall>c \<in> set sch. scheme_char c"
  shows "match_userinfo (sch @ ''://'' @ body) =
    (if \<not> scheme_start (hd sch) then None
     else case rcut CHR ''@'' (takeWhile (\<lambda>x. \<not> auth_end x) body) of
         None \<Rightarrow> None
       | Some (_, host) \<Rightarrow> Some (sch @ ''://'', host @ dropWhile (\<lambda>x. \<not> auth_end x) body))"
proof -
  have tw: "takeWhile scheme_char (sch @ ''://'' @ body) = sch" "dropWhile scheme_char (sch @ ''://'' @ body) = ''://'' @ body"
    using assms(2) by (auto simp: takeWhile_append dropWhile_append)
  have hp: "has_prefix (''://'' @ body) ''://''" "drop 3 (''://'' @ body) = body"
    by (simp only: has_prefix_append) simp
  obtain c r where c: "sch = c # r" using assms(1) by (cases sch) auto
  have "match_userinfo t = (if \<not> scheme_start (hd t) \<or> \<not> has_prefix (dropWhile scheme_char t) ''://'' then None
      else case rcut CHR ''@'' (takeWhile (\<lambda>x. \<not> auth_end x) (drop 3 (dropWhile scheme_char t))) of
         None \<Rightarrow> None
       | Some (_, host) \<Rightarrow> Some (takeWhile scheme_char t @ ''://'', host @ dropWhile (\<lambda>x. \<not> auth_end x) (drop 3 (dropWhile scheme_char t))))"
    if "t \<noteq> []" for t
    using that by (cases t) (simp_all only: match_userinfo_def Let_def list.case list.sel)
  from this[of "sch @ ''://'' @ body", unfolded tw hp(2)] hp(1) show ?thesis using c by simp
qed

lemma match_at_url:
  assumes "sch \<noteq> []" "\<forall>c \<in> set sch. scheme_char c" "\<forall>c \<in> set secret. \<not> auth_end c"
  shows "match_userinfo (url_text sch secret post) =
    (if scheme_start (hd sch)
     then Some (sch @ ''://'', after_at (takeWhile (\<lambda>x. \<not> auth_end x) post) @ dropWhile (\<lambda>x. \<not> auth_end x) post)
     else None)"
proof -
  have au: "takeWhile (\<lambda>x. \<not> auth_end x) (secret @ ''@'' @ post) = secret @ CHR ''@'' # takeWhile (\<lambda>x. \<not> auth_end x) post"
    "dropWhile (\<lambda>x. \<not> auth_end x) (secret @ ''@'' @ post) = dropWhile (\<lambda>x. \<not> auth_end x) post"
    using assms(3) by (auto simp: takeWhile_append dropWhile_append)
  have "snd (the (rcut CHR ''@'' (secret @ CHR ''@'' # a))) = after_at a" for a
    unfolding rcut_append by (auto simp: after_at_def rcut_def)
  then show ?thesis
    unfolding url_text_def match_userinfo_scheme[OF assms(1,2)] au by (auto simp: rcut_append)
qed

lemma match_before_url:
  assumes "is_scheme sch" "d \<notin> Collect scheme_char" "\<forall>c \<in> set x. scheme_char c"
  shows "(\<forall>secret. match_userinfo (x @ d # y @ url_text sch secret post) = None) \<or>
    (\<exists>g p. length p < length (x @ d # y) \<and>
      (\<forall>secret. match_userinfo (x @ d # y @ url_text sch secret post) = Some (g, p @ url_text sch secret post)))"
proof -
  let ?T = "\<lambda>secret. url_text sch secret post" and ?ne = "\<lambda>x. \<not> auth_end x"
  have tw: "takeWhile scheme_char (x @ d # y @ ?T s) = x" "dropWhile scheme_char (x @ d # y @ ?T s) = d # y @ ?T s" for s
    using assms(2,3) by (auto simp: takeWhile_append dropWhile_append)
  have T: "?T s = hd sch # tl sch @ ''://'' @ s @ ''@'' @ post" "hd sch \<noteq> CHR ''/''" for s
    using assms(1) by (cases sch; auto simp: url_text_def is_scheme_def dest: scheme_start_char)+
  show ?thesis
  proof (cases "x \<noteq> [] \<and> scheme_start (hd x) \<and> has_prefix (d # y) ''://''")
    case True
    then obtain z where z: "d # y = ''://'' @ z" using has_prefixD by blast
    have e: "x @ d # y @ r = x @ ''://'' @ z @ r" for r using z by simp
    have m: "match_userinfo (x @ d # y @ ?T s) = (case rcut CHR ''@'' (takeWhile ?ne (z @ ?T s)) of
        None \<Rightarrow> None | Some (_, host) \<Rightarrow> Some (x @ ''://'', host @ dropWhile ?ne (z @ ?T s)))" for s
      unfolding e using True assms(3) by (subst match_userinfo_scheme) auto
    have schne: "\<forall>c \<in> set sch. ?ne c" "CHR ''@'' \<notin> set sch" using assms(1) scheme_char_not_end
      by (auto simp: is_scheme_def)
    show ?thesis
    proof (cases "\<exists>c \<in> set z. auth_end c")
      case True
      then obtain z1 e z2 where "z = z1 @ e # z2" "auth_end e" "\<forall>c \<in> set z1. ?ne c"
        by (metis split_list_first_prop)
      then have tz: "takeWhile ?ne (z @ ?T s) = z1" "dropWhile ?ne (z @ ?T s) = e # z2 @ ?T s" for s
        by (auto simp: takeWhile_append dropWhile_append)
      show ?thesis
      proof (cases "rcut CHR ''@'' z1")
        case None
        then show ?thesis by (simp add: m tz)
      next
        case (Some ab)
        then obtain a b where ab: "rcut CHR ''@'' z1 = Some (a, b)" by (cases ab) auto
        have "length (b @ e # z2) < length (x @ d # y)"
          using rcut_Some[OF ab] \<open>z = z1 @ e # z2\<close> z by (auto dest!: arg_cong[where f = length])
        moreover have "\<forall>s. match_userinfo (x @ d # y @ ?T s) = Some (x @ ''://'', (b @ e # z2) @ ?T s)"
          by (simp add: m tz ab)
        ultimately show ?thesis by blast
      qed
    next
      case False
      then have tz: "takeWhile ?ne (z @ ?T s) = z @ sch @ '':''"
          "dropWhile ?ne (z @ ?T s) = ''//'' @ s @ ''@'' @ post" for s
        using schne by (auto simp: takeWhile_append dropWhile_append url_text_def)
      have "CHR ''@'' \<notin> set (sch @ '':'')" using schne by simp
      then have rc: "rcut CHR ''@'' (z @ sch @ '':'') = map_option (\<lambda>(a, b). (a, b @ sch @ '':'')) (rcut CHR ''@'' z)"
        by (rule rcut_append_none)
      show ?thesis
      proof (cases "rcut CHR ''@'' z")
        case None
        then show ?thesis by (simp add: m tz rc)
      next
        case (Some ab)
        then obtain a b where ab: "rcut CHR ''@'' z = Some (a, b)" by (cases ab) auto
        have "length b < length (x @ d # y)"
          using rcut_Some[OF ab] z by (auto dest!: arg_cong[where f = length])
        moreover have "\<forall>s. match_userinfo (x @ d # y @ ?T s) = Some (x @ ''://'', b @ ?T s)"
          by (simp add: m tz rc ab) (simp add: url_text_def)
        ultimately show ?thesis by blast
      qed
    qed
  next
    case False
    have np: "has_prefix (d # y @ ?T s) ''://'' = has_prefix (d # y) ''://''" for s
    proof -
      have "take 3 (d # y @ hd sch # r) = ''://'' \<longleftrightarrow> take 3 (d # y) = ''://''" for r
        using T(2) by (cases y; cases "tl y") (auto simp: eval_nat_numeral)
      moreover have "length ''://'' = 3" by simp
      ultimately show ?thesis unfolding T(1)[of s] has_prefix_def by metis
    qed
    have "match_userinfo (x @ d # y @ ?T s) = None" for s
    proof (cases x)
      case Nil
      moreover have "\<not> scheme_start d" using assms(2) scheme_start_char[of d] by auto
      ultimately show ?thesis by (simp add: match_userinfo_def)
    next
      case (Cons c x')
      then have "\<not> scheme_start c \<or> \<not> has_prefix (d # y @ ?T s) ''://''" using False np[of s] by simp
      then show ?thesis using Cons tw[of s] by (auto simp only: match_userinfo_def Let_def list.case append_Cons split: if_splits)
    qed
    then show ?thesis by blast
  qed
qed

lemma RedactGitURL_match: "match_userinfo s = Some (g, rest) \<Longrightarrow> RedactGitURL s = g @ ''***@'' @ RedactGitURL rest"
  by (subst RedactGitURL.simps) simp

lemma RedactGitURL_skip: "match_userinfo (c # r) = None \<Longrightarrow> RedactGitURL (c # r) = c # RedactGitURL r"
  by (subst RedactGitURL.simps) simp

lemma RedactGitURL_hides:
  assumes "is_scheme sch" "\<forall>c \<in> set s1. \<not> auth_end c" "\<forall>c \<in> set s2. \<not> auth_end c"
  shows "RedactGitURL (pre @ url_text sch s1 post) = RedactGitURL (pre @ url_text sch s2 post)"
proof (induction "length pre" arbitrary: pre rule: less_induct)
  case less
  have step: ?case if "pre = c # p" "\<And>s. s \<in> {s1, s2} \<Longrightarrow> match_userinfo (pre @ url_text sch s post) = None" for c p
    using that less[of p] by (simp add: RedactGitURL_skip)
  show ?case
  proof (cases "\<forall>c \<in> set pre. scheme_char c")
    case True
    have m: "pre @ url_text sch s post = url_text (pre @ sch) s post" for s
      by (simp add: url_text_def)
    have sc: "pre @ sch \<noteq> []" "\<forall>c \<in> set (pre @ sch). scheme_char c" using True assms(1) by (auto simp: is_scheme_def)
    show ?thesis
    proof (cases "scheme_start (hd (pre @ sch))")
      case True
      then show ?thesis
        unfolding m using match_at_url[OF sc assms(2), of post] match_at_url[OF sc assms(3), of post]
        by (simp add: RedactGitURL_match)
    next
      case False
      then obtain c p where "pre = c # p" using assms(1) by (cases pre) (auto simp: is_scheme_def)
      moreover have "match_userinfo (pre @ url_text sch s post) = None" if "s \<in> {s1, s2}" for s
      proof -
        have "\<forall>c \<in> set s. \<not> auth_end c" using that assms(2,3) by blast
        from match_at_url[OF sc this, of post] False show ?thesis unfolding m by presburger
      qed
      ultimately show ?thesis using step[of c p] by blast
    qed
  next
    case False
    then obtain x d y where p: "pre = x @ d # y" "\<not> scheme_char d" "\<forall>c \<in> set x. scheme_char c"
      using split_list_first_prop[of pre "\<lambda>c. \<not> scheme_char c"] by blast
    have eq: "pre @ t = x @ d # y @ t" for t using p(1) by simp
    have dn: "d \<notin> Collect scheme_char" using p(2) by simp
    from match_before_url[OF assms(1) dn p(3), of y post, folded eq]
    show ?thesis
    proof (elim disjE exE conjE)
      assume "\<forall>s. match_userinfo (pre @ url_text sch s post) = None"
      moreover obtain c q where "pre = c # q" using p(1) by (cases x) auto
      ultimately show ?thesis by (metis step)
    next
      fix g q assume "length q < length (x @ d # y)"
        "\<forall>s. match_userinfo (pre @ url_text sch s post) = Some (g, q @ url_text sch s post)"
      then show ?thesis using less[of q] p(1) RedactGitURL_match by metis
    qed
  qed
qed


section \<open>The clone URL carries no userinfo\<close>

text \<open>The authority of a URL text, where git looks for a user name.\<close>

definition url_authority :: "string \<Rightarrow> string" where
  "url_authority s = takeWhile (\<lambda>x. \<not> auth_end x) (drop 3 (dropWhile scheme_char s))"

lemma lower_scheme: "scheme_char c \<Longrightarrow> scheme_char (lower_char c)"
proof -
  assume c: "scheme_char c"
  show ?thesis
  proof (cases "of_char c \<in> {65..90 :: nat}")
    case True
    then have "of_char (lower_char c) \<in> {97..122 :: nat}" by (auto simp: lower_char_def)
    then show ?thesis by (auto simp: scheme_char_def is_alnum_def byte_in_def)
  qed (use c in \<open>auto simp: lower_char_def\<close>)
qed

lemma escaped_path_start: "p = [] \<or> hd p = slash \<Longrightarrow> escaped_path p = [] \<or> hd (escaped_path p) = slash"
  by (cases p) (auto simp: escaped_path_def escape_path_def escape_with_def escape_char_def path_keeps_def slash_def
      split: option.splits)

lemma takeWhile_two:
  "b = [] \<or> \<not> P (hd b) \<Longrightarrow> set (takeWhile P (a @ b)) \<subseteq> set a"
  by (cases b) (auto simp: takeWhile_append dest: set_takeWhileD)

lemma url_string_no_user:
  assumes "\<forall>c \<in> set (u_scheme u). scheme_char c" "u_path u = [] \<or> hd (u_path u) = slash"
  shows "CHR ''@'' \<notin> set (url_authority (url_string (u\<lparr> u_user := None \<rparr>)))"
proof -
  let ?tail = "escaped_path (u_path u) @ (if u_force_query u \<or> u_query u \<noteq> [] then ''?'' @ u_query u else [])
    @ (if u_fragment u \<noteq> [] then ''#'' @ u_fragment u else [])"
  have s: "url_string (u\<lparr> u_user := None \<rparr>) = u_scheme u @ ''://'' @ escape_host (u_host u) @ ?tail"
    by (simp add: url_string_def userinfo_string_def)
  have d: "drop 3 (dropWhile scheme_char (u_scheme u @ ''://'' @ r)) = r" for r
    using assms(1) by (simp add: dropWhile_append eval_nat_numeral)
  have "?tail = [] \<or> \<not> \<not> auth_end (hd ?tail)"
    using escaped_path_start[OF assms(2)] by (auto simp: auth_end_def slash_def hd_append)
  from takeWhile_two[of ?tail "\<lambda>x. \<not> auth_end x", OF this] escape_host_no_at show ?thesis
    unfolding url_authority_def s d by blast
qed

lemma url_parse_shape:
  assumes "url_parse raw = Some u"
  shows "\<forall>c \<in> set (u_scheme u). scheme_char c" "u_path u = [] \<or> hd (u_path u) = slash"
proof -
  have "hd (dropWhile (\<lambda>c. c \<noteq> slash) b) = slash" if "dropWhile (\<lambda>c. c \<noteq> slash) b \<noteq> []" for b
    using hd_dropWhile[OF that] by simp
  then show "\<forall>c \<in> set (u_scheme u). scheme_char c" "u_path u = [] \<or> hd (u_path u) = slash"
    using assms by (auto simp: url_parse_def Let_def to_lower_def lower_scheme split: prod.splits if_splits bool.splits option.splits)
qed

section \<open>Frames of the git operations\<close>

text \<open>
  What the node relies on git for.  A clone writes below the directory it is given as target, which is what
  its documentation says.  Outside worktrees the other commands work in the directory they run in: a
  repository that was just cloned has its git directory inside and no hooks of its own.  Nothing is assumed
  of the \<^verbatim>\<open>worktree\<close> commands, whose registration, hooks and objects may lie elsewhere.
\<close>

definition clone_confined :: "git_prog \<Rightarrow> bool" where
  "clone_confined git \<longleftrightarrow> (\<forall>s args. ''clone'' \<in> set args \<longrightarrow> confined {comps (last args)} s (snd (git s [] args)))"

definition git_confined :: "git_prog \<Rightarrow> bool" where
  "git_confined git \<longleftrightarrow> (\<forall>s d args. hd args \<noteq> ''worktree'' \<longrightarrow>
     confined {comps (if d = [] then last args else d)} s (snd (git s d args)))"

lemma snd_and_then:
  "gfs (snd (and_then r f)) = (if fst r = None then gfs (snd (f (snd r))) else gfs (snd r))"
  by (auto simp: and_then_def split: prod.splits option.splits)

lemma confined_and_then:
  assumes "confined D s (gfs (snd r))" "\<And>w. confined D s (gfs w) \<Longrightarrow> confined D s (gfs (snd (f w)))"
  shows "confined D s (gfs (snd (and_then r f)))"
  using assms by (simp add: snd_and_then)

lemma gfs_runNodeGit:
  "gfs (snd (runNodeGit git dir args w)) = snd (git (gfs w) (if trim_space dir \<noteq> [] then dir else []) args)"
  by (auto simp: runNodeGit_def Let_def split: prod.splits option.splits)

lemma confined_runNodeGit:
  assumes "git_confined git" "confined D s (gfs w)" "hd args \<noteq> ''worktree''" "comps (if trim_space dir = [] then last args else dir) \<in> D"
  shows "confined D s (gfs (snd (runNodeGit git dir args w)))"
proof -
  let ?d = "if trim_space dir \<noteq> [] then dir else []"
  have "(if ?d = [] then last args else ?d) = (if trim_space dir = [] then last args else dir)"
    by (cases "dir = []") auto
  then have "confined {comps (if trim_space dir = [] then last args else dir)} (gfs w) (gfs (snd (runNodeGit git dir args w)))"
    using assms(1)[unfolded git_confined_def, rule_format, OF assms(3), of ?d "gfs w"] by (simp only: gfs_runNodeGit)
  then have "confined D (gfs w) (gfs (snd (runNodeGit git dir args w)))"
    by (rule confined_mono) (use assms(4) in force)
  with assms(2) show ?thesis by (rule confined_trans)
qed

lemma confined_clone:
  assumes "clone_confined git" "confined D s (gfs w)" "''clone'' \<in> set args" "comps (last args) \<in> D"
  shows "confined D s (gfs (snd (runNodeGit git [] args w)))"
proof -
  have "confined {comps (last args)} (gfs w) (gfs (snd (runNodeGit git [] args w)))"
    using assms(1,3) unfolding clone_confined_def gfs_runNodeGit by simp
  then have "confined D (gfs w) (gfs (snd (runNodeGit git [] args w)))"
    by (rule confined_mono) (use assms(4) in force)
  with assms(2) show ?thesis by (rule confined_trans)
qed

lemma confined_on_fs:
  "confined D s (gfs w) \<Longrightarrow> (\<And>s'. r = Inr s' \<Longrightarrow> confined D (gfs w) s') \<Longrightarrow> confined D s (gfs (snd (on_fs w r)))"
  by (auto simp: on_fs_def split: sum.splits intro: confined_trans)

lemma confined_Reset: "ResetStaleWorkspace s p = Inr s' \<Longrightarrow> confined {comps p} s s'"
  by (auto simp: ResetStaleWorkspace_def confined_remove_all split: sum.splits fs_error.splits)

lemma hd_clone: "a = [] \<or> hd a = ''-c'' \<Longrightarrow> hd (a @ GitCloneArgs u cfg d) \<noteq> ''worktree''"
  by (cases a) (auto simp: GitCloneArgs_def)

lemma auth_hd: "GitAuthHeaderArgs n p u = [] \<or> hd (GitAuthHeaderArgs n p u) = ''-c''"
  by (simp add: GitAuthHeaderArgs_def Let_def)

lemma last_clone: "last (authArgs @ GitCloneArgs u cfg d) = d"
  by (simp add: GitCloneArgs_def)

lemma provisionGit_confined:
  assumes "git_confined git" "is_abs workDir"
  shows "confined {comps workDir} (gfs w) (gfs (snd (provisionGit git workDir g w)))"
proof -
  let ?D = "{comps workDir}"
  have ne: "trim_space workDir \<noteq> []" using assms(2) trim_space_abs by blast
  have run: "confined ?D s (gfs (snd (runNodeGit git workDir args w')))"
    if "confined ?D s (gfs w')" "hd args \<noteq> ''worktree''" for s args w'
    using that ne by (intro confined_runNodeGit[OF assms(1)]) auto
  have clone: "confined ?D s (gfs (snd (runNodeGit git [] (a @ GitCloneArgs u cfg workDir) w')))"
    if "confined ?D s (gfs w')" "a = [] \<or> hd a = ''-c''" for s a u cfg w'
    using that(1) hd_clone[OF that(2), of u cfg workDir] by (intro confined_runNodeGit[OF assms(1)]) (auto simp: last_clone)
  have checkout: "confined ?D s (gfs (snd (case runNodeGit git workDir fa w' of
        (None, w) \<Rightarrow> runNodeGit git workDir [''checkout'', ''FETCH_HEAD''] w
      | (Some _, w) \<Rightarrow> runNodeGit git workDir [''checkout'', c] w)))"
    if "confined ?D s (gfs w')" "hd fa \<noteq> ''worktree''" for s fa c w'
    using run[OF that] by (auto split: prod.splits option.splits intro!: run)
  obtain u n p where c: "clone_auth (git_config g) = (u, n, p)" by (metis prod_cases3)
  have fa: "hd (GitAuthHeaderArgs n p u @ GitCommitFetchArgs x) \<noteq> ''worktree''" for x
    by (auto simp: GitAuthHeaderArgs_def GitCommitFetchArgs_def Let_def)
  show ?thesis
    unfolding provisionGit_def git_checkout_def Let_def c
    by (auto split: sum.splits bool.splits intro!: confined_and_then confined_on_fs[OF confined_refl confined_Reset] clone checkout run fa auth_hd)
qed

lemma safe_target:
  assumes "is_abs workDir" "safeSubdirSegment d \<noteq> []"
  shows "comps (path_join [workDir, safeSubdirSegment d]) = comps workDir @ [safeSubdirSegment d]"
    "is_abs (path_join [workDir, safeSubdirSegment d])"
  using comps_join_segs[OF assms(1), of "[safeSubdirSegment d]"] safeSubdir_plain[OF assms(2)] by simp_all

lemma provision_dep_confined:
  assumes "git_confined git" "is_abs workDir"
  shows "confined {comps workDir} (gfs w) (gfs (provision_dep git parse workDir item w))"
proof -
  have clone: "confined {comps workDir} (gfs w) (gfs (snd (provisionGit git (path_join [workDir, safeSubdirSegment d]) g w)))"
    if "safeSubdirSegment d \<noteq> []" for d g
    using provisionGit_confined[OF assms(1) safe_target(2)[OF assms(2) that], of w g]
    by (rule confined_sub) (auto simp: safe_target[OF assms(2) that])
  have placeholder: "confined {comps workDir} (gfs w) s'"
    if "safeSubdirSegment d \<noteq> []" "mkdir_all (gfs w) (path_join [workDir, safeSubdirSegment d]) = Inr s"
      "s' = s \<or> write_file s (path_join [path_join [workDir, safeSubdirSegment d], ''README.md'']) t = Inr s'" for d s s' t
  proof -
    let ?t = "path_join [workDir, safeSubdirSegment d]"
    have "confined {comps workDir} (gfs w) s"
      using confined_mkdir_all[OF that(2)] by (rule confined_sub) (auto simp: safe_target[OF assms(2) that(1)])
    moreover have "comps (path_join [?t, ''README.md'']) = comps workDir @ [safeSubdirSegment d, ''README.md'']"
      using comps_join_segs[OF safe_target(2)[OF assms(2) that(1)], of "[''README.md'']"]
      by (simp add: safe_target[OF assms(2) that(1)] plain_seg_def slash_def)
    then have "confined {comps workDir} s s'"
      using that(3) confined_sub[OF confined_write_file, of s "path_join [?t, ''README.md'']" t s' "comps workDir" "{comps workDir}"]
      by auto
    ultimately show ?thesis by (rule confined_trans)
  qed
  show ?thesis
    unfolding provision_dep_def Let_def
    by (auto split: option.splits prod.splits bool.splits sum.splits intro: clone placeholder)
qed

lemma provisionAssociatedRepos_confined:
  "git_confined git \<Longrightarrow> is_abs workDir \<Longrightarrow>
    confined {comps workDir} (gfs w) (gfs (provisionAssociatedRepos git parse workDir spec w))"
proof -
  assume a: "git_confined git" "is_abs workDir"
  have "confined {comps workDir} (gfs w) (gfs (fold (provision_dep git parse workDir) items w))" for items
  proof (induction items arbitrary: w)
    case (Cons i items)
    show ?case using confined_trans[OF provision_dep_confined[OF a] Cons.IH] by simp
  qed simp
  then show ?thesis by (simp add: provisionAssociatedRepos_def)
qed

lemma add_wt: "add_worktree git repo wt branch base w = (Inr p, w') \<Longrightarrow> p = wt"
  by (auto simp: add_worktree_def split: prod.splits option.splits)

lemma commands_runNodeGit:
  "\<exists>d. commands (snd (runNodeGit git dir args w)) = commands w @ [(d, args)]"
  by (auto simp: runNodeGit_def Let_def split: prod.splits option.splits)

lemma clone_auth_clean:
  assumes "url_parse (trim_space (git_url g)) = Some u" "u_user u = Some (n, p)" "n \<noteq> [] \<or> p \<noteq> []"
    "has_prefix (trim_space (git_url g)) ''http://'' \<or> has_prefix (trim_space (git_url g)) ''https://''"
  shows "fst (clone_auth (git_config g)) = url_string (u\<lparr> u_user := None \<rparr>)"
proof -
  have "trim_space (git_url g) \<noteq> []" using assms(4) by (auto simp: has_prefix_def)
  then show ?thesis
    using assms by (auto simp: clone_auth_def git_config_def SplitGitCredentialURL_def Let_def)
qed

definition extends :: "git_world \<Rightarrow> 'e outcome \<Rightarrow> bool" where
  "extends w r \<longleftrightarrow> (\<exists>cs. commands (snd r) = commands w @ cs)"

lemma extends_simps [simp]: "extends w (e, w)" "extends w (runNodeGit git dir args w)"
  using commands_runNodeGit[of git dir args w] by (auto simp: extends_def)

lemma extends_trans: "extends w (e, w1) \<Longrightarrow> extends w1 r \<Longrightarrow> extends w r"
  by (auto simp: extends_def)

lemma extends_and_then: "extends w r \<Longrightarrow> (\<And>w'. extends w' (f w')) \<Longrightarrow> extends w (and_then r f)"
  by (auto simp: and_then_def split: prod.splits option.splits intro: extends_trans)

lemma extends_case:
  "(\<And>w'. extends w' (f w')) \<Longrightarrow> (\<And>w'. extends w' (h w')) \<Longrightarrow>
    extends w (case runNodeGit git dir args w of (None, w) \<Rightarrow> f w | (Some _, w) \<Rightarrow> h w)"
proof -
  assume a: "\<And>w'. extends w' (f w')" "\<And>w'. extends w' (h w')"
  obtain e w1 where r: "runNodeGit git dir args w = (e, w1)" by (cases "runNodeGit git dir args w") auto
  have "extends w (e, w1)" unfolding r[symmetric] by simp
  with a r show ?thesis by (cases e) (auto intro: extends_trans)
qed

lemma git_checkout_extends: "extends w (git_checkout git workDir authArgs cfg w)"
  unfolding git_checkout_def by (intro extends_and_then) (auto simp: Let_def intro!: extends_case)

lemma commands_on_fs: "on_fs w r = (e, w') \<Longrightarrow> commands w' = commands w"
  by (auto simp: on_fs_def split: sum.splits)

lemma provisionGit_commands:
  "\<exists>cs. commands (snd (provisionGit git workDir g w)) = commands w @ cs \<and>
    (cs = [] \<or> (\<exists>auth. snd (hd cs) = auth @ GitCloneArgs (fst (clone_auth (git_config g))) (git_config g) workDir))"
proof -
  obtain u n p where c: "clone_auth (git_config g) = (u, n, p)" by (metis prod_cases3)
  let ?auth = "GitAuthHeaderArgs n p u" and ?cfg = "git_config g"
  let ?args = "?auth @ GitCloneArgs u ?cfg workDir"
  have clone: "\<exists>d cs. commands (snd (and_then (runNodeGit git [] ?args w1) (git_checkout git workDir ?auth ?cfg)))
      = commands w1 @ (d, ?args) # cs" for w1
  proof -
    obtain d where d: "commands (snd (runNodeGit git [] ?args w1)) = commands w1 @ [(d, ?args)]"
      using commands_runNodeGit by blast
    then show ?thesis using git_checkout_extends[of "snd (runNodeGit git [] ?args w1)" git workDir ?auth ?cfg]
      by (auto simp: and_then_def extends_def split: prod.splits option.splits)
  qed
  obtain e w0 where r: "on_fs w (ResetStaleWorkspace (gfs w) workDir) = (e, w0)" by (cases "on_fs w (ResetStaleWorkspace (gfs w) workDir)") auto
  have "commands (snd (provisionGit git workDir g w)) = commands w \<or> (\<exists>w1. commands w1 = commands w \<and>
      provisionGit git workDir g w = and_then (runNodeGit git [] ?args w1) (git_checkout git workDir ?auth ?cfg))"
  proof (cases "HostWorkspaceInitialized (gfs w) workDir = Inr False \<and> e = None")
    case True
    then have "provisionGit git workDir g w = and_then (runNodeGit git [] ?args w0) (git_checkout git workDir ?auth ?cfg)"
      by (simp add: provisionGit_def c Let_def r)
    then show ?thesis using commands_on_fs[OF r] by blast
  next
    case False
    then have "snd (provisionGit git workDir g w) \<in> {w, w0}"
      by (cases e) (simp_all add: provisionGit_def c Let_def r and_then_def[of "(Some x, w0)" for x] split: sum.splits bool.splits)
    then show ?thesis using commands_on_fs[OF r] by auto
  qed
  then consider "commands (snd (provisionGit git workDir g w)) = commands w"
    | w1 where "commands w1 = commands w"
        "provisionGit git workDir g w = and_then (runNodeGit git [] ?args w1) (git_checkout git workDir ?auth ?cfg)"
    by blast
  then show ?thesis
  proof cases
    case (2 w1)
    with clone[of w1] obtain d cs where "commands (snd (provisionGit git workDir g w)) = commands w @ (d, ?args) # cs" by auto
    then show ?thesis by (intro exI[of _ "(d, ?args) # cs"]) (auto simp: c)
  qed simp
qed

section \<open>Properties\<close>

text \<open>
  
  Cloning never hands git a URL with credentials in it: whatever git does,
  when the configured URL is an http(s) URL with a userinfo part, every
  provisioning run either runs no command or starts with a clone whose URL has
  no user information in its authority.
\<close>

theorem clone_url_clean:
  assumes "url_parse (trim_space (git_url g)) = Some u" "u_user u = Some (n, p)" "n \<noteq> [] \<or> p \<noteq> []"
    "has_prefix (trim_space (git_url g)) ''http://'' \<or> has_prefix (trim_space (git_url g)) ''https://''"
  shows "\<exists>cs. commands (snd (provisionGit git workDir g w)) = commands w @ cs \<and>
    (cs = [] \<or> (\<exists>auth url. snd (hd cs) = auth @ GitCloneArgs url (git_config g) workDir \<and>
      CHR ''@'' \<notin> set (url_authority url)))"
  using provisionGit_commands[of git workDir g w] url_string_no_user[OF url_parse_shape[OF assms(1)]]
  unfolding clone_auth_clean[OF assms] by blast

definition demo_world :: git_world where
  "demo_world = \<lparr> gfs = \<lparr> nodes = [], denied = [] \<rparr>, commands = [] \<rparr>"

definition demo_git :: git_prog where
  "demo_git s d args = (case mkdir_all s (if d = [] then last args else d) of Inl _ \<Rightarrow> (Some ([], []), s) | Inr s' \<Rightarrow> (None, s'))"

lemma demo_git_confined: "git_confined demo_git" "clone_confined demo_git"
  by (auto simp: git_confined_def clone_confined_def demo_git_def split: sum.splits dest!: confined_mkdir_all intro: confined_sub)

theorem clone_url_clean_witness:
  "\<exists>cs. commands (snd (provisionGit demo_git ''/w'' (bare_git ''https://u:p@h/x'' ''main'') demo_world)) = cs \<and>
    (cs = [] \<or> (\<exists>auth url. snd (hd cs) = auth @ GitCloneArgs url (git_config (bare_git ''https://u:p@h/x'' ''main'')) ''/w'' \<and>
      CHR ''@'' \<notin> set (url_authority url)))"
proof -
  have t: "trim_space ''https://u:p@h/x'' = ''https://u:p@h/x''" by code_simp
  have p: "url_parse ''https://u:p@h/x'' = Some \<lparr> u_scheme = ''https'', u_user = Some (''u'', ''p''), u_host = ''h'',
      u_path = ''/x'', u_force_query = False, u_query = [], u_fragment = [] \<rparr>" by code_simp
  have "has_prefix ''https://u:p@h/x'' ''https://''" by code_simp
  then show ?thesis
    using clone_url_clean[of "bare_git ''https://u:p@h/x'' ''main''" _ "''u''" "''p''" demo_git "''/w''" demo_world] t p
    by (simp add: bare_git_def demo_world_def)
qed

text \<open>
  \<^bold>\<open>C31\<close>
  What the node reports about a failed git command does not depend on the
  userinfo of a URL in it: two texts that differ only between the scheme and
  the at sign of a URL are redacted to the same text, wherever the URL stands.
\<close>

theorem redaction_hides_userinfo:
  assumes "is_scheme sch" "\<forall>c \<in> set s1. \<not> auth_end c" "\<forall>c \<in> set s2. \<not> auth_end c"
  shows "RedactGitSecrets (pre @ url_text sch s1 post) = RedactGitSecrets (pre @ url_text sch s2 post)"
  using RedactGitURL_hides[OF assms] by (simp add: RedactGitSecrets_def)

theorem redaction_hides_userinfo_witness:
  "RedactGitSecrets (''fatal: '' @ url_text ''https'' ''bob:pw1'' ''h/x'') = RedactGitSecrets (''fatal: '' @ url_text ''https'' ''tok'' ''h/x'')"
  by (rule redaction_hides_userinfo) code_simp+

text \<open>
  
  Associated repositories stay inside the workspace: under the assumption that
  git keeps to the directories it is given, cloning the repositories and writing
  the placeholder notes a session declares changes nothing outside the working
  directory, whatever names and URLs the session sends.
\<close>

theorem associated_repos_confined:
  assumes "git_confined git" "is_abs workDir"
  shows "confined {comps workDir} (gfs w) (gfs (provisionAssociatedRepos git parse workDir spec w))"
  using assms by (rule provisionAssociatedRepos_confined)

theorem associated_repos_confined_witness:
  "confined {comps ''/w''} (gfs demo_world)
    (gfs (provisionAssociatedRepos demo_git (\<lambda>t. Some (JObj [(''url'', JStr t), (''subdir'', JStr ''lib'')])) ''/w''
      (demo_spec\<lparr> cs_env := [\<lparr> ev_name = ''AI_LUBRICANT_DEP_GIT_0'', ev_value = ''https://h/x'' \<rparr>] \<rparr>) demo_world))"
  by (rule associated_repos_confined[OF demo_git_confined(1)]) (simp add: slash_def)

text \<open>The checkout a worktree is cut from, the worktree of a task and the branch it is on.\<close>

definition shared_checkout :: "sessionOptions \<Rightarrow> NodeCreateSession \<Rightarrow> string" where
  "shared_checkout opts spec = (if importedCheckoutPath spec \<noteq> [] then importedCheckoutPath spec else envRepoDir opts (env_id_tag spec))"

definition task_worktree :: "sessionOptions \<Rightarrow> NodeCreateSession \<Rightarrow> string" where
  "task_worktree opts spec = envWorktreeDir opts (env_id_tag spec) (trim_space (cs_task_id spec))"

definition task_branch :: "NodeCreateSession \<Rightarrow> NodeGitSpec \<Rightarrow> string" where
  "task_branch spec g = (if trim_space (git_new_branch g) = [] then ''task/'' @ sanitizeSessionDir (trim_space (cs_task_id spec))
     else trim_space (git_new_branch g))"

definition cut_new :: "sessionOptions \<Rightarrow> NodeCreateSession \<Rightarrow> NodeGitSpec \<Rightarrow> string list" where
  "cut_new opts spec g = [''worktree'', ''add'', ''-b'', task_branch spec g, task_worktree opts spec]
     @ (if trim_space (git_branch g) \<noteq> [] then [trim_space (git_branch g)] else [])"

definition cut_existing :: "sessionOptions \<Rightarrow> NodeCreateSession \<Rightarrow> NodeGitSpec \<Rightarrow> string list" where
  "cut_existing opts spec g = [''worktree'', ''add'', task_worktree opts spec, task_branch spec g]"

lemma task_worktree_comps:
  assumes "is_abs (workRoot opts)"
  shows "comps (task_worktree opts spec) = comps (workRoot opts) @ [''envs'', sanitizeSessionDir (env_id_tag spec), ''worktrees'',
    sanitizeSessionDir (trim_space (cs_task_id spec))]"
  using comps_join_segs[OF envDir_below(2)[OF assms], of "[''worktrees'', sanitizeSessionDir (trim_space (cs_task_id spec))]" "env_id_tag spec"]
  by (simp add: task_worktree_def envWorktreeDir_def envDir_below[OF assms])

lemma shared_checkout_dir: "is_abs (workRoot opts) \<Longrightarrow> trim_space (shared_checkout opts spec) \<noteq> []"
  using trim_space_abs importedCheckoutPath_shape[of spec] comps_join_segs[OF envDir_below(2), of opts "[''repo'']" "env_id_tag spec"]
  by (auto simp: shared_checkout_def envRepoDir_def)

lemma runNodeGit_in:
  assumes "trim_space dir \<noteq> []" "runNodeGit git dir args w = (err, w')"
  shows "commands w' = commands w @ [(dir, args)]" "err = None \<longleftrightarrow> fst (git (gfs w) dir args) = None"
  using assms by (auto simp: runNodeGit_def Let_def split: prod.splits option.splits)

lemma add_worktree_cases:
  assumes "trim_space repo \<noteq> []" "add_worktree git repo wt branch base w = (r, w')"
  defines "new \<equiv> [''worktree'', ''add'', ''-b'', branch, wt] @ (if base \<noteq> [] then [base] else [])"
  shows "(\<forall>p. r = Inr p \<longrightarrow> p = wt) \<and>
    (fst (git (gfs w) repo new) = None \<and> commands w' = commands w @ [(repo, new)] \<or>
     fst (git (gfs w) repo new) \<noteq> None \<and> commands w' = commands w @ [(repo, new), (repo, [''worktree'', ''add'', wt, branch])])"
proof -
  obtain e1 w1 where r1: "runNodeGit git repo new w = (e1, w1)" by fastforce
  obtain e2 w2 where r2: "runNodeGit git repo [''worktree'', ''add'', wt, branch] w1 = (e2, w2)" by fastforce
  show ?thesis using runNodeGit_in[OF assms(1) r1] runNodeGit_in[OF assms(1) r2] r1 r2 assms(2)
    by (cases e1; cases e2) (auto simp: add_worktree_def new_def)
qed

text \<open>
  \<^bold>\<open>C22\<close>. Cutting a worktree, whatever git does and whatever branch names the session sends.  Git is called only
  when the shared checkout exists and the task has no worktree yet, always in the shared checkout and at most
  twice: first to add the worktree on a new branch, then, only after that failed, on the existing branch.  When
  git is not called nothing changes.  A path that is returned is the task's own directory below the
  environment's, and the first call sees the files as they were with the parent of that directory made.
\<close>

theorem worktree_cut_exact:
  assumes "is_abs (workRoot opts)" "prepareWorktree git opts spec g w = (r, w')"
  shows "\<exists>cs. commands w' = commands w @ map (Pair (shared_checkout opts spec)) cs \<and>
    cs \<in> {[], [cut_new opts spec g], [cut_new opts spec g, cut_existing opts spec g]} \<and>
    (cs = [] \<longrightarrow> w' = w) \<and>
    (cs \<noteq> [] \<longrightarrow> HostWorkspaceInitialized (gfs w) (shared_checkout opts spec) = Inr True \<and>
      HostWorkspaceInitialized (gfs w) (task_worktree opts spec) = Inr False \<and>
      (\<exists>s. mkdir_all (gfs w) (path_dir (task_worktree opts spec)) = Inr s \<and>
        (length cs = 1 \<longleftrightarrow> fst (git s (shared_checkout opts spec) (cut_new opts spec g)) = None))) \<and>
    (\<forall>p. r = Inr p \<longrightarrow> comps p = comps (workRoot opts) @ [''envs'', sanitizeSessionDir (env_id_tag spec), ''worktrees'',
        sanitizeSessionDir (trim_space (cs_task_id spec))])"
proof -
  let ?repo = "shared_checkout opts spec" and ?wt = "task_worktree opts spec"
  note ne = shared_checkout_dir[OF assms(1), of spec] and wt = task_worktree_comps[OF assms(1), of spec]
  consider (same) "w' = w" "\<forall>p. r = Inr p \<longrightarrow> p = ?wt"
    | (cut) s where "HostWorkspaceInitialized (gfs w) ?repo = Inr True" "HostWorkspaceInitialized (gfs w) ?wt = Inr False"
      "mkdir_all (gfs w) (path_dir ?wt) = Inr s"
      "add_worktree git ?repo ?wt (task_branch spec g) (trim_space (git_branch g)) (w\<lparr> gfs := s \<rparr>) = (r, w')"
    using assms(2) unfolding prepareWorktree_def Let_def shared_checkout_def[symmetric] task_worktree_def[symmetric] task_branch_def[symmetric]
    by (auto split: if_splits sum.splits bool.splits)
  then show ?thesis
  proof cases
    case same
    then show ?thesis using wt by (intro exI[of _ "[]"]) auto
  next
    case (cut s)
    from add_worktree_cases[OF ne cut(4)]
    consider "fst (git s ?repo (cut_new opts spec g)) = None" "commands w' = commands w @ [(?repo, cut_new opts spec g)]"
      | "fst (git s ?repo (cut_new opts spec g)) \<noteq> None"
        "commands w' = commands w @ [(?repo, cut_new opts spec g), (?repo, cut_existing opts spec g)]"
      by (auto simp: cut_new_def cut_existing_def)
    moreover have "\<forall>p. r = Inr p \<longrightarrow> p = ?wt" using add_worktree_cases[OF ne cut(4)] by blast
    ultimately show ?thesis
    proof cases
      case 1
      then show ?thesis using cut wt \<open>\<forall>p. r = Inr p \<longrightarrow> p = ?wt\<close> by (intro exI[of _ "[cut_new opts spec g]"]) auto
    next
      case 2
      then show ?thesis using cut wt \<open>\<forall>p. r = Inr p \<longrightarrow> p = ?wt\<close>
        by (intro exI[of _ "[cut_new opts spec g, cut_existing opts spec g]"]) auto
    qed
  qed
qed

definition demo_repo :: git_world where
  "demo_repo = demo_world\<lparr> gfs := \<lparr> nodes = [([''r''], NDir), ([''r'', ''a''], NFile (Text []))], denied = [] \<rparr> \<rparr>"

definition demo_wt_spec :: NodeCreateSession where
  "demo_wt_spec = demo_spec\<lparr> cs_tags := [(''external_workdir'', ''/r''), (''env_id'', ''e'')] \<rparr>"

theorem worktree_cut_exact_witness:
  "\<exists>w'. prepareWorktree demo_git demo_opts demo_wt_spec (bare_git [] []) demo_repo = (Inr ''/w/envs/e/worktrees/t1'', w') \<and>
    (\<exists>cs. commands w' = map (Pair ''/r'') cs \<and> cs \<in> {[], [cut_new demo_opts demo_wt_spec (bare_git [] [])],
      [cut_new demo_opts demo_wt_spec (bare_git [] []), cut_existing demo_opts demo_wt_spec (bare_git [] [])]})"
proof -
  let ?r = "prepareWorktree demo_git demo_opts demo_wt_spec (bare_git [] []) demo_repo"
  have r: "fst ?r = Inr ''/w/envs/e/worktrees/t1''" by code_simp
  have "is_abs (workRoot demo_opts)" "shared_checkout demo_opts demo_wt_spec = ''/r''" "commands demo_repo = []" by code_simp+
  with worktree_cut_exact[of demo_opts demo_git demo_wt_spec "bare_git [] []" demo_repo "fst ?r" "snd ?r"]
  show ?thesis using r by (metis append_Nil prod.collapse)
qed

end
