(* ===== verification/Resources.thy ===== *)
theory Resources
  imports Editor_Config Git_Workspace Go_Digest Linked_Files
begin

text \<open>
  Skills and plugins of a session: the resource half of \<^verbatim>\<open>execution/editorconfig.go\<close>.

  A download is an argument \<open>http\<close>, from a URL and a bearer token to a reply.  The
  archive in a reply is the sequence of headers \<^verbatim>\<open>archive/tar\<close> yields.  The recursion
  of \<^verbatim>\<open>copyTree\<close> is bounded by a depth; a copy that exceeds it fails the way the
  operating system fails a path that has become too long.
\<close>

section \<open>Copying trees\<close>

definition copyFile :: "string \<Rightarrow> string \<Rightarrow> fs \<Rightarrow> fs_outcome" where
  "copyFile src dest s = (case read_file s src of Inl e \<Rightarrow> (Some e, s) | Inr c \<Rightarrow> write_in_dir s dest c)"

primrec copy_tree :: "nat \<Rightarrow> string \<Rightarrow> string \<Rightarrow> fs \<Rightarrow> fs_outcome" where
  "copy_tree 0 = (\<lambda>src dest s. (Some ENAMETOOLONG, s))"
| "copy_tree (Suc n) = (\<lambda>src dest s. case stat s src of
      Inl e \<Rightarrow> (Some e, s)
    | Inr NDir \<Rightarrow>
        (case read_dir s src of
           Inl e \<Rightarrow> (Some e, s)
         | Inr entries \<Rightarrow>
             fold (\<lambda>e r. and_then r (\<lambda>s.
                 if snd e = NDir then copy_tree n (path_join [src, fst e]) (path_join [dest, fst e]) s
                 else copyFile (path_join [src, fst e]) (path_join [dest, fst e]) s))
               entries (try_fs s (mkdir_all s dest)))
    | Inr _ \<Rightarrow> copyFile src dest s)"

text \<open>No path of the store is deeper than this.\<close>

definition tree_depth :: "fs \<Rightarrow> nat" where
  "tree_depth s = Suc (fold max (map (\<lambda>(r, k). length r) (nodes s)) 0)"

definition copyTree :: "string \<Rightarrow> string \<Rightarrow> fs \<Rightarrow> fs_outcome" where
  "copyTree src dest s = copy_tree (tree_depth s) src dest s"

definition replaceTree :: "string \<Rightarrow> string \<Rightarrow> fs \<Rightarrow> fs_outcome" where
  "replaceTree src dest s = and_then (try_fs s (remove_all s dest)) (copyTree src dest)"

definition prune_entry :: "string \<Rightarrow> string list \<Rightarrow> string \<times> node \<Rightarrow> fs_outcome \<Rightarrow> fs_outcome" where
  "prune_entry dir desired e r = and_then r (\<lambda>s.
     if snd e \<noteq> NDir \<or> fst e \<in> set desired then (None, s)
     else try_fs s (remove_all s (path_join [dir, fst e])))"

definition pruneResourceDir :: "string \<Rightarrow> string list \<Rightarrow> fs \<Rightarrow> fs_outcome" where
  "pruneResourceDir dir desired s = (case read_dir s dir of
      Inl ENOENT \<Rightarrow> (None, s)
    | Inl e \<Rightarrow> (Some e, s)
    | Inr entries \<Rightarrow> fold (prune_entry dir desired) entries (None, s))"

section \<open>Sources\<close>

record resourceSource =
  src_url :: string
  src_gitRef :: string
  src_path :: string
  src_username :: string
  src_password :: string
  src_token :: string
  src_source :: string
  src_digest :: string

definition isArchiveSource :: "resourceSource \<Rightarrow> bool" where
  "isArchiveSource r \<longleftrightarrow>
    (if src_source r = ''archive'' then True
     else if src_source r = ''github'' \<or> src_source r = ''git'' then False
     else contains (src_url r) ''/api/v1/resources/'' \<and> contains (src_url r) ''/fetch/'')"

definition skillSource :: "SkillSpec \<Rightarrow> resourceSource" where
  "skillSource sk = \<lparr> src_url = trim_space (sk_url sk), src_gitRef = trim_space (sk_ref sk), src_path = trim_space (sk_path sk),
     src_username = trim_space (sk_username sk), src_password = trim_space (sk_password sk), src_token = trim_space (sk_token sk),
     src_source = trim_space (sk_source sk), src_digest = [] \<rparr>"

definition pluginSource :: "NodePluginSpec \<Rightarrow> resourceSource" where
  "pluginSource pl = \<lparr> src_url = trim_space (pl_url pl), src_gitRef = [], src_path = [], src_username = [], src_password = [],
     src_token = [], src_source = [], src_digest = [] \<rparr>"

definition applyResourceCredentials :: "resourceSource \<Rightarrow> string" where
  "applyResourceCredentials r =
    (let url = src_url r;
         pass = (if src_password r = [] then src_token r else src_password r);
         cred = src_username r @ (if pass \<noteq> [] then '':'' @ pass else [])
     in if src_username r = [] \<and> pass = [] then url
        else if has_prefix url ''https://'' then ''https://'' @ cred @ ''@'' @ trim_prefix url ''https://''
        else if has_prefix url ''http://'' then ''http://'' @ cred @ ''@'' @ trim_prefix url ''http://''
        else url)"

section \<open>Archives\<close>

datatype tar_kind = TarDir | TarReg string bool | TarSymlink string | TarOther

text \<open>A regular file carries its bytes and whether reading them to the end succeeds.\<close>

record tar_entry =
  te_name :: string
  te_kind :: tar_kind

text \<open>The stream is not gzip, or yields entries and then ends well or with a read error.\<close>

datatype tar_stream = NotGzip | Tar "tar_entry list" bool

datatype http_reply = Unreachable | BadStatus | Reply string tar_stream

type_synonym http = "string \<Rightarrow> string \<Rightarrow> http_reply"

datatype resource_error = ResFs fs_error | ResGit git_error | ResArchive | ResRefused | ResNetwork | ResDigest

type_synonym res_outcome = "resource_error option \<times> fs"

definition as_res :: "fs_outcome \<Rightarrow> res_outcome" where
  "as_res r = (map_option ResFs (fst r), snd r)"

text \<open>The two checks on the name of an entry.\<close>

definition entry_target :: "string \<Rightarrow> string \<Rightarrow> resource_error + string" where
  "entry_target dest name =
    (let target = path_join [dest, name] in
     if has_prefix name ''/'' \<or> is_abs name \<or> contains name '':'' then Inl ResRefused
     else if \<not> has_prefix (clean target @ ''/'') (clean dest @ ''/'') then Inl ResRefused
     else Inr target)"

text \<open>
  The file operations are an argument.  Synchronisation is modelled on the store that does not follow
  links; the containment of an archive is shown on the one that does.
\<close>

definition extract_entry :: "file_ops \<Rightarrow> string \<Rightarrow> tar_entry \<Rightarrow> fs \<Rightarrow> res_outcome" where
  "extract_entry os dest e s = (case entry_target dest (te_name e) of
      Inl err \<Rightarrow> (Some err, s)
    | Inr target \<Rightarrow> (case te_kind e of
          TarDir \<Rightarrow> as_res (try_fs s (os_mkdir_all os s target))
        | TarReg bytes ok \<Rightarrow>
            and_then (as_res (write_in_dir_by os s target (Text bytes))) (\<lambda>s. (if ok then None else Some ResArchive, s))
        | TarSymlink link \<Rightarrow> (Some ResRefused, s)
        | TarOther \<Rightarrow> (None, s)))"

definition extractTarGz :: "file_ops \<Rightarrow> tar_stream \<Rightarrow> string \<Rightarrow> fs \<Rightarrow> res_outcome" where
  "extractTarGz os stream dest s = (case stream of
      NotGzip \<Rightarrow> (Some ResArchive, s)
    | Tar entries ok \<Rightarrow>
        and_then (fold (\<lambda>e r. and_then r (extract_entry os dest e)) entries (None, s))
          (\<lambda>s. (if ok then None else Some ResArchive, s)))"

definition downloadAndExtract :: "http \<Rightarrow> resourceSource \<Rightarrow> string \<Rightarrow> fs \<Rightarrow> string \<times> res_outcome" where
  "downloadAndExtract http src dest s = (case http (src_url src) (src_token src) of
      Unreachable \<Rightarrow> ([], Some ResNetwork, s)
    | BadStatus \<Rightarrow> ([], Some ResNetwork, s)
    | Reply header stream \<Rightarrow>
        (let serverDigest = trim_space header in
         if serverDigest \<noteq> [] \<and> src_digest src \<noteq> [] \<and> \<not> equal_fold serverDigest (src_digest src)
         then (serverDigest, Some ResDigest, s)
         else (serverDigest, extractTarGz plain_ops stream dest s)))"

definition resourceCacheRoot :: "sessionOptions \<Rightarrow> string" where
  "resourceCacheRoot opts = path_join [workRoot opts, ''.resource-cache'']"

definition cache_key :: "resourceSource \<Rightarrow> string" where
  "cache_key src = (if src_digest src = [] then ''url-'' @ take 16 (hex_encode (sha256 (bytes_of_string (src_url src))))
     else src_digest src)"

definition fetchArchive :: "http \<Rightarrow> sessionOptions \<Rightarrow> resourceSource \<Rightarrow> string \<Rightarrow> fs \<Rightarrow> res_outcome" where
  "fetchArchive http opts src dest s =
    (let cacheDir = path_join [resourceCacheRoot opts, cache_key src];
         contentDir = path_join [cacheDir, ''content''];
         readyMarker = path_join [cacheDir, ''.ready'']
     in case stat s readyMarker of
          Inr _ \<Rightarrow> as_res (copyTree contentDir dest s)
        | Inl _ \<Rightarrow>
            and_then (as_res (try_fs s (mkdir_all s contentDir))) (\<lambda>s.
              case downloadAndExtract http src contentDir s of
                (_, Some e, s) \<Rightarrow> (Some e, case remove_all s cacheDir of Inl _ \<Rightarrow> s | Inr s' \<Rightarrow> s')
              | (serverDigest, None, s) \<Rightarrow>
                  let marker = (if serverDigest \<noteq> [] then serverDigest else ''ok'') in
                  and_then (as_res (try_fs s (write_file s readyMarker (Text marker)))) (\<lambda>s.
                  as_res (copyTree contentDir dest s))))"

text \<open>On the world that also logs git commands.\<close>

definition on_res :: "git_world \<Rightarrow> res_outcome \<Rightarrow> resource_error outcome" where
  "on_res w r = (fst r, w\<lparr> gfs := snd r \<rparr>)"

definition resource_clone_args :: "resourceSource \<Rightarrow> string \<Rightarrow> string list" where
  "resource_clone_args src dest =
    [''clone'', ''--depth'', ''1'', ''--recurse-submodules'', ''--shallow-submodules'']
    @ (if src_gitRef src \<noteq> [] then [''--branch'', src_gitRef src] else [])
    @ [applyResourceCredentials src, dest]"

definition fetchResource ::
  "git_prog \<Rightarrow> http \<Rightarrow> sessionOptions \<Rightarrow> resourceSource \<Rightarrow> string \<Rightarrow> git_world \<Rightarrow> resource_error outcome" where
  "fetchResource git http opts src dest w =
    and_then (on_res w (as_res (try_fs (gfs w) (remove_all (gfs w) dest)))) (\<lambda>w.
      if src_path src \<noteq> [] then on_res w (as_res (copyTree (src_path src) dest (gfs w)))
      else if src_url src = [] then (None, w)
      else if isArchiveSource src then on_res w (fetchArchive http opts src dest (gfs w))
      else case runNodeGit git [] (resource_clone_args src dest) w of
          (e, w) \<Rightarrow> (map_option ResGit e, w))"

section \<open>Synchronisation\<close>

record resource_session =
  rs_skillsDir :: string
  rs_pluginsDir :: string
  rs_home :: string
  rs_provider :: string

definition runtimeSkillsDir :: "string \<Rightarrow> string \<Rightarrow> string" where
  "runtimeSkillsDir home provider =
    (if normalizeProvider provider = ''claude'' then path_join [home, ''.claude'', ''skills'']
     else path_join [home, ''.agents'', ''skills''])"

definition runtimePluginsDir :: "string \<Rightarrow> string \<Rightarrow> string" where
  "runtimePluginsDir home provider =
    (if normalizeProvider provider = ''gemini'' then path_join [home, ''.gemini'', ''extensions'']
     else path_join [home, ''.agents'', ''plugins''])"

definition marketplace_wrapper :: "string \<Rightarrow> json" where
  "marketplace_wrapper name =
    JObj [(''name'', JStr name),
          (''plugins'', JArr [JObj [(''name'', JStr name),
             (''source'', JObj [(''source'', JStr ''url''), (''url'', JStr ''./'')]),
             (''policy'', JObj [(''installation'', JStr ''AVAILABLE''), (''authentication'', JStr ''ON_INSTALL'')])]])]"

definition ensureCodexMarketplaceManifest :: "string \<Rightarrow> string \<Rightarrow> fs \<Rightarrow> fs_outcome" where
  "ensureCodexMarketplaceManifest pkgDir name s =
    (let manifest = path_join [pkgDir, ''.agents'', ''plugins'', ''marketplace.json'']; 
         pluginJSON = path_join [pkgDir, ''.codex-plugin'', ''plugin.json'']
     in case stat s manifest of
          Inr _ \<Rightarrow> (None, s)
        | Inl e \<Rightarrow>
            if e \<noteq> ENOENT then (Some e, s)
            else case stat s pluginJSON of
                Inl _ \<Rightarrow> (None, s)
              | Inr _ \<Rightarrow> write_in_dir s manifest (Json (marketplace_wrapper name)))"

text \<open>Fetch into the node's directory, then mirror into the directory the runtime scans.\<close>

definition fetch_and_mirror ::
  "git_prog \<Rightarrow> http \<Rightarrow> sessionOptions \<Rightarrow> resourceSource \<Rightarrow> string \<Rightarrow> string \<Rightarrow> git_world \<Rightarrow> resource_error outcome" where
  "fetch_and_mirror git http opts src nodeDest runtimeDest w =
    and_then (fetchResource git http opts src nodeDest w) (\<lambda>w.
    and_then (on_res w (as_res (try_fs (gfs w) (mkdir_all (gfs w) (path_dir runtimeDest))))) (\<lambda>w.
    on_res w (as_res (replaceTree nodeDest runtimeDest (gfs w)))))"

definition sync_skill ::
  "git_prog \<Rightarrow> http \<Rightarrow> sessionOptions \<Rightarrow> resource_session \<Rightarrow> SkillSpec \<Rightarrow> resource_error outcome \<Rightarrow> resource_error outcome" where
  "sync_skill git http opts ss sk r = and_then r (\<lambda>w.
    let name = trim_space (sk_name sk); safe = sanitizeSessionDir name in
    if name = [] then (None, w)
    else fetch_and_mirror git http opts (skillSource sk) (path_join [rs_skillsDir ss, safe])
           (path_join [runtimeSkillsDir (rs_home ss) (rs_provider ss), safe]) w)"

definition desired_names :: "string list \<Rightarrow> string list" where
  "desired_names names = filter (\<lambda>n. n \<noteq> []) (map trim_space names)"

definition prune_both :: "string \<Rightarrow> string \<Rightarrow> string list \<Rightarrow> git_world \<Rightarrow> resource_error outcome" where
  "prune_both nodeDir runtimeDir desired w =
    and_then (on_res w (as_res (pruneResourceDir nodeDir desired (gfs w)))) (\<lambda>w.
    on_res w (as_res (pruneResourceDir runtimeDir desired (gfs w))))"

definition syncSkills ::
  "git_prog \<Rightarrow> http \<Rightarrow> sessionOptions \<Rightarrow> resource_session \<Rightarrow> SkillSpec list \<Rightarrow> git_world \<Rightarrow> resource_error outcome" where
  "syncSkills git http opts ss skills w =
    and_then (fold (sync_skill git http opts ss) skills (None, w))
      (prune_both (rs_skillsDir ss) (runtimeSkillsDir (rs_home ss) (rs_provider ss)) (desired_names (map sk_name skills)))"

definition sync_plugin ::
  "git_prog \<Rightarrow> http \<Rightarrow> sessionOptions \<Rightarrow> resource_session \<Rightarrow> NodePluginSpec \<Rightarrow> resource_error outcome \<Rightarrow> resource_error outcome" where
  "sync_plugin git http opts ss pl r = and_then r (\<lambda>w.
    let name = trim_space (pl_name pl); safe = sanitizeSessionDir name;
        runtimeDest = path_join [runtimePluginsDir (rs_home ss) (rs_provider ss), safe] in
    if name = [] then (None, w)
    else and_then (fetch_and_mirror git http opts (pluginSource pl) (path_join [rs_pluginsDir ss, safe]) runtimeDest w) (\<lambda>w.
      (None, if normalizeProvider (rs_provider ss) = ''codex''
             then w\<lparr> gfs := snd (ensureCodexMarketplaceManifest runtimeDest name (gfs w)) \<rparr> else w)))"

definition syncPlugins ::
  "git_prog \<Rightarrow> http \<Rightarrow> sessionOptions \<Rightarrow> resource_session \<Rightarrow> NodePluginSpec list \<Rightarrow> git_world \<Rightarrow> resource_error outcome" where
  "syncPlugins git http opts ss plugins w =
    and_then (fold (sync_plugin git http opts ss) plugins (None, w))
      (prune_both (rs_pluginsDir ss) (runtimePluginsDir (rs_home ss) (rs_provider ss)) (desired_names (map pl_name plugins)))"

section \<open>Archives stay inside their directory\<close>

lemma snd_as_res [simp]: "snd (as_res r) = snd r"
  by (simp add: as_res_def)

lemma entry_target_below:
  assumes "is_abs dest" "entry_target dest name = Inr p"
  shows "is_abs p \<and> clean p = p" "prefix (comps dest) (comps p)"
proof -
  have p: "p = path_join [dest, name]" "has_prefix (clean p @ ''/'') (clean dest @ ''/'')"
    using assms(2) by (auto simp: entry_target_def Let_def split: if_splits)
  then show "is_abs p \<and> clean p = p" using path_join_abs[OF assms(1)] by blast
  then show "prefix (comps dest) (comps p)" using clean_prefix_comps[OF assms(1)] p(2) by blast
qed

interpretation skill_names: path_guard entry_target is_abs
  using entry_target_below by unfold_locales blast+

lemma extract_entry_confined:
  assumes "is_abs dest" "confined {comps dest} s t"
  shows "confined {comps dest} s (snd (extract_entry plain_ops dest e t))"
proof (cases "entry_target dest (te_name e)")
  case (Inr p)
  note b = entry_target_below[OF assms(1) Inr]
  have "confined {comps dest} s (snd (write_in_dir t p x))" for x
    by (rule confined_write_at[OF _ _ _ b(2) assms(2)]) (use b(1) in simp_all)
  moreover have "confined {comps dest} s (snd (try_fs t (mkdir_all t p)))"
    by (rule confined_try_mkdir[OF assms(2) _ b(2)]) simp
  ultimately show ?thesis using assms(2)
    by (cases "te_kind e") (auto simp: extract_entry_def Inr intro!: confined_and_then_fs)
qed (use assms(2) in \<open>simp add: extract_entry_def\<close>)

lemma extract_entry_kept:
  assumes "is_abs dest" "kept (comps dest) s t"
  shows "kept (comps dest) s (snd (extract_entry link_ops dest e t))"
proof (cases "entry_target dest (te_name e)")
  case (Inr p)
  note g = skill_names.guarded_mkdir[OF assms(1) Inr _ assms(2)] skill_names.guarded_write_in_dir[OF assms(1) Inr _ assms(2)]
  show ?thesis using assms(2) g
    by (cases "te_kind e") (auto simp: extract_entry_def Inr intro!: kept_and_then)
qed (use assms(2) in \<open>simp add: extract_entry_def\<close>)

lemma fold_and_then_inv:
  "Q (snd r) \<Longrightarrow> (\<And>x w. Q w \<Longrightarrow> Q (snd (f x w))) \<Longrightarrow> Q (snd (fold (\<lambda>x r. and_then r (f x)) xs r))"
proof (induction xs arbitrary: r)
  case (Cons x xs)
  show ?case by (simp, rule Cons.IH) (use Cons.prems in \<open>auto intro: and_then_inv\<close>)
qed simp

lemma extractTarGz_confined:
  assumes "is_abs dest" "confined {comps dest} s t"
  shows "confined {comps dest} s (snd (extractTarGz plain_ops stream dest t))"
proof (cases stream)
  case (Tar entries ok)
  have "confined {comps dest} s (snd (fold (\<lambda>e r. and_then r (extract_entry plain_ops dest e)) entries (None, t)))"
    by (rule fold_and_then_inv) (use assms extract_entry_confined in auto)
  then show ?thesis unfolding Tar extractTarGz_def tar_stream.case by (rule and_then_inv) simp
qed (use assms in \<open>simp add: extractTarGz_def\<close>)

lemma extractTarGz_kept:
  assumes "is_abs dest" "kept (comps dest) s t"
  shows "kept (comps dest) s (snd (extractTarGz link_ops stream dest t))"
proof (cases stream)
  case (Tar entries ok)
  have "kept (comps dest) s (snd (fold (\<lambda>e r. and_then r (extract_entry link_ops dest e)) entries (None, t)))"
    by (rule fold_and_then_kept) (use assms extract_entry_kept in auto)
  then show ?thesis unfolding Tar extractTarGz_def tar_stream.case by (rule kept_and_then) simp
qed (use assms in \<open>simp add: extractTarGz_def\<close>)

section \<open>Copies stay inside their destination\<close>

lemma copyFile_confined:
  assumes "is_abs dest" "clean dest = dest" "e \<in> D" "prefix e (comps dest)" "confined D s t"
  shows "confined D s (snd (copyFile src dest t))"
  using confined_write_at[OF assms] assms(5) by (auto simp: copyFile_def split: sum.splits)

lemma fold_and_then_inv_set:
  "Q (snd r) \<Longrightarrow> (\<And>x w. x \<in> set xs \<Longrightarrow> Q w \<Longrightarrow> Q (snd (f x w))) \<Longrightarrow> Q (snd (fold (\<lambda>x r. and_then r (f x)) xs r))"
proof (induction xs arbitrary: r)
  case (Cons x xs)
  show ?case by (simp, rule Cons.IH) (use Cons.prems in \<open>auto intro: and_then_inv\<close>)
qed simp

lemma child_path:
  assumes "is_abs d" "plain_seg n"
  shows "comps (path_join [d, n]) = comps d @ [n]" "is_abs (path_join [d, n])" "clean (path_join [d, n]) = path_join [d, n]"
  using comps_join_segs[OF assms(1), of "[n]"] clean_path_join[OF assms(1), of "[n]"] assms(2) by simp_all

definition copy_child :: "nat \<Rightarrow> string \<Rightarrow> string \<Rightarrow> string \<times> node \<Rightarrow> fs \<Rightarrow> fs_outcome" where
  "copy_child n src dest e s =
    (if snd e = NDir then copy_tree n (path_join [src, fst e]) (path_join [dest, fst e]) s
     else copyFile (path_join [src, fst e]) (path_join [dest, fst e]) s)"

lemma copy_tree_Suc:
  "copy_tree (Suc n) src dest s = (case stat s src of
      Inl e \<Rightarrow> (Some e, s)
    | Inr NDir \<Rightarrow>
        (case read_dir s src of
           Inl e \<Rightarrow> (Some e, s)
         | Inr entries \<Rightarrow> fold (\<lambda>e r. and_then r (copy_child n src dest e)) entries (try_fs s (mkdir_all s dest)))
    | Inr _ \<Rightarrow> copyFile src dest s)"
  unfolding copy_child_def by simp

declare copy_tree.simps(2) [simp del]

lemma copy_tree_confined:
  assumes "is_abs dest" "clean dest = dest" "e \<in> D" "prefix e (comps dest)" "confined D s t"
  shows "confined D s (snd (copy_tree n src dest t))"
  using assms
proof (induction n arbitrary: src dest t)
  case 0
  then show ?case by simp
next
  case (Suc n)
  have child: "confined D s (snd (copy_child n src dest x w))" if "plain_seg (fst x)" "confined D s w" for x w
  proof -
    have p: "prefix e (comps (path_join [dest, fst x]))" using Suc.prems(4) child_path(1)[OF Suc.prems(1) that(1)] by (simp add: prefix_append)
    show ?thesis unfolding copy_child_def
      using Suc.IH[OF child_path(2,3)[OF Suc.prems(1) that(1)] Suc.prems(3) p that(2)]
        copyFile_confined[OF child_path(2,3)[OF Suc.prems(1) that(1)] Suc.prems(3) p that(2)] by simp
  qed
  have dir: "confined D s (snd (fold (\<lambda>x r. and_then r (copy_child n src dest x)) entries (try_fs t (mkdir_all t dest))))"
    if "read_dir t src = Inr entries" for entries
  proof (rule fold_and_then_inv_set)
    show "confined D s (snd (try_fs t (mkdir_all t dest)))" by (rule confined_try_mkdir[OF Suc.prems(5,3,4)])
  qed (use child read_dir_plain[OF that] in \<open>auto simp: prod_eq_iff\<close>)
  show ?case unfolding copy_tree_Suc
    using dir copyFile_confined[OF Suc.prems] Suc.prems(5) by (auto split: sum.splits node.splits)
qed


section \<open>Fetching and mirroring\<close>

lemma copyTree_confined:
  "is_abs dest \<Longrightarrow> clean dest = dest \<Longrightarrow> e \<in> D \<Longrightarrow> prefix e (comps dest) \<Longrightarrow> confined D s t \<Longrightarrow>
    confined D s (snd (copyTree src dest t))"
  unfolding copyTree_def by (rule copy_tree_confined)

lemma replaceTree_confined:
  assumes "is_abs dest" "clean dest = dest" "e \<in> D" "prefix e (comps dest)" "confined D s t"
  shows "confined D s (snd (replaceTree src dest t))"
  unfolding replaceTree_def
  by (rule and_then_inv, rule confined_try_remove_all[OF assms(5,3,4)]) (rule copyTree_confined[OF assms(1-4)])

lemma pruneResourceDir_confined:
  assumes "is_abs dir" "e \<in> D" "prefix e (comps dir)" "confined D s t"
  shows "confined D s (snd (pruneResourceDir dir desired t))"
proof -
  have "confined D s (snd (fold (prune_entry dir desired) entries (None, t)))" if "read_dir t dir = Inr entries" for entries
    unfolding prune_entry_def
  proof (rule fold_and_then_inv_set)
    fix x w assume x: "x \<in> set entries" "confined D s w"
    have pl: "plain_seg (fst x)" using read_dir_plain[OF that] x(1) by (cases x) auto
    have "prefix e (comps (path_join [dir, fst x]))" using assms(3) child_path(1)[OF assms(1) pl] by (simp add: prefix_append)
    then show "confined D s (snd (if snd x \<noteq> NDir \<or> fst x \<in> set desired then (None, w) else try_fs w (remove_all w (path_join [dir, fst x]))))"
      using confined_try_remove_all[OF x(2) assms(2)] x(2) by simp
  qed (use assms(4) in simp)
  then show ?thesis using assms(4) by (auto simp: pruneResourceDir_def split: sum.splits fs_error.splits)
qed

lemma cache_key_plain: "src_digest src = [] \<Longrightarrow> plain_seg (cache_key src)"
proof -
  assume d: "src_digest src = []"
  let ?h = "take 16 (hex_encode (sha256 (bytes_of_string (src_url src))))"
  have "slash \<notin> set ?h" using hex_encode_chars[of slash] by (auto simp: slash_def dest: in_set_takeD)
  then show ?thesis using d by (auto simp: cache_key_def plain_seg_def slash_def)
qed

definition res_dirs :: "sessionOptions \<Rightarrow> string list \<Rightarrow> path set" where
  "res_dirs opts ds = insert (comps (resourceCacheRoot opts)) (comps ` set ds)"

lemma cache_root: "is_abs (workRoot opts) \<Longrightarrow> is_abs (resourceCacheRoot opts)"
  using path_join_abs[of "workRoot opts" "[''.resource-cache'']"] by (simp add: resourceCacheRoot_def)

lemma plain_cache [simp]: "plain_seg ''content''" "plain_seg ''.ready''"
  by (simp_all add: plain_seg_def slash_def)

lemma fetchArchive_confined:
  assumes "is_abs (workRoot opts)" "src_digest src = []" "is_abs dest" "clean dest = dest" "e \<in> D" "prefix e (comps dest)"
    "comps (resourceCacheRoot opts) \<in> D" "confined D s t"
  shows "confined D s (snd (fetchArchive http opts src dest t))"
proof -
  let ?c = "path_join [resourceCacheRoot opts, cache_key src]"
  let ?content = "path_join [?c, ''content'']" and ?ready = "path_join [?c, ''.ready'']"
  note ca = child_path[OF cache_root[OF assms(1)] cache_key_plain[OF assms(2)]]
  note co = child_path[OF ca(2), of "''content''", simplified] and re = child_path[OF ca(2), of "''.ready''", simplified]
  have pr: "prefix (comps (resourceCacheRoot opts)) (comps ?content)" "prefix (comps (resourceCacheRoot opts)) (comps ?ready)"
    "prefix (comps (resourceCacheRoot opts)) (comps ?c)" by (simp_all add: ca co re)
  have copy: "confined D s (snd (copyTree ?content dest w))" if "confined D s w" for w
    by (rule copyTree_confined[OF assms(3-6) that])
  have dl: "confined D s w'" if "downloadAndExtract http src ?content w = (dg, er, w')" "confined D s w" for w w' dg er
  proof -
    have "confined {comps ?content} w w'"
      using that(1) extractTarGz_confined[OF co(2) confined_refl[of "{comps ?content}" w]]
      by (auto simp: downloadAndExtract_def Let_def split: http_reply.splits if_splits) (metis snd_conv)+
    then have "confined D w w'" by (rule confined_sub[OF _ assms(7) pr(1)])
    with that(2) show ?thesis by (rule confined_trans)
  qed
  have rm: "confined D s w'" if "remove_all w ?c = Inr w'" "confined D s w" for w w'
    using confined_try_remove_all[OF that(2) assms(7) pr(3)] that(1) by simp
  have wr: "confined D s (snd (try_fs w (write_file w ?ready x)))" if "confined D s w" for w x
    by (rule confined_try_write[OF that assms(7) pr(2)])
  show ?thesis
  proof (cases "stat t ?ready")
    case (Inr n)
    then show ?thesis using copy[OF assms(8)] by (simp add: fetchArchive_def Let_def)
  next
    case (Inl er)
    show ?thesis unfolding fetchArchive_def Let_def Inl sum.case
    proof (rule and_then_inv)
      show "confined D s (snd (as_res (try_fs t (mkdir_all t ?content))))"
        using confined_try_mkdir[OF assms(8,7) pr(1)] by simp
      fix w assume w: "confined D s w"
      obtain dg er w' where d: "downloadAndExtract http src ?content w = (dg, er, w')" by (metis prod_cases3)
      have w': "confined D s w'" by (rule dl[OF d w])
      have "confined D s (snd (and_then (as_res (try_fs w' (write_file w' ?ready x))) (\<lambda>s. as_res (copyTree ?content dest s))))" for x
        by (rule and_then_inv) (simp_all add: wr[OF w'] copy)
      then show "confined D s (snd (case downloadAndExtract http src ?content w of
            (_, Some e, s) \<Rightarrow> (Some e, case remove_all s ?c of Inl _ \<Rightarrow> s | Inr s' \<Rightarrow> s')
          | (serverDigest, None, s) \<Rightarrow> and_then (as_res (try_fs s (write_file s ?ready (Text (if serverDigest \<noteq> [] then serverDigest else ''ok'')))))
              (\<lambda>s. as_res (copyTree ?content dest s))))"
        unfolding d using w' rm[OF _ w'] by (cases er) (auto split: sum.splits)
    qed
  qed
qed


lemma gfs_on_res [simp]: "gfs (snd (on_res w r)) = snd r"
  by (simp add: on_res_def)

lemma fetchResource_confined:
  assumes "clone_confined git" "is_abs (workRoot opts)" "src_digest src = []" "is_abs dest" "clean dest = dest" "e \<in> D" "prefix e (comps dest)"
    "comps (resourceCacheRoot opts) \<in> D" "confined D s (gfs w)"
  shows "confined D s (gfs (snd (fetchResource git http opts src dest w)))"
  unfolding fetchResource_def
proof (rule and_then_inv)
  show "confined D s (gfs (snd (on_res w (as_res (try_fs (gfs w) (remove_all (gfs w) dest))))))"
    using confined_try_remove_all[OF assms(9,6,7)] by simp
  fix w1 :: git_world assume w1: "confined D s (gfs w1)"
  have "''clone'' \<in> set (resource_clone_args src dest)" "last (resource_clone_args src dest) = dest"
    by (simp_all add: resource_clone_args_def)
  then have "confined {comps dest} (gfs w1) (gfs (snd (runNodeGit git [] (resource_clone_args src dest) w1)))"
    by (intro confined_clone[OF assms(1)]) simp_all
  then have git: "confined D s (gfs (snd (runNodeGit git [] (resource_clone_args src dest) w1)))"
    using confined_trans[OF w1 confined_sub[OF _ assms(6,7)]] by blast
  show "confined D s (gfs (snd (if src_path src \<noteq> [] then on_res w1 (as_res (copyTree (src_path src) dest (gfs w1)))
      else if src_url src = [] then (None, w1)
      else if isArchiveSource src then on_res w1 (fetchArchive http opts src dest (gfs w1))
      else case runNodeGit git [] (resource_clone_args src dest) w1 of (e, w) \<Rightarrow> (map_option ResGit e, w))))"
    using copyTree_confined[OF assms(4-7) w1] fetchArchive_confined[OF assms(2-8) w1] w1 git
    by (cases "runNodeGit git [] (resource_clone_args src dest) w1") simp
qed

lemma fetch_and_mirror_confined:
  assumes "clone_confined git" "is_abs (workRoot opts)" "src_digest src = []"
    "is_abs nodeDir" "is_abs runtimeDir" "comps nodeDir \<in> D" "comps runtimeDir \<in> D" "plain_seg safe"
    "comps (resourceCacheRoot opts) \<in> D" "confined D s (gfs w)"
  shows "confined D s (gfs (snd (fetch_and_mirror git http opts src (path_join [nodeDir, safe]) (path_join [runtimeDir, safe]) w)))"
proof -
  note n = child_path[OF assms(4,8)] and r = child_path[OF assms(5,8)]
  have pn: "prefix (comps nodeDir) (comps (path_join [nodeDir, safe]))" and pr: "prefix (comps runtimeDir) (comps (path_join [runtimeDir, safe]))"
    by (simp_all add: n r)
  have pd: "comps (path_dir (path_join [runtimeDir, safe])) = comps runtimeDir"
    using comps_parent(1)[OF assms(5), of "[]" safe] assms(8) by simp
  show ?thesis unfolding fetch_and_mirror_def
  proof (rule and_then_inv)
    show "confined D s (gfs (snd (fetchResource git http opts src (path_join [nodeDir, safe]) w)))"
      by (rule fetchResource_confined[OF assms(1-3) n(2,3) assms(6) pn assms(9,10)])
  next
    fix w1 :: git_world assume w1: "confined D s (gfs w1)"
    show "confined D s (gfs (snd (and_then (on_res w1 (as_res (try_fs (gfs w1) (mkdir_all (gfs w1) (path_dir (path_join [runtimeDir, safe]))))))
        (\<lambda>w. on_res w (as_res (replaceTree (path_join [nodeDir, safe]) (path_join [runtimeDir, safe]) (gfs w)))))))"
    proof (rule and_then_inv)
      show "confined D s (gfs (snd (on_res w1 (as_res (try_fs (gfs w1) (mkdir_all (gfs w1) (path_dir (path_join [runtimeDir, safe]))))))))"
        using confined_try_mkdir[OF w1 assms(7), of "path_dir (path_join [runtimeDir, safe])"] by (simp add: pd)
      fix w2 :: git_world assume "confined D s (gfs w2)"
      then show "confined D s (gfs (snd (on_res w2 (as_res (replaceTree (path_join [nodeDir, safe]) (path_join [runtimeDir, safe]) (gfs w2))))))"
        using replaceTree_confined[OF r(2,3) assms(7) pr] by simp
    qed
  qed
qed

lemma prune_both_confined:
  assumes "is_abs a" "is_abs b" "comps a \<in> D" "comps b \<in> D" "confined D s (gfs w)"
  shows "confined D s (gfs (snd (prune_both a b desired w)))"
  unfolding prune_both_def
  by (rule and_then_inv) (simp_all add: pruneResourceDir_confined[OF assms(1,3)] pruneResourceDir_confined[OF assms(2,4)] assms(5))

lemma plain_dirs [simp]: "plain_seg ''.claude''" "plain_seg ''.agents''" "plain_seg ''.gemini''" "plain_seg ''extensions''"
  by (simp_all add: plain_seg_def slash_def)

lemma runtime_dirs_abs: "is_abs home \<Longrightarrow> is_abs (runtimeSkillsDir home provider)" "is_abs home \<Longrightarrow> is_abs (runtimePluginsDir home provider)"
  by (simp_all add: runtimeSkillsDir_def runtimePluginsDir_def path_join_abs)

lemma syncSkills_confined_aux:
  assumes "clone_confined git" "is_abs (workRoot opts)" "is_abs (rs_skillsDir ss)" "is_abs (rs_home ss)"
  defines "D \<equiv> {comps (resourceCacheRoot opts), comps (rs_skillsDir ss), comps (runtimeSkillsDir (rs_home ss) (rs_provider ss))}"
  shows "confined D (gfs w) (gfs (snd (syncSkills git http opts ss skills w)))"
proof -
  let ?R = "runtimeSkillsDir (rs_home ss) (rs_provider ss)"
  have d: "comps (resourceCacheRoot opts) \<in> D" "comps (rs_skillsDir ss) \<in> D" "comps ?R \<in> D" by (simp_all add: D_def)
  have one: "confined D (gfs w) (gfs (snd (fetch_and_mirror git http opts (skillSource sk) (path_join [rs_skillsDir ss, sanitizeSessionDir n])
      (path_join [?R, sanitizeSessionDir n]) w1)))" if "confined D (gfs w) (gfs w1)" for sk n w1
    by (rule fetch_and_mirror_confined[OF assms(1,2) _ assms(3) runtime_dirs_abs(1)[OF assms(4)] d(2,3) plain_sanitize d(1) that])
       (simp add: skillSource_def)
  have "confined D (gfs w) (gfs (snd (fold (sync_skill git http opts ss) skills (None, w))))"
    unfolding sync_skill_def Let_def by (rule fold_and_then_inv) (simp_all add: one)
  then show ?thesis unfolding syncSkills_def
    by (rule and_then_inv) (rule prune_both_confined[OF assms(3) runtime_dirs_abs(1)[OF assms(4)] d(2,3)])
qed

section \<open>What a synchronisation leaves\<close>



lemma map_of_filter_key: "map_of (filter (\<lambda>(r, n). P r) m) q = (if P q then map_of m q else None)"
  by (induction m) auto

lemma remove_all_lookup_any:
  "remove_all s p = Inr s' \<Longrightarrow> lookup s' q = (if q = [] then Some NDir else if prefix (comps p) q then None else lookup s q)"
  by (auto simp: remove_all_def Let_def lookup_def map_of_filter_key[where P = "\<lambda>r. \<not> prefix (comps p) r"] split: if_splits)

lemma fold_and_then_error: "fold (\<lambda>x r. and_then r (f x)) xs (Some e, w) = (Some e, w)"
  by (induction xs) auto

lemma prune_entry_shrinks: "lookup (snd (prune_entry dir desired e (None, s))) q = Some k \<Longrightarrow> q \<noteq> [] \<Longrightarrow> lookup s q = Some k"
  by (cases "remove_all s (path_join [dir, fst e])")
     (auto simp: prune_entry_def remove_all_lookup_any split: if_splits)

lemma prune_fold_shrinks: "lookup (snd (fold (prune_entry dir desired) es r)) q = Some k \<Longrightarrow> q \<noteq> [] \<Longrightarrow> lookup (snd r) q = Some k"
proof (induction es arbitrary: r)
  case (Cons e es)
  have "lookup (snd (prune_entry dir desired e r)) q = Some k" using Cons.IH Cons.prems by simp
  then show ?case using prune_entry_shrinks[of dir desired e "snd r" q k] Cons.prems(2)
    by (cases r; cases "fst r") (auto simp: prune_entry_def)
qed simp

lemma prune_fold_error: "fold (prune_entry dir desired) es (Some e, w) = (Some e, w)"
  by (induction es) (auto simp: prune_entry_def)

lemma prune_fold_removes:
  assumes "is_abs dir" "fold (prune_entry dir desired) es (None, s) = (None, s')" "(n, NDir) \<in> set es" "n \<notin> set desired" "plain_seg n"
  shows "lookup s' (comps dir @ [n]) = None"
  using assms(2,3)
proof (induction es arbitrary: s)
  case (Cons e es)
  obtain x s1 where one: "prune_entry dir desired e (None, s) = (x, s1)" by (cases "prune_entry dir desired e (None, s)") auto
  have x: "x = None" using Cons.prems(1) one by (cases x) (auto simp: prune_fold_error)
  have rest: "fold (prune_entry dir desired) es (None, s1) = (None, s')" using Cons.prems(1) one x by simp
  show ?case
  proof (cases "(n, NDir) \<in> set es")
    case True
    with Cons.IH[OF rest] show ?thesis by simp
  next
    case False
    then have "e = (n, NDir)" using Cons.prems(2) by auto
    then have "remove_all s (path_join [dir, n]) = Inr s1" using one x assms(4) by (simp add: prune_entry_def try_fs_None)
    then have "lookup s1 (comps dir @ [n]) = None" using child_path(1)[OF assms(1,5)] by (simp add: remove_all_lookup_any)
    then show ?thesis using prune_fold_shrinks[of dir desired es "(None, s1)" "comps dir @ [n]"] rest
      by (cases "lookup s' (comps dir @ [n])") auto
  qed
qed simp

lemma prune_shrinks: "lookup (snd (pruneResourceDir dir desired s)) q = Some k \<Longrightarrow> q \<noteq> [] \<Longrightarrow> lookup s q = Some k"
  by (auto simp: pruneResourceDir_def split: sum.splits fs_error.splits dest: prune_fold_shrinks)

lemma prune_exact:
  assumes "is_abs dir" "pruneResourceDir dir desired s = (None, s')" "is_dir s' (comps dir)" "is_dir s' (comps dir @ [n])" "plain_seg n"
  shows "n \<in> set desired"
proof (rule ccontr)
  assume n: "n \<notin> set desired"
  have "is_dir s (comps dir)" "lookup s (comps dir @ [n]) = Some NDir"
    using prune_shrinks[of dir desired s] assms(2-4) by (auto simp: is_dir_def) (metis lookup_Nil)
  then have mem: "(comps dir @ [n], NDir) \<in> set (nodes s)" by (auto simp: lookup_def dest: map_of_SomeD)
  obtain es where es: "read_dir s dir = Inr es" "fold (prune_entry dir desired) es (None, s) = (None, s')"
    using assms(2) \<open>is_dir s (comps dir)\<close>
    by (auto simp: pruneResourceDir_def read_dir_def is_dir_def Let_def split: sum.splits fs_error.splits if_splits)
  have "(n, NDir) \<in> set es" using es(1) mem assms(5)
    by (force simp: read_dir_def Let_def split: if_splits option.splits node.splits)
  with prune_fold_removes[OF assms(1) es(2) _ n assms(5)] assms(4) show False by (simp add: is_dir_def)
qed

lemma prune_both_exact:
  assumes "is_abs a" "is_abs b" "prune_both a b desired w = (None, w')" "dir \<in> {a, b}" "is_dir (gfs w') (comps dir)"
    "is_dir (gfs w') (comps dir @ [n])" "plain_seg n"
  shows "n \<in> set desired"
proof -
  obtain s1 where s1: "pruneResourceDir a desired (gfs w) = (None, s1)" "pruneResourceDir b desired s1 = (None, gfs w')"
    using assms(3) unfolding prune_both_def and_then_None
    by (auto simp: on_res_def as_res_def prod_eq_iff)
  have "is_dir s1 q" if "is_dir (gfs w') q" for q
    using prune_shrinks[of b desired s1 q NDir] s1(2) that by (cases "q = []") (auto simp: is_dir_def)
  then show ?thesis using prune_exact[OF assms(1) s1(1)] prune_exact[OF assms(2) s1(2)] assms(4-7) by blast
qed

lemma syncSkills_exact:
  assumes "is_abs (rs_skillsDir ss)" "is_abs (rs_home ss)" "syncSkills git http opts ss skills w = (None, w')"
    "dir \<in> {rs_skillsDir ss, runtimeSkillsDir (rs_home ss) (rs_provider ss)}" "is_dir (gfs w') (comps dir)"
    "is_dir (gfs w') (comps dir @ [n])" "plain_seg n"
  shows "n \<in> set (desired_names (map sk_name skills))"
  using assms(3) prune_both_exact[OF assms(1) runtime_dirs_abs(1)[OF assms(2)] _ assms(4-7)]
  unfolding syncSkills_def and_then_None by blast

section \<open>Copies end\<close>

lemma no_loop_ops:
  "stat s p \<noteq> Inl ENAMETOOLONG" "read_dir s p \<noteq> Inl ENAMETOOLONG" "read_file s p \<noteq> Inl ENAMETOOLONG"
  "write_file s p c \<noteq> Inl ENAMETOOLONG"
  by (auto simp: stat_def read_dir_def read_file_def write_file_def Let_def split: option.splits node.splits)

lemma no_loop_mkdirs: "mkdirs s d cs \<noteq> Inl ENAMETOOLONG"
  by (induction s d cs rule: mkdirs.induct) (auto simp: Let_def split: option.splits node.splits)

lemma no_loop_write: "fst (write_in_dir s p c) \<noteq> Some ENAMETOOLONG" "fst (copyFile src dest s) \<noteq> Some ENAMETOOLONG"
  "fst (try_fs s (mkdir_all s p)) \<noteq> Some ENAMETOOLONG"
proof -
  show m: "fst (try_fs s (mkdir_all s p)) \<noteq> Some ENAMETOOLONG" for s p
    using no_loop_mkdirs[of s "[]" "comps p"] by (auto simp: mkdir_all_def try_fs_def split: sum.splits)
  show w: "fst (write_in_dir s p c) \<noteq> Some ENAMETOOLONG" for s p c
    using m[of s "path_dir p"] no_loop_ops(4) by (auto simp: write_in_dir_def and_then_def try_fs_def split: prod.splits option.splits sum.splits)
  show "fst (copyFile src dest s) \<noteq> Some ENAMETOOLONG"
    using w no_loop_ops(3)[of s src] by (auto simp: copyFile_def split: sum.splits)
qed

lemma fold_and_then_fst:
  assumes "fst r \<noteq> Some e" "Q (snd r)" "\<And>x w. x \<in> set xs \<Longrightarrow> Q w \<Longrightarrow> fst (f x w) \<noteq> Some e \<and> Q (snd (f x w))"
  shows "fst (fold (\<lambda>x r. and_then r (f x)) xs r) \<noteq> Some e"
  using assms
proof (induction xs arbitrary: r)
  case (Cons x xs)
  obtain y w where r: "r = (y, w)" by (cases r)
  show ?case
  proof (cases y)
    case None
    then show ?thesis using Cons.prems Cons.IH[of "f x w"] r by simp
  next
    case (Some a)
    then show ?thesis using Cons.prems(1) r by (simp add: fold_and_then_error)
  qed
qed simp

text \<open>The part of the store below a directory that a confined operation elsewhere leaves alone.\<close>

lemma confined_elsewhere:
  assumes "confined {d} s t" "\<not> prefix p d" "\<not> prefix d p" "prefix p q"
  shows "lookup t q = lookup s q"
proof -
  have "\<not> prefix d q" using assms(2-4) prefix_same_cases by blast
  moreover have "\<not> strict_prefix q d" using assms(2,4) prefix_order.trans by (auto simp: strict_prefix_def)
  ultimately show ?thesis using assms(1) unfolding confined_def by blast
qed

lemma incomparable_children:
  "\<not> prefix p q \<Longrightarrow> \<not> prefix q p \<Longrightarrow> \<not> prefix (p @ [a]) (q @ [b]) \<and> \<not> prefix (q @ [b]) (p @ [a])"
  by (metis append_prefixD prefix_snoc prefixI)

lemma copy_step:
  assumes "is_abs src" "is_abs dest" "clean dest = dest"
    "\<And>name es w. read_dir s src = Inr es \<Longrightarrow> (name, NDir) \<in> set es \<Longrightarrow> confined {comps dest} s w \<Longrightarrow>
      fst (copy_tree n (path_join [src, name]) (path_join [dest, name]) w) \<noteq> Some ENAMETOOLONG"
  shows "fst (copy_tree (Suc n) src dest s) \<noteq> Some ENAMETOOLONG"
proof -
  have "fst (fold (\<lambda>e r. and_then r (copy_child n src dest e)) es (try_fs s (mkdir_all s dest))) \<noteq> Some ENAMETOOLONG"
    if es: "read_dir s src = Inr es" for es
  proof (rule fold_and_then_fst[where Q = "confined {comps dest} s"])
    show "fst (try_fs s (mkdir_all s dest)) \<noteq> Some ENAMETOOLONG" by (rule no_loop_write)
    show "confined {comps dest} s (snd (try_fs s (mkdir_all s dest)))" by (rule confined_try_mkdir) auto
    fix x w assume x: "x \<in> set es" "confined {comps dest} s w"
    have pl: "plain_seg (fst x)" using read_dir_plain[OF es] x(1) by (cases x) auto
    note c = child_path[OF assms(2) pl]
    have "prefix (comps dest) (comps (path_join [dest, fst x]))" by (simp add: c)
    then have "confined {comps dest} s (snd (copy_child n src dest x w))"
      unfolding copy_child_def using copy_tree_confined[OF c(2,3) _ _ x(2)] copyFile_confined[OF c(2,3) _ _ x(2)] by simp
    moreover have "fst (copy_child n src dest x w) \<noteq> Some ENAMETOOLONG"
      unfolding copy_child_def using assms(4)[OF es _ x(2), of "fst x"] x(1) no_loop_write(2) by (cases x) auto
    ultimately show "fst (copy_child n src dest x w) \<noteq> Some ENAMETOOLONG \<and> confined {comps dest} s (snd (copy_child n src dest x w))" by simp
  qed
  then show ?thesis unfolding copy_tree_Suc
    using no_loop_ops(1)[of s src] no_loop_ops(2)[of s src] no_loop_write(2) by (auto split: sum.splits node.splits)
qed

lemma read_dir_lookup:
  assumes "fs_wf s" "read_dir s src = Inr es" "(name, k) \<in> set es"
  shows "lookup s (comps src @ [name]) = Some k" "plain_seg name"
proof -
  obtain r where r: "(r, k) \<in> set (nodes s)" "r \<noteq> []" "butlast r = comps src" "last r = name" "plain_seg name"
    using assms(2,3) by (auto simp: read_dir_def Let_def split: if_splits option.splits node.splits)
  then have "r = comps src @ [name]" by (metis append_butlast_last_id)
  with r assms(1) show "lookup s (comps src @ [name]) = Some k" "plain_seg name"
    by (simp_all add: lookup_def fs_wf_def gomap_wf_def)
qed

lemma copy_tree_ends:
  assumes "is_abs src" "is_abs dest" "clean dest = dest" "\<not> prefix (comps src) (comps dest)" "\<not> prefix (comps dest) (comps src)" "fs_wf s"
    "\<forall>r. prefix (comps src) r \<longrightarrow> lookup s r \<noteq> None \<longrightarrow> length r \<le> length (comps src) + n"
  shows "fst (copy_tree (Suc n) src dest s) \<noteq> Some ENAMETOOLONG"
  using assms
proof (induction n arbitrary: src dest s)
  case (0 src dest s)
  show ?case
  proof (rule copy_step[OF 0(1-3)])
    fix name es w assume "read_dir s src = Inr es" "(name, NDir) \<in> set es"
    from read_dir_lookup(1)[OF 0(6) this] 0(7)[THEN spec, of "comps src @ [name]"]
    show "fst (copy_tree 0 (path_join [src, name]) (path_join [dest, name]) w) \<noteq> Some ENAMETOOLONG" by simp
  qed
next
  case (Suc n src dest s)
  show ?case
  proof (rule copy_step[OF Suc.prems(1-3)])
    fix name es w assume e: "read_dir s src = Inr es" "(name, NDir) \<in> set es" and w: "confined {comps dest} s w"
    have pl: "plain_seg name" by (rule read_dir_lookup(2)[OF Suc.prems(6) e])
    note c = child_path[OF Suc.prems(1) pl] and d = child_path[OF Suc.prems(2) pl]
    have same: "lookup w r = lookup s r" if "prefix (comps src) r" for r
      by (rule confined_elsewhere[OF w Suc.prems(4,5) that])
    show "fst (copy_tree (Suc n) (path_join [src, name]) (path_join [dest, name]) w) \<noteq> Some ENAMETOOLONG"
    proof (rule Suc.IH[OF c(2) d(2,3)])
      show "\<not> prefix (comps (path_join [src, name])) (comps (path_join [dest, name]))"
        "\<not> prefix (comps (path_join [dest, name])) (comps (path_join [src, name]))"
        unfolding c(1) d(1) using incomparable_children[OF Suc.prems(4,5)] by blast+
      show "fs_wf w" using confined_wf[OF w Suc.prems(6)] .
      show "\<forall>r. prefix (comps (path_join [src, name])) r \<longrightarrow> lookup w r \<noteq> None \<longrightarrow> length r \<le> length (comps (path_join [src, name])) + n"
        unfolding c(1) using Suc.prems(7) same by (auto dest: append_prefixD)
    qed
  qed
qed

lemma lookup_depth: "lookup s r \<noteq> None \<Longrightarrow> length r < tree_depth s"
proof -
  have mono: "m \<le> fold max xs m" "x \<in> set xs \<Longrightarrow> x \<le> fold max xs m" for xs m and x :: nat
    by (induction xs arbitrary: m) (auto, (metis max.bounded_iff max.cobounded1 order.trans)+)
  assume r: "lookup s r \<noteq> None"
  show ?thesis
  proof (cases "r = []")
    case False
    then obtain k where "(r, k) \<in> set (nodes s)" using r by (auto simp: lookup_def dest: map_of_SomeD)
    then have "length r \<in> set (map (\<lambda>(r, k). length r) (nodes s))" by force
    from mono(2)[OF this, of 0] show ?thesis by (simp add: tree_depth_def)
  qed (simp add: tree_depth_def)
qed

lemma copyTree_terminates:
  assumes "is_abs src" "is_abs dest" "clean dest = dest" "\<not> prefix (comps src) (comps dest)" "\<not> prefix (comps dest) (comps src)" "fs_wf s"
  shows "fst (copyTree src dest s) \<noteq> Some ENAMETOOLONG"
proof -
  obtain n where n: "tree_depth s = Suc n" by (simp add: tree_depth_def)
  have "length r \<le> length (comps src) + n" if "lookup s r \<noteq> None" for r using lookup_depth[OF that] n by simp
  then show ?thesis unfolding copyTree_def n by (intro copy_tree_ends[OF assms]) blast
qed

section \<open>Properties\<close>

text \<open>
  \<^bold>\<open>C4\<close>. Unpacking an archive never leaves its directory, on a file system that follows symbolic links:
  whatever names, types and order the entries have, and also when unpacking stops half way, nothing
  outside the destination changes.  The destination must be reached without links and hold none, and
  then it still holds none afterwards, so the next archive is confined as well.
\<close>

theorem archive_cannot_escape:
  assumes "is_abs dest" "no_links s (comps dest)" "extractTarGz link_ops stream dest s = (err, s')"
  shows "confined {comps dest} s s' \<and> no_links s' (comps dest)"
  using extractTarGz_kept[OF assms(1) kept_refl[OF assms(2)], of stream] assms(3) by (simp add: kept_def)

definition demo_tar :: tar_stream where
  "demo_tar = Tar [\<lparr> te_name = ''a/x'', te_kind = TarReg ''1'' True \<rparr>, \<lparr> te_name = ''l'', te_kind = TarSymlink ''..'' \<rparr>,
     \<lparr> te_name = ''l/e'', te_kind = TarReg ''2'' True \<rparr>] True"

theorem archive_cannot_escape_witness:
  "\<exists>s'. extractTarGz link_ops demo_tar ''/d'' \<lparr> nodes = [], denied = [] \<rparr> = (Some ResRefused, s') \<and>
    read_link s' ''/d/a/x'' = Inr (Text ''1'') \<and> confined {[''d'']} \<lparr> nodes = [], denied = [] \<rparr> s' \<and> no_links s' [''d'']"
proof -
  let ?s = "\<lparr> nodes = [], denied = [] \<rparr>"
  have "fst (extractTarGz link_ops demo_tar ''/d'' ?s) = Some ResRefused"
    "read_link (snd (extractTarGz link_ops demo_tar ''/d'' ?s)) ''/d/a/x'' = Inr (Text ''1'')"
    "is_abs ''/d''" "comps ''/d'' = [''d'']" by code_simp+
  moreover have "no_links ?s (comps ''/d'')" by (simp add: no_links_def lookup_def)
  ultimately show ?thesis using archive_cannot_escape[of "''/d''" ?s demo_tar] by (metis prod.collapse)
qed

text \<open>
  \<^bold>\<open>C21\<close>
  Synchronising skills touches the session's skill directory, the directory the
  runtime scans and the resource cache, and nothing else, whatever the names,
  sources and archives are and wherever it fails.
\<close>

theorem skill_sync_confined:
  assumes "clone_confined git" "is_abs (workRoot opts)" "is_abs (rs_skillsDir ss)" "is_abs (rs_home ss)"
  shows "confined {comps (resourceCacheRoot opts), comps (rs_skillsDir ss), comps (runtimeSkillsDir (rs_home ss) (rs_provider ss))}
    (gfs w) (gfs (snd (syncSkills git http opts ss skills w)))"
  by (rule syncSkills_confined_aux[OF assms])

definition demo_rs :: resource_session where
  "demo_rs = \<lparr> rs_skillsDir = ''/w/skills'', rs_pluginsDir = ''/w/plugins'', rs_home = ''/h'', rs_provider = ''claude'' \<rparr>"

definition demo_skill :: "string \<Rightarrow> SkillSpec" where
  "demo_skill name = \<lparr> sk_name = name, sk_url = [], sk_ref = [], sk_path = ''/k'', sk_username = [], sk_password = [],
     sk_token = [], sk_source = [] \<rparr>"

definition demo_skills_world :: git_world where
  "demo_skills_world = \<lparr> gfs = \<lparr> nodes = [([''k''], NDir), ([''k'', ''SKILL.md''], NFile (Text ''hi''))], denied = [] \<rparr>, commands = [] \<rparr>"

theorem skill_sync_confined_witness:
  "confined {comps (resourceCacheRoot demo_opts), comps ''/w/skills'', comps (runtimeSkillsDir ''/h'' ''claude'')}
    (gfs demo_skills_world) (gfs (snd (syncSkills demo_git (\<lambda>_ _. Unreachable) demo_opts demo_rs [demo_skill ''a''] demo_skills_world)))"
  using skill_sync_confined[OF demo_git_confined(2), of demo_opts demo_rs]
  by (simp add: demo_rs_def demo_opts_def slash_def)

text \<open>
  
  A skill whose name is not its own directory name does not survive its
  synchronisation: the directory is made under the sanitised name and removed at
  the end of the same call, which compares directory names with the unsanitised
  ones, and the call still succeeds.
\<close>

theorem sanitised_skill_is_pruned:
  assumes "is_abs (rs_skillsDir ss)" "is_abs (rs_home ss)" "syncSkills git http opts ss skills w = (None, w')"
    "dir \<in> {rs_skillsDir ss, runtimeSkillsDir (rs_home ss) (rs_provider ss)}" "is_dir (gfs w') (comps dir)"
    "sanitizeSessionDir name \<notin> set (desired_names (map sk_name skills))"
  shows "\<not> is_dir (gfs w') (comps dir @ [sanitizeSessionDir name])"
  using syncSkills_exact[OF assms(1-5) _ plain_sanitize] assms(6) by blast

theorem sanitised_skill_is_pruned_witness:
  "\<exists>w'. syncSkills demo_git (\<lambda>_ _. Unreachable) demo_opts demo_rs [demo_skill ''my skill''] demo_skills_world = (None, w') \<and>
    \<not> is_dir (gfs w') [''w'', ''skills'', ''my-skill'']"
proof -
  let ?r = "syncSkills demo_git (\<lambda>_ _. Unreachable) demo_opts demo_rs [demo_skill ''my skill''] demo_skills_world"
  have f: "fst ?r = None" by code_simp
  have d: "is_dir (gfs (snd ?r)) (comps (rs_skillsDir demo_rs))" by code_simp
  obtain x w' where r: "?r = (x, w')" by (meson surj_pair)
  have x: "?r = (None, w')" using f r by (metis fst_conv)
  have n: "sanitizeSessionDir ''my skill'' \<notin> set (desired_names (map sk_name [demo_skill ''my skill'']))" by code_simp
  have e: "sanitizeSessionDir ''my skill'' = ''my-skill''" by code_simp
  have c: "comps (rs_skillsDir demo_rs) = [''w'', ''skills'']" by code_simp
  have a: "is_abs (rs_skillsDir demo_rs)" "is_abs (rs_home demo_rs)" by (simp_all add: demo_rs_def slash_def)
  have "\<not> is_dir (gfs w') (comps (rs_skillsDir demo_rs) @ [sanitizeSessionDir ''my skill''])"
    by (rule sanitised_skill_is_pruned[OF a x _ _ n]) (use d x in simp_all)
  with x show ?thesis unfolding c e by simp
qed

text \<open>
  
  A cached archive is never refreshed: once the marker of a URL is in the cache,
  fetching any skill with that URL copies the cached content and does not look at
  what the server holds now.
\<close>

theorem cached_archive_is_final:
  assumes "trim_space (sk_url sk') = trim_space (sk_url sk)"
    "stat s (path_join [path_join [resourceCacheRoot opts, cache_key (skillSource sk)], ''.ready'']) = Inr n"
  shows "fetchArchive http opts (skillSource sk') dest s =
    as_res (copyTree (path_join [path_join [resourceCacheRoot opts, cache_key (skillSource sk)], ''content'']) dest s)"
proof -
  have "cache_key (skillSource sk') = cache_key (skillSource sk)" using assms(1) by (simp add: cache_key_def skillSource_def)
  with assms(2) show ?thesis by (simp add: fetchArchive_def Let_def)
qed

theorem cached_archive_is_final_witness:
  "\<exists>s. fetchArchive (\<lambda>_ _. Reply ''new-digest'' (Tar [] True)) demo_opts (skillSource (demo_skill ''a'')) ''/d'' s =
    as_res (copyTree (path_join [path_join [resourceCacheRoot demo_opts, cache_key (skillSource (demo_skill ''b''))], ''content'']) ''/d'' s)"
proof -
  let ?p = "path_join [path_join [resourceCacheRoot demo_opts, cache_key (skillSource (demo_skill ''b''))], ''.ready'']"
  let ?s = "\<lparr> nodes = [(comps ?p, NDir)], denied = [] \<rparr>"
  have "stat ?s ?p = Inr NDir" by (simp add: stat_def lookup_def)
  moreover have "trim_space (sk_url (demo_skill ''a'')) = trim_space (sk_url (demo_skill ''b''))" by (simp add: demo_skill_def)
  ultimately show ?thesis using cached_archive_is_final[where s = ?s] by blast
qed

text \<open>
  \<^bold>\<open>C33\<close>
  Copying a tree into a directory that is neither inside the source nor above it
  ends: the recursion never goes deeper than the store.
\<close>

theorem copy_terminates:
  assumes "is_abs src" "is_abs dest" "clean dest = dest" "\<not> prefix (comps src) (comps dest)" "\<not> prefix (comps dest) (comps src)" "fs_wf s"
  shows "fst (copyTree src dest s) \<noteq> Some ENAMETOOLONG"
  by (rule copyTree_terminates[OF assms])

theorem copy_terminates_witness:
  "fst (copyTree ''/k'' ''/d'' (gfs demo_skills_world)) \<noteq> Some ENAMETOOLONG"
proof (rule copy_terminates)
  show "clean ''/d'' = ''/d''" by code_simp
  show "\<not> prefix (comps ''/k'') (comps ''/d'')" by code_simp
  show "\<not> prefix (comps ''/d'') (comps ''/k'')" by code_simp
  show "fs_wf (gfs demo_skills_world)" by (simp add: fs_wf_def gomap_wf_def demo_skills_world_def)
qed (simp_all add: slash_def)

end
