(* ===== verification/Environments.thy ===== *)
theory Environments
  imports Resources
begin

text \<open>
  Shared environments: \<^verbatim>\<open>execution/environments.go\<close>.  The operator's home directory
  (\<^verbatim>\<open>os.UserHomeDir\<close>) is an argument; log lines are left out.
\<close>

datatype env_error =
    EnvIdRequired
  | EnvFs fs_error
  | EnvGit git_error
  | EnvRes resource_error
  | EnvNotEnabled
  | EnvNoHome
  | EnvUnsupported string

section \<open>Which home a session runs in\<close>

definition resolveHome ::
  "sessionOptions \<Rightarrow> string option \<Rightarrow> NodeCreateSession \<Rightarrow> string \<Rightarrow> fs \<Rightarrow> (env_error + string) \<times> fs" where
  "resolveHome opts userHome spec base s =
    (let mode = to_lower (trim_space (cs_env_mode spec)) in
     if mode = [] \<or> mode = envModeIsolated then (Inr (path_join [base, ''home'']), s)
     else if mode = envModeSystem then
       (if \<not> systemEnvAllowed opts then (Inl EnvNotEnabled, s)
        else case userHome of
            None \<Rightarrow> (Inl EnvNoHome, s)
          | Some h \<Rightarrow> if trim_space h = [] then (Inl EnvNoHome, s) else (Inr h, s))
     else if mode = envModeShared then
       (let envID = trim_space (cs_env_id spec) in
        if envID = [] then (Inl EnvIdRequired, s)
        else case mkdir_all s (envDir opts envID) of
            Inl e \<Rightarrow> (Inl (EnvFs e), s)
          | Inr s' \<Rightarrow> (Inr (envDir opts envID), s'))
     else (Inl (EnvUnsupported mode), s))"

section \<open>Creating and removing\<close>

datatype EnvironmentAction = ActionCreate | ActionRemove | ActionOther

record NodeManageEnvironment =
  me_env_id :: string
  me_action :: EnvironmentAction
  me_git :: "NodeGitSpec option"
  me_target_path :: string

definition manageEnvironment ::
  "git_prog \<Rightarrow> sessionOptions \<Rightarrow> NodeManageEnvironment \<Rightarrow> git_world \<Rightarrow> env_error option \<times> git_world" where
  "manageEnvironment git opts frame w =
    (let envID = trim_space (me_env_id frame); dir = envDir opts envID in
     if envID = [] then (Some EnvIdRequired, w)
     else case me_action frame of
         ActionCreate \<Rightarrow>
           (case mkdir_all (gfs w) dir of
              Inl e \<Rightarrow> (Some (EnvFs e), w)
            | Inr s \<Rightarrow>
                (case me_git frame of
                   None \<Rightarrow> (None, w\<lparr> gfs := s \<rparr>)
                 | Some g \<Rightarrow>
                     if trim_space (git_url g) = [] then (None, w\<lparr> gfs := s \<rparr>)
                     else let target = (if trim_space (me_target_path frame) = [] then envRepoDir opts envID
                                        else trim_space (me_target_path frame));
                              (e, w') = ensureEnvRepo git target g (w\<lparr> gfs := s \<rparr>)
                          in (map_option EnvGit e, w')))
       | ActionRemove \<Rightarrow>
           (case remove_all (gfs w) dir of
              Inl e \<Rightarrow> (Some (EnvFs e), w)
            | Inr s \<Rightarrow> (None, w\<lparr> gfs := s \<rparr>))
       | ActionOther \<Rightarrow> (Some (EnvUnsupported []), w))"

section \<open>Installing resources\<close>

definition envResourceDir :: "string \<Rightarrow> string \<Rightarrow> string" where
  "envResourceDir home kind = path_join [home, ''.agents'', kind]"

record NodeSyncEnvironment =
  se_env_id :: string
  se_skills :: "SkillSpec list"
  se_plugins :: "NodePluginSpec list"

type_synonym env_outcome = "env_error option \<times> git_world"

definition on_env_fs :: "git_world \<Rightarrow> fs_outcome \<Rightarrow> env_outcome" where
  "on_env_fs w r = (map_option EnvFs (fst r), w\<lparr> gfs := snd r \<rparr>)"

definition on_env_res :: "resource_error outcome \<Rightarrow> env_outcome" where
  "on_env_res r = (map_option EnvRes (fst r), snd r)"

definition env_install ::
  "git_prog \<Rightarrow> http \<Rightarrow> sessionOptions \<Rightarrow> string \<Rightarrow> string \<times> resourceSource \<Rightarrow> git_world \<Rightarrow> env_outcome" where
  "env_install git http opts root item w =
    (let name = trim_space (fst item) in
     if name = [] then (None, w)
     else and_then (on_env_fs w (try_fs (gfs w) (mkdir_all (gfs w) root))) (\<lambda>w.
       on_env_res (fetchResource git http opts (snd item) (path_join [root, sanitizeSessionDir name]) w)))"

definition safe_names :: "string list \<Rightarrow> string list" where
  "safe_names names = map (\<lambda>n. sanitizeSessionDir (trim_space n)) (filter (\<lambda>n. trim_space n \<noteq> []) names)"

definition env_sync_kind ::
  "git_prog \<Rightarrow> http \<Rightarrow> sessionOptions \<Rightarrow> string \<Rightarrow> (string \<times> resourceSource) list \<Rightarrow> git_world \<Rightarrow> env_outcome" where
  "env_sync_kind git http opts root items w =
    and_then (fold (\<lambda>i r. and_then r (env_install git http opts root i)) items (None, w)) (\<lambda>w.
      on_env_fs w (pruneResourceDir root (safe_names (map fst items)) (gfs w)))"

definition syncEnvironment ::
  "git_prog \<Rightarrow> http \<Rightarrow> sessionOptions \<Rightarrow> NodeSyncEnvironment \<Rightarrow> git_world \<Rightarrow> env_outcome" where
  "syncEnvironment git http opts frame w =
    (let envID = trim_space (se_env_id frame); home = envDir opts envID in
     if envID = [] then (Some EnvIdRequired, w)
     else and_then (on_env_fs w (try_fs (gfs w) (mkdir_all (gfs w) home))) (\<lambda>w.
          and_then (env_sync_kind git http opts (envResourceDir home ''skills'')
            (map (\<lambda>sk. (sk_name sk, skillSource sk)) (se_skills frame)) w) (\<lambda>w.
          env_sync_kind git http opts (envResourceDir home ''plugins'')
            (map (\<lambda>pl. (pl_name pl, pluginSource pl)) (se_plugins frame)) w)))"

section \<open>What is installed\<close>

fun replace_crlf :: "string \<Rightarrow> string" where
  "replace_crlf (a # b # r) = (if a = CHR 0x0D \<and> b = CHR 0x0A then b # replace_crlf r else a # replace_crlf (b # r))"
| "replace_crlf s = s"

definition trim_quotes :: "string \<Rightarrow> string" where
  "trim_quotes s = trim_left (trim_right s [CHR 0x22, CHR 0x27]) [CHR 0x22, CHR 0x27]"

definition frontmatterDescription :: "string \<Rightarrow> string" where
  "frontmatterDescription text =
    (let norm = replace_crlf text in
     if \<not> has_prefix norm (''---'' @ nl) then []
     else let body = drop 4 norm in
       case index_of body (nl @ ''---'') of
         None \<Rightarrow> []
       | Some e \<Rightarrow>
           (case filter (\<lambda>l. has_prefix (trim_space l) ''description:'') (split_char CHR 0x0A (take e body)) of
              [] \<Rightarrow> []
            | line # _ \<Rightarrow>
                let value = trim_quotes (trim_space (trim_prefix (trim_space line) ''description:'')) in
                if value = [] \<or> has_prefix value ''>'' \<or> has_prefix value ''|'' then [] else value))"

definition readSkillDescription :: "(json \<Rightarrow> string) \<Rightarrow> fs \<Rightarrow> string \<Rightarrow> string" where
  "readSkillDescription marshal s dir = (case read_file s (path_join [dir, ''SKILL.md'']) of
      Inl _ \<Rightarrow> [] | Inr c \<Rightarrow> frontmatterDescription (text_of marshal c))"

definition manifest_fields :: "(string \<Rightarrow> json option) \<Rightarrow> content \<Rightarrow> (string \<times> string) option" where
  "manifest_fields parse c = (case unmarshal parse c of
      Some JNull \<Rightarrow> Some ([], [])
    | Some (JObj kvs) \<Rightarrow>
        (case (struct_field ''version'' kvs [], struct_field ''description'' kvs []) of
           (Some v, Some d) \<Rightarrow> Some (v, d) | _ \<Rightarrow> None)
    | _ \<Rightarrow> None)"

definition readResourceMeta ::
  "(string \<Rightarrow> json option) \<Rightarrow> (json \<Rightarrow> string) \<Rightarrow> fs \<Rightarrow> string \<Rightarrow> string \<times> string" where
  "readResourceMeta parse marshal s dir =
    (let candidates = [path_join [dir, ''package.json''], path_join [dir, ''.claude-plugin'', ''plugin.json''],
           path_join [dir, ''.codex-plugin'', ''plugin.json'']];
         (version, description) = fold (\<lambda>p (v, d). case read_file s p of
             Inl _ \<Rightarrow> (v, d)
           | Inr c \<Rightarrow> (case manifest_fields parse c of
               None \<Rightarrow> (v, d)
             | Some (v', d') \<Rightarrow> (if v = [] then trim_space v' else v, if d = [] then trim_space d' else d))) candidates ([], [])
     in (version, if description = [] then readSkillDescription marshal s dir else description))"

definition readResourceVersion :: "(string \<Rightarrow> json option) \<Rightarrow> (json \<Rightarrow> string) \<Rightarrow> fs \<Rightarrow> string \<Rightarrow> string" where
  "readResourceVersion parse marshal s dir = fst (readResourceMeta parse marshal s dir)"

record NodeEnvironmentEntry =
  ee_kind :: string
  ee_name :: string
  ee_version :: string

definition inspect_kind ::
  "(string \<Rightarrow> json option) \<Rightarrow> (json \<Rightarrow> string) \<Rightarrow> fs \<Rightarrow> string \<Rightarrow> string \<Rightarrow> fs_error + NodeEnvironmentEntry list" where
  "inspect_kind parse marshal s kind dir = (case read_dir s dir of
      Inl ENOENT \<Rightarrow> Inr []
    | Inl e \<Rightarrow> Inl e
    | Inr entries \<Rightarrow> Inr (map (\<lambda>(name, k). \<lparr> ee_kind = kind, ee_name = name,
          ee_version = readResourceVersion parse marshal s (path_join [dir, name]) \<rparr>)
        (filter (\<lambda>(name, k). k = NDir) entries)))"

definition inspectEnvironment ::
  "(string \<Rightarrow> json option) \<Rightarrow> (json \<Rightarrow> string) \<Rightarrow> sessionOptions \<Rightarrow> string \<Rightarrow> fs \<Rightarrow> env_error + NodeEnvironmentEntry list" where
  "inspectEnvironment parse marshal opts env_id s =
    (let envID = trim_space env_id; home = envDir opts envID in
     if envID = [] then Inl EnvIdRequired
     else case inspect_kind parse marshal s ''skill'' (envResourceDir home ''skills'') of
         Inl e \<Rightarrow> Inl (EnvFs e)
       | Inr sk \<Rightarrow>
           (case inspect_kind parse marshal s ''plugin'' (envResourceDir home ''plugins'') of
              Inl e \<Rightarrow> Inl (EnvFs e)
            | Inr pl \<Rightarrow> Inr (sk @ pl)))"

definition active_names ::
  "(string \<Rightarrow> json option) \<Rightarrow> (json \<Rightarrow> string) \<Rightarrow> sessionOptions \<Rightarrow> NodeCreateSession \<Rightarrow> string \<Rightarrow> string list \<Rightarrow> fs \<Rightarrow> string list" where
  "active_names parse marshal opts spec kind explicit s =
    (if explicit \<noteq> [] then explicit
     else if \<not> isSharedEnv spec then []
     else case inspectEnvironment parse marshal opts (cs_env_id spec) s of
         Inl _ \<Rightarrow> []
       | Inr inventory \<Rightarrow> map ee_name (filter (\<lambda>e. ee_kind e = kind) inventory))"

definition activeSkillNames ::
  "(string \<Rightarrow> json option) \<Rightarrow> (json \<Rightarrow> string) \<Rightarrow> sessionOptions \<Rightarrow> NodeCreateSession \<Rightarrow> fs \<Rightarrow> string list" where
  "activeSkillNames parse marshal opts spec s = active_names parse marshal opts spec ''skill'' (cs_active_skills spec) s"

definition activePluginNames ::
  "(string \<Rightarrow> json option) \<Rightarrow> (json \<Rightarrow> string) \<Rightarrow> sessionOptions \<Rightarrow> NodeCreateSession \<Rightarrow> fs \<Rightarrow> string list" where
  "activePluginNames parse marshal opts spec s = active_names parse marshal opts spec ''plugin'' (cs_active_plugins spec) s"

section \<open>Frames\<close>

lemma gfs_on_env [simp]: "gfs (snd (on_env_fs w r)) = snd r" "snd (on_env_res q) = snd q"
  by (simp_all add: on_env_fs_def on_env_res_def)

lemma on_env_None [simp]: "on_env_fs w r = (None, w') \<longleftrightarrow> fst r = None \<and> w' = w\<lparr> gfs := snd r \<rparr>"
  by (auto simp: on_env_fs_def)

lemma env_install_confined:
  assumes "clone_confined git" "is_abs (workRoot opts)" "is_abs root" "src_digest (snd item) = []"
    "comps root \<in> D" "comps (resourceCacheRoot opts) \<in> D" "confined D s (gfs w)"
  shows "confined D s (gfs (snd (env_install git http opts root item w)))"
proof -
  let ?d = "path_join [root, sanitizeSessionDir (trim_space (fst item))]"
  note c = child_path[OF assms(3) plain_sanitize, of "trim_space (fst item)"]
  have p: "prefix (comps root) (comps ?d)" by (simp add: c)
  have "confined D s (gfs (snd (and_then (on_env_fs w (try_fs (gfs w) (mkdir_all (gfs w) root)))
      (\<lambda>w. on_env_res (fetchResource git http opts (snd item) ?d w)))))"
  proof (rule and_then_inv)
    show "confined D s (gfs (snd (on_env_fs w (try_fs (gfs w) (mkdir_all (gfs w) root)))))"
      using confined_try_mkdir[OF assms(7,5), of root] by simp
    fix w1 :: git_world assume "confined D s (gfs w1)"
    from fetchResource_confined[OF assms(1,2,4) c(2,3) assms(5) p assms(6) this]
    show "confined D s (gfs (snd (on_env_res (fetchResource git http opts (snd item) ?d w1))))" by simp
  qed
  then show ?thesis using assms(7) by (simp add: env_install_def Let_def)
qed

lemma env_sync_kind_confined:
  assumes "clone_confined git" "is_abs (workRoot opts)" "is_abs root" "\<forall>i \<in> set items. src_digest (snd i) = []"
    "comps root \<in> D" "comps (resourceCacheRoot opts) \<in> D" "confined D s (gfs w)"
  shows "confined D s (gfs (snd (env_sync_kind git http opts root items w)))"
  unfolding env_sync_kind_def
proof (rule and_then_inv)
  show "confined D s (gfs (snd (fold (\<lambda>i r. and_then r (env_install git http opts root i)) items (None, w))))"
    by (rule fold_and_then_inv_set) (use assms env_install_confined[OF assms(1-3) _ assms(5,6)] in auto)
  fix w1 :: git_world assume "confined D s (gfs w1)"
  from pruneResourceDir_confined[OF assms(3,5) _ this]
  show "confined D s (gfs (snd (on_env_fs w1 (pruneResourceDir root (safe_names (map fst items)) (gfs w1)))))" by simp
qed

lemma env_sync_kind_exact:
  assumes "is_abs root" "env_sync_kind git http opts root items w = (None, w')" "is_dir (gfs w') (comps root)"
    "is_dir (gfs w') (comps root @ [n])" "plain_seg n"
  shows "n \<in> set (safe_names (map fst items))"
proof -
  obtain w1 where "on_env_fs w1 (pruneResourceDir root (safe_names (map fst items)) (gfs w1)) = (None, w')"
    using assms(2) unfolding env_sync_kind_def and_then_None by blast
  then have "pruneResourceDir root (safe_names (map fst items)) (gfs w1) = (None, gfs w')"
    by (cases "pruneResourceDir root (safe_names (map fst items)) (gfs w1)") auto
  from prune_exact[OF assms(1) this assms(3-5)] show ?thesis .
qed

lemma env_roots:
  assumes "is_abs (workRoot opts)"
  shows "is_abs (envResourceDir (envDir opts e) ''skills'')" "is_abs (envResourceDir (envDir opts e) ''plugins'')"
    "comps (envResourceDir (envDir opts e) ''skills'') = comps (workRoot opts) @ [''envs'', sanitizeSessionDir e, ''.agents'', ''skills'']"
    "comps (envResourceDir (envDir opts e) ''plugins'') = comps (workRoot opts) @ [''envs'', sanitizeSessionDir e, ''.agents'', ''plugins'']"
    "comps (resourceCacheRoot opts) = comps (workRoot opts) @ [''.resource-cache'']"
proof -
  have "plain_seg ''.resource-cache''" by (simp add: plain_seg_def slash_def)
  then show "is_abs (envResourceDir (envDir opts e) ''skills'')" "is_abs (envResourceDir (envDir opts e) ''plugins'')"
    "comps (envResourceDir (envDir opts e) ''skills'') = comps (workRoot opts) @ [''envs'', sanitizeSessionDir e, ''.agents'', ''skills'']"
    "comps (envResourceDir (envDir opts e) ''plugins'') = comps (workRoot opts) @ [''envs'', sanitizeSessionDir e, ''.agents'', ''plugins'']"
    "comps (resourceCacheRoot opts) = comps (workRoot opts) @ [''.resource-cache'']"
    using comps_join_segs[OF envDir_below(2)[OF assms], of "[''.agents'', ''skills'']" e]
      comps_join_segs[OF envDir_below(2)[OF assms], of "[''.agents'', ''plugins'']" e]
      comps_join_segs[OF assms, of "[''.resource-cache'']"]
    by (simp_all add: envResourceDir_def envDir_below[OF assms] resourceCacheRoot_def)
qed

text \<open>Syncing plugins leaves the skill tree of the same environment alone.\<close>

lemma plugins_keep_skills:
  assumes "is_abs (workRoot opts)"
    "confined {comps (envResourceDir (envDir opts e) ''plugins''), comps (resourceCacheRoot opts)} s t"
    "q = comps (envResourceDir (envDir opts e) ''skills'') @ r"
  shows "lookup t q = lookup s q"
proof (rule confined_apart[OF assms(2)], unfold env_roots[OF assms(1)] assms(3))
  show "\<forall>d \<in> {comps (workRoot opts) @ [''envs'', sanitizeSessionDir e, ''.agents'', ''plugins''], comps (workRoot opts) @ [''.resource-cache'']}.
     \<not> prefix d ((comps (workRoot opts) @ [''envs'', sanitizeSessionDir e, ''.agents'', ''skills'']) @ r) \<and>
     \<not> prefix ((comps (workRoot opts) @ [''envs'', sanitizeSessionDir e, ''.agents'', ''skills'']) @ r) d"
    by simp
qed

lemma inspect_kind_dirs:
  assumes "fs_wf s" "inspect_kind parse marshal s kind dir = Inr out" "x \<in> set out"
  shows "ee_kind x = kind" "is_dir s (comps dir)" "is_dir s (comps dir @ [ee_name x])" "plain_seg (ee_name x)"
proof -
  obtain es where es: "read_dir s dir = Inr es" "(ee_name x, NDir) \<in> set es" "ee_kind x = kind"
    using assms(2,3) by (auto simp: inspect_kind_def split: sum.splits fs_error.splits)
  show "ee_kind x = kind" by (rule es(3))
  show "is_dir s (comps dir)" using es(1) by (auto simp: read_dir_def is_dir_def Let_def split: if_splits option.splits node.splits)
  show "is_dir s (comps dir @ [ee_name x])" "plain_seg (ee_name x)"
    using read_dir_lookup[OF assms(1) es(1,2)] by (simp_all add: is_dir_def)
qed

lemma env_sync_inventory:
  assumes "clone_confined git" "is_abs (workRoot opts)" "fs_wf (gfs w)"
    "syncEnvironment git http opts frame w = (None, w')"
    "inspectEnvironment parse marshal opts (se_env_id frame) (gfs w') = Inr inventory" "x \<in> set inventory"
  shows "if ee_kind x = ''skill'' then ee_name x \<in> set (safe_names (map sk_name (se_skills frame)))
    else ee_name x \<in> set (safe_names (map pl_name (se_plugins frame)))"
proof -
  let ?e = "trim_space (se_env_id frame)"
  let ?home = "envDir opts ?e"
  let ?S = "envResourceDir ?home ''skills''" and ?P = "envResourceDir ?home ''plugins''"
  let ?sk = "map (\<lambda>sk. (sk_name sk, skillSource sk)) (se_skills frame)" and ?pl = "map (\<lambda>pl. (pl_name pl, pluginSource pl)) (se_plugins frame)"
  note R = env_roots(1-4)[OF assms(2), where e = ?e]
  obtain w1 w2 where w: "confined {comps ?home} (gfs w) (gfs w1)"
      "env_sync_kind git http opts ?S ?sk w1 = (None, w2)" "env_sync_kind git http opts ?P ?pl w2 = (None, w')"
  proof -
    obtain w1 where w1: "on_env_fs w (try_fs (gfs w) (mkdir_all (gfs w) ?home)) = (None, w1)"
        "and_then (env_sync_kind git http opts ?S ?sk w1) (env_sync_kind git http opts ?P ?pl) = (None, w')"
      using assms(4) by (auto simp: syncEnvironment_def Let_def and_then_None simp del: on_env_None split: if_splits)
    have "gfs w1 = snd (try_fs (gfs w) (mkdir_all (gfs w) ?home))" using w1(1) by auto
    then have "confined {comps ?home} (gfs w) (gfs w1)"
      using confined_try_mkdir[of "{comps ?home}" "gfs w" "gfs w" "comps ?home" ?home] by simp
    with w1(2) that show ?thesis unfolding and_then_None by blast
  qed
  have dig: "\<forall>i \<in> set ?sk. src_digest (snd i) = []" "\<forall>i \<in> set ?pl. src_digest (snd i) = []"
    by (auto simp: skillSource_def pluginSource_def)
  let ?C = "comps (resourceCacheRoot opts)"
  have c2: "confined {comps ?S, ?C} (gfs w1) (gfs w2)"
    using env_sync_kind_confined[OF assms(1,2) R(1) dig(1), of "{comps ?S, ?C}" "gfs w1" w1 http] w(2) by simp
  have c3: "confined {comps ?P, ?C} (gfs w2) (gfs w')"
    using env_sync_kind_confined[OF assms(1,2) R(2) dig(2), of "{comps ?P, ?C}" "gfs w2" w2 http] w(3) by simp
  have wf: "fs_wf (gfs w')" using confined_wf[OF c3] confined_wf[OF c2] confined_wf[OF w(1)] assms(3) by blast
  obtain sk pl where ins: "inspect_kind parse marshal (gfs w') ''skill'' ?S = Inr sk" "inspect_kind parse marshal (gfs w') ''plugin'' ?P = Inr pl"
      "inventory = sk @ pl"
    using assms(5) by (auto simp: inspectEnvironment_def Let_def split: if_splits sum.splits)
  consider "x \<in> set sk" | "x \<in> set pl" using assms(6) ins(3) by auto
  then show ?thesis
  proof cases
    case 1
    note d = inspect_kind_dirs[OF wf ins(1) 1]
    have "is_dir (gfs w2) (comps ?S)" "is_dir (gfs w2) (comps ?S @ [ee_name x])"
      using d(2,3) plugins_keep_skills[OF assms(2) c3, of _ "[]"] plugins_keep_skills[OF assms(2) c3] by (simp_all add: is_dir_def)
    from env_sync_kind_exact[OF R(1) w(2) this d(4)] d(1) show ?thesis by (simp add: comp_def)
  next
    case 2
    note d = inspect_kind_dirs[OF wf ins(2) 2]
    from env_sync_kind_exact[OF R(2) w(3) d(2-4)] d(1) show ?thesis by (simp add: comp_def)
  qed
qed

text \<open>
  \<^bold>\<open>C32\<close>. When an environment sync has succeeded, the inventory of that environment lists nothing
  but what the sync was asked for: every skill it reports is (under its directory name) one of the
  frame's skills and every plugin one of the frame's plugins, whatever was installed before.
  The inventory is read from the two directories the node manages, so what an operator installed
  elsewhere in the home of the environment is not in it.  Cloning is assumed to change
  only the directory it is given.
\<close>

theorem environment_sync_exact:
  assumes "clone_confined git" "is_abs (workRoot opts)" "fs_wf (gfs w)"
    "syncEnvironment git http opts frame w = (None, w')"
    "inspectEnvironment parse marshal opts (se_env_id frame) (gfs w') = Inr inventory"
  shows "\<forall>x \<in> set inventory. if ee_kind x = ''skill'' then ee_name x \<in> set (safe_names (map sk_name (se_skills frame)))
    else ee_name x \<in> set (safe_names (map pl_name (se_plugins frame)))"
  using env_sync_inventory[OF assms] by blast

definition demo_env_world :: git_world where
  "demo_env_world = \<lparr> gfs = \<lparr> nodes = [([''k''], NDir), ([''k'', ''SKILL.md''], NFile (Text ''hi'')), ([''w''], NDir),
     ([''w'', ''envs''], NDir), ([''w'', ''envs'', ''e''], NDir), ([''w'', ''envs'', ''e'', ''.agents''], NDir),
     ([''w'', ''envs'', ''e'', ''.agents'', ''skills''], NDir),
     ([''w'', ''envs'', ''e'', ''.agents'', ''skills'', ''old''], NDir)], denied = [] \<rparr>, commands = [] \<rparr>"

definition demo_env_frame :: NodeSyncEnvironment where
  "demo_env_frame = \<lparr> se_env_id = ''e'', se_skills = [demo_skill ''my skill''], se_plugins = [] \<rparr>"

theorem environment_sync_exact_witness:
  "\<exists>inventory. inspectEnvironment (\<lambda>_. None) (\<lambda>_. []) demo_opts ''e''
      (gfs (snd (syncEnvironment demo_git (\<lambda>_ _. Unreachable) demo_opts demo_env_frame demo_env_world))) = Inr inventory \<and>
    map ee_name inventory = [''my-skill''] \<and> (\<forall>x \<in> set inventory. ee_kind x = ''skill'' \<longrightarrow> ee_name x \<in> {''my-skill''})"
proof -
  let ?r = "syncEnvironment demo_git (\<lambda>_ _. Unreachable) demo_opts demo_env_frame demo_env_world"
  have "fst ?r = None" by code_simp
  then obtain w' where w': "?r = (None, w')" by (metis prod.collapse)
  have e: "se_env_id demo_env_frame = ''e''" by (simp add: demo_env_frame_def)
  have "map_sum (\<lambda>_. ()) (map ee_name) (inspectEnvironment (\<lambda>_. None) (\<lambda>_. []) demo_opts ''e'' (gfs (snd ?r))) = Inr [''my-skill'']"
    by code_simp
  then obtain inv where inv: "inspectEnvironment (\<lambda>_. None) (\<lambda>_. []) demo_opts (se_env_id demo_env_frame) (gfs w') = Inr inv"
      "map ee_name inv = [''my-skill'']"
    by (cases "inspectEnvironment (\<lambda>_. None) (\<lambda>_. []) demo_opts ''e'' (gfs (snd ?r))") (auto simp: w' e)
  have "fs_wf (gfs demo_env_world)" by code_simp
  from environment_sync_exact[OF demo_git_confined(2) _ this w' inv(1)]
  have "\<forall>x \<in> set inv. if ee_kind x = ''skill'' then ee_name x \<in> set (safe_names (map sk_name (se_skills demo_env_frame)))
    else ee_name x \<in> set (safe_names (map pl_name (se_plugins demo_env_frame)))"
    by (simp add: demo_opts_def slash_def)
  moreover have "safe_names (map sk_name (se_skills demo_env_frame)) = [''my-skill'']" by code_simp
  ultimately show ?thesis using inv unfolding e w' snd_conv by auto
qed

text \<open>
  Removing an environment deletes its whole tree and nothing outside it.  Another
  environment is untouched when the directory names the two ids are reduced to differ, and is deleted
  with it when they coincide.
\<close>

theorem environment_removal:
  assumes "is_abs (workRoot opts)" "me_action frame = ActionRemove" "manageEnvironment git opts frame w = (None, w')"
    "fs_wf (gfs w)" "prefix (comps (envDir opts other)) q"
  shows "lookup (gfs w') q =
    (if sanitizeSessionDir other = sanitizeSessionDir (trim_space (me_env_id frame)) then None else lookup (gfs w) q)"
proof -
  let ?d = "envDir opts (trim_space (me_env_id frame))"
  have "remove_all (gfs w) ?d = Inr (gfs w')"
    using assms(2,3) by (auto simp: manageEnvironment_def Let_def split: if_splits sum.splits)
  moreover have "prefix (comps ?d) q \<longleftrightarrow> sanitizeSessionDir other = sanitizeSessionDir (trim_space (me_env_id frame))"
    using assms(5) by (auto simp: envDir_below[OF assms(1)] prefix_def)
  moreover have "q \<noteq> []" using assms(5) by (auto simp: envDir_below[OF assms(1)])
  ultimately show ?thesis using remove_all_lookup[OF assms(4)] by simp
qed

theorem environment_removal_witness:
  "\<exists>w'. manageEnvironment demo_git demo_opts \<lparr> me_env_id = ''a b'', me_action = ActionRemove, me_git = None, me_target_path = [] \<rparr>
      \<lparr> gfs = \<lparr> nodes = [([''w''], NDir), ([''w'', ''envs''], NDir), ([''w'', ''envs'', ''a-b''], NDir)], denied = [] \<rparr>, commands = [] \<rparr> = (None, w') \<and>
    lookup (gfs w') (comps (envDir demo_opts ''a-b'')) = None"
proof -
  let ?f = "\<lparr> me_env_id = ''a b'', me_action = ActionRemove, me_git = None, me_target_path = [] \<rparr>"
  let ?w = "\<lparr> gfs = \<lparr> nodes = [([''w''], NDir), ([''w'', ''envs''], NDir), ([''w'', ''envs'', ''a-b''], NDir)], denied = [] \<rparr>, commands = [] \<rparr>"
  have "fst (manageEnvironment demo_git demo_opts ?f ?w) = None" by code_simp
  then obtain w' where w': "manageEnvironment demo_git demo_opts ?f ?w = (None, w')" by (metis prod.collapse)
  have "sanitizeSessionDir ''a-b'' = sanitizeSessionDir (trim_space (me_env_id ?f))" by code_simp
  moreover have "fs_wf (gfs ?w)" by code_simp
  ultimately have "lookup (gfs w') (comps (envDir demo_opts ''a-b'')) = None"
    using environment_removal[OF _ _ w' _ prefix_order.refl, of "''a-b''"] by (simp add: demo_opts_def slash_def)
  with w' show ?thesis by blast
qed

end
