(* ===== verification/Output_Queue.thy ===== *)
theory Output_Queue
  imports Machines
begin

text \<open>
  The output queue of a session, \<^verbatim>\<open>execution/queue.go\<close>: the buffer between the
  standard output and error of a running session and the upstream stream.

  The producer side (\<open>append\<close>, \<open>pump\<close>) is a function on the queue.  The consumer
  (\<open>flush\<close>) is a goroutine; it is a program counter whose steps are the regions
  between its lock operations and the call of \<open>emit\<close>.  Flushers, the producer and
  the life cycle of \<open>run\<close> (\<^verbatim>\<open>execution/session.go\<close>: start the flusher, pump, wait,
  drain, stop) interleave as events of a machine.  Times of chunks are left out.
\<close>

section \<open>The queue\<close>

datatype StdioStream = STDIO_STDOUT | STDIO_STDERR

record queuedChunk =
  qc_data :: string
  qc_stream :: StdioStream
  qc_offset :: "64 word"

record outputQueue =
  items :: "queuedChunk list"
  offset :: "64 word"
  closed :: bool

definition newOutputQueue :: outputQueue where
  "newOutputQueue = \<lparr> items = [], offset = 0, closed = False \<rparr>"

definition mk_chunk :: "outputQueue \<Rightarrow> string \<Rightarrow> StdioStream \<Rightarrow> queuedChunk" where
  "mk_chunk q data stream = \<lparr> qc_data = data, qc_stream = stream, qc_offset = offset q \<rparr>"

definition append_chunk :: "string \<Rightarrow> StdioStream \<Rightarrow> outputQueue \<Rightarrow> outputQueue" where
  "append_chunk data stream q =
    q\<lparr> items := items q @ [mk_chunk q data stream],
       offset := offset q + of_nat (length data) \<rparr>"

definition runtimeDiagnosticPrefixes :: "string list" where
  "runtimeDiagnosticPrefixes = [''[runtime-'', ''[turn-'', ''[claude-'']"

definition hasRuntimeDiagnosticPrefix :: "string \<Rightarrow> bool" where
  "hasRuntimeDiagnosticPrefix chunk \<longleftrightarrow> (\<exists>p \<in> set runtimeDiagnosticPrefixes. contains chunk p)"

text \<open>
  One result of \<open>r.Read(buf)\<close>: the bytes read and whether it also returned an
  error.  \<open>pump\<close> appends every non-empty read up to and including the one that
  carries the error; it also yields the diagnostic chunks it mirrors to the log.
\<close>

type_synonym read_result = "string \<times> bool"

fun pump :: "read_result list \<Rightarrow> StdioStream \<Rightarrow> outputQueue \<Rightarrow> string list \<times> outputQueue" where
  "pump [] stream q = ([], q)"
| "pump ((chunk, err) # rs) stream q =
    (let log = (if chunk \<noteq> [] \<and> stream = STDIO_STDERR \<and> hasRuntimeDiagnosticPrefix chunk then [chunk] else []);
         q' = (if chunk \<noteq> [] then append_chunk chunk stream q else q)
     in if err then (log, q')
        else (case pump rs stream q' of (logs, q'') \<Rightarrow> (log @ logs, q'')))"

definition close_queue :: "outputQueue \<Rightarrow> outputQueue" where
  "close_queue q = q\<lparr> closed := True \<rparr>"

text \<open>\<open>drain\<close> returns when this holds; until then it waits.\<close>

definition drain_returns :: "outputQueue \<Rightarrow> bool" where
  "drain_returns q \<longleftrightarrow> \<not> (items q \<noteq> [] \<and> \<not> closed q)"

section \<open>The flusher\<close>

text \<open>
  \<open>FWait\<close>: at the head of the loop, about to take the lock.  \<open>FEmit c\<close>: holds chunk
  \<open>c\<close>, about to call \<open>emit\<close>.  \<open>FBackoff\<close>: in the select after a failed send.
  \<open>FPop\<close>: delivered, about to drop the head.  \<open>FDone\<close>: returned.  \<open>FPanic\<close>: the
  slice expression \<open>q.items[1:]\<close> of an empty slice panicked.
\<close>

datatype flush_pc = FWait | FEmit queuedChunk | FBackoff | FPop | FDone | FPanic

record flusher =
  pc :: flush_pc
  ctx_done :: bool

text \<open>
  The choices the environment makes: whether a send succeeds, and which ready
  case of the select is taken.
\<close>

datatype choice = Ok | Fail

text \<open>One step of a flusher: the queue, the flusher and the chunks it delivers.\<close>

definition flush_step ::
  "choice \<Rightarrow> outputQueue \<Rightarrow> flusher \<Rightarrow> (outputQueue \<times> flusher \<times> queuedChunk list) option" where
  "flush_step ch q f = (case pc f of
      FWait \<Rightarrow>
        (if items q = [] then (if closed q then Some (q, f\<lparr> pc := FDone \<rparr>, []) else None)
         else Some (q, f\<lparr> pc := FEmit (hd (items q)) \<rparr>, []))
    | FEmit c \<Rightarrow>
        (case ch of Ok \<Rightarrow> Some (q, f\<lparr> pc := FPop \<rparr>, [c])
         | Fail \<Rightarrow> Some (q, f\<lparr> pc := FBackoff \<rparr>, []))
    | FBackoff \<Rightarrow>
        (case ch of Ok \<Rightarrow> Some (q, f\<lparr> pc := FWait \<rparr>, [])
         | Fail \<Rightarrow> if ctx_done f then Some (q, f\<lparr> pc := FDone \<rparr>, []) else None)
    | FPop \<Rightarrow>
        (if items q = [] then Some (q, f\<lparr> pc := FPanic \<rparr>, [])
         else Some (q\<lparr> items := tl (items q) \<rparr>, f\<lparr> pc := FWait \<rparr>, []))
    | FDone \<Rightarrow> None
    | FPanic \<Rightarrow> None)"

section \<open>The queue in the life of a session\<close>

text \<open>
  \<open>run\<close> starts a flusher, pumps until both pipes are at end of file, drains,
  reports the result and, on return, stops the flusher.  A run whose spawn fails
  stops the flusher at once.  A later run of the same session uses the same queue.
\<close>

datatype run_pc = RunIdle | RunPumping | RunDraining | RunStopped

record qsys =
  queue :: outputQueue
  flushers :: "flusher list"
  run_at :: run_pc
  produced :: "queuedChunk list"
  delivered :: "queuedChunk list"

datatype qevent =
    EvStart
  | EvSpawnFail
  | EvAppend string StdioStream
  | EvEof
  | EvDrained
  | EvCancel
  | EvFlush nat choice

definition qinit :: qsys where
  "qinit = \<lparr> queue = newOutputQueue, flushers = [], run_at = RunIdle, produced = [], delivered = [] \<rparr>"

definition crashed :: "qsys \<Rightarrow> bool" where
  "crashed s \<longleftrightarrow> (\<exists>f \<in> set (flushers s). pc f = FPanic)"

definition qstep :: "qsys \<Rightarrow> qevent \<Rightarrow> qsys option" where
  "qstep s e = (if crashed s then None else case e of
      EvStart \<Rightarrow>
        (if run_at s = RunIdle \<or> run_at s = RunStopped
         then Some (s\<lparr> flushers := flushers s @ [\<lparr> pc = FWait, ctx_done = False \<rparr>], run_at := RunPumping \<rparr>)
         else None)
    | EvSpawnFail \<Rightarrow>
        (if run_at s = RunPumping
         then Some (s\<lparr> queue := close_queue (queue s), run_at := RunStopped \<rparr>) else None)
    | EvAppend d st \<Rightarrow>
        (if run_at s = RunPumping
         then Some (s\<lparr> queue := append_chunk d st (queue s), produced := produced s @ [mk_chunk (queue s) d st] \<rparr>)
         else None)
    | EvEof \<Rightarrow> (if run_at s = RunPumping then Some (s\<lparr> run_at := RunDraining \<rparr>) else None)
    | EvDrained \<Rightarrow>
        (if run_at s = RunDraining \<and> drain_returns (queue s)
         then Some (s\<lparr> queue := close_queue (queue s), run_at := RunStopped \<rparr>) else None)
    | EvCancel \<Rightarrow>
        (if flushers s \<noteq> []
         then Some (s\<lparr> flushers := butlast (flushers s) @ [(last (flushers s))\<lparr> ctx_done := True \<rparr>] \<rparr>)
         else None)
    | EvFlush i ch \<Rightarrow>
        (if i < length (flushers s)
         then (case flush_step ch (queue s) (flushers s ! i) of
             None \<Rightarrow> None
           | Some (q, f, ds) \<Rightarrow>
               Some (s\<lparr> queue := q, flushers := (flushers s)[i := f], delivered := delivered s @ ds \<rparr>))
         else None))"

lemmas queue_defs = append_chunk_def close_queue_def newOutputQueue_def mk_chunk_def drain_returns_def

section \<open>Producer side\<close>

text \<open>The bytes \<open>pump\<close> appends are the bytes read up to the first error, in order.\<close>

fun read_bytes :: "read_result list \<Rightarrow> string" where
  "read_bytes [] = []"
| "read_bytes ((chunk, err) # rs) = chunk @ (if err then [] else read_bytes rs)"

lemma append_chunk_simps [simp]:
  "items (append_chunk d st q) = items q @ [mk_chunk q d st]"
  "offset (append_chunk d st q) = offset q + of_nat (length d)"
  "closed (append_chunk d st q) = closed q"
  by (simp_all add: append_chunk_def)

lemma pump_appends:
  "\<exists>cs. items (snd (pump rs st q)) = items q @ cs \<and> concat (map qc_data cs) = read_bytes rs
      \<and> (\<forall>c \<in> set cs. qc_stream c = st \<and> qc_data c \<noteq> [])"
proof (induction rs st q rule: pump.induct)
  case (2 chunk err rs st q)
  let ?q = "if chunk \<noteq> [] then append_chunk chunk st q else q"
  let ?c = "if chunk \<noteq> [] then [mk_chunk q chunk st] else []"
  have hd: "items ?q = items q @ ?c" "concat (map qc_data ?c) = chunk"
    "\<forall>c \<in> set ?c. qc_stream c = st \<and> qc_data c \<noteq> []"
    by (auto simp: mk_chunk_def)
  show ?case
  proof (cases err)
    case True
    with hd show ?thesis by (intro exI[of _ ?c]) (auto simp: Let_def)
  next
    case False
    with 2[OF refl refl] obtain cs where
      "items (snd (pump rs st ?q)) = items ?q @ cs" "concat (map qc_data cs) = read_bytes rs"
      "\<forall>c \<in> set cs. qc_stream c = st \<and> qc_data c \<noteq> []" by blast
    with hd False show ?thesis
      by (intro exI[of _ "?c @ cs"]) (auto simp: Let_def split: prod.splits)
  qed
qed simp

section \<open>Offsets\<close>

fun offsets_from :: "64 word \<Rightarrow> queuedChunk list \<Rightarrow> bool" where
  "offsets_from b [] \<longleftrightarrow> True"
| "offsets_from b (c # cs) \<longleftrightarrow> qc_offset c = b \<and> offsets_from (b + of_nat (length (qc_data c))) cs"

definition total_len :: "queuedChunk list \<Rightarrow> nat" where
  "total_len cs = length (concat (map qc_data cs))"

lemma total_len_simps [simp]:
  "total_len [] = 0" "total_len (c # cs) = length (qc_data c) + total_len cs"
  "total_len (cs @ ds) = total_len cs + total_len ds"
  by (simp_all add: total_len_def)

lemma offsets_from_snoc:
  "offsets_from b (cs @ [c]) \<longleftrightarrow> offsets_from b cs \<and> qc_offset c = b + of_nat (total_len cs)"
  by (induction cs arbitrary: b) (auto simp: algebra_simps)

lemma offsets_from_nth:
  "offsets_from b cs \<Longrightarrow> k < length cs \<Longrightarrow> qc_offset (cs ! k) = b + of_nat (total_len (take k cs))"
proof (induction cs arbitrary: b k)
  case (Cons c cs)
  then show ?case by (cases k) (auto simp: algebra_simps)
qed simp

definition offset_inv :: "qsys \<Rightarrow> bool" where
  "offset_inv s \<longleftrightarrow> offsets_from 0 (produced s) \<and> offset (queue s) = of_nat (total_len (produced s))"

lemma flush_step_offset:
  "flush_step ch q f = Some (q', f', ds) \<Longrightarrow> offset q' = offset q \<and> closed q' = closed q"
  by (auto simp: flush_step_def split: flush_pc.splits choice.splits if_splits)

interpretation oq_offsets: guarded_machine qstep "\<lambda>_. True" offset_inv
proof
  fix s e s'
  assume "offset_inv s" "qstep s e = Some s'"
  then show "offset_inv s'"
    by (cases e)
       (auto simp: qstep_def offset_inv_def offsets_from_snoc mk_chunk_def close_queue_def
          dest: flush_step_offset split: if_splits option.splits)
qed

section \<open>One run: nothing lost, duplicated or reordered\<close>

text \<open>How the delivered chunks, the queued chunks and a flusher's position relate.\<close>

definition flush_rel :: "flush_pc \<Rightarrow> queuedChunk list \<Rightarrow> queuedChunk list \<Rightarrow> queuedChunk list \<Rightarrow> bool" where
  "flush_rel p its prd dlv = (case p of
      FEmit c \<Rightarrow> its \<noteq> [] \<and> c = hd its \<and> prd = dlv @ its
    | FPop \<Rightarrow> its \<noteq> [] \<and> dlv \<noteq> [] \<and> prd = butlast dlv @ its \<and> last dlv = hd its
    | FPanic \<Rightarrow> False
    | _ \<Rightarrow> prd = dlv @ its)"

definition single_run :: "qsys \<Rightarrow> bool" where
  "single_run s \<longleftrightarrow> (\<exists>f. flushers s = [f] \<and>
      flush_rel (pc f) (items (queue s)) (produced s) (delivered s) \<and>
      run_at s \<noteq> RunIdle \<and> (closed (queue s) \<longleftrightarrow> run_at s = RunStopped))"

lemma flush_step_rel:
  assumes "flush_step ch q f = Some (q', f', ds)"
    and "flush_rel (pc f) (items q) prd dlv"
  shows "flush_rel (pc f') (items q') prd (dlv @ ds)"
  using assms
  by (cases "items q")
     (auto simp: flush_step_def flush_rel_def split: flush_pc.splits choice.splits if_splits)

lemma flush_rel_append:
  "flush_rel p its prd dlv \<Longrightarrow> flush_rel p (its @ [c]) (prd @ [c]) dlv"
  by (auto simp: flush_rel_def split: flush_pc.splits)

lemma single_run_step:
  assumes "single_run s" "e \<noteq> EvStart" "qstep s e = Some s'"
  shows "single_run s'"
proof -
  obtain f where f: "flushers s = [f]" "flush_rel (pc f) (items (queue s)) (produced s) (delivered s)"
    "run_at s \<noteq> RunIdle" "closed (queue s) \<longleftrightarrow> run_at s = RunStopped"
    using assms(1) by (auto simp: single_run_def)
  show ?thesis
  proof (cases e)
    case (EvFlush i ch)
    with assms f show ?thesis
      by (auto simp: qstep_def single_run_def dest: flush_step_rel flush_step_offset
          split: if_splits option.splits)
  qed (use assms f in \<open>auto simp: qstep_def single_run_def close_queue_def flush_rel_append
      split: if_splits\<close>)
qed

interpretation oq_single: guarded_machine qstep "\<lambda>e. e \<noteq> EvStart" single_run
  by unfold_locales (rule single_run_step)

lemma single_run_facts:
  assumes "single_run s"
  shows "\<not> crashed s" "prefix (delivered s) (produced s)"
    "items (queue s) = [] \<Longrightarrow> delivered s = produced s"
proof -
  obtain f where f: "flushers s = [f]"
    "flush_rel (pc f) (items (queue s)) (produced s) (delivered s)"
    using assms by (auto simp: single_run_def)
  show "\<not> crashed s" using f by (auto simp: crashed_def flush_rel_def)
  show "prefix (delivered s) (produced s)"
  proof (cases "pc f = FPop")
    case True
    then obtain d x its where "delivered s = d @ [x]" "items (queue s) = x # its" "produced s = d @ x # its"
      using f by (cases "delivered s" rule: rev_cases; cases "items (queue s)") (auto simp: flush_rel_def)
    then show ?thesis by simp
  qed (use f in \<open>auto simp: flush_rel_def split: flush_pc.splits\<close>)
  show "items (queue s) = [] \<Longrightarrow> delivered s = produced s"
    using f by (auto simp: flush_rel_def split: flush_pc.splits)
qed

text \<open>A run that stops after its drain has everything upstream.\<close>

definition drained_run :: "qsys \<Rightarrow> bool" where
  "drained_run s \<longleftrightarrow> single_run s \<and> (run_at s = RunStopped \<longrightarrow> items (queue s) = [])"

lemma flush_step_Nil: "flush_step ch q f = Some (q', f', ds) \<Longrightarrow> items q = [] \<Longrightarrow> items q' = []"
  by (auto simp: flush_step_def split: flush_pc.splits choice.splits if_splits)

interpretation oq_drained: guarded_machine qstep "\<lambda>e. e \<noteq> EvStart \<and> e \<noteq> EvSpawnFail" drained_run
proof
  fix s e s'
  assume d: "drained_run s" and e: "e \<noteq> EvStart \<and> e \<noteq> EvSpawnFail" and st: "qstep s e = Some s'"
  have "single_run s'" using d e st single_run_step by (auto simp: drained_run_def)
  moreover have "run_at s' = RunStopped \<longrightarrow> items (queue s') = []"
  proof (cases e)
    case EvDrained
    with d st show ?thesis
      by (auto simp: qstep_def drained_run_def single_run_def drain_returns_def close_queue_def split: if_splits)
  qed (use d e st in \<open>auto simp: qstep_def drained_run_def dest: flush_step_Nil
      split: if_splits option.splits\<close>)
  ultimately show "drained_run s'" by (simp add: drained_run_def)
qed

definition qstarted :: qsys where
  "qstarted = qinit\<lparr> flushers := [\<lparr> pc = FWait, ctx_done = False \<rparr>], run_at := RunPumping \<rparr>"

lemma exec_start: "exec qstep qinit (EvStart # es) = exec qstep qstarted es"
  by (simp add: qstep_def qinit_def crashed_def qstarted_def)

lemma qstarted_inv: "drained_run qstarted" "single_run qstarted"
  by (simp_all add: drained_run_def single_run_def qstarted_def qinit_def newOutputQueue_def flush_rel_def)

section \<open>Progress: with the link up the flusher empties the queue\<close>













section \<open>Runs after the first, and cancellation while the link is down\<close>

text \<open>Once every flusher has returned, only a new run can deliver anything.\<close>

definition all_done :: "qsys \<Rightarrow> bool" where
  "all_done s \<longleftrightarrow> (\<forall>f \<in> set (flushers s). pc f = FDone)"

lemma all_done_flush: "all_done s \<Longrightarrow> i < length (flushers s) \<Longrightarrow> flush_step ch q (flushers s ! i) = None"
  by (simp add: all_done_def flush_step_def)

lemma qstep_frame:
  assumes "qstep s e = Some s'" "e \<noteq> EvStart" "e \<noteq> EvCancel" "\<And>i ch. e \<noteq> EvFlush i ch"
  shows "flushers s' = flushers s \<and> delivered s' = delivered s"
  using assms by (cases e) (auto simp: qstep_def split: if_splits)

lemma all_done_step:
  assumes "all_done s" "e \<noteq> EvStart" "qstep s e = Some s'"
  shows "all_done s' \<and> delivered s' = delivered s"
proof -
  consider (cancel) "e = EvCancel" | (flush) i ch where "e = EvFlush i ch"
    | (other) "e \<noteq> EvCancel" "\<And>i ch. e \<noteq> EvFlush i ch" by blast
  then show ?thesis
  proof cases
    case cancel
    then have s': "flushers s \<noteq> []" "delivered s' = delivered s"
        "flushers s' = butlast (flushers s) @ [(last (flushers s))\<lparr> ctx_done := True \<rparr>]"
      using assms by (auto simp: qstep_def split: if_splits)
    then show ?thesis using assms(1) by (auto simp: all_done_def dest: in_set_butlastD)
  next
    case (flush i ch)
    then show ?thesis using assms all_done_flush[OF assms(1), of i] by (auto simp: qstep_def split: if_splits)
  next
    case other
    then have "flushers s' = flushers s \<and> delivered s' = delivered s"
      by (rule qstep_frame[OF assms(3,2)])
    then show ?thesis using assms(1) by (simp add: all_done_def)
  qed
qed

interpretation oq_dead: machine_trap qstep "\<lambda>e. e \<noteq> EvStart" all_done delivered
  by unfold_locales (blast dest: all_done_step)+

text \<open>A run that drains with no flusher left and chunks still queued waits for ever.\<close>

definition stuck :: "qsys \<Rightarrow> bool" where
  "stuck s \<longleftrightarrow> all_done s \<and> run_at s = RunDraining \<and> items (queue s) \<noteq> [] \<and> \<not> closed (queue s)"

lemma stuck_step:
  assumes "stuck s" "qstep s e = Some s'"
  shows "stuck s' \<and> run_at s' = run_at s"
proof -
  have "e \<noteq> EvStart" using assms by (auto simp: qstep_def stuck_def split: if_splits)
  then have ad: "all_done s'" using all_done_step assms by (auto simp: stuck_def)
  have "all_done s" using assms by (simp add: stuck_def)
  from all_done_flush[OF this] ad assms show ?thesis
    by (cases e) (auto simp: qstep_def stuck_def drain_returns_def split: if_splits)
qed

interpretation oq_stuck: machine_trap qstep "\<lambda>_. True" stuck run_at
  by unfold_locales (blast dest: stuck_step)+

section \<open>Properties\<close>

text \<open>
  \<^bold>\<open>C2\<close>  During the first run of a session, whatever the interleaving of
  producers, flusher, link failures, cancellation and process exit: the flusher
  never panics, the chunks delivered upstream are a prefix of the chunks produced
  (none lost, repeated or reordered), and when the run has drained and stopped
  all of them have been delivered.
\<close>

theorem output_single_run:
  assumes "exec qstep qinit (EvStart # es) = Some s" "EvStart \<notin> set es"
  shows "\<not> crashed s \<and> prefix (delivered s) (produced s) \<and>
    (run_at s = RunStopped \<and> EvSpawnFail \<notin> set es \<longrightarrow> delivered s = produced s)"
proof -
  have ex: "exec qstep qstarted es = Some s" using assms(1) by (simp only: exec_start)
  have sr: "single_run s"
    using oq_single.exec_inv[OF qstarted_inv(2) _ ex] assms(2) by blast
  moreover have "drained_run s" if "EvSpawnFail \<notin> set es"
    using oq_drained.exec_inv[OF qstarted_inv(1) _ ex] assms(2) that by blast
  ultimately show ?thesis
    using single_run_facts[OF sr] by (auto simp: drained_run_def)
qed

definition demo_events :: "qevent list" where
  "demo_events = [EvAppend ''ab'' STDIO_STDOUT, EvFlush 0 Ok, EvFlush 0 Fail, EvAppend ''c'' STDIO_STDERR,
     EvFlush 0 Ok, EvFlush 0 Ok, EvFlush 0 Ok, EvEof, EvFlush 0 Ok, EvFlush 0 Ok, EvFlush 0 Ok, EvFlush 0 Ok,
     EvDrained, EvFlush 0 Ok]"

lemmas qstep_eval = qstep_def crashed_def flush_step_def queue_defs qinit_def

lemma demo_run: "\<exists>s. exec qstep qinit (EvStart # demo_events) = Some s \<and> run_at s = RunStopped
    \<and> map qc_data (produced s) = [''ab'', ''c''] \<and> items (queue s) = [] \<and> closed (queue s) \<and> all_done s
    \<and> flushers s \<noteq> [] \<and> \<not> crashed s"
  by (simp add: demo_events_def qstep_eval all_done_def)

theorem output_single_run_witness:
  "\<exists>s. exec qstep qinit (EvStart # demo_events) = Some s \<and> run_at s = RunStopped \<and>
    map qc_data (delivered s) = [''ab'', ''c'']"
proof -
  obtain s where s: "exec qstep qinit (EvStart # demo_events) = Some s" "run_at s = RunStopped"
    "map qc_data (produced s) = [''ab'', ''c'']" using demo_run by metis
  have "EvStart \<notin> set demo_events" "EvSpawnFail \<notin> set demo_events"
    by (simp_all add: demo_events_def)
  with output_single_run[OF s(1)] s have "delivered s = produced s" by blast
  with s show ?thesis by auto
qed

text \<open>
  \<^bold>\<open>C28\<close>  In every reachable state of a session's queue, across all of its runs,
  the offset stamped on a chunk is the number of bytes produced before it, as a
  64-bit number.
\<close>

theorem output_offsets:
  assumes "reach qstep qinit s" "k < length (produced s)"
  shows "qc_offset (produced s ! k) = of_nat (length (concat (map qc_data (take k (produced s)))))"
proof -
  have "offset_inv qinit" by (simp add: offset_inv_def qinit_def newOutputQueue_def)
  then have "offset_inv s" using oq_offsets.reach_inv assms(1) by blast
  then show ?thesis
    using offsets_from_nth[of 0 "produced s" k] assms(2) by (simp add: offset_inv_def total_len_def)
qed

theorem output_offsets_witness:
  "\<exists>s. reach qstep qinit s \<and> length (produced s) = 2 \<and> qc_offset (produced s ! 1) = 2"
proof -
  obtain s where s: "exec qstep qinit (EvStart # demo_events) = Some s"
    "map qc_data (produced s) = [''ab'', ''c'']" using demo_run by metis
  have r: "reach qstep qinit s" unfolding reach_iff_exec using s(1) by blast
  have l: "length (produced s) = 2" using s(2) by (metis length_map length_Cons list.size(3) One_nat_def Suc_1)
  have "qc_offset (produced s ! 1) = of_nat (length (concat (take 1 [''ab'', ''c''])))"
    using output_offsets[OF r, of 1] l s(2) by (simp add: take_map[symmetric])
  with r l show ?thesis by auto
qed




text \<open>
  \<^bold>\<open>C34\<close>  A run started after an earlier run of the same session has stopped can
  lose all of its output: \<open>closed\<close> is never reset, so the new flusher returns as
  soon as it finds the queue empty, and from then on nothing this run produces is
  delivered, whatever happens, until yet another run is started.
\<close>

theorem restarted_run_loses_output:
  assumes "run_at s = RunStopped" "closed (queue s)" "items (queue s) = []" "all_done s" "\<not> crashed s"
    and "exec qstep s (EvStart # EvFlush (length (flushers s)) ch # es) = Some s'"
    and "EvStart \<notin> set es"
  shows "delivered s' = delivered s"
proof -
  let ?s = "s\<lparr> run_at := RunPumping, flushers := flushers s @ [\<lparr> pc = FDone, ctx_done = False \<rparr>] \<rparr>"
  have "exec qstep ?s es = Some s'"
    using assms(1-6) by (auto simp: qstep_def crashed_def flush_step_def nth_append list_update_append)
  moreover have "all_done ?s" using assms(4) by (auto simp: all_done_def)
  ultimately have "delivered s' = delivered ?s" using oq_dead.exec_obs assms(7) by blast
  then show ?thesis by simp
qed

theorem restarted_run_loses_output_witness:
  "\<exists>s s'. exec qstep qinit (EvStart # demo_events) = Some s \<and>
    exec qstep s [EvStart, EvFlush (length (flushers s)) Ok, EvAppend ''lost'' STDIO_STDOUT, EvEof, EvDrained] = Some s' \<and>
    run_at s' = RunStopped \<and> delivered s' = delivered s \<and> produced s' \<noteq> produced s"
proof -
  obtain s where s: "exec qstep qinit (EvStart # demo_events) = Some s" "run_at s = RunStopped"
    "items (queue s) = []" "closed (queue s)" "all_done s" "\<not> crashed s" using demo_run by metis
  obtain s' where s': "exec qstep s [EvStart, EvFlush (length (flushers s)) Ok,
      EvAppend ''lost'' STDIO_STDOUT, EvEof, EvDrained] = Some s'" "run_at s' = RunStopped"
      "produced s' \<noteq> produced s"
    using s(2-) by (auto simp: qstep_def crashed_def flush_step_def close_queue_def drain_returns_def
        nth_append list_update_append all_done_def)
  have "delivered s' = delivered s"
    by (rule restarted_run_loses_output[OF s(2,4,3,5,6) s'(1)]) simp
  with s s' show ?thesis by blast
qed

text \<open>
  Cancelling a run while the link is down can leave it draining for ever:
  the flusher returns from its back-off because its context is done, the queue
  still holds chunks, and \<open>drain\<close> waits for a pop or a close that only the end of
  the run itself would perform.
\<close>

theorem cancelled_run_never_finishes:
  assumes "stuck s" "exec qstep s es = Some s'"
  shows "run_at s' = RunDraining"
  using oq_stuck.exec_obs[OF assms(1) _ assms(2)] assms(1) by (simp add: stuck_def)

theorem cancelled_run_never_finishes_witness:
  "\<exists>s s'. exec qstep qinit [EvStart, EvAppend ''x'' STDIO_STDOUT, EvFlush 0 Ok, EvFlush 0 Fail,
      EvCancel, EvFlush 0 Fail, EvEof] = Some s \<and> exec qstep s [EvCancel] = Some s' \<and> run_at s' = RunDraining"
proof -
  obtain s where s: "exec qstep qinit [EvStart, EvAppend ''x'' STDIO_STDOUT, EvFlush 0 Ok, EvFlush 0 Fail,
      EvCancel, EvFlush 0 Fail, EvEof] = Some s" "stuck s" "flushers s \<noteq> []" "\<not> crashed s"
    by (simp add: qstep_eval stuck_def all_done_def)
  obtain s' where s': "exec qstep s [EvCancel] = Some s'" using s(3,4) by (simp add: qstep_def)
  with cancelled_run_never_finishes[OF s(2) s'] s show ?thesis by blast
qed

text \<open>
  Two restarts can crash the node: a flusher that is still delivering
  when the next run starts a second one lets both send the same chunk and pop
  twice; the second pop slices an empty list.
\<close>

theorem two_flushers_can_panic:
  "\<exists>es s. exec qstep qinit es = Some s \<and> crashed s"
  by (rule exI[of _ "(EvStart # demo_events) @
      [EvStart, EvAppend ''x'' STDIO_STDOUT, EvFlush 1 Ok, EvEof, EvDrained,
       EvStart, EvFlush 2 Ok, EvFlush 1 Ok, EvFlush 2 Ok, EvFlush 1 Ok, EvFlush 2 Ok]"])
     (simp add: demo_events_def qstep_eval)

end
