(* ===== verification/Stream_Executor.thy ===== *)
theory Stream_Executor
  imports Environments Output_Queue
begin

text \<open>
  Running the provider: the choice of executor (\<^verbatim>\<open>execution/executor.go\<close>), the frames
  written to a long-lived provider (\<^verbatim>\<open>execution/stream_executor.go\<close>) and what is read
  back from its standard output (\<^verbatim>\<open>execution/stream_parser.go\<close>).

  A frame is the JSON object the code marshals, with its fields in the order in which the code sets them.
  The pipe to the provider is the list of frames written so far; \<open>st_broken\<close> says that the reading
  end is gone, so that a write returns an error.  The text of error messages and timestamps are left out.
\<close>

section \<open>Choosing an executor\<close>

datatype select_error = NoProvider string | NoRuntime | NoDocker | NoGuestImage | UnsupportedDriver string

datatype executor_kind = StreamKind | LocalKind | DockerKind string

text \<open>\<open>installed\<close> is the outcome of \<^verbatim>\<open>agent.RuntimeInstalled\<close>.\<close>

definition selectExecutor :: "bool \<Rightarrow> sessionOptions \<Rightarrow> NodeCreateSession \<Rightarrow> select_error + executor_kind" where
  "selectExecutor installed opts spec =
    (let driver = to_lower (trim_space (cs_driver spec)); provider = trim_space (cs_provider spec) in
     if driver = [] \<or> driver = ''local'' \<or> driver = ''process'' then
       (if \<not> hasProvider opts provider then Inl (NoProvider provider)
        else if \<not> installed then Inl NoRuntime
        else if cs_interactive spec then Inr StreamKind else Inr LocalKind)
     else if driver = ''docker'' then
       (if \<not> docker opts then Inl NoDocker
        else if trim_space (cs_guest_image spec) = [] then Inl NoGuestImage
        else Inr (DockerKind (trim_space (cs_guest_image spec))))
     else Inl (UnsupportedDriver driver))"

section \<open>Writing frames\<close>

datatype stream_error = ErrStreamNotReady | ErrStreamClosed | ErrUnknownKind string | ErrWrite

record streamExecutor =
  st_stdin :: "json list option"
  st_seq :: "64 word"
  st_closed :: bool
  st_broken :: bool

definition new_stream :: streamExecutor where
  "new_stream = \<lparr> st_stdin = None, st_seq = 0, st_closed = False, st_broken = False \<rparr>"

text \<open>The number of a frame is a Go \<^verbatim>\<open>int\<close>: 64 bits, signed, and it wraps around.\<close>

definition nextSeq :: "streamExecutor \<Rightarrow> int \<times> streamExecutor" where
  "nextSeq e = (sint (st_seq e), e\<lparr> st_seq := st_seq e + 1 \<rparr>)"

definition writeFrame :: "json \<Rightarrow> streamExecutor \<Rightarrow> stream_error option \<times> streamExecutor" where
  "writeFrame frame e =
    (if st_closed e then (Some ErrStreamClosed, e)
     else case st_stdin e of
         None \<Rightarrow> (Some ErrStreamNotReady, e)
       | Some written \<Rightarrow>
           if st_broken e then (Some ErrWrite, e)
           else (None, e\<lparr> st_stdin := Some (written @ [frame]) \<rparr>))"

definition stream_ready :: "streamExecutor \<Rightarrow> bool" where
  "stream_ready e \<longleftrightarrow> \<not> st_closed e \<and> st_stdin e \<noteq> None"

definition isClosed :: "streamExecutor \<Rightarrow> bool" where
  "isClosed e \<longleftrightarrow> st_closed e"

definition str_map :: "(string, string) gomap \<Rightarrow> json" where
  "str_map m = JObj (map (\<lambda>(k, v). (k, JStr v)) m)"

definition llmToFrame :: "NodeLLMConfig \<Rightarrow> json" where
  "llmToFrame llm = JObj
    ([(''endpoint'', JStr (llm_endpoint llm)), (''apiKey'', JStr (llm_apiKey llm)),
      (''model'', JStr (llm_model llm)), (''protocol'', JStr (llm_protocol llm))]
     @ (if llm_headers llm \<noteq> [] then [(''headers'', str_map (llm_headers llm))] else [])
     @ (if llm_extra llm \<noteq> [] then [(''extra'', str_map (llm_extra llm))] else []))"

definition human_frame :: "int \<Rightarrow> NodeSessionInput \<Rightarrow> json" where
  "human_frame seq input =
    (let messageID = trim_space (in_client_message_id input);
         model = trim_space (in_model input); mode = trim_space (in_mode input)
     in JObj
      ([(''v'', JNum 1), (''seq'', JNum seq), (''type'', JStr ''human_message''), (''message'', JStr (in_text input))]
       @ (if messageID \<noteq> [] then [(''messageId'', JStr messageID), (''deliveryAttempt'', JNum (uint (effective_attempt input)))] else [])
       @ (if model \<noteq> [] then [(''model'', JStr model)] else [])
       @ (if mode \<noteq> [] then [(''mode'', JStr mode)] else [])
       @ (case in_llm input of None \<Rightarrow> [] | Some llm \<Rightarrow> [(''llm'', llmToFrame llm)])))"

definition bare_frame :: "int \<Rightarrow> string \<Rightarrow> json" where
  "bare_frame seq kind = JObj [(''v'', JNum 1), (''seq'', JNum seq), (''type'', JStr kind)]"

definition is_human :: "NodeSessionInput \<Rightarrow> bool" where
  "is_human input \<longleftrightarrow> trim_space (in_kind input) = ''human_message'' \<or> trim_space (in_kind input) = []"

definition deliver :: "NodeSessionInput \<Rightarrow> streamExecutor \<Rightarrow> stream_error option \<times> streamExecutor" where
  "deliver input e =
    (let kind = trim_space (in_kind input) in
     if is_human input then (let (seq, e) = nextSeq e in writeFrame (human_frame seq input) e)
     else if kind = ''eof'' \<or> kind = ''cancel'' then (let (seq, e) = nextSeq e in writeFrame (bare_frame seq kind) e)
     else (Some (ErrUnknownKind kind), e))"

text \<open>
  The identity and the paths of a session that its first frame carries.
\<close>

record session_identity =
  si_provider :: string
  si_stateRoot :: string
  si_workspace :: string
  si_home :: string
  si_id :: string
  si_task :: string
  si_editor :: string
  si_editor_session :: string

definition start_frame ::
  "session_identity \<Rightarrow> NodeCreateSession \<Rightarrow> string list \<Rightarrow> string list \<Rightarrow> int \<Rightarrow> json" where
  "start_frame si spec skills plugins seq = JObj
    ([(''v'', JNum 1), (''seq'', JNum seq), (''type'', JStr ''start''), (''provider'', JStr (si_provider si)),
      (''stateRoot'', JStr (si_stateRoot si)), (''workspace'', JStr (si_workspace si)), (''home'', JStr (si_home si)),
      (''sessionId'', JStr (si_id si)), (''taskId'', JStr (si_task si)), (''editorId'', JStr (si_editor si)),
      (''editorSessionId'', JStr (si_editor_session si))]
     @ (if isSystemEnv spec then [(''systemEnv'', JBool True)] else [])
     @ (if skills \<noteq> [] then [(''skills'', JArr (map JStr skills))] else [])
     @ (if plugins \<noteq> [] then [(''plugins'', JArr (map JStr plugins))] else [])
     @ (if resumeThreadHint (Some spec) \<noteq> [] then [(''resumeThreadId'', JStr (resumeThreadHint (Some spec)))] else []))"

text \<open>
  Starting the process is two steps, because other goroutines may use the pipe in between: the pipe is
  attached first, the first frame is written after it.
\<close>

definition attach_stdin :: "streamExecutor \<Rightarrow> streamExecutor" where
  "attach_stdin e = e\<lparr> st_stdin := Some [] \<rparr>"

definition send_start ::
  "session_identity \<Rightarrow> NodeCreateSession \<Rightarrow> string list \<Rightarrow> string list \<Rightarrow> streamExecutor \<Rightarrow> stream_error option \<times> streamExecutor" where
  "send_start si spec skills plugins e =
    (let (seq, e) = nextSeq e in writeFrame (start_frame si spec skills plugins seq) e)"

definition stream_exited :: "streamExecutor \<Rightarrow> streamExecutor" where
  "stream_exited e = e\<lparr> st_closed := True \<rparr>"

section \<open>Reading the provider's output\<close>

definition runtimeResultPrefix :: string where
  "runtimeResultPrefix = ''__AGENT_RESULT__''"

text \<open>
  \<^verbatim>\<open>bufio.ScanLines\<close> with a bounded buffer: a line must fit into the buffer before its newline
  (or the end of the input) is seen, and scanning stops for good at the first one that does not.
  A carriage return before the newline is dropped with it.
\<close>

definition maxTokenSize :: nat where
  "maxTokenSize = 8 * 1024 * 1024"

definition drop_cr :: "string \<Rightarrow> string" where
  "drop_cr l = (if l \<noteq> [] \<and> last l = CHR 0x0D then butlast l else l)"

definition newline :: char where
  "newline = CHR 0x0A"

function scan_lines :: "nat \<Rightarrow> string \<Rightarrow> string list" where
  "scan_lines cap s =
    (let line = takeWhile (\<lambda>c. c \<noteq> newline) s in
     if s = [] \<or> cap \<le> length line then []
     else if length line = length s then [drop_cr s]
     else drop_cr line # scan_lines cap (drop (Suc (length line)) s))"
  by auto

termination
  by (relation "measure (\<lambda>(cap, s). length s)") auto

declare scan_lines.simps [simp del]

type_synonym json_object = "(string \<times> json) list"

text \<open>Decoding into a map keeps the last of several fields with one name.\<close>

definition jsonStringField :: "json_object \<Rightarrow> string \<Rightarrow> string" where
  "jsonStringField m key = (case map_of (rev m) key of Some (JStr s) \<Rightarrow> s | _ \<Rightarrow> [])"

fun firstNonEmpty :: "string list \<Rightarrow> string" where
  "firstNonEmpty [] = []"
| "firstNonEmpty (v # vs) = (if v \<noteq> [] then v else firstNonEmpty vs)"

definition canonicalEventKind :: "string \<Rightarrow> string" where
  "canonicalEventKind itemType =
    (if itemType = ''agent_message'' then ''message''
     else if itemType = ''reasoning'' then ''reasoning''
     else if itemType \<in> {''tool_call'', ''command_execution'', ''mcp_tool_call'', ''file_change'', ''web_search''} then ''tool''
     else if itemType = ''error'' then ''error'' else [])"

text \<open>A nested object; a value that is not one leaves every derived field as it was, as an empty object does.\<close>

definition sub_object :: "json_object \<Rightarrow> string \<Rightarrow> json_object" where
  "sub_object m key = (case map_of (rev m) key of Some (JObj kvs) \<Rightarrow> kvs | _ \<Rightarrow> [])"

record NodeSessionEventStructured =
  ev_session_id :: string
  ev_seq :: "64 word"
  ev_type :: string
  ev_item_type :: string
  ev_agent_id :: string
  ev_logical_id :: string
  ev_event_name :: string
  ev_kind :: string
  ev_tool :: string
  ev_subagent :: string
  ev_phase :: string
  ev_status :: string
  ev_payload :: string

definition structured_event ::
  "string \<Rightarrow> 64 word \<Rightarrow> string \<Rightarrow> json_object \<Rightarrow> string \<Rightarrow> NodeSessionEventStructured" where
  "structured_event sessionID seq frameType frame rawLine =
    (let fld = jsonStringField frame;
         is_agent = (frameType = ''agent_event'');
         item = (if is_agent then sub_object frame ''item'' else []);
         agentID = (if is_agent then fld ''agent_id'' else []);
         itemType = (if is_agent
           then firstNonEmpty [jsonStringField item ''type'', jsonStringField (sub_object frame ''message'') ''type'',
             jsonStringField (sub_object (sub_object frame ''event'') ''item'') ''type'']
           else []);
         eventKind = firstNonEmpty [fld ''event_kind'', jsonStringField item ''event_kind'']
     in \<lparr> ev_session_id = sessionID, ev_seq = seq, ev_type = frameType, ev_item_type = itemType, ev_agent_id = agentID,
          ev_logical_id = firstNonEmpty [fld ''logical_event_id'', jsonStringField item ''logical_event_id'', jsonStringField item ''id'', fld ''id''],
          ev_event_name = firstNonEmpty [fld ''event_name'', frameType],
          ev_kind = (if eventKind = [] then canonicalEventKind itemType else eventKind),
          ev_tool = firstNonEmpty [fld ''tool_name'', jsonStringField item ''tool_name'', jsonStringField item ''title''],
          ev_subagent = firstNonEmpty [fld ''subagent_id'', agentID, jsonStringField item ''subagent_id''],
          ev_phase = firstNonEmpty [fld ''phase'', jsonStringField item ''phase''],
          ev_status = firstNonEmpty [fld ''status'', jsonStringField item ''status''],
          ev_payload = rawLine \<rparr>)"

text \<open>What one line of output does: the raw bytes, the event it carries and the result it announces.\<close>

definition line_frame :: "(string \<Rightarrow> json option) \<Rightarrow> string \<Rightarrow> (string \<times> json_object) option" where
  "line_frame parse trimmed =
    (if trimmed = [] \<or> has_prefix trimmed runtimeResultPrefix \<or> \<not> has_prefix trimmed ''{'' then None
     else case parse trimmed of
         Some (JObj kvs) \<Rightarrow> if jsonStringField kvs ''type'' = [] then None else Some (jsonStringField kvs ''type'', kvs)
       | _ \<Rightarrow> None)"

record pump_state =
  pm_queue :: outputQueue
  pm_seq :: "64 word"
  pm_events :: "NodeSessionEventStructured list"
  pm_result :: string

definition pump_line :: "(string \<Rightarrow> json option) \<Rightarrow> string \<Rightarrow> string \<Rightarrow> pump_state \<Rightarrow> pump_state" where
  "pump_line parse sessionID line st =
    (let trimmed = trim_space line;
         st = st\<lparr> pm_queue := append_chunk (line @ [newline]) STDIO_STDOUT (pm_queue st) \<rparr>
     in if has_prefix trimmed runtimeResultPrefix
        then st\<lparr> pm_result := trim_space (trim_prefix trimmed runtimeResultPrefix) \<rparr>
        else case line_frame parse trimmed of
            None \<Rightarrow> st
          | Some (frameType, frame) \<Rightarrow>
              st\<lparr> pm_result := (if frameType = ''result'' then trimmed else pm_result st),
                  pm_events := pm_events st @ [structured_event sessionID (pm_seq st) frameType frame trimmed],
                  pm_seq := pm_seq st + 1 \<rparr>)"

text \<open>
  The counter of structured events is shared with the reports on the session's messages: \<open>taken i\<close> is how many
  numbers those take while the pump reads line \<open>i\<close>, before the event of that line.
\<close>

fun pump_lines :: "(string \<Rightarrow> json option) \<Rightarrow> string \<Rightarrow> (nat \<Rightarrow> 64 word) \<Rightarrow> string list \<Rightarrow> pump_state \<Rightarrow> pump_state" where
  "pump_lines parse sessionID taken [] st = st"
| "pump_lines parse sessionID taken (l # ls) st =
    pump_lines parse sessionID (\<lambda>i. taken (Suc i)) ls (pump_line parse sessionID l (st\<lparr> pm_seq := pm_seq st + taken 0 \<rparr>))"

definition pumpParsedStdout :: "(string \<Rightarrow> json option) \<Rightarrow> string \<Rightarrow> (nat \<Rightarrow> 64 word) \<Rightarrow> string \<Rightarrow> pump_state \<Rightarrow> pump_state" where
  "pumpParsedStdout parse sessionID taken stdout st =
    pump_lines parse sessionID taken (scan_lines maxTokenSize stdout) (st\<lparr> pm_result := [] \<rparr>)"

section \<open>Raw output\<close>

definition unlines :: "string list \<Rightarrow> string" where
  "unlines ls = concat (map (\<lambda>l. l @ [newline]) ls)"

text \<open>The lines of a text; a text that does not end in a newline has a last line all the same.\<close>

definition text_lines :: "string \<Rightarrow> string list" where
  "text_lines s = (let ls = split_char newline s in if last ls = [] then butlast ls else ls)"

lemma split_char_first: "c \<notin> set a \<Longrightarrow> split_char c (a @ c # b) = a # split_char c b"
  by (induction a) auto

lemma split_char_single: "c \<notin> set a \<Longrightarrow> split_char c a = [a]"
  by (induction a) auto

lemma takeWhile_line: "newline \<notin> set l \<Longrightarrow> takeWhile (\<lambda>c. c \<noteq> newline) (l @ newline # s) = l"
  by (induction l) auto

text \<open>Induction over the lines of a text.\<close>

lemma lines_induct [case_names Nil last_line line]:
  assumes "P []" "\<And>l. newline \<notin> set l \<Longrightarrow> l \<noteq> [] \<Longrightarrow> P l" "\<And>l s. newline \<notin> set l \<Longrightarrow> P s \<Longrightarrow> P (l @ newline # s)"
  shows "P s"
proof (induction "length s" arbitrary: s rule: less_induct)
  case less
  show ?case
  proof (cases "newline \<in> set s")
    case True
    then obtain l t where s: "s = l @ newline # t" "newline \<notin> set l" by (meson split_list_first)
    then have "P t" using less by simp
    with s assms(3) show ?thesis by simp
  next
    case False
    then show ?thesis using assms(1,2) by (cases "s = []") auto
  qed
qed

lemma text_lines_simps:
  "text_lines [] = []"
  "newline \<notin> set l \<Longrightarrow> l \<noteq> [] \<Longrightarrow> text_lines l = [l]"
  "newline \<notin> set l \<Longrightarrow> text_lines (l @ newline # s) = l # text_lines s"
  by (simp_all add: text_lines_def split_char_first split_char_single Let_def)

lemma scan_lines_short:
  "\<forall>l \<in> set (text_lines s). length l < cap \<Longrightarrow> scan_lines cap s = map drop_cr (text_lines s)"
proof (induction s rule: lines_induct)
  case (last_line l)
  have tw: "takeWhile (\<lambda>c. c \<noteq> newline) l = l" using last_line(1) by (auto simp: takeWhile_eq_all_conv)
  show ?case using last_line by (subst scan_lines.simps) (simp add: text_lines_simps tw)
next
  case (line l s)
  then show ?case by (subst scan_lines.simps) (simp add: text_lines_simps takeWhile_line)
qed (simp add: scan_lines.simps text_lines_simps)

lemma unlines_text_lines: "s = [] \<or> last s = newline \<Longrightarrow> unlines (text_lines s) = s"
proof (induction s rule: lines_induct)
  case (last_line l)
  then show ?case using last_in_set by metis
next
  case (line l s)
  then show ?case by (cases "s = []") (simp_all add: text_lines_simps unlines_def)
qed (simp add: text_lines_simps unlines_def)

text \<open>A line that survives scanning byte for byte.\<close>

definition plain_line :: "nat \<Rightarrow> string \<Rightarrow> bool" where
  "plain_line cap l \<longleftrightarrow> newline \<notin> set l \<and> drop_cr l = l \<and> length l < cap"

lemma scan_lines_plain:
  "\<forall>l \<in> set ls. plain_line cap l \<Longrightarrow> scan_lines cap (unlines ls @ rest) = ls @ scan_lines cap rest"
proof (induction ls)
  case (Cons l ls)
  then have l: "newline \<notin> set l" "drop_cr l = l" "length l < cap" by (auto simp: plain_line_def)
  have "scan_lines cap (l @ newline # (unlines ls @ rest)) = l # scan_lines cap (unlines ls @ rest)"
    using l by (subst scan_lines.simps) (simp add: takeWhile_line)
  with Cons show ?case by (simp add: unlines_def)
qed (simp add: unlines_def)

lemma scan_lines_end:
  "rest = [] \<or> cap \<le> length (takeWhile (\<lambda>c. c \<noteq> newline) rest) \<Longrightarrow> scan_lines cap rest = []"
  by (subst scan_lines.simps) auto

definition queued_bytes :: "pump_state \<Rightarrow> string" where
  "queued_bytes st = concat (map qc_data (items (pm_queue st)))"

lemma pump_line_bytes: "queued_bytes (pump_line parse sid l st) = queued_bytes st @ l @ [newline]"
  by (auto simp: queued_bytes_def pump_line_def Let_def append_chunk_def mk_chunk_def split: option.splits prod.splits)

lemma pump_lines_bytes: "queued_bytes (pump_lines parse sid taken ls st) = queued_bytes st @ unlines ls"
proof (induction ls arbitrary: st taken)
  case (Cons l ls)
  show ?case by (simp add: Cons.IH pump_line_bytes unlines_def) (simp add: queued_bytes_def)
qed (simp add: unlines_def)

section \<open>Structured events\<close>

text \<open>The frames among the lines, with their positions.\<close>

definition frames_at :: "(string \<Rightarrow> json option) \<Rightarrow> string list \<Rightarrow> (nat \<times> string \<times> json_object) list" where
  "frames_at parse ls = concat (map (\<lambda>i. case line_frame parse (trim_space (ls ! i)) of None \<Rightarrow> [] | Some (t, f) \<Rightarrow> [(i, t, f)]) [0..<length ls])"

text \<open>The event of the \<open>k\<close>-th frame, which is line \<open>i\<close>: \<open>n\<close> was the counter at the start.\<close>

definition frame_event ::
  "string \<Rightarrow> 64 word \<Rightarrow> (nat \<Rightarrow> 64 word) \<Rightarrow> string list \<Rightarrow> nat \<times> nat \<times> string \<times> json_object \<Rightarrow> NodeSessionEventStructured" where
  "frame_event sid n taken ls x = (case x of (k, i, t, f) \<Rightarrow>
     structured_event sid (n + (\<Sum>j \<le> i. taken j) + of_nat k) t f (trim_space (ls ! i)))"

lemma line_frame_not_result: "line_frame parse t = Some x \<Longrightarrow> \<not> has_prefix t runtimeResultPrefix"
  by (auto simp: line_frame_def split: if_splits)

lemma pump_lines_snoc:
  "pump_lines parse sid taken (ls @ [l]) st =
    (let st' = pump_lines parse sid taken ls st in pump_line parse sid l (st'\<lparr> pm_seq := pm_seq st' + taken (length ls) \<rparr>))"
  by (induction ls arbitrary: st taken) (simp_all add: Let_def)

lemma frames_at_snoc:
  "frames_at parse (ls @ [l]) = frames_at parse ls @
    (case line_frame parse (trim_space l) of None \<Rightarrow> [] | Some (t, f) \<Rightarrow> [(length ls, t, f)])"
proof -
  have "concat (map (\<lambda>i. case line_frame parse (trim_space ((ls @ [l]) ! i)) of None \<Rightarrow> [] | Some (t, f) \<Rightarrow> [(i, t, f)]) [0..<length ls]) =
      frames_at parse ls"
    unfolding frames_at_def by (intro arg_cong[where f = concat] map_cong) (simp_all add: nth_append)
  then show ?thesis by (simp add: frames_at_def)
qed

lemma frames_at_bound: "(i, t, f) \<in> set (frames_at parse ls) \<Longrightarrow> i < length ls"
  by (auto simp: frames_at_def split: option.splits)

lemma frame_event_snoc: "i < length ls \<Longrightarrow> frame_event sid n taken (ls @ [l]) (k, i, t, f) = frame_event sid n taken ls (k, i, t, f)"
  by (simp add: frame_event_def nth_append)

lemma pump_lines_events:
  "pm_events (pump_lines parse sid taken ls st) = pm_events st @ map (frame_event sid (pm_seq st) taken ls) (enumerate 0 (frames_at parse ls)) \<and>
   pm_seq (pump_lines parse sid taken ls st) = pm_seq st + (\<Sum>j < length ls. taken j) + of_nat (length (frames_at parse ls))"
proof (induction ls rule: rev_induct)
  case Nil
  show ?case by (simp add: frames_at_def)
next
  case (snoc l ls)
  let ?st = "pump_lines parse sid taken ls st"
  have old: "map (frame_event sid (pm_seq st) taken (ls @ [l])) (enumerate 0 (frames_at parse ls)) =
      map (frame_event sid (pm_seq st) taken ls) (enumerate 0 (frames_at parse ls))"
    using frames_at_bound by (fastforce simp: frame_event_snoc dest!: in_set_enumerate_eq[THEN iffD1] nth_mem)
  show ?case
  proof (cases "line_frame parse (trim_space l)")
    case None
    then show ?thesis using snoc old by (auto simp: pump_lines_snoc Let_def pump_line_def frames_at_snoc)
  next
    case (Some x)
    obtain t f where x: "x = (t, f)" by (cases x)
    have "frame_event sid (pm_seq st) taken (ls @ [l]) (length (frames_at parse ls), length ls, t, f) =
        structured_event sid (pm_seq ?st + taken (length ls)) t f (trim_space l)"
      using snoc by (simp add: frame_event_def lessThan_Suc_atMost[symmetric] algebra_simps)
    then show ?thesis using snoc old Some line_frame_not_result[OF Some]
      by (simp add: x pump_lines_snoc Let_def pump_line_def frames_at_snoc enumerate_append_eq algebra_simps)
  qed
qed

section \<open>Properties\<close>

text \<open>
  \<^bold>\<open>C16\<close>. What the pump makes of output whose lines are all shorter than 8 MiB.  The raw stream gets every line
  with one newline at its end and without one carriage return before it; for output that ends in a newline and
  has no such carriage return these are exactly the bytes read.  The events are those of the parsable frames in
  their order.  The number of an event is the counter at the start, plus what the reports on messages have taken
  up to its line, plus the frames before it, so no number is used twice or left out.
\<close>

theorem stdout_pumped_exactly:
  assumes "\<forall>l \<in> set (text_lines stdout). length l < maxTokenSize"
    "ls = map drop_cr (text_lines stdout)" "pumpParsedStdout parse sid taken stdout st = st'"
  shows "queued_bytes st' = queued_bytes st @ unlines ls \<and>
    ((stdout = [] \<or> last stdout = newline) \<and> (\<forall>l \<in> set (text_lines stdout). drop_cr l = l) \<longrightarrow>
      queued_bytes st' = queued_bytes st @ stdout) \<and>
    pm_events st' = pm_events st @ map (frame_event sid (pm_seq st) taken ls) (enumerate 0 (frames_at parse ls)) \<and>
    pm_seq st' = pm_seq st + (\<Sum>j < length ls. taken j) + of_nat (length (frames_at parse ls))"
proof -
  have st': "st' = pump_lines parse sid taken ls (st\<lparr> pm_result := [] \<rparr>)"
    using scan_lines_short[OF assms(1)] assms(2,3) by (simp add: pumpParsedStdout_def)
  have q: "queued_bytes (st\<lparr> pm_result := [] \<rparr>) = queued_bytes st" by (simp add: queued_bytes_def)
  have "unlines ls = stdout" if "stdout = [] \<or> last stdout = newline" "\<forall>l \<in> set (text_lines stdout). drop_cr l = l"
    using unlines_text_lines[OF that(1)] that(2) assms(2) by (simp add: map_idI)
  then show ?thesis
    using pump_lines_events[of parse sid taken ls "st\<lparr> pm_result := [] \<rparr>"]
    by (simp add: st' pump_lines_bytes q)
qed

definition demo_pump :: pump_state where
  "demo_pump = \<lparr> pm_queue = newOutputQueue, pm_seq = 7, pm_events = [], pm_result = [] \<rparr>"

definition demo_out :: string where
  "demo_out = ''x'' @ [CHR 0x0D, newline] @ ''{}'' @ [newline] @ ''{ }''"

theorem stdout_pumped_exactly_witness:
  "queued_bytes (pumpParsedStdout (\<lambda>_. Some (JObj [(''type'', JStr ''ready'')])) ''s'' (\<lambda>i. if i = 2 then 4 else 0) demo_out demo_pump)
      = unlines [''x'', ''{}'', ''{ }''] \<and>
   map ev_seq (pm_events (pumpParsedStdout (\<lambda>_. Some (JObj [(''type'', JStr ''ready'')])) ''s'' (\<lambda>i. if i = 2 then 4 else 0) demo_out demo_pump))
      = [7, 12]"
proof -
  let ?p = "\<lambda>_::string. Some (JObj [(''type'', JStr ''ready'')])" and ?t = "\<lambda>i. if i = (2::nat) then 4 else 0 :: 64 word"
  have t: "text_lines demo_out = [''x'' @ [CHR 0x0D], ''{}'', ''{ }'']" by code_simp
  have d: "map drop_cr [''x'' @ [CHR 0x0D], ''{}'', ''{ }''] = [''x'', ''{}'', ''{ }'']" by code_simp
  have "\<forall>l \<in> set (text_lines demo_out). length l < maxTokenSize" by (simp add: t maxTokenSize_def)
  note k = stdout_pumped_exactly[OF this refl refl, of ?p "''s''" ?t demo_pump, unfolded t d]
  moreover have "queued_bytes demo_pump = []" "pm_events demo_pump = []" "pm_seq demo_pump = 7" by code_simp+
  moreover have "map ev_seq (map (frame_event ''s'' 7 ?t [''x'', ''{}'', ''{ }'']) (enumerate 0 (frames_at ?p [''x'', ''{}'', ''{ }'']))) = [7, 12]"
    by code_simp
  ultimately show ?thesis by simp
qed

text \<open>
  The first line of 8 MiB ends the reading of the provider's output: it and all that follows
  are dropped, from the raw stream and from the events.
\<close>

theorem long_line_drops_output:
  assumes "\<forall>l \<in> set ls. plain_line maxTokenSize l" "maxTokenSize \<le> length long" "newline \<notin> set long"
  shows "pumpParsedStdout parse sid taken (unlines ls @ long @ rest) st = pumpParsedStdout parse sid taken (unlines ls) st"
proof -
  have "length long \<le> length (takeWhile (\<lambda>c. c \<noteq> newline) (long @ rest))"
    using assms(3) by (subst takeWhile_append2) auto
  then have "scan_lines maxTokenSize (long @ rest) = []" using assms(2) by (intro scan_lines_end) simp
  then have "scan_lines maxTokenSize (unlines ls @ long @ rest) = ls" using scan_lines_plain[OF assms(1)] by simp
  moreover have "scan_lines maxTokenSize (unlines ls) = ls"
    using scan_lines_plain[OF assms(1), of "[]"] scan_lines_end[of "[]"] by simp
  ultimately show ?thesis by (simp add: pumpParsedStdout_def)
qed

theorem long_line_drops_output_witness:
  "pumpParsedStdout (\<lambda>_. None) ''s'' (\<lambda>_. 0) (unlines [''a''] @ replicate maxTokenSize CHR ''x'' @ newline # ''b'') demo_pump
    = pumpParsedStdout (\<lambda>_. None) ''s'' (\<lambda>_. 0) (unlines [''a'']) demo_pump"
  by (rule long_line_drops_output) (simp_all add: plain_line_def newline_def drop_cr_def maxTokenSize_def)

end
