(* ===== verification/Session_Manager.thy ===== *)
theory Session_Manager
  imports Stream_Executor
begin

text \<open>
  The sessions of a node: \<^verbatim>\<open>execution/session.go\<close>.

  Sessions are objects that goroutines keep using after they have left the session table, so the model
  has a heap of sessions and a table from ids to addresses.  A provider run is an entry of its
  session's list of runs and stands for the run context, the done channel and the goroutine \<open>run\<close>;
  the stream executors of a session are kept the same way.  \<open>in_write\<close> is the frame the goroutine
  that holds \<open>drainMu\<close> has taken out of the queue and not yet written, and \<open>accepted\<close>
  remembers the dedupe keys of the queued messages in their order of arrival.

  What the host offers is a record of parameters: the git program, the archive download, JSON text, the
  operator's home, whether the agent runtime is installed and whether the file service can listen.
  Frames are appended to \<open>m_upstream\<close> when they are handed to the connection; a frame the
  connection refuses is dropped by the code as well.  The texts of stages and log lines are left out.
  A panic of a background goroutine ends the process: \<open>m_crashed\<close>.
\<close>

section \<open>State\<close>

datatype session_error =
    SessionIdRequired
  | ProviderRequired
  | AlreadyExists
  | NotFound
  | NotADirectory
  | NoFileService
  | SpawnFailed
  | SessEnv env_error
  | SessFs fs_error
  | SessGit git_error
  | SessSelect select_error
  | SessStream stream_error
  | SessCfg cfg_error
  | SessRes resource_error
  | InitialConfig "session_error list"

datatype SessionStage =
    STAGE_WORKSPACE_PREPARE | STAGE_GIT_CLONE | STAGE_RESOURCE_SYNC
  | STAGE_RUNTIME_PREFLIGHT | STAGE_RUNTIME_START | STAGE_RUNNING

datatype fail_reason =
    FailNotInteractive | FailDeleted | FailExited | FailSpawn session_error | FailStream stream_error

record input_status =
  is_session :: string
  is_seq :: "64 word"
  is_message :: string
  is_attempt :: "32 word"
  is_failed :: "fail_reason option"

record session_result =
  sr_session :: string
  sr_exit :: int
  sr_success :: bool
  sr_error :: "session_error option"
  sr_json :: string

datatype upstream =
    UStage string SessionStage bool "session_error option"
  | UResult session_result
  | UEvent NodeSessionEventStructured
  | UInput input_status

datatype sessionState = sessionProvisioning | sessionProvisioned | sessionRunning | sessionStopped

datatype executor = StreamEx nat | LocalEx | DockerEx string

datatype run_phase = Spawning | Attached | Live | Exited int "session_error option" | Ended

record run =
  r_exec :: executor
  r_phase :: run_phase
  r_cancelled :: bool
  r_result :: string

record nodeSession =
  ns_id :: string
  taskID :: string
  editorID :: string
  editorSessionID :: string
  projectID :: string
  ns_provider :: string
  workDir :: string
  runtimeDir :: string
  workspaceOwned :: bool
  persistentWorkspace :: bool
  worktreeEnvID :: string
  worktreeRepoDir :: string
  stateRoot :: string
  home :: string
  skillsDir :: string
  pluginsDir :: string
  ns_spec :: NodeCreateSession
  ns_queue :: outputQueue
  fileService :: bool
  ctx_cancelled :: bool
  ns_state :: sessionState
  ns_llm :: "NodeLLMConfig option"
  ns_mode :: string
  interactive :: bool
  appliedRevision :: "64 word"
  effectiveRevision :: "64 word"
  ns_executor :: "executor option"
  ns_run :: "nat option"
  ns_runs :: "run list"
  ns_streams :: "streamExecutor list"
  structSeq :: "64 word"
  seenMessageIDs :: "string list"
  pendingInputs :: "NodeSessionInput list"
  in_write :: "(NodeSessionInput \<times> nat) option"
  accepted :: "string list"

text \<open>
  The dispatch loop handles one frame at a time.  While it restarts or deletes a session it waits for
  the run whose done channel it read at the start: \<open>Restarting\<close> and \<open>Deleting\<close> carry the
  session and that run.
\<close>

datatype dispatch = Ready | Restarting string bool nat "nat option" | Deleting nat "nat option"

record sessionManager =
  m_world :: git_world
  m_table :: "(string, nat) gomap"
  m_heap :: "nodeSession list"
  m_jobs :: "nat list"
  m_upstream :: "upstream list"
  m_dispatch :: dispatch
  m_crashed :: bool

record host =
  h_opts :: sessionOptions
  h_git :: git_prog
  h_http :: http
  h_parse :: "string \<Rightarrow> json option"
  h_marshal :: "json \<Rightarrow> string"
  h_origin :: string
  h_userHome :: "string option"
  h_installed :: bool
  h_fileService :: bool

definition newSessionManager :: "git_world \<Rightarrow> sessionManager" where
  "newSessionManager w = \<lparr> m_world = w, m_table = [], m_heap = [], m_jobs = [], m_upstream = [], m_dispatch = Ready, m_crashed = False \<rparr>"

definition sess :: "sessionManager \<Rightarrow> nat \<Rightarrow> nodeSession" where
  "sess m a = m_heap m ! a"

definition upd :: "nat \<Rightarrow> (nodeSession \<Rightarrow> nodeSession) \<Rightarrow> sessionManager \<Rightarrow> sessionManager" where
  "upd a f m = m\<lparr> m_heap := (m_heap m)[a := f (m_heap m ! a)] \<rparr>"

definition emit :: "upstream \<Rightarrow> sessionManager \<Rightarrow> sessionManager" where
  "emit u m = m\<lparr> m_upstream := m_upstream m @ [u] \<rparr>"

definition reportStage ::
  "string \<Rightarrow> SessionStage \<Rightarrow> bool \<Rightarrow> session_error option \<Rightarrow> sessionManager \<Rightarrow> sessionManager" where
  "reportStage sid stage ok err m = emit (UStage sid stage ok err) m"

definition lookupSession :: "string \<Rightarrow> sessionManager \<Rightarrow> nat option" where
  "lookupSession sid m = mget (m_table m) (trim_space sid)"

type_synonym 'a handler = "sessionManager \<Rightarrow> 'a \<times> sessionManager"

definition in_world ::
  "(git_world \<Rightarrow> session_error outcome) \<Rightarrow> sessionManager \<Rightarrow> session_error option \<times> sessionManager" where
  "in_world f m = (let (e, w) = f (m_world m) in (e, m\<lparr> m_world := w \<rparr>))"

definition on_sess :: "('e \<Rightarrow> session_error) \<Rightarrow> 'e option \<times> git_world \<Rightarrow> session_error outcome" where
  "on_sess c r = (map_option c (fst r), snd r)"

definition in_fs :: "('e \<Rightarrow> session_error) \<Rightarrow> (fs \<Rightarrow> 'e option \<times> fs) \<Rightarrow> git_world \<Rightarrow> session_error outcome" where
  "in_fs c f w = (let (e, s) = f (gfs w) in (map_option c e, w\<lparr> gfs := s \<rparr>))"

text \<open>A handler that met a nil map has panicked, and nothing recovers.\<close>

fun panicked :: "session_error option \<Rightarrow> bool" where
  "panicked (Some (SessCfg CfgPanic)) = True"
| "panicked (Some (InitialConfig es)) = list_ex (\<lambda>e. e = SessCfg CfgPanic) es"
| "panicked _ = False"

definition crash_on :: "session_error option \<Rightarrow> sessionManager \<Rightarrow> sessionManager" where
  "crash_on e m = (if panicked e then m\<lparr> m_crashed := True \<rparr> else m)"

section \<open>Input\<close>

definition stampInputSnapshot :: "nodeSession \<Rightarrow> NodeSessionInput \<Rightarrow> NodeSessionInput" where
  "stampInputSnapshot s input =
    (let model0 = (case ns_llm s of Some l \<Rightarrow> trim_space (llm_model l) | None \<Rightarrow> []);
         model = (if model0 = [] then trim_space (cs_model (ns_spec s)) else model0)
     in input\<lparr> in_model := (if trim_space (in_model input) = [] \<and> model \<noteq> [] then model else in_model input),
               in_mode := (if trim_space (in_mode input) = [] \<and> ns_mode s \<noteq> [] then ns_mode s else in_mode input),
               in_llm := (if in_llm input = None then ns_llm s else in_llm input) \<rparr>)"

text \<open>The sequence number is taken from the session that is registered under the id, if there is one.\<close>

definition emitInputStatus ::
  "string \<Rightarrow> string \<Rightarrow> 32 word \<Rightarrow> fail_reason option \<Rightarrow> sessionManager \<Rightarrow> sessionManager" where
  "emitInputStatus sid messageID attempt failure m =
    (if messageID = [] then m
     else let st = (\<lambda>seq. UInput \<lparr> is_session = sid, is_seq = seq, is_message = messageID,
                 is_attempt = (if attempt = 0 then 1 else attempt), is_failed = failure \<rparr>)
       in case mget (m_table m) sid of
         None \<Rightarrow> emit (st 0) m
       | Some b \<Rightarrow> emit (st (structSeq (sess m b))) (upd b (\<lambda>s. s\<lparr> structSeq := structSeq s + 1 \<rparr>) m))"

definition reportInputFailure ::
  "nat \<Rightarrow> fail_reason \<Rightarrow> NodeSessionInput \<Rightarrow> sessionManager \<Rightarrow> sessionManager" where
  "reportInputFailure a reason input m =
    (let messageID = trim_space (in_client_message_id input) in
     if messageID = [] then m
     else emitInputStatus (ns_id (sess m a)) messageID (in_delivery_attempt input) (Some reason)
            (upd a (\<lambda>s. s\<lparr> seenMessageIDs := removeAll (messageKey input) (seenMessageIDs s) \<rparr>) m))"

definition failPendingInputs :: "nat \<Rightarrow> fail_reason \<Rightarrow> sessionManager \<Rightarrow> sessionManager" where
  "failPendingInputs a reason m =
    fold (reportInputFailure a reason) (pendingInputs (sess m a)) (upd a (\<lambda>s. s\<lparr> pendingInputs := [] \<rparr>) m)"

text \<open>
  The head of the drain loop, under the session lock: it takes the oldest frame, gives up, or fails the
  whole queue.  The body writes the frame without that lock.
\<close>

definition drain_take :: "nat \<Rightarrow> bool handler" where
  "drain_take a m =
    (let s = sess m a in
     if pendingInputs s = [] then (False, m)
     else case ns_executor s of
         Some (StreamEx k) \<Rightarrow>
           (if isClosed (ns_streams s ! k) then (False, failPendingInputs a (FailStream ErrStreamClosed) m)
            else if \<not> stream_ready (ns_streams s ! k) then (False, m)
            else (True, upd a (\<lambda>s. s\<lparr> in_write := Some (hd (pendingInputs s), k), pendingInputs := tl (pendingInputs s) \<rparr>) m))
       | _ \<Rightarrow> (False, m))"

definition drain_put :: "nat \<Rightarrow> bool handler" where
  "drain_put a m = (case in_write (sess m a) of
      None \<Rightarrow> (False, m)
    | Some (input, k) \<Rightarrow>
        (let (err, e) = deliver input (ns_streams (sess m a) ! k);
             m = upd a (\<lambda>s. s\<lparr> ns_streams := (ns_streams s)[k := e], in_write := None \<rparr>) m
         in case err of
              None \<Rightarrow> (True, m)
            | Some ErrStreamNotReady \<Rightarrow> (False, upd a (\<lambda>s. s\<lparr> pendingInputs := input # pendingInputs s \<rparr>) m)
            | Some e \<Rightarrow> (True, reportInputFailure a (FailStream e) input m)))"

fun drain_loop :: "nat \<Rightarrow> nat \<Rightarrow> sessionManager \<Rightarrow> sessionManager" where
  "drain_loop 0 a m = m"
| "drain_loop (Suc n) a m =
    (case drain_take a m of
       (False, m) \<Rightarrow> m
     | (True, m) \<Rightarrow> (case drain_put a m of (False, m) \<Rightarrow> m | (True, m) \<Rightarrow> drain_loop n a m))"

definition drainPending :: "nat \<Rightarrow> sessionManager \<Rightarrow> sessionManager" where
  "drainPending a m = drain_loop (Suc (length (pendingInputs (sess m a)))) a m"

definition not_interactive :: "nodeSession \<Rightarrow> bool" where
  "not_interactive s = (case ns_executor s of None \<Rightarrow> False | Some (StreamEx _) \<Rightarrow> False | Some _ \<Rightarrow> True)"

definition accept_input :: "NodeSessionInput \<Rightarrow> sessionManager \<Rightarrow> nat option \<times> sessionManager" where
  "accept_input input m = (case lookupSession (in_session_id input) m of
      None \<Rightarrow> (None, m)
    | Some a \<Rightarrow>
       (let sid = trim_space (in_session_id input);
            input = (if is_human input then stampInputSnapshot (sess m a) input else input);
            messageID = trim_space (in_client_message_id input);
            dedupe = (messageID \<noteq> [] \<and> is_human input)
        in if dedupe \<and> messageKey input \<in> set (seenMessageIDs (sess m a))
           then (None, emitInputStatus sid messageID (in_delivery_attempt input) None m)
           else
             let m = (if dedupe then upd a (\<lambda>s. s\<lparr> seenMessageIDs := messageKey input # seenMessageIDs s \<rparr>) m else m)
             in if not_interactive (sess m a) then (None, reportInputFailure a FailNotInteractive input m)
                else
                  let m = upd a (\<lambda>s. s\<lparr> pendingInputs := pendingInputs s @ [input],
                       accepted := accepted s @ (if dedupe then [messageKey input] else []) \<rparr>) m
                  in (Some a, emitInputStatus sid messageID (in_delivery_attempt input) None m)))"

definition deliverInput :: "NodeSessionInput \<Rightarrow> sessionManager \<Rightarrow> sessionManager" where
  "deliverInput input m = (case accept_input input m of (None, m) \<Rightarrow> m | (Some a, m) \<Rightarrow> drainPending a m)"


section \<open>Configuration\<close>

record configResult =
  cr_applied :: "64 word"
  cr_effective :: "64 word"
  cr_restart :: bool

definition recordRevisionLocked :: "64 word \<Rightarrow> nodeSession \<Rightarrow> nodeSession" where
  "recordRevisionLocked revision s =
    (let applied = (if appliedRevision s < revision then revision else appliedRevision s)
     in s\<lparr> appliedRevision := applied, effectiveRevision := applied \<rparr>)"

definition config_result :: "nodeSession \<Rightarrow> configResult" where
  "config_result s = \<lparr> cr_applied = appliedRevision s, cr_effective = appliedRevision s, cr_restart = False \<rparr>"

definition runtimeActivationConfigPath :: "string \<Rightarrow> string" where
  "runtimeActivationConfigPath root = path_join [root, ''agents'', ''activation.json'']"

text \<open>
  A list of strings decoded by \<^verbatim>\<open>encoding/json\<close> into a field: null clears it, another type leaves
  it alone, an element of another type is left empty.
\<close>

fun strings_field :: "string \<Rightarrow> json_object \<Rightarrow> string list option \<Rightarrow> string list option" where
  "strings_field name [] acc = acc"
| "strings_field name ((k, v) # kvs) acc =
    strings_field name kvs
      (if \<not> equal_fold k name then acc
       else case v of
           JArr xs \<Rightarrow> Some (map (\<lambda>x. case x of JStr t \<Rightarrow> t | _ \<Rightarrow> []) xs)
         | JNull \<Rightarrow> None
         | _ \<Rightarrow> acc)"

definition activation_on_disk ::
  "(string \<Rightarrow> json option) \<Rightarrow> content \<Rightarrow> string list option \<times> string list option" where
  "activation_on_disk parse c = (case unmarshal parse c of
      Some (JObj kvs) \<Rightarrow> (strings_field ''skills'' kvs None, strings_field ''plugins'' kvs None)
    | _ \<Rightarrow> (None, None))"

definition writeRuntimeActivationConfig ::
  "(string \<Rightarrow> json option) \<Rightarrow> string \<Rightarrow> string list option \<Rightarrow> string list option \<Rightarrow> fs \<Rightarrow> fs_outcome" where
  "writeRuntimeActivationConfig parse root skills plugins s =
    (let path = runtimeActivationConfigPath root;
         pick = (\<lambda>new old. case new of Some ns \<Rightarrow> normalizeActivationNames ns | None \<Rightarrow> (case old of Some ns \<Rightarrow> ns | None \<Rightarrow> []));
         save = (\<lambda>(sk, pl). write_in_dir s path
           (Json (JObj [(''skills'', JArr (map JStr (pick skills sk))), (''plugins'', JArr (map JStr (pick plugins pl)))])))
     in case read_file s path of
          Inr c \<Rightarrow> save (activation_on_disk parse c)
        | Inl ENOENT \<Rightarrow> save (None, None)
        | Inl e \<Rightarrow> (Some e, s))"

definition res_session :: "nodeSession \<Rightarrow> resource_session" where
  "res_session s = \<lparr> rs_skillsDir = skillsDir s, rs_pluginsDir = pluginsDir s, rs_home = home s, rs_provider = ns_provider s \<rparr>"

definition names_of :: "string list \<Rightarrow> string list" where
  "names_of ns = filter (\<lambda>n. n \<noteq> []) (map trim_space ns)"

definition write_llm :: "host \<Rightarrow> nodeSession \<Rightarrow> NodeLLMConfig option \<Rightarrow> git_world \<Rightarrow> session_error outcome" where
  "write_llm h s llm = in_fs SessCfg (writeLLMConfig (h_parse h) (h_marshal h) (ns_provider s) (home s) llm)"

definition write_mcps :: "host \<Rightarrow> nodeSession \<Rightarrow> MCPServerSpec list \<Rightarrow> git_world \<Rightarrow> session_error outcome" where
  "write_mcps h s mcps = in_fs SessCfg
    (writeMCPConfig (h_parse h) (h_marshal h) (h_origin h) (ns_provider s) (home s) (stateRoot s) (Some (ns_spec s)) mcps)"

definition sync_skills :: "host \<Rightarrow> nodeSession \<Rightarrow> SkillSpec list \<Rightarrow> git_world \<Rightarrow> session_error outcome" where
  "sync_skills h s skills w = on_sess SessRes (syncSkills (h_git h) (h_http h) (h_opts h) (res_session s) skills w)"

definition sync_plugins :: "host \<Rightarrow> nodeSession \<Rightarrow> NodePluginSpec list \<Rightarrow> git_world \<Rightarrow> session_error outcome" where
  "sync_plugins h s plugins w = on_sess SessRes (syncPlugins (h_git h) (h_http h) (h_opts h) (res_session s) plugins w)"

definition write_prompt :: "nodeSession \<Rightarrow> git_world \<Rightarrow> session_error outcome" where
  "write_prompt s w =
    (let sp = trim_space (cs_system_prompt (ns_spec s))
     in if sp = [] then (None, w) else in_fs SessFs (writeAgentSystemPrompt (stateRoot s) sp) w)"

definition system_config :: "host \<Rightarrow> nodeSession \<Rightarrow> git_world \<Rightarrow> session_error outcome" where
  "system_config h s w = (let spec = ns_spec s in
    and_then (write_llm h s (cs_llm spec) w) (\<lambda>w.
    and_then (if cs_mcps spec = [] then (None, w) else in_fs SessFs (writeRuntimeMCPConfig (stateRoot s) (cs_mcps spec)) w) (\<lambda>w.
    and_then (if cs_active_skills spec = [] \<and> cs_active_plugins spec = [] then (None, w)
              else in_fs SessFs (writeRuntimeActivationConfig (h_parse h) (stateRoot s)
                (if cs_active_skills spec = [] then None else Some (cs_active_skills spec))
                (if cs_active_plugins spec = [] then None else Some (cs_active_plugins spec))) w)
      (write_prompt s))))"

text \<open>Steps that all run, their errors collected.\<close>

definition also_try ::
  "(git_world \<Rightarrow> session_error outcome) \<Rightarrow> session_error list \<times> git_world \<Rightarrow> session_error list \<times> git_world" where
  "also_try f r = (let (e, w) = f (snd r) in (fst r @ (case e of None \<Rightarrow> [] | Some x \<Rightarrow> [x]), w))"

definition applyInitialConfig :: "host \<Rightarrow> nodeSession \<Rightarrow> git_world \<Rightarrow> session_error outcome" where
  "applyInitialConfig h s w = (let spec = ns_spec s in
    if isSystemEnv spec then system_config h s w
    else let owns = ownsHomeResources spec;
             (errs, w) = also_try (write_prompt s)
               (also_try (\<lambda>w. if owns \<and> cs_plugins spec \<noteq> [] then sync_plugins h s (cs_plugins spec) w else (None, w))
               (also_try (\<lambda>w. if owns \<and> cs_skills spec \<noteq> [] then sync_skills h s (cs_skills spec) w else (None, w))
               (also_try (write_mcps h s (cs_mcps spec))
               (also_try (write_llm h s (cs_llm spec)) ([], w)))))
         in (if errs = [] then None else Some (InitialConfig errs), w))"

text \<open>
  A configuration command: change the session, write to disk, record the revision only when that succeeded.
\<close>

definition config_command ::
  "string \<Rightarrow> 64 word \<Rightarrow> (nodeSession \<Rightarrow> nodeSession) \<Rightarrow> (nodeSession \<Rightarrow> git_world \<Rightarrow> session_error outcome) \<Rightarrow>
    (session_error + configResult) handler" where
  "config_command sid revision change write m = (case lookupSession sid m of
      None \<Rightarrow> (Inl NotFound, m)
    | Some a \<Rightarrow>
        (let m = upd a change m; (e, m) = in_world (write (sess m a)) m
         in case e of
              Some x \<Rightarrow> (Inl x, crash_on e m)
            | None \<Rightarrow> let m = upd a (recordRevisionLocked revision) m in (Inr (config_result (sess m a)), m)))"

definition configureLLM :: "host \<Rightarrow> string \<Rightarrow> 64 word \<Rightarrow> NodeLLMConfig option \<Rightarrow> (session_error + configResult) handler" where
  "configureLLM h sid revision llm = config_command sid revision (\<lambda>s. s\<lparr> ns_llm := llm \<rparr>) (\<lambda>s. write_llm h s llm)"

definition applyMCPs :: "host \<Rightarrow> string \<Rightarrow> 64 word \<Rightarrow> MCPServerSpec list \<Rightarrow> (session_error + configResult) handler" where
  "applyMCPs h sid revision mcps = config_command sid revision (\<lambda>s. s) (\<lambda>s.
    if isSystemEnv (ns_spec s) then in_fs SessFs (writeRuntimeMCPConfig (stateRoot s) mcps) else write_mcps h s mcps)"

definition applySkills :: "host \<Rightarrow> string \<Rightarrow> 64 word \<Rightarrow> SkillSpec list \<Rightarrow> (session_error + configResult) handler" where
  "applySkills h sid revision skills = config_command sid revision (\<lambda>s. s) (\<lambda>s.
    if isSystemEnv (ns_spec s)
    then in_fs SessFs (writeRuntimeActivationConfig (h_parse h) (stateRoot s) (Some (names_of (map sk_name skills))) None)
    else sync_skills h s skills)"

definition applyPlugins :: "host \<Rightarrow> string \<Rightarrow> 64 word \<Rightarrow> NodePluginSpec list \<Rightarrow> (session_error + configResult) handler" where
  "applyPlugins h sid revision plugins = config_command sid revision (\<lambda>s. s) (\<lambda>s.
    if isSystemEnv (ns_spec s)
    then in_fs SessFs (writeRuntimeActivationConfig (h_parse h) (stateRoot s) None (Some (names_of (map pl_name plugins))))
    else sync_plugins h s plugins)"

definition configureMode :: "string \<Rightarrow> 64 word \<Rightarrow> string \<Rightarrow> (session_error + configResult) handler" where
  "configureMode sid revision mode =
    config_command sid revision (\<lambda>s. s\<lparr> ns_mode := trim_space mode \<rparr>) (\<lambda>s w. (None, w))"

section \<open>Runs\<close>

definition at_run :: "nat \<Rightarrow> (run \<Rightarrow> run) \<Rightarrow> nodeSession \<Rightarrow> nodeSession" where
  "at_run r f s = s\<lparr> ns_runs := (ns_runs s)[r := f (ns_runs s ! r)] \<rparr>"

definition stream_at :: "executor \<Rightarrow> (streamExecutor \<Rightarrow> streamExecutor) \<Rightarrow> nodeSession \<Rightarrow> nodeSession" where
  "stream_at x f s = (case x of StreamEx k \<Rightarrow> s\<lparr> ns_streams := (ns_streams s)[k := f (ns_streams s ! k)] \<rparr> | _ \<Rightarrow> s)"

text \<open>The executor object of a new run; a stream executor starts with no pipe.\<close>

definition with_executor :: "executor_kind \<Rightarrow> nodeSession \<Rightarrow> executor \<times> nodeSession" where
  "with_executor kind s = (case kind of
      StreamKind \<Rightarrow> (StreamEx (length (ns_streams s)), s\<lparr> ns_streams := ns_streams s @ [new_stream] \<rparr>)
    | LocalKind \<Rightarrow> (LocalEx, s)
    | DockerKind img \<Rightarrow> (DockerEx img, s))"

definition begin_run :: "executor_kind \<Rightarrow> nodeSession \<Rightarrow> nodeSession" where
  "begin_run kind s0 =
    (let (x, s) = with_executor kind s0
     in s\<lparr> ns_executor := Some x, ns_run := Some (length (ns_runs s)),
           ns_runs := ns_runs s @ [\<lparr> r_exec = x, r_phase = Spawning, r_cancelled = ctx_cancelled s, r_result = [] \<rparr>],
           ns_state := sessionRunning, effectiveRevision := appliedRevision s \<rparr>)"

definition startRuntime :: "host \<Rightarrow> string \<Rightarrow> session_error option handler" where
  "startRuntime h sid0 m =
    (let sid = trim_space sid0 in
     case mget (m_table m) sid of
       None \<Rightarrow> (Some NotFound, m)
     | Some a \<Rightarrow>
         if ns_state (sess m a) = sessionRunning \<or> ns_state (sess m a) = sessionProvisioning then (None, m)
         else let m = reportStage sid STAGE_RUNTIME_PREFLIGHT True None m
           in case selectExecutor (h_installed h) (h_opts h) (ns_spec (sess m a)) of
                Inl e \<Rightarrow> (Some (SessSelect e), reportStage sid STAGE_RUNTIME_PREFLIGHT False (Some (SessSelect e)) m)
              | Inr kind \<Rightarrow> (None, upd a (begin_run kind) (reportStage sid STAGE_RUNTIME_START True None m)))"

definition reportResult :: "nat \<Rightarrow> int \<Rightarrow> bool \<Rightarrow> session_error option \<Rightarrow> string \<Rightarrow> sessionManager \<Rightarrow> sessionManager" where
  "reportResult a exitCode success err resultJSON m = emit (UResult
    \<lparr> sr_session = ns_id (sess m a), sr_exit = exitCode, sr_success = success, sr_error = err, sr_json = resultJSON \<rparr>) m"

definition markStopped :: "nodeSession \<Rightarrow> nodeSession" where
  "markStopped s = (if ns_state s = sessionRunning then s\<lparr> ns_state := sessionStopped \<rparr> else s)"

definition phase_of :: "sessionManager \<Rightarrow> nat \<Rightarrow> nat \<Rightarrow> run_phase" where
  "phase_of m a r = r_phase (ns_runs (sess m a) ! r)"

definition set_phase :: "run_phase \<Rightarrow> run \<Rightarrow> run" where
  "set_phase p rn = rn\<lparr> r_phase := p \<rparr>"

text \<open>The early return of \<open>run\<close>: the executor could not be started.\<close>

definition run_failed :: "nat \<Rightarrow> nat \<Rightarrow> session_error \<Rightarrow> sessionManager \<Rightarrow> sessionManager" where
  "run_failed a r e m =
    (let m = reportStage (ns_id (sess m a)) STAGE_RUNTIME_START False (Some e) m;
         m = failPendingInputs a (FailSpawn e) m;
         m = reportResult a 1 False (Some e) [] m
     in upd a (\<lambda>s. at_run r (set_phase Ended) (markStopped (s\<lparr> ns_queue := close_queue (ns_queue s) \<rparr>))) m)"


definition make_dirs :: "string list \<Rightarrow> fs \<Rightarrow> fs_outcome" where
  "make_dirs dirs s = fold (\<lambda>d r. and_then r (\<lambda>s. try_fs s (mkdir_all s d))) dirs (None, s)"

text \<open>
  Starting the process.  \<open>ok\<close> is whether the runtime command could be built, piped and started.  A
  stream executor has only its pipe afterwards; the others are running.
\<close>

definition run_spawn :: "nat \<Rightarrow> nat \<Rightarrow> bool \<Rightarrow> sessionManager \<Rightarrow> sessionManager" where
  "run_spawn a r ok m =
    (let s = sess m a; x = r_exec (ns_runs s ! r);
         (e, m) = (case x of DockerEx _ \<Rightarrow> (None, m) | _ \<Rightarrow> in_world (in_fs SessFs (make_dirs [stateRoot s, home s])) m)
     in case e of
          Some err \<Rightarrow> run_failed a r err m
        | None \<Rightarrow>
            if \<not> ok then run_failed a r SpawnFailed m
            else case x of
                StreamEx k \<Rightarrow> upd a (\<lambda>s. at_run r (set_phase Attached) (stream_at x attach_stdin s)) m
              | _ \<Rightarrow> upd a (at_run r (set_phase Live)) (reportStage (ns_id s) STAGE_RUNNING True None m))"

definition identity_of :: "nodeSession \<Rightarrow> session_identity" where
  "identity_of s = \<lparr> si_provider = ns_provider s, si_stateRoot = stateRoot s, si_workspace = workDir s, si_home = home s,
     si_id = ns_id s, si_task = taskID s, si_editor = editorID s, si_editor_session = editorSessionID s \<rparr>"

definition run_greet :: "host \<Rightarrow> nat \<Rightarrow> nat \<Rightarrow> sessionManager \<Rightarrow> sessionManager" where
  "run_greet h a r m =
    (let s = sess m a; x = r_exec (ns_runs s ! r); spec = ns_spec s;
         skills = activeSkillNames (h_parse h) (h_marshal h) (h_opts h) spec (gfs (m_world m));
         plugins = activePluginNames (h_parse h) (h_marshal h) (h_opts h) spec (gfs (m_world m))
     in case x of
          StreamEx k \<Rightarrow>
            (let (err, e) = send_start (identity_of s) spec skills plugins (ns_streams s ! k);
                 m = upd a (stream_at x (\<lambda>_. e)) m
             in case err of
                  Some x \<Rightarrow> run_failed a r (SessStream x) m
                | None \<Rightarrow> upd a (at_run r (set_phase Live)) (reportStage (ns_id s) STAGE_RUNNING True None m))
        | _ \<Rightarrow> m)"

text \<open>A line of standard output of a live run.\<close>

definition run_line :: "host \<Rightarrow> nat \<Rightarrow> nat \<Rightarrow> string \<Rightarrow> sessionManager \<Rightarrow> sessionManager" where
  "run_line h a r line m =
    (let s = sess m a;
         st = pump_line (h_parse h) (ns_id s) line
           \<lparr> pm_queue = ns_queue s, pm_seq = structSeq s, pm_events = [], pm_result = r_result (ns_runs s ! r) \<rparr>
     in fold (\<lambda>ev. emit (UEvent ev)) (pm_events st)
          (upd a (\<lambda>s. at_run r (\<lambda>rn. rn\<lparr> r_result := pm_result st \<rparr>)
             (s\<lparr> ns_queue := pm_queue st, structSeq := pm_seq st \<rparr>)) m))"

text \<open>The process is gone: \<open>wait\<close> closes the stream and yields the exit code and an error for a bad exit.\<close>

definition run_exit :: "nat \<Rightarrow> nat \<Rightarrow> int \<Rightarrow> session_error option \<Rightarrow> sessionManager \<Rightarrow> sessionManager" where
  "run_exit a r code err m =
    upd a (\<lambda>s. at_run r (set_phase (Exited code err)) (stream_at (r_exec (ns_runs s ! r)) stream_exited s)) m"

text \<open>The end of \<open>run\<close>, once the output queue is drained.\<close>

definition run_finish :: "nat \<Rightarrow> nat \<Rightarrow> sessionManager \<Rightarrow> sessionManager" where
  "run_finish a r m = (case phase_of m a r of
      Exited code err \<Rightarrow>
        (let success = (err = None \<and> code = 0);
             exitCode = (if err \<noteq> None \<and> code = 0 then 1 else code);
             m = reportResult a exitCode success err (r_result (ns_runs (sess m a) ! r)) m;
             m = failPendingInputs a FailExited m
         in upd a (\<lambda>s. at_run r (set_phase Ended) (markStopped (s\<lparr> ns_queue := close_queue (ns_queue s) \<rparr>))) m)
    | _ \<Rightarrow> m)"

definition resetRuntimeState :: "string \<Rightarrow> fs \<Rightarrow> fs_outcome" where
  "resetRuntimeState root s =
    (let mcpPath = runtimeMCPConfigPath root;
         clear = and_then (try_fs s (remove_all s root)) (\<lambda>s. try_fs s (mkdir_all s root))
     in case read_file s mcpPath of
          Inl ENOENT \<Rightarrow> clear
        | Inl e \<Rightarrow> (Some e, s)
        | Inr c \<Rightarrow> if c = Text [] then clear else and_then clear (\<lambda>s. write_in_dir s mcpPath c))"

text \<open>Restarting: stop the current run, wait for it to end, then start again.\<close>

definition restart_cancel :: "nat \<Rightarrow> sessionManager \<Rightarrow> sessionManager" where
  "restart_cancel a m = upd a (\<lambda>s. case ns_run s of None \<Rightarrow> s | Some r \<Rightarrow> at_run r (\<lambda>rn. rn\<lparr> r_cancelled := True \<rparr>) s) m"

text \<open>Receiving from the done channel of a run, which is nil before the first one.\<close>

definition run_over :: "sessionManager \<Rightarrow> nat \<Rightarrow> nat option \<Rightarrow> bool" where
  "run_over m a done = (case done of None \<Rightarrow> True | Some r \<Rightarrow> phase_of m a r = Ended)"

definition restart_after :: "host \<Rightarrow> string \<Rightarrow> nat \<Rightarrow> bool \<Rightarrow> session_error option handler" where
  "restart_after h sid a fresh m =
    (let (e, m) = (if fresh then in_world (in_fs SessFs (resetRuntimeState (stateRoot (sess m a)))) m else (None, m))
     in case e of
          Some x \<Rightarrow> (Some x, m)
        | None \<Rightarrow> startRuntime h sid (upd a (\<lambda>s. s\<lparr> ns_state := sessionProvisioned \<rparr>) m))"

text \<open>The whole command, for a session whose run has already ended.\<close>

definition restartRuntime :: "host \<Rightarrow> string \<Rightarrow> bool \<Rightarrow> session_error option handler" where
  "restartRuntime h sid fresh m = (case lookupSession sid m of
      None \<Rightarrow> (Some NotFound, m)
    | Some a \<Rightarrow> restart_after h sid a fresh (restart_cancel a m))"

section \<open>Creating\<close>

record layout =
  l_workDir :: string
  l_owned :: bool
  l_persistent :: bool
  l_envID :: string
  l_repoDir :: string
  l_envBacked :: bool
  l_runtimeDir :: string

definition session_layout :: "sessionOptions \<Rightarrow> NodeCreateSession \<Rightarrow> layout" where
  "session_layout opts spec =
    (let sid = trim_space (cs_session_id spec); task = trim_space (cs_task_id spec);
         shared = trim_space (tag spec ''editor_workdir'');
         worktree = usesWorktree spec; external = externalWorktreePath spec;
         envBacked = (worktree \<or> external \<noteq> []);
         envID = (if worktree then env_id_tag spec else []);
         imported = importedCheckoutPath spec;
         wd = (if external \<noteq> [] then external
               else if worktree then envWorktreeDir opts envID task
               else if task \<noteq> [] then path_join [workRoot opts, ''tasks'', sanitizeSessionDir task]
               else if shared \<noteq> [] then path_join [workRoot opts, sanitizeSessionDir shared]
               else path_join [workRoot opts, sanitizeSessionDir sid])
     in \<lparr> l_workDir = wd,
          l_owned = (task = [] \<and> shared = [] \<and> \<not> envBacked),
          l_persistent = (task \<noteq> [] \<or> envBacked),
          l_envID = envID,
          l_repoDir = (if \<not> worktree then [] else if imported \<noteq> [] then imported else envRepoDir opts envID),
          l_envBacked = envBacked,
          l_runtimeDir = (if envBacked
             then path_join [envDir opts (if external \<noteq> [] then env_id_tag spec else envID), ''.agent-compose'', ''sessions'', sanitizeSessionDir sid]
             else path_join [wd, ''.agent-compose'', ''sessions'', sanitizeSessionDir sid]) \<rparr>)"

definition new_session :: "NodeCreateSession \<Rightarrow> layout \<Rightarrow> string \<Rightarrow> nodeSession" where
  "new_session spec l hm =
    \<lparr> ns_id = trim_space (cs_session_id spec), taskID = trim_space (cs_task_id spec), editorID = trim_space (cs_editor_id spec),
      editorSessionID = trim_space (cs_editor_session_id spec), projectID = trim_space (cs_project_id spec),
      ns_provider = trim_space (cs_provider spec), workDir = l_workDir l, runtimeDir = l_runtimeDir l,
      workspaceOwned = l_owned l, persistentWorkspace = l_persistent l, worktreeEnvID = l_envID l, worktreeRepoDir = l_repoDir l,
      stateRoot = path_join [l_runtimeDir l, ''state''], home = hm, skillsDir = path_join [l_runtimeDir l, ''skills''],
      pluginsDir = path_join [l_runtimeDir l, ''plugins''], ns_spec = spec, ns_queue = newOutputQueue, fileService = False,
      ctx_cancelled = False, ns_state = sessionProvisioning, ns_llm = cs_llm spec, ns_mode = trim_space (cs_mode spec),
      interactive = cs_interactive spec, appliedRevision = 0, effectiveRevision = 0, ns_executor = None, ns_run = None,
      ns_runs = [], ns_streams = [], structSeq = 0, seenMessageIDs = [], pendingInputs = [], in_write = None, accepted = [] \<rparr>"

definition create :: "host \<Rightarrow> NodeCreateSession \<Rightarrow> session_error option handler" where
  "create h spec m =
    (let sid = trim_space (cs_session_id spec); l = session_layout (h_opts h) spec in
     if sid = [] then (Some SessionIdRequired, m)
     else if trim_space (cs_provider spec) = [] then (Some ProviderRequired, m)
     else if mget (m_table m) sid \<noteq> None then (Some AlreadyExists, m)
     else let (hm, s) = resolveHome (h_opts h) (h_userHome h) spec (l_runtimeDir l) (gfs (m_world m));
              m = m\<lparr> m_world := (m_world m)\<lparr> gfs := s \<rparr> \<rparr>
       in case hm of
            Inl e \<Rightarrow> (Some (SessEnv e), m)
          | Inr hm \<Rightarrow>
              (let ns = new_session spec l hm;
                   m = reportStage sid STAGE_WORKSPACE_PREPARE True None m;
                   (e, m) = in_world (in_fs SessFs (make_dirs ([stateRoot ns, hm, skillsDir ns, pluginsDir ns]
                       @ (if l_envBacked l then [] else [workDir ns])))) m
               in case e of
                    Some x \<Rightarrow> (Some x, reportStage sid STAGE_WORKSPACE_PREPARE False (Some x) m)
                  | None \<Rightarrow> (None, m\<lparr> m_table := mput sid (length (m_heap m)) (m_table m), m_heap := m_heap m @ [ns],
                       m_jobs := m_jobs m @ [length (m_heap m)] \<rparr>)))"

section \<open>Provisioning\<close>

definition removeFailedSession :: "string \<Rightarrow> sessionManager \<Rightarrow> sessionManager" where
  "removeFailedSession sid m = m\<lparr> m_table := mdel sid (m_table m) \<rparr>"

definition has_git :: "NodeCreateSession \<Rightarrow> NodeGitSpec option" where
  "has_git spec = (case cs_git spec of
      None \<Rightarrow> None | Some g \<Rightarrow> if trim_space (git_url g) = [] then None else Some g)"

definition prov_external :: "host \<Rightarrow> nat \<Rightarrow> session_error option handler" where
  "prov_external h a m =
    (let spec = ns_spec (sess m a); external = externalWorktreePath spec in
     if external = [] then (None, m)
     else let m = reportStage (ns_id (sess m a)) STAGE_GIT_CLONE True None m
       in if workspaceMode spec = workspaceModeFresh
          then (case has_git spec of
                  None \<Rightarrow> (None, m)
                | Some g \<Rightarrow> in_world (\<lambda>w. on_sess SessGit (provisionGit (h_git h) external g w)) m)
          else if stat (gfs (m_world m)) external = Inr NDir then (None, m) else (Some NotADirectory, m))"

definition prov_clone :: "host \<Rightarrow> nat \<Rightarrow> session_error option handler" where
  "prov_clone h a m =
    (let s = sess m a; spec = ns_spec s in
     if externalWorktreePath spec \<noteq> [] then (None, m)
     else case has_git spec of
         None \<Rightarrow> (None, m)
       | Some g \<Rightarrow>
           (let m = reportStage (ns_id s) STAGE_GIT_CLONE True None m in
            if worktreeEnvID s \<noteq> []
            then (case prepareWorktree (h_git h) (h_opts h) spec g (m_world m) of
                    (Inl e, w) \<Rightarrow> (Some (SessGit e), m\<lparr> m_world := w \<rparr>)
                  | (Inr path, w) \<Rightarrow>
                      (None, upd a (\<lambda>s. s\<lparr> workDir := path \<rparr>)
                        (m\<lparr> m_world := w\<lparr> gfs := linkSharedDeps path (worktreeRepoDir s) sharedDepDirs (gfs w) \<rparr> \<rparr>)))
            else in_world (\<lambda>w. on_sess SessGit (provisionGit (h_git h) (workDir s) g w)) m))"

definition prov_rest :: "host \<Rightarrow> nat \<Rightarrow> string \<Rightarrow> sessionManager \<Rightarrow> sessionManager" where
  "prov_rest h a wd m =
    (let spec = ns_spec (sess m a); sid = ns_id (sess m a);
         m = m\<lparr> m_world := provisionAssociatedRepos (h_git h) (h_parse h) wd spec (m_world m) \<rparr>;
         m = upd a (\<lambda>s. s\<lparr> fileService := h_fileService h \<rparr>) m;
         syncs = (cs_skills spec \<noteq> [] \<or> cs_plugins spec \<noteq> []);
         m = (if syncs then reportStage sid STAGE_RESOURCE_SYNC True None m else m);
         (e, m) = in_world (applyInitialConfig h (sess m a)) m;
         m = crash_on e (if e \<noteq> None \<and> syncs then reportStage sid STAGE_RESOURCE_SYNC False e m else m);
         m = upd a (\<lambda>s. if ns_state s = sessionProvisioning then s\<lparr> ns_state := sessionProvisioned \<rparr> else s) m
     in if cs_defer_start spec then m else snd (startRuntime h sid m))"

definition provisionSession :: "host \<Rightarrow> nat \<Rightarrow> sessionManager \<Rightarrow> sessionManager" where
  "provisionSession h a m =
    (case and_then (prov_external h a m) (prov_clone h a) of
       (Some e, m') \<Rightarrow> removeFailedSession (ns_id (sess m a)) (reportStage (ns_id (sess m a)) STAGE_GIT_CLONE False (Some e) m')
     | (None, m') \<Rightarrow> prov_rest h a (workDir (sess m a)) m')"

section \<open>Deleting and listing\<close>

definition delete_begin :: "string \<Rightarrow> nat \<Rightarrow> sessionManager \<Rightarrow> sessionManager" where
  "delete_begin sid a m =
    upd a (\<lambda>s. s\<lparr> ctx_cancelled := True, ns_runs := map (\<lambda>rn. rn\<lparr> r_cancelled := True \<rparr>) (ns_runs s) \<rparr>)
      (m\<lparr> m_table := mdel (trim_space sid) (m_table m) \<rparr>)"

definition removed_dir :: "nodeSession \<Rightarrow> string" where
  "removed_dir s = (if workspaceOwned s \<and> \<not> persistentWorkspace s then workDir s else runtimeDir s)"

definition delete_end :: "host \<Rightarrow> nat \<Rightarrow> session_error option handler" where
  "delete_end h a m =
    (let m = upd a (\<lambda>s. s\<lparr> fileService := False \<rparr>) (failPendingInputs a FailDeleted m); s = sess m a
     in case remove_all (gfs (m_world m)) (removed_dir s) of
          Inl e \<Rightarrow> (Some (SessFs e), m)
        | Inr s' \<Rightarrow>
            (let w = (m_world m)\<lparr> gfs := s' \<rparr>
             in (None, m\<lparr> m_world := (if worktreeEnvID s = [] then w
                   else removeWorktree (h_git h) (h_opts h) (worktreeEnvID s) (taskID s) (worktreeRepoDir s) w) \<rparr>)))"

definition delete_session :: "host \<Rightarrow> string \<Rightarrow> session_error option handler" where
  "delete_session h sid m = (case lookupSession sid m of
      None \<Rightarrow> (Some NotFound, m)
    | Some a \<Rightarrow> delete_end h a (delete_begin sid a m))"

definition stop_run :: "nodeSession \<Rightarrow> nodeSession" where
  "stop_run s0 =
    (let s = s0\<lparr> ns_state := (if ns_state s0 = sessionRunning then sessionProvisioned else ns_state s0) \<rparr>
     in case ns_run s of None \<Rightarrow> s | Some r \<Rightarrow> at_run r (\<lambda>rn. rn\<lparr> r_cancelled := True \<rparr>) s)"

definition stopAll :: "sessionManager \<Rightarrow> sessionManager" where
  "stopAll m = fold (\<lambda>(sid, a). upd a stop_run) (m_table m) m"

definition activeIDs :: "sessionManager \<Rightarrow> string list" where
  "activeIDs m = map fst (m_table m)"

definition summaries :: "sessionManager \<Rightarrow> (string \<times> string \<times> string) list" where
  "summaries m = map (\<lambda>(sid, a). (ns_id (sess m a), projectID (sess m a), ns_provider (sess m a))) (m_table m)"

definition workspaceDir :: "string \<Rightarrow> sessionManager \<Rightarrow> string" where
  "workspaceDir sid m = (if trim_space sid = [] then []
    else case lookupSession sid m of None \<Rightarrow> [] | Some a \<Rightarrow> workDir (sess m a))"

definition markArtifactsCollectable :: "string \<Rightarrow> sessionManager \<Rightarrow> session_error option" where
  "markArtifactsCollectable sid m = (case lookupSession sid m of
      None \<Rightarrow> Some NotFound | Some a \<Rightarrow> if fileService (sess m a) then None else Some NoFileService)"

section \<open>Interleavings\<close>

text \<open>
  The provisioning goroutines, the runs and whoever holds \<open>drainMu\<close> proceed between and
  during the frames of the dispatch loop.  Waiting for a run to end is a guard.  Each provisioning
  goroutine is one step.
\<close>

datatype config_op =
    OpLLM "NodeLLMConfig option" | OpMCPs "MCPServerSpec list" | OpSkills "SkillSpec list"
  | OpPlugins "NodePluginSpec list" | OpMode string

datatype action =
    ACreate NodeCreateSession
  | AProvision nat
  | AConfigure string "64 word" config_op
  | AInput NodeSessionInput
  | ATake nat
  | APut nat
  | AStart string
  | ARestartCancel string bool
  | ARestart
  | AStopAll
  | ADeleteBegin string
  | ADeleteEnd
  | ASpawn nat nat bool
  | AGreet nat nat
  | ALine nat nat string
  | ABreak nat nat
  | AExit nat nat int "session_error option"
  | AFinish nat nat

definition configure :: "host \<Rightarrow> string \<Rightarrow> 64 word \<Rightarrow> config_op \<Rightarrow> (session_error + configResult) handler" where
  "configure h sid revision c = (case c of
      OpLLM llm \<Rightarrow> configureLLM h sid revision llm
    | OpMCPs mcps \<Rightarrow> applyMCPs h sid revision mcps
    | OpSkills skills \<Rightarrow> applySkills h sid revision skills
    | OpPlugins plugins \<Rightarrow> applyPlugins h sid revision plugins
    | OpMode mode \<Rightarrow> configureMode sid revision mode)"

definition has_run :: "sessionManager \<Rightarrow> nat \<Rightarrow> nat \<Rightarrow> bool" where
  "has_run m a r \<longleftrightarrow> a < length (m_heap m) \<and> r < length (ns_runs (sess m a))"

fun exited :: "run_phase \<Rightarrow> bool" where
  "exited (Exited _ _) = True"
| "exited _ = False"

fun dispatched :: "action \<Rightarrow> bool" where
  "dispatched (ACreate _) = True"
| "dispatched (AConfigure _ _ _) = True"
| "dispatched (AInput _) = True"
| "dispatched (AStart _) = True"
| "dispatched (ARestartCancel _ _) = True"
| "dispatched (ADeleteBegin _) = True"
| "dispatched AStopAll = True"
| "dispatched _ = False"

fun sstep :: "host \<Rightarrow> sessionManager \<Rightarrow> action \<Rightarrow> sessionManager option" where
  "sstep h m (ACreate spec) = Some (snd (create h spec m))"
| "sstep h m (AProvision a) =
    (if a \<in> set (m_jobs m) then Some (provisionSession h a (m\<lparr> m_jobs := removeAll a (m_jobs m) \<rparr>)) else None)"
| "sstep h m (AConfigure sid revision c) = Some (snd (configure h sid revision c m))"
| "sstep h m (AInput input) = Some (snd (accept_input input m))"
| "sstep h m (ATake a) = (if a < length (m_heap m) \<and> in_write (sess m a) = None then Some (snd (drain_take a m)) else None)"
| "sstep h m (APut a) = (if a < length (m_heap m) \<and> in_write (sess m a) \<noteq> None then Some (snd (drain_put a m)) else None)"
| "sstep h m (AStart sid) = Some (snd (startRuntime h sid m))"
| "sstep h m (ARestartCancel sid fresh) = map_option (\<lambda>a.
      (restart_cancel a m)\<lparr> m_dispatch := Restarting sid fresh a (ns_run (sess m a)) \<rparr>) (lookupSession sid m)"
| "sstep h m ARestart = (case m_dispatch m of
      Restarting sid fresh a r \<Rightarrow>
        if run_over m a r then Some (snd (restart_after h sid a fresh (m\<lparr> m_dispatch := Ready \<rparr>))) else None
    | _ \<Rightarrow> None)"
| "sstep h m AStopAll = Some (stopAll m)"
| "sstep h m (ADeleteBegin sid) = map_option (\<lambda>a.
      (delete_begin sid a m)\<lparr> m_dispatch := Deleting a (ns_run (sess m a)) \<rparr>) (lookupSession sid m)"
| "sstep h m ADeleteEnd = (case m_dispatch m of
      Deleting a r \<Rightarrow> if run_over m a r then Some (snd (delete_end h a (m\<lparr> m_dispatch := Ready \<rparr>))) else None
    | _ \<Rightarrow> None)"
| "sstep h m (ASpawn a r ok) = (if has_run m a r \<and> phase_of m a r = Spawning then Some (run_spawn a r ok m) else None)"
| "sstep h m (AGreet a r) = (if has_run m a r \<and> phase_of m a r = Attached then Some (run_greet h a r m) else None)"
| "sstep h m (ALine a r line) = (if has_run m a r \<and> phase_of m a r = Live then Some (run_line h a r line m) else None)"
| "sstep h m (ABreak a r) = (if has_run m a r
      then Some (upd a (\<lambda>s. stream_at (r_exec (ns_runs s ! r)) (\<lambda>e. e\<lparr> st_broken := True \<rparr>) s) m) else None)"
| "sstep h m (AExit a r code err) = (if has_run m a r \<and> phase_of m a r = Live then Some (run_exit a r code err m) else None)"
| "sstep h m (AFinish a r) = (if has_run m a r \<and> exited (phase_of m a r) then Some (run_finish a r m) else None)"

definition mstep :: "host \<Rightarrow> sessionManager \<Rightarrow> action \<Rightarrow> sessionManager option" where
  "mstep h m e = (if m_crashed m \<or> dispatched e \<and> m_dispatch m \<noteq> Ready then None else sstep h m e)"

section \<open>Sample data\<close>

definition demo_host :: host where
  "demo_host = \<lparr> h_opts = demo_opts, h_git = demo_git, h_http = (\<lambda>_ _. Unreachable), h_parse = (\<lambda>_. None), h_marshal = (\<lambda>_. []),
     h_origin = ''o'', h_userHome = None, h_installed = True, h_fileService = True \<rparr>"

definition demo_session :: "string \<Rightarrow> NodeCreateSession" where
  "demo_session sid = demo_spec\<lparr> cs_session_id := sid, cs_task_id := [] \<rparr>"

definition demo_message :: "string \<Rightarrow> NodeSessionInput" where
  "demo_message mid = \<lparr> in_session_id = ''s'', in_kind = [], in_text = ''hi'', in_client_message_id = mid, in_delivery_attempt = 1,
     in_model = [], in_mode = [], in_llm = None \<rparr>"

text \<open>A session with one message waiting, whose provider has been started and not yet been greeted.\<close>

definition demo_schedule :: "action list" where
  "demo_schedule = [ACreate (demo_session ''s''), AProvision 0, AInput (demo_message ''m''), ASpawn 0 0 True]"

definition demo_run :: "action list \<Rightarrow> sessionManager option" where
  "demo_run es = exec (mstep demo_host) (newSessionManager demo_world) (demo_schedule @ es)"

end
