(* ===== verification/Session_Invariants.thy ===== *)
theory Session_Invariants
  imports Session_Manager
begin

text \<open>
  Invariants of sessions.  A step of the session manager changes one session of the heap in a small
  number of ways; the locale \<open>session_invariant\<close> lists them and concludes that a predicate on
  sessions that each of them keeps holds in every state a schedule reaches.
\<close>

section \<open>Operations on one session of the heap\<close>

definition allS :: "(nodeSession \<Rightarrow> bool) \<Rightarrow> sessionManager \<Rightarrow> bool" where
  "allS P m \<longleftrightarrow> list_all P (m_heap m)"

lemma allS_upd: "allS P m \<Longrightarrow> (a < length (m_heap m) \<Longrightarrow> P (sess m a) \<Longrightarrow> P (f (sess m a))) \<Longrightarrow> allS P (upd a f m)"
  by (auto simp: allS_def upd_def sess_def list_all_length nth_upd)

lemma allS_iff: "allS P m \<longleftrightarrow> (\<forall>a < length (m_heap m). P (sess m a))"
  by (simp add: allS_def sess_def list_all_length)

lemma allS_sess: "allS P m \<Longrightarrow> a < length (m_heap m) \<Longrightarrow> P (sess m a)"
  by (simp add: allS_def sess_def list_all_length)

lemma heap_simps [simp]:
  "m_heap (emit u m) = m_heap m" "m_heap (reportStage sid st ok e m) = m_heap m" "m_heap (crash_on e m) = m_heap m"
  "m_heap (snd (in_world f m)) = m_heap m" "m_heap (reportResult a c ok e j m) = m_heap m"
  "m_heap (removeFailedSession sid m) = m_heap m"
  by (simp_all add: emit_def reportStage_def crash_on_def in_world_def reportResult_def removeFailedSession_def split: prod.split)

lemma sess_simps [simp]:
  "sess (emit u m) = sess m" "sess (reportStage sid st ok e m) = sess m" "sess (crash_on e m) = sess m"
  "sess (snd (in_world f m)) = sess m" "sess (reportResult a c ok e j m) = sess m" "sess (removeFailedSession sid m) = sess m"
  by (simp_all add: fun_eq_iff sess_def)

lemma length_upd [simp]: "length (m_heap (upd a f m)) = length (m_heap m)"
  by (simp add: upd_def)

lemma sess_upd: "b < length (m_heap m) \<Longrightarrow> sess (upd a f m) b = (if b = a then f (sess m a) else sess m b)"
  by (auto simp: upd_def sess_def nth_upd)

lemma allS_simps [simp]:
  "allS P (emit u m) = allS P m" "allS P (reportStage sid st ok e m) = allS P m" "allS P (crash_on e m) = allS P m"
  "allS P (snd (in_world f m)) = allS P m" "allS P (reportResult a c ok e j m) = allS P m" "allS P (removeFailedSession sid m) = allS P m"
  by (simp_all add: allS_def)

text \<open>The sequence number of structured events takes no part in what follows.\<close>

definition seq_free :: "(nodeSession \<Rightarrow> bool) \<Rightarrow> bool" where
  "seq_free P \<longleftrightarrow> (\<forall>s n. P (s\<lparr> structSeq := n \<rparr>) = P s)"

lemma length_heap_status [simp]:
  "length (m_heap (emitInputStatus sid mid att f m)) = length (m_heap m)"
  "length (m_heap (reportInputFailure a reason i m)) = length (m_heap m)"
  by (simp_all add: emitInputStatus_def reportInputFailure_def Let_def split: option.split)

lemma allS_status: "seq_free P \<Longrightarrow> allS P (emitInputStatus sid mid att f m) = allS P m"
proof -
  assume P: "seq_free P"
  have "allS P (upd b (\<lambda>s. s\<lparr> structSeq := structSeq s + 1 \<rparr>) m) = allS P m" for b
    using P by (simp add: allS_def upd_def list_all_length nth_upd seq_free_def) (metis)
  then show ?thesis by (simp add: emitInputStatus_def Let_def split: option.split)
qed

lemma sess_status: "b < length (m_heap m) \<Longrightarrow> \<exists>n. sess (emitInputStatus sid mid att f m) b = (sess m b)\<lparr> structSeq := n \<rparr>"
proof -
  assume b: "b < length (m_heap m)"
  have id: "s = s\<lparr> structSeq := structSeq s \<rparr>" for s :: nodeSession by simp
  then have "\<exists>n. sess m b = (sess m b)\<lparr> structSeq := n \<rparr>" by blast
  then show ?thesis using b by (auto simp: emitInputStatus_def Let_def sess_upd split: option.split)
qed

definition unreserve :: "NodeSessionInput \<Rightarrow> nodeSession \<Rightarrow> nodeSession" where
  "unreserve i s = (if trim_space (in_client_message_id i) = [] then s
     else s\<lparr> seenMessageIDs := removeAll (messageKey i) (seenMessageIDs s) \<rparr>)"

lemma allS_failure:
  assumes "seq_free P" "allS P m" "a < length (m_heap m) \<Longrightarrow> P (unreserve i (sess m a))"
  shows "allS P (reportInputFailure a reason i m)"
  using assms by (auto simp: reportInputFailure_def Let_def allS_status unreserve_def intro!: allS_upd)

lemma sess_failure:
  "a < length (m_heap m) \<Longrightarrow> \<exists>n. sess (reportInputFailure a reason i m) a = (unreserve i (sess m a))\<lparr> structSeq := n \<rparr>"
proof -
  assume a: "a < length (m_heap m)"
  have "\<exists>n. sess m a = (sess m a)\<lparr> structSeq := n \<rparr>" by (rule exI[of _ "structSeq (sess m a)"]) simp
  then show ?thesis using a sess_status[of a "upd a f m" for f]
    by (auto simp: reportInputFailure_def Let_def unreserve_def sess_upd)
qed


lemma failPending_heap:
  assumes a: "a < length (m_heap m)"
  shows "\<exists>n. sess (failPendingInputs a reason m) a = (fold unreserve (pendingInputs (sess m a)) ((sess m a)\<lparr> pendingInputs := [] \<rparr>))\<lparr> structSeq := n \<rparr>"
proof -
  have "\<exists>n. sess (fold (reportInputFailure a reason) is k) a = (fold unreserve is (sess k a))\<lparr> structSeq := n \<rparr>"
    if "a < length (m_heap k)" for "is" k
    using that
  proof (induction "is" arbitrary: k)
    case Nil
    show ?case by (intro exI[of _ "structSeq (sess k a)"]) simp
  next
    case (Cons i "is")
    have u: "unreserve j (s\<lparr> structSeq := n \<rparr>) = (unreserve j s)\<lparr> structSeq := n \<rparr>" for j s n by (simp add: unreserve_def)
    have f: "fold unreserve js (s\<lparr> structSeq := n \<rparr>) = (fold unreserve js s)\<lparr> structSeq := n \<rparr>" for js s n
      by (induction js arbitrary: s) (simp_all add: u)
    obtain n where "sess (reportInputFailure a reason i k) a = (unreserve i (sess k a))\<lparr> structSeq := n \<rparr>"
      using sess_failure[OF Cons.prems] by blast
    with Cons.IH[of "reportInputFailure a reason i k"] Cons.prems show ?case by (auto simp: f)
  qed
  from this[of "upd a (\<lambda>s. s\<lparr> pendingInputs := [] \<rparr>) m" "pendingInputs (sess m a)"] a show ?thesis
    by (simp add: failPendingInputs_def sess_upd)
qed

lemma length_failPending [simp]: "length (m_heap (failPendingInputs a reason m)) = length (m_heap m)"
proof -
  have "length (m_heap (fold (reportInputFailure a reason) is k)) = length (m_heap k)" for "is" k
    by (induction "is" arbitrary: k) simp_all
  then show ?thesis by (simp add: failPendingInputs_def)
qed

lemma failPending_other:
  assumes "seq_free P" "b < length (m_heap m)" "b \<noteq> a"
  shows "P (sess (failPendingInputs a reason m) b) = P (sess m b)"
proof -
  have r: "P (sess (reportInputFailure a reason i k) b) = P (sess k b)" if b: "b < length (m_heap k)" for i k
  proof -
    have "\<exists>n. sess (reportInputFailure a reason i k) b = (sess k b)\<lparr> structSeq := n \<rparr>"
    proof (cases "trim_space (in_client_message_id i) = []")
      case True
      then have "sess (reportInputFailure a reason i k) b = (sess k b)\<lparr> structSeq := structSeq (sess k b) \<rparr>"
        by (simp add: reportInputFailure_def)
      then show ?thesis by blast
    next
      case False
      then show ?thesis
        using sess_status[of b "upd a (\<lambda>s. s\<lparr> seenMessageIDs := removeAll (messageKey i) (seenMessageIDs s) \<rparr>) k"] assms(3) b
        by (simp add: reportInputFailure_def Let_def sess_upd)
    qed
    then show ?thesis using assms(1) by (auto simp: seq_free_def)
  qed
  have "P (sess (fold (reportInputFailure a reason) is k) b) = P (sess k b)" if "b < length (m_heap k)" for "is" k
    using that by (induction "is" arbitrary: k) (simp_all add: r)
  then show ?thesis using assms(2,3) by (simp add: failPendingInputs_def sess_upd)
qed

lemma allS_failPending:
  assumes "seq_free P" "allS P m"
    "a < length (m_heap m) \<Longrightarrow> P (fold unreserve (pendingInputs (sess m a)) ((sess m a)\<lparr> pendingInputs := [] \<rparr>))"
  shows "allS P (failPendingInputs a reason m)"
  unfolding allS_iff
proof (intro allI impI)
  fix b assume b: "b < length (m_heap (failPendingInputs a reason m))"
  show "P (sess (failPendingInputs a reason m) b)"
  proof (cases "b = a")
    case True
    then show ?thesis using failPending_heap[of a m reason] assms b by (auto simp: seq_free_def)
  next
    case False
    then show ?thesis using failPending_other[OF assms(1) _ False] assms(2) b by (simp add: allS_iff)
  qed
qed

lemma runs_unreserve [simp]: "ns_runs (fold unreserve is s) = ns_runs s" "ns_state (fold unreserve is s) = ns_state s"
  by (induction "is" arbitrary: s) (simp_all add: unreserve_def)

lemma failPending_runs: "a < length (m_heap m) \<Longrightarrow> ns_runs (sess (failPendingInputs a reason m) a) = ns_runs (sess m a)"
  using failPending_heap[of a m reason] by auto

lemma snd_in_world: "in_world f m = (e, m') \<Longrightarrow> m' = snd (in_world f m)"
  by simp

lemma allS_world: "in_world f m = (e, m') \<Longrightarrow> allS P m' = allS P m"
  by (drule snd_in_world) simp

lemma sess_world: "in_world f m = (e, m') \<Longrightarrow> sess m' = sess m"
  by (drule snd_in_world) simp

lemma heap_world: "in_world f m = (e, m') \<Longrightarrow> m_heap m' = m_heap m"
  by (drule snd_in_world) simp

lemma allS_emit_fold [simp]: "allS P (fold (\<lambda>ev. emit (f ev)) evs m) = allS P m"
  by (induction evs arbitrary: m) simp_all

lemma allS_world_upd [simp]: "allS P (m\<lparr> m_world := w \<rparr>) = allS P m" "allS P (m\<lparr> m_jobs := js \<rparr>) = allS P m" "allS P (m\<lparr> m_table := tb \<rparr>) = allS P m"
  "allS P (m\<lparr> m_dispatch := d \<rparr>) = allS P m"
  by (simp_all add: allS_def)

lemma allS_simple: "allS P m \<Longrightarrow> (\<And>s. P s \<Longrightarrow> P (f s)) \<Longrightarrow> allS P (upd a f m)"
  by (rule allS_upd) blast+

section \<open>What a step does to a session\<close>

definition reserve :: "NodeSessionInput \<Rightarrow> nodeSession \<Rightarrow> nodeSession" where
  "reserve i s = (if is_human i \<and> trim_space (in_client_message_id i) \<noteq> []
     then s\<lparr> seenMessageIDs := messageKey i # seenMessageIDs s \<rparr> else s)"

definition enqueue :: "NodeSessionInput \<Rightarrow> nodeSession \<Rightarrow> nodeSession" where
  "enqueue i s = s\<lparr> pendingInputs := pendingInputs s @ [i],
     accepted := accepted s @ (if is_human i \<and> trim_space (in_client_message_id i) \<noteq> [] then [messageKey i] else []) \<rparr>"

definition fresh_input :: "NodeSessionInput \<Rightarrow> nodeSession \<Rightarrow> bool" where
  "fresh_input i s \<longleftrightarrow> (is_human i \<longrightarrow> trim_space (in_client_message_id i) \<noteq> [] \<longrightarrow> messageKey i \<notin> set (seenMessageIDs s))"

definition put_frame :: "nat \<Rightarrow> streamExecutor \<Rightarrow> nodeSession \<Rightarrow> nodeSession" where
  "put_frame k e s = s\<lparr> ns_streams := (ns_streams s)[k := e], in_write := None \<rparr>"

text \<open>
  The actions a schedule may contain: inputs of the given kind, and the two that make a session
  startable whose editor may still be running, or not.
\<close>

definition allowed_action :: "(NodeSessionInput \<Rightarrow> bool) \<Rightarrow> bool \<Rightarrow> action \<Rightarrow> bool" where
  "allowed_action ok_input stops e \<longleftrightarrow> (case e of AInput i \<Rightarrow> ok_input i | AStopAll \<Rightarrow> stops | ARestart \<Rightarrow> stops | _ \<Rightarrow> True)"

locale session_invariant =
  fixes h :: host and P :: "nodeSession \<Rightarrow> bool" and ok_input :: "NodeSessionInput \<Rightarrow> bool" and stops :: bool
  assumes frame: "P (s\<lparr> structSeq := n \<rparr>) = P s" "P (s\<lparr> workDir := d \<rparr>) = P s" "P (s\<lparr> fileService := b \<rparr>) = P s"
      "P (s\<lparr> ns_queue := q \<rparr>) = P s" "P (s\<lparr> ns_llm := l \<rparr>) = P s" "P (s\<lparr> ns_mode := md \<rparr>) = P s" "P (s\<lparr> ctx_cancelled := b \<rparr>) = P s"
    and created: "P (new_session spec (session_layout (h_opts h) spec) hm)"
    and revised: "P s \<Longrightarrow> P (recordRevisionLocked rv s)"
    and begun: "P s \<Longrightarrow> ns_state s \<noteq> sessionRunning \<Longrightarrow> P (begin_run kind s)"
    and provisioned: "P s \<Longrightarrow> ns_state s = sessionProvisioning \<Longrightarrow> P (s\<lparr> ns_state := sessionProvisioned \<rparr>)"
    and restarted: "stops \<Longrightarrow> P s \<Longrightarrow> P (s\<lparr> ns_state := sessionProvisioned \<rparr>)"
    and cancelled: "P s \<Longrightarrow> P (at_run r (\<lambda>rn. rn\<lparr> r_cancelled := True \<rparr>) s)"
    and all_cancelled: "P s \<Longrightarrow> P (s\<lparr> ns_runs := map (\<lambda>rn. rn\<lparr> r_cancelled := True \<rparr>) (ns_runs s) \<rparr>)"
    and stopped: "stops \<Longrightarrow> P s \<Longrightarrow> P (stop_run s)"
    and attached: "P s \<Longrightarrow> r < length (ns_runs s) \<Longrightarrow> r_phase (ns_runs s ! r) = Spawning \<Longrightarrow>
      P (at_run r (set_phase Attached) (stream_at (r_exec (ns_runs s ! r)) attach_stdin s))"
    and greeted: "P s \<Longrightarrow> send_start si spec skills plugins (ns_streams s ! k) = (err, e) \<Longrightarrow> P (stream_at (StreamEx k) (\<lambda>_. e) s)"
    and moved: "P s \<Longrightarrow> r < length (ns_runs s) \<Longrightarrow> r_phase (ns_runs s ! r) \<noteq> Ended \<Longrightarrow> p \<noteq> Spawning \<Longrightarrow> p \<noteq> Ended \<Longrightarrow>
      P (at_run r (set_phase p) s)"
    and ended: "P s \<Longrightarrow> r < length (ns_runs s) \<Longrightarrow> r_phase (ns_runs s ! r) \<noteq> Ended \<Longrightarrow> P (at_run r (set_phase Ended) (markStopped s))"
    and piped: "P s \<Longrightarrow> (\<And>e. st_stdin (f e) = st_stdin e) \<Longrightarrow> P (stream_at x f s)"
    and announced: "P s \<Longrightarrow> P (at_run r (\<lambda>rn. rn\<lparr> r_result := j \<rparr>) s)"
    and failed: "P s \<Longrightarrow> P (fold unreserve (pendingInputs s) (s\<lparr> pendingInputs := [] \<rparr>))"
    and taken: "P s \<Longrightarrow> in_write s = None \<Longrightarrow> pendingInputs s \<noteq> [] \<Longrightarrow> ns_executor s = Some (StreamEx k) \<Longrightarrow>
      P (s\<lparr> in_write := Some (hd (pendingInputs s), k), pendingInputs := tl (pendingInputs s) \<rparr>)"
    and written: "P s \<Longrightarrow> in_write s = Some (i, k) \<Longrightarrow> deliver i (ns_streams s ! k) = (err, e) \<Longrightarrow> P (put_frame k e s)"
    and put_back: "P s \<Longrightarrow> in_write s = Some (i, k) \<Longrightarrow> deliver i (ns_streams s ! k) = (Some er, e) \<Longrightarrow>
      P ((put_frame k e s)\<lparr> pendingInputs := i # pendingInputs s \<rparr>)"
    and refused: "P s \<Longrightarrow> in_write s = Some (i, k) \<Longrightarrow> deliver i (ns_streams s ! k) = (Some er, e) \<Longrightarrow> P (unreserve i (put_frame k e s))"
    and reserved: "P s \<Longrightarrow> P (reserve i s)"
    and queued: "P s \<Longrightarrow> ok_input i \<Longrightarrow> fresh_input i s \<Longrightarrow> P (enqueue i (reserve i s))"
    and rejected: "P s \<Longrightarrow> ok_input i \<Longrightarrow> fresh_input i s \<Longrightarrow> P (unreserve i (reserve i s))"
    and stamped: "ok_input (stampInputSnapshot s i) = ok_input i"
begin

lemma seq_free_P: "seq_free P"
  by (simp add: seq_free_def frame)

lemma allS_fail: "allS P m \<Longrightarrow> allS P (failPendingInputs a reason m)"
  by (rule allS_failPending[OF seq_free_P]) (auto intro: failed allS_sess)

lemma allS_run_failed:
  assumes "allS P m" "has_run m a r" "phase_of m a r \<noteq> Ended"
  shows "allS P (run_failed a r e m)"
proof -
  let ?m = "reportResult a 1 False (Some e) [] (failPendingInputs a (FailSpawn e) (reportStage (ns_id (sess m a)) STAGE_RUNTIME_START False (Some e) m))"
  have "allS P ?m" using assms(1) by (simp add: allS_fail)
  moreover have "ns_runs (sess ?m a) = ns_runs (sess m a)" using assms(2) by (simp add: failPending_runs has_run_def)
  ultimately have "allS P (upd a (\<lambda>s. at_run r (set_phase Ended) (markStopped (s\<lparr> ns_queue := close_queue (ns_queue s) \<rparr>))) ?m)"
    using assms(2,3) by (intro allS_upd) (auto simp: frame has_run_def phase_of_def intro!: ended)
  then show ?thesis by (simp add: run_failed_def Let_def)
qed

lemma allS_start: "allS P m \<Longrightarrow> allS P (snd (startRuntime h sid m))"
  by (auto simp: startRuntime_def Let_def split: option.split sum.split intro!: allS_upd begun)

lemma allS_spawn:
  assumes "allS P m" "has_run m a r" "phase_of m a r = Spawning"
  shows "allS P (run_spawn a r ok m)"
proof -
  let ?x = "r_exec (ns_runs (sess m a) ! r)"
  obtain e m1 where m1: "(case ?x of DockerEx _ \<Rightarrow> (None, m) | _ \<Rightarrow> in_world (in_fs SessFs (make_dirs [stateRoot (sess m a), home (sess m a)])) m) = (e, m1)"
    by (meson surj_pair)
  then have s: "allS P m1" "sess m1 = sess m" "m_heap m1 = m_heap m"
    using assms(1) by (auto simp: allS_world sess_world heap_world split: executor.splits)
  have h: "has_run m1 a r" "phase_of m1 a r = Spawning" using assms(2,3) s(2,3) by (simp_all add: has_run_def phase_of_def)
  have at: "allS P (upd a (\<lambda>s. at_run r (set_phase Attached) (stream_at ?x attach_stdin s)) m1)"
    by (rule allS_upd[OF s(1)]) (use attached[of "sess m a" r] assms(2,3) in \<open>simp add: s(2) has_run_def phase_of_def\<close>)
  have live: "allS P (upd a (at_run r (set_phase Live)) (reportStage sid STAGE_RUNNING True None m1))" for sid
    by (rule allS_upd) (use s assms(2,3) in \<open>auto simp: has_run_def phase_of_def intro!: moved\<close>)
  have "run_spawn a r ok m = (case e of Some err \<Rightarrow> run_failed a r err m1 | None \<Rightarrow>
      if \<not> ok then run_failed a r SpawnFailed m1
      else case ?x of
          StreamEx k \<Rightarrow> upd a (\<lambda>s. at_run r (set_phase Attached) (stream_at ?x attach_stdin s)) m1
        | _ \<Rightarrow> upd a (at_run r (set_phase Live)) (reportStage (ns_id (sess m a)) STAGE_RUNNING True None m1))"
    unfolding run_spawn_def Let_def m1 by simp
  then show ?thesis using at live allS_run_failed[OF s(1) h(1)] h(2) by (auto split: option.split executor.split)
qed

lemma allS_greet:
  assumes ok: "allS P m" and r: "has_run m a r" "phase_of m a r = Attached"
  shows "allS P (run_greet h a r m)"
proof (cases "r_exec (ns_runs (sess m a) ! r)")
  case (StreamEx k)
  let ?s = "sess m a"
  let ?skills = "activeSkillNames (h_parse h) (h_marshal h) (h_opts h) (ns_spec ?s) (gfs (m_world m))"
  let ?plugins = "activePluginNames (h_parse h) (h_marshal h) (h_opts h) (ns_spec ?s) (gfs (m_world m))"
  obtain err e where d: "send_start (identity_of ?s) (ns_spec ?s) ?skills ?plugins (ns_streams ?s ! k) = (err, e)" by (meson surj_pair)
  let ?m = "upd a (stream_at (StreamEx k) (\<lambda>_. e)) m"
  have m: "allS P ?m" by (rule allS_upd[OF ok], rule greeted) (use d in simp_all)
  have a: "a < length (m_heap m)" using r(1) by (simp add: has_run_def)
  then have "ns_runs (sess ?m a) = ns_runs ?s" by (simp add: sess_upd stream_at_def)
  then have r': "has_run ?m a r" "phase_of ?m a r = Attached" using r by (simp_all add: has_run_def phase_of_def)
  then have "allS P (upd a (at_run r (set_phase Live)) (reportStage sid STAGE_RUNNING True None ?m))" for sid
    by (intro allS_upd) (use m in \<open>auto simp: has_run_def phase_of_def intro!: moved\<close>)
  with allS_run_failed[OF m r'(1)] r'(2) show ?thesis
    by (auto simp: run_greet_def Let_def StreamEx d split: option.split)
qed (simp_all add: run_greet_def Let_def ok)

lemma allS_line: "allS P m \<Longrightarrow> allS P (run_line h a r line m)"
  unfolding run_line_def Let_def allS_emit_fold
  by (erule allS_simple, rule announced) (simp add: frame)

lemma allS_exit:
  assumes "allS P m" "has_run m a r" "phase_of m a r = Live"
  shows "allS P (run_exit a r code err m)"
  unfolding run_exit_def
proof (rule allS_upd[OF assms(1)])
  let ?s = "stream_at (r_exec (ns_runs (sess m a) ! r)) stream_exited (sess m a)"
  assume "P (sess m a)"
  then have "P ?s" by (rule piped) (simp add: stream_exited_def)
  moreover have "ns_runs ?s = ns_runs (sess m a)" by (simp add: stream_at_def split: executor.split)
  ultimately show "P (at_run r (set_phase (Exited code err)) ?s)"
    using assms(2,3) by (auto simp: has_run_def phase_of_def intro!: moved)
qed

lemma allS_finish:
  assumes "allS P m" "has_run m a r"
  shows "allS P (run_finish a r m)"
proof (cases "phase_of m a r")
  case (Exited code err)
  let ?m = "\<lambda>c k j. failPendingInputs a FailExited (reportResult a c k err j m)"
  have m: "allS P (?m c k j)" for c k j using assms(1) by (simp add: allS_fail)
  have rs: "ns_runs (sess (?m c k j) a) = ns_runs (sess m a)" for c k j using assms(2) by (simp add: failPending_runs has_run_def)
  have "allS P (upd a (\<lambda>s. at_run r (set_phase Ended) (markStopped (s\<lparr> ns_queue := close_queue (ns_queue s) \<rparr>))) (?m c k j))" for c k j
    using assms(2) Exited rs[of c k j] by (intro allS_upd m) (auto simp: frame has_run_def phase_of_def intro!: ended)
  then show ?thesis by (simp add: run_finish_def Let_def Exited)
qed (simp_all add: run_finish_def assms(1))

lemma allS_config:
  assumes "allS P m" "\<And>s. P (change s) = P s"
  shows "allS P (snd (config_command sid rv change write m))"
proof (cases "lookupSession sid m")
  case (Some a)
  obtain e m1 where m1: "in_world (write (sess (upd a change m) a)) (upd a change m) = (e, m1)" by (meson surj_pair)
  have "allS P m1" using assms by (simp add: allS_world[OF m1] allS_simple)
  then show ?thesis by (simp add: config_command_def Some Let_def m1 allS_simple revised split: option.split)
qed (simp add: config_command_def assms(1))

lemma allS_configure: "allS P m \<Longrightarrow> allS P (snd (configure h sid rv c m))"
  by (cases c) (simp_all add: configure_def configureLLM_def applyMCPs_def applySkills_def applyPlugins_def configureMode_def allS_config frame)

lemma allS_create: "allS P m \<Longrightarrow> allS P (snd (create h spec m))"
proof -
  assume ok: "allS P m"
  have add: "allS P (m1\<lparr> m_table := tb, m_heap := m_heap m1 @ [new_session spec (session_layout (h_opts h) spec) hm] \<rparr>)" if "allS P m1" for m1 tb hm
    using that by (simp add: allS_def created)
  show ?thesis
    using ok by (auto simp: create_def Let_def add allS_world split: prod.splits option.splits sum.splits)
qed

lemma allS_prov_external: "allS P m \<Longrightarrow> allS P (snd (prov_external h a m))"
  by (simp add: prov_external_def Let_def split: option.split)

lemma allS_prov_clone: "allS P m \<Longrightarrow> allS P (snd (prov_clone h a m))"
  by (auto simp: prov_clone_def Let_def allS_simple frame split: option.split prod.splits sum.splits)

lemma allS_prov_rest: "allS P m \<Longrightarrow> allS P (prov_rest h a wd m)"
  by (auto simp: prov_rest_def Let_def allS_simple allS_start allS_world frame provisioned split: prod.splits)

lemma allS_provision: "allS P m \<Longrightarrow> allS P (provisionSession h a m)"
proof -
  assume ok: "allS P m"
  obtain e m1 where m1: "and_then (prov_external h a m) (prov_clone h a) = (e, m1)" by (meson surj_pair)
  have "allS P (snd (and_then (prov_external h a m) (prov_clone h a)))"
    by (rule and_then_inv[of "allS P"]) (rule allS_prov_external[OF ok], erule allS_prov_clone)
  then show ?thesis by (simp add: provisionSession_def m1 allS_prov_rest split: option.split)
qed

lemma allS_restart_cancel: "allS P m \<Longrightarrow> allS P (restart_cancel a m)"
  by (simp add: restart_cancel_def allS_simple cancelled split: option.split)

lemma allS_restart_after: "stops \<Longrightarrow> allS P m \<Longrightarrow> allS P (snd (restart_after h sid a fresh m))"
  by (auto simp: restart_after_def allS_start allS_world allS_simple restarted split: prod.splits option.splits if_splits)

lemma allS_delete_begin: "allS P m \<Longrightarrow> allS P (delete_begin sid a m)"
proof -
  assume "allS P m"
  moreover have "P (s\<lparr> ctx_cancelled := True, ns_runs := map (\<lambda>rn. rn\<lparr> r_cancelled := True \<rparr>) (ns_runs s) \<rparr>)" if "P s" for s
    using all_cancelled[of "s\<lparr> ctx_cancelled := True \<rparr>"] that by (simp add: frame)
  ultimately show ?thesis by (simp add: delete_begin_def allS_simple)
qed

lemma allS_delete_end: "allS P m \<Longrightarrow> allS P (snd (delete_end h a m))"
  by (simp add: delete_end_def Let_def allS_simple allS_fail frame split: sum.split)

lemma allS_stopAll: "stops \<Longrightarrow> allS P m \<Longrightarrow> allS P (stopAll m)"
proof -
  assume st: "stops" and ok: "allS P m"
  have "allS P n \<Longrightarrow> allS P (fold (\<lambda>(sid, a). upd a stop_run) ps n)" for ps n
    by (induction ps arbitrary: n) (auto simp: allS_simple stopped[OF st])
  with ok show ?thesis by (simp add: stopAll_def)
qed

lemma allS_take: "allS P m \<Longrightarrow> in_write (sess m a) = None \<Longrightarrow> allS P (snd (drain_take a m))"
  by (auto simp: drain_take_def Let_def allS_fail split: option.splits executor.splits intro!: allS_upd taken)

lemma allS_put:
  assumes ok: "allS P m" and a: "a < length (m_heap m)"
  shows "allS P (snd (drain_put a m))"
proof (cases "in_write (sess m a)")
  case (Some w)
  obtain i k where w: "in_write (sess m a) = Some (i, k)" using Some by (cases w) auto
  obtain err e where d: "deliver i (ns_streams (sess m a) ! k) = (err, e)" by (meson surj_pair)
  have S: "P (sess m a)" by (rule allS_sess[OF ok a])
  let ?f = "\<lambda>s. s\<lparr> ns_streams := (ns_streams s)[k := e], in_write := None \<rparr>"
  have s1: "sess (upd a ?f m) a = put_frame k e (sess m a)" using a by (simp add: sess_upd put_frame_def)
  have m1: "allS P (upd a ?f m)" by (rule allS_upd[OF ok]) (use written[OF S w d] in \<open>simp add: put_frame_def\<close>)
  show ?thesis
  proof (cases err)
    case None
    then show ?thesis using m1 by (simp add: drain_put_def w d Let_def)
  next
    case (Some er)
    note d' = d[unfolded Some]
    have "allS P (reportInputFailure a r i (upd a ?f m))" for r
      by (rule allS_failure[OF seq_free_P m1], unfold s1) (rule refused[OF S w d'])
    moreover have "allS P (upd a (\<lambda>s. s\<lparr> pendingInputs := i # pendingInputs s \<rparr>) (upd a ?f m))"
      by (rule allS_upd[OF m1], unfold s1) (use put_back[OF S w d'] in \<open>simp add: put_frame_def\<close>)
    ultimately show ?thesis by (cases er) (simp_all add: drain_put_def w d' Let_def)
  qed
qed (simp add: drain_put_def ok)

lemma allS_accept:
  assumes ok: "allS P m" and tm: "ok_input i0"
  shows "allS P (snd (accept_input i0 m))"
proof (cases "lookupSession (in_session_id i0) m")
  case (Some a)
  define i where "i = (if is_human i0 then stampInputSnapshot (sess m a) i0 else i0)"
  define dd where "dd \<longleftrightarrow> trim_space (in_client_message_id i) \<noteq> [] \<and> is_human i"
  have i: "ok_input i" using tm by (simp add: i_def stamped)
  define m1 where "m1 = (if dd then upd a (\<lambda>s. s\<lparr> seenMessageIDs := messageKey i # seenMessageIDs s \<rparr>) m else m)"
  let ?g = "\<lambda>s. s\<lparr> pendingInputs := pendingInputs s @ [i], accepted := accepted s @ (if dd then [messageKey i] else []) \<rparr>"
  have acc: "accept_input i0 m =
      (if dd \<and> messageKey i \<in> set (seenMessageIDs (sess m a))
       then (None, emitInputStatus (trim_space (in_session_id i0)) (trim_space (in_client_message_id i)) (in_delivery_attempt i) None m)
       else if not_interactive (sess m1 a) then (None, reportInputFailure a FailNotInteractive i m1)
       else (Some a, emitInputStatus (trim_space (in_session_id i0)) (trim_space (in_client_message_id i)) (in_delivery_attempt i) None (upd a ?g m1)))"
    unfolding accept_input_def Some by (simp add: i_def[symmetric] m1_def dd_def Let_def cong: if_cong)
  show ?thesis
  proof (cases "dd \<and> messageKey i \<in> set (seenMessageIDs (sess m a))")
    case True
    then show ?thesis by (simp add: acc allS_status[OF seq_free_P] ok)
  next
    case False
    have fresh: "fresh_input i (sess m a)" using False by (auto simp: fresh_input_def dd_def)
    have rv: "(\<lambda>s. s\<lparr> seenMessageIDs := messageKey i # seenMessageIDs s \<rparr>) = reserve i" if dd
      using that by (auto simp: reserve_def dd_def)
    have ok1: "allS P m1" using rv by (cases dd) (simp_all add: m1_def ok allS_simple reserved)
    have len: "length (m_heap m1) = length (m_heap m)" by (simp add: m1_def)
    have s1: "sess m1 a = reserve i (sess m a)" if "a < length (m_heap m)"
      using that rv by (auto simp: m1_def sess_upd reserve_def dd_def)
    have g: "?g (sess m1 a) = enqueue i (sess m1 a)" by (auto simp: enqueue_def dd_def)
    have S: "P (sess m a)" if "a < length (m_heap m1)" using allS_sess[OF ok] that len by simp
    show ?thesis unfolding acc
      using False s1 len S queued[OF _ i fresh] rejected[OF _ i fresh] g
      by (auto simp: allS_status[OF seq_free_P] intro!: allS_failure[OF seq_free_P ok1] allS_upd[OF ok1])
  qed
qed (simp add: accept_input_def ok)

lemma mstep_keeps: "allS P m \<Longrightarrow> allowed_action ok_input stops e \<Longrightarrow> mstep h m e = Some m' \<Longrightarrow> allS P m'"
  by (cases e)
    (auto simp: mstep_def allowed_action_def allS_create allS_provision allS_configure allS_accept allS_take allS_put allS_start
      allS_restart_cancel allS_restart_after allS_stopAll allS_delete_begin allS_delete_end allS_spawn allS_greet allS_line
      allS_exit allS_finish allS_simple piped split: if_splits option.splits dispatch.splits)

end

sublocale session_invariant \<subseteq> machine: guarded_machine "mstep h" "allowed_action ok_input stops" "allS P"
  by unfold_locales (rule mstep_keeps)

context session_invariant
begin

lemma reachable:
  assumes "exec (mstep h) (newSessionManager w) es = Some m" "\<forall>e \<in> set es. allowed_action ok_input stops e" "a < length (m_heap m)"
  shows "P (sess m a)"
proof -
  have "allS P (newSessionManager w)" by (simp add: allS_def newSessionManager_def)
  from machine.exec_inv[OF this assms(2,1)] show ?thesis using allS_sess assms(3) by blast
qed

end

end
