(* ===== verification/Session_Inputs.thy ===== *)
theory Session_Inputs
  imports Session_Invariants
begin

text \<open>
  User messages on their way to the provider: each is written at most once and in order of arrival,
  whatever else the node does meanwhile.
\<close>

section \<open>Message keys on the wire\<close>

definition frame_key :: "json \<Rightarrow> string option" where
  "frame_key f = (case (jfield f ''type'', jfield f ''messageId'', jfield f ''deliveryAttempt'') of
      (Some (JStr t), Some (JStr i), Some (JNum n)) \<Rightarrow>
        if t = ''human_message'' then Some (i @ '':'' @ show_nat (nat n)) else None
    | _ \<Rightarrow> None)"

definition key_list :: "NodeSessionInput \<Rightarrow> string list" where
  "key_list i = (if is_human i \<and> trim_space (in_client_message_id i) \<noteq> [] then [messageKey i] else [])"

definition stream_keys :: "streamExecutor \<Rightarrow> string list" where
  "stream_keys e = (case st_stdin e of None \<Rightarrow> [] | Some fs \<Rightarrow> List.map_filter frame_key fs)"

text \<open>The keys of the messages written to the providers of a session, and of those still on the way.\<close>

definition sent_keys :: "nodeSession \<Rightarrow> string list" where
  "sent_keys s = concat (map stream_keys (ns_streams s))"

definition queued_keys :: "nodeSession \<Rightarrow> string list" where
  "queued_keys s = (case in_write s of None \<Rightarrow> [] | Some (i, k) \<Rightarrow> key_list i) @ concat (map key_list (pendingInputs s))"

text \<open>A frame that is not a user message carries no message id.\<close>

definition tame :: "NodeSessionInput \<Rightarrow> bool" where
  "tame i \<longleftrightarrow> is_human i \<or> trim_space (in_client_message_id i) = []"

lemma frame_key_human: "frame_key (human_frame n i) = (if trim_space (in_client_message_id i) \<noteq> [] then Some (messageKey i) else None)"
  by (cases "in_llm i") (simp_all add: frame_key_def human_frame_def Let_def messageKey_def effective_attempt_def)

lemma frame_key_other: "frame_key (bare_frame n k) = None" "frame_key (start_frame si spec sk pl n) = None"
  by (simp_all add: frame_key_def bare_frame_def start_frame_def)

lemma key_list_stamp [simp]: "key_list (stampInputSnapshot s i) = key_list i" "messageKey (stampInputSnapshot s i) = messageKey i"
  "is_human (stampInputSnapshot s i) = is_human i" "in_client_message_id (stampInputSnapshot s i) = in_client_message_id i"
  by (simp_all add: stampInputSnapshot_def Let_def key_list_def is_human_def messageKey_def)


section \<open>The invariant of the input path\<close>

definition runs_ok :: "nodeSession \<Rightarrow> bool" where
  "runs_ok s \<longleftrightarrow>
    (\<forall>r k. r < length (ns_runs s) \<longrightarrow> r_exec (ns_runs s ! r) = StreamEx k \<longrightarrow>
       k < length (ns_streams s) \<and> (r_phase (ns_runs s ! r) = Spawning \<longrightarrow> st_stdin (ns_streams s ! k) = None) \<and>
       (\<forall>q. q < length (ns_runs s) \<longrightarrow> r_exec (ns_runs s ! q) = StreamEx k \<longrightarrow> q = r)) \<and>
    (\<forall>k. ns_executor s = Some (StreamEx k) \<longrightarrow> Suc k = length (ns_streams s))"

definition write_ok :: "nodeSession \<Rightarrow> bool" where
  "write_ok s \<longleftrightarrow> (\<forall>i \<in> set (pendingInputs s). tame i) \<and>
    (\<forall>i k. in_write s = Some (i, k) \<longrightarrow> tame i \<and> k < length (ns_streams s) \<and>
       (\<forall>j. k < j \<longrightarrow> j < length (ns_streams s) \<longrightarrow> stream_keys (ns_streams s ! j) = []))"

definition keys_ok :: "nodeSession \<Rightarrow> bool" where
  "keys_ok s \<longleftrightarrow> distinct (sent_keys s @ queued_keys s) \<and> set (sent_keys s @ queued_keys s) \<subseteq> set (seenMessageIDs s) \<and>
    subseq (sent_keys s @ queued_keys s) (accepted s)"

definition inputs_ok :: "nodeSession \<Rightarrow> bool" where
  "inputs_ok s \<longleftrightarrow> runs_ok s \<and> write_ok s \<and> keys_ok s"

lemmas inputs_defs = inputs_ok_def runs_ok_def write_ok_def keys_ok_def sent_keys_def queued_keys_def

text \<open>Fields that take no part in it.\<close>

lemma inputs_ok_frame [simp]:
  "inputs_ok (s\<lparr> structSeq := n \<rparr>) = inputs_ok s" "inputs_ok (s\<lparr> ns_state := st \<rparr>) = inputs_ok s"
  "inputs_ok (s\<lparr> workDir := d \<rparr>) = inputs_ok s" "inputs_ok (s\<lparr> fileService := b \<rparr>) = inputs_ok s"
  "inputs_ok (s\<lparr> ns_queue := q \<rparr>) = inputs_ok s" "inputs_ok (s\<lparr> ns_llm := l \<rparr>) = inputs_ok s"
  "inputs_ok (s\<lparr> ns_mode := md \<rparr>) = inputs_ok s" "inputs_ok (s\<lparr> ctx_cancelled := b \<rparr>) = inputs_ok s"
  "inputs_ok (s\<lparr> appliedRevision := rv \<rparr>) = inputs_ok s" "inputs_ok (s\<lparr> effectiveRevision := rv \<rparr>) = inputs_ok s"
  "inputs_ok (s\<lparr> ns_run := ro \<rparr>) = inputs_ok s"
  by (simp_all add: inputs_defs)

lemma inputs_ok_markStopped [simp]: "inputs_ok (markStopped s) = inputs_ok s"
  by (simp add: markStopped_def)

lemma inputs_ok_revision [simp]: "inputs_ok (recordRevisionLocked rv s) = inputs_ok s"
  by (simp add: recordRevisionLocked_def Let_def)

lemma inputs_ok_run:
  assumes "inputs_ok s" "r_exec (f (ns_runs s ! r)) = r_exec (ns_runs s ! r)"
    "r_phase (f (ns_runs s ! r)) = Spawning \<Longrightarrow> r_phase (ns_runs s ! r) = Spawning"
  shows "inputs_ok (at_run r f s)"
proof -
  have x: "r_exec (ns_runs (at_run r f s) ! q) = r_exec (ns_runs s ! q)"
      "r_phase (ns_runs (at_run r f s) ! q) = Spawning \<Longrightarrow> r_phase (ns_runs s ! q) = Spawning" if "q < length (ns_runs s)" for q
    using that assms(2,3) by (simp_all add: at_run_def nth_upd split: if_splits)
  have e: "length (ns_runs (at_run r f s)) = length (ns_runs s)" "ns_streams (at_run r f s) = ns_streams s"
    "ns_executor (at_run r f s) = ns_executor s"
    by (simp_all add: at_run_def)
  have "runs_ok (at_run r f s)"
    using assms(1) x unfolding inputs_ok_def runs_ok_def e by metis
  moreover have "write_ok (at_run r f s) = write_ok s" "keys_ok (at_run r f s) = keys_ok s"
    by (simp_all add: at_run_def write_ok_def keys_ok_def sent_keys_def queued_keys_def)
  ultimately show ?thesis using assms(1) by (simp add: inputs_ok_def)
qed

text \<open>A change of one stream that keeps its pipe.\<close>

lemma inputs_ok_stream:
  assumes "inputs_ok s" "\<And>e. st_stdin (f e) = st_stdin e"
  shows "inputs_ok (stream_at x f s)"
proof (cases x)
  case (StreamEx k)
  have len: "length ((ns_streams s)[k := f (ns_streams s ! k)]) = length (ns_streams s)" by simp
  have nth: "j < length (ns_streams s) \<Longrightarrow> st_stdin ((ns_streams s)[k := f (ns_streams s ! k)] ! j) = st_stdin (ns_streams s ! j)" for j
    by (simp add: nth_upd assms(2))
  then have sk: "j < length (ns_streams s) \<Longrightarrow> stream_keys ((ns_streams s)[k := f (ns_streams s ! k)] ! j) = stream_keys (ns_streams s ! j)" for j
    by (simp add: stream_keys_def)
  then have "map stream_keys ((ns_streams s)[k := f (ns_streams s ! k)]) = map stream_keys (ns_streams s)"
    by (simp add: list_eq_iff_nth_eq)
  then have "keys_ok (stream_at x f s) = keys_ok s"
    by (simp add: StreamEx stream_at_def keys_ok_def sent_keys_def queued_keys_def)
  moreover have "write_ok s \<Longrightarrow> write_ok (stream_at x f s)" using sk by (simp add: StreamEx stream_at_def write_ok_def)
  moreover have "runs_ok (stream_at x f s)" if ok: "runs_ok s"
  proof -
    have e: "ns_runs (stream_at x f s) = ns_runs s" "ns_executor (stream_at x f s) = ns_executor s"
      "ns_streams (stream_at x f s) = (ns_streams s)[k := f (ns_streams s ! k)]"
      by (simp_all add: StreamEx stream_at_def)
    show ?thesis using ok nth unfolding runs_ok_def e len by metis
  qed
  ultimately show ?thesis using assms(1) by (simp add: inputs_ok_def)
qed (use assms(1) in \<open>simp_all add: stream_at_def\<close>)

lemma inputs_ok_attach:
  assumes "inputs_ok s" "r < length (ns_runs s)" "r_phase (ns_runs s ! r) = Spawning" "p \<noteq> Spawning"
  shows "inputs_ok (at_run r (set_phase p) (stream_at (r_exec (ns_runs s ! r)) attach_stdin s))"
proof (cases "r_exec (ns_runs s ! r)")
  case (StreamEx k)
  let ?xs = "ns_streams s"
  let ?ys = "?xs[k := attach_stdin (?xs ! k)]"
  have R: "runs_ok s" "write_ok s" "keys_ok s" using assms(1) by (simp_all add: inputs_ok_def)
  have k: "k < length ?xs" "st_stdin (?xs ! k) = None"
    "\<And>q. q < length (ns_runs s) \<Longrightarrow> r_exec (ns_runs s ! q) = StreamEx k \<Longrightarrow> q = r"
    using R(1) assms(2,3) StreamEx unfolding runs_ok_def by blast+
  have sk: "stream_keys (?ys ! j) = stream_keys (?xs ! j)" if "j < length ?xs" for j
    using that k(2) by (simp add: nth_upd stream_keys_def attach_stdin_def map_filter_simps)
  then have "map stream_keys ?ys = map stream_keys ?xs" by (simp add: list_eq_iff_nth_eq)
  then have "keys_ok (s\<lparr> ns_streams := ?ys \<rparr>)" using R(3) by (simp add: keys_ok_def sent_keys_def queued_keys_def)
  moreover have "write_ok (s\<lparr> ns_streams := ?ys \<rparr>)" using R(2) sk by (simp add: write_ok_def)
  moreover have "runs_ok (at_run r (set_phase p) (s\<lparr> ns_streams := ?ys \<rparr>))"
  proof -
    let ?t = "at_run r (set_phase p) (s\<lparr> ns_streams := ?ys \<rparr>)"
    have x: "r_exec (ns_runs ?t ! q) = r_exec (ns_runs s ! q)"
      "r_phase (ns_runs ?t ! q) = Spawning \<Longrightarrow> q \<noteq> r \<and> r_phase (ns_runs s ! q) = Spawning" if "q < length (ns_runs s)" for q
      using that assms(4) by (simp_all add: at_run_def nth_upd set_phase_def split: if_splits)
    have y: "j \<noteq> k \<Longrightarrow> ?ys ! j = ?xs ! j" for j by simp
    have e: "length (ns_runs ?t) = length (ns_runs s)" "ns_streams ?t = ?ys" "ns_executor ?t = ns_executor s" "length ?ys = length ?xs"
      by (simp_all add: at_run_def)
    show ?thesis using R(1) x k(3) y unfolding runs_ok_def e by metis
  qed
  ultimately show ?thesis
    by (simp add: StreamEx stream_at_def inputs_ok_def) (simp add: at_run_def write_ok_def keys_ok_def sent_keys_def queued_keys_def)
qed (use assms in \<open>simp_all add: stream_at_def inputs_ok_run set_phase_def\<close>)

text \<open>A new run: its stream, if it has one, is the last of the session.\<close>

lemma runs_ok_snoc:
  assumes "runs_ok s" "ns_runs t = ns_runs s @ [rn]" "ns_streams t = ns_streams s @ es" "ns_executor t = Some (r_exec rn)"
    "\<And>k. r_exec rn = StreamEx k \<Longrightarrow> k = length (ns_streams s) \<and> length es = 1 \<and> st_stdin (hd es) = None"
  shows "runs_ok t"
  unfolding runs_ok_def
proof (intro conjI allI impI)
  fix k assume "ns_executor t = Some (StreamEx k)"
  then show "Suc k = length (ns_streams t)" using assms(3-5) by simp
next
  fix r k assume r: "r < length (ns_runs t)" "r_exec (ns_runs t ! r) = StreamEx k"
  consider "r < length (ns_runs s)" | "r = length (ns_runs s)" using r(1) assms(2) by fastforce
  then have rk: "(r < length (ns_runs s) \<and> k < length (ns_streams s)) \<or> (r = length (ns_runs s) \<and> k = length (ns_streams s))"
  proof cases
    case 1
    with r(2) assms(1,2) show ?thesis unfolding runs_ok_def by (simp add: nth_append)
  next
    case 2
    with r(2) assms(2) have "r_exec rn = StreamEx k" by simp
    with assms(5) 2 show ?thesis by blast
  qed
  then show "k < length (ns_streams t)" using assms(2,3) assms(5)[of k] r(2) by (cases es) (auto simp: nth_append)
  show "st_stdin (ns_streams t ! k) = None" if "r_phase (ns_runs t ! r) = Spawning"
    using rk
  proof
    assume "r < length (ns_runs s) \<and> k < length (ns_streams s)"
    moreover from this have "r_exec (ns_runs s ! r) = StreamEx k" "r_phase (ns_runs s ! r) = Spawning"
      using assms(2) r(2) that by (simp_all add: nth_append)
    ultimately have "st_stdin (ns_streams s ! k) = None" using assms(1) unfolding runs_ok_def by blast
    with \<open>r < length (ns_runs s) \<and> k < length (ns_streams s)\<close> show ?thesis by (simp add: assms(3) nth_append)
  next
    assume e: "r = length (ns_runs s) \<and> k = length (ns_streams s)"
    with r(2) assms(2) have "r_exec rn = StreamEx k" by simp
    with assms(3,5) e show ?thesis by (cases es) (auto simp: nth_append)
  qed
  fix q assume q: "q < length (ns_runs t)" "r_exec (ns_runs t ! q) = StreamEx k"
  have old: "j < length (ns_runs s) \<Longrightarrow> r_exec (ns_runs s ! j) = StreamEx k \<Longrightarrow> k < length (ns_streams s)" for j
    using assms(1) unfolding runs_ok_def by blast
  show "q = r"
  proof (cases "k < length (ns_streams s)")
    case True
    then have "r_exec rn \<noteq> StreamEx k" using assms(5) by fastforce
    then have "q < length (ns_runs s)" "r < length (ns_runs s)"
      using q r assms(2) by (auto simp: nth_append less_Suc_eq split: if_splits)
    moreover have "r_exec (ns_runs s ! q) = StreamEx k" "r_exec (ns_runs s ! r) = StreamEx k"
      using calculation q(2) r(2) assms(2) by (simp_all add: nth_append)
    ultimately show ?thesis using assms(1) unfolding runs_ok_def by blast
  next
    case False
    then have "q = length (ns_runs s)" "r = length (ns_runs s)"
      using old[of q] old[of r] q r assms(2) by (auto simp: nth_append less_Suc_eq split: if_splits)
    then show ?thesis by simp
  qed
qed

lemma inputs_ok_begin: "inputs_ok s \<Longrightarrow> inputs_ok (begin_run kind s)"
proof -
  assume ok: "inputs_ok s"
  define es where "es = (if kind = StreamKind then [new_stream] else [])"
  define rn where "rn = \<lparr> r_exec = fst (with_executor kind s), r_phase = Spawning, r_cancelled = ctx_cancelled s, r_result = [] \<rparr>"
  have t: "ns_runs (begin_run kind s) = ns_runs s @ [rn]" "ns_streams (begin_run kind s) = ns_streams s @ es"
      "ns_executor (begin_run kind s) = Some (r_exec rn)" "pendingInputs (begin_run kind s) = pendingInputs s"
      "in_write (begin_run kind s) = in_write s" "seenMessageIDs (begin_run kind s) = seenMessageIDs s" "accepted (begin_run kind s) = accepted s"
      "\<And>k. r_exec rn = StreamEx k \<Longrightarrow> k = length (ns_streams s) \<and> length es = 1 \<and> st_stdin (hd es) = None"
      "\<forall>e \<in> set es. stream_keys e = []"
    by (cases kind; simp add: begin_run_def with_executor_def new_stream_def stream_keys_def es_def rn_def)+
  have "runs_ok (begin_run kind s)" using ok runs_ok_snoc[OF _ t(1-3)] t(8) by (simp add: inputs_ok_def)
  moreover have "write_ok (begin_run kind s)"
    using ok t(9) unfolding inputs_ok_def write_ok_def t(2,4,5) by (auto simp: nth_append)
  moreover have "concat (map stream_keys es) = []" using t(9) by (induction es) auto
  then have "sent_keys (begin_run kind s) = sent_keys s" "queued_keys (begin_run kind s) = queued_keys s"
    by (simp_all add: sent_keys_def queued_keys_def t(2,4,5))
  then have "keys_ok (begin_run kind s)"
    using ok unfolding inputs_ok_def keys_ok_def t(6,7) by metis
  ultimately show ?thesis by (simp add: inputs_ok_def)
qed


section \<open>Every change of a session keeps it\<close>

abbreviation all_keys :: "nodeSession \<Rightarrow> string list" where
  "all_keys s \<equiv> sent_keys s @ queued_keys s"

lemma keys_unreserve [simp]:
  "sent_keys (unreserve i s) = sent_keys s" "queued_keys (unreserve i s) = queued_keys s"
  by (simp_all add: unreserve_def sent_keys_def queued_keys_def)

lemma inputs_ok_unreserve:
  assumes "inputs_ok s" "trim_space (in_client_message_id i) \<noteq> [] \<Longrightarrow> messageKey i \<notin> set (all_keys s)"
  shows "inputs_ok (unreserve i s)"
proof (cases "trim_space (in_client_message_id i) = []")
  case False
  have "runs_ok (unreserve i s) = runs_ok s" "write_ok (unreserve i s) = write_ok s"
    by (simp_all add: unreserve_def runs_ok_def write_ok_def)
  moreover have "keys_ok (unreserve i s)"
    using assms False unfolding inputs_ok_def keys_ok_def keys_unreserve by (auto simp: unreserve_def)
  ultimately show ?thesis using assms(1) by (simp add: inputs_ok_def)
qed (use assms(1) in \<open>simp add: unreserve_def\<close>)

lemma tame_key: "tame i \<Longrightarrow> trim_space (in_client_message_id i) \<noteq> [] \<Longrightarrow> key_list i = [messageKey i]"
  by (auto simp: tame_def key_list_def)

lemma keys_clear:
  "sent_keys (s\<lparr> pendingInputs := ps \<rparr>) = sent_keys s"
  "queued_keys (s\<lparr> pendingInputs := [] \<rparr>) @ concat (map key_list (pendingInputs s)) = queued_keys s"
  by (simp_all add: sent_keys_def queued_keys_def)

lemma subseq_appendD: "subseq (xs @ ys) zs \<Longrightarrow> subseq xs zs"
  by (meson subseq_order.trans prefix_imp_subseq prefixI)

lemma inputs_ok_clear: "inputs_ok s \<Longrightarrow> inputs_ok (s\<lparr> pendingInputs := [] \<rparr>)"
proof -
  assume ok: "inputs_ok s"
  let ?t = "s\<lparr> pendingInputs := [] \<rparr>"
  have e: "all_keys s = all_keys ?t @ concat (map key_list (pendingInputs s))"
    using keys_clear(1)[where s = s and ps = "[]"] keys_clear(2)[of s] by (metis append.assoc)
  have k: "distinct (all_keys s)" "set (all_keys s) \<subseteq> set (seenMessageIDs s)" "subseq (all_keys s) (accepted s)"
    using ok unfolding inputs_ok_def keys_ok_def by simp_all
  have "distinct (all_keys ?t)" using k(1) unfolding e distinct_append by simp
  moreover have "set (all_keys ?t) \<subseteq> set (seenMessageIDs s)" using k(2) unfolding e set_append by simp
  moreover have "subseq (all_keys ?t) (accepted s)" using k(3) unfolding e by (rule subseq_appendD)
  ultimately have "keys_ok ?t" unfolding keys_ok_def by simp
  moreover have "runs_ok ?t = runs_ok s" "write_ok s \<Longrightarrow> write_ok ?t" by (simp_all add: runs_ok_def write_ok_def)
  ultimately show ?thesis using ok by (simp add: inputs_ok_def)
qed

lemma inputs_ok_failed:
  assumes "inputs_ok s"
  shows "inputs_ok (fold unreserve (pendingInputs s) (s\<lparr> pendingInputs := [] \<rparr>))"
proof -
  let ?K = "\<lambda>s. \<forall>i \<in> set (pendingInputs s). trim_space (in_client_message_id i) \<noteq> [] \<longrightarrow> messageKey i \<notin> set (all_keys (s\<lparr> pendingInputs := [] \<rparr>))"
  have go: "inputs_ok (fold unreserve is t)"
    if "inputs_ok t" "\<forall>i \<in> set is. trim_space (in_client_message_id i) \<noteq> [] \<longrightarrow> messageKey i \<notin> set (all_keys t)" for "is" t
    using that by (induction "is" arbitrary: t) (simp_all add: inputs_ok_unreserve)
  have "messageKey i \<notin> set (all_keys (s\<lparr> pendingInputs := [] \<rparr>))" if i: "i \<in> set (pendingInputs s)" "trim_space (in_client_message_id i) \<noteq> []" for i
  proof -
    have "messageKey i \<in> set (concat (map key_list (pendingInputs s)))"
      using assms i tame_key[of i] by (auto simp: inputs_ok_def write_ok_def intro!: bexI[of _ i])
    moreover have "distinct (all_keys (s\<lparr> pendingInputs := [] \<rparr>) @ concat (map key_list (pendingInputs s)))"
      using assms keys_clear(1)[where s = s and ps = "[]"] keys_clear(2)[of s] unfolding inputs_ok_def keys_ok_def by (metis append.assoc)
    ultimately show ?thesis by auto
  qed
  then show ?thesis by (intro go inputs_ok_clear[OF assms]) blast
qed

lemma inputs_ok_take:
  assumes "inputs_ok s" "in_write s = None" "pendingInputs s \<noteq> []" "ns_executor s = Some (StreamEx k)"
  shows "inputs_ok (s\<lparr> in_write := Some (hd (pendingInputs s), k), pendingInputs := tl (pendingInputs s) \<rparr>)"
proof -
  let ?t = "s\<lparr> in_write := Some (hd (pendingInputs s), k), pendingInputs := tl (pendingInputs s) \<rparr>"
  obtain i "is" where p: "pendingInputs s = i # is" using assms(3) by (cases "pendingInputs s") auto
  have "Suc k = length (ns_streams s)" using assms(1,4) unfolding inputs_ok_def runs_ok_def by blast
  then have "write_ok ?t" using assms(1) p by (auto simp: inputs_ok_def write_ok_def)
  moreover have "keys_ok ?t = keys_ok s" by (simp add: keys_ok_def sent_keys_def queued_keys_def assms(2) p)
  moreover have "runs_ok ?t = runs_ok s" by (simp add: runs_ok_def)
  ultimately show ?thesis using assms(1) by (simp add: inputs_ok_def)
qed

lemma writeFrame_stdin:
  assumes "writeFrame f e = (err, e')"
  shows "err = None \<Longrightarrow> stream_keys e' = stream_keys e @ List.map_filter frame_key [f]" "err \<noteq> None \<Longrightarrow> e' = e"
    "st_stdin e = None \<Longrightarrow> st_stdin e' = None"
  using assms by (auto simp: writeFrame_def stream_keys_def map_filter_def split: if_splits option.splits)

lemma deliver_keys:
  assumes "deliver i e = (err, e')"
  shows "stream_keys e' = stream_keys e @ (if err = None then key_list i else [])" "st_stdin e = None \<Longrightarrow> st_stdin e' = None"
proof -
  have q: "stream_keys (snd (nextSeq e)) = stream_keys e" "st_stdin (snd (nextSeq e)) = st_stdin e"
    by (simp_all add: nextSeq_def stream_keys_def)
  have "(\<exists>f. writeFrame f (snd (nextSeq e)) = (err, e') \<and> List.map_filter frame_key [f] = key_list i) \<or> (err \<noteq> None \<and> e' = e)"
    using assms by (auto simp: deliver_def nextSeq_def Let_def key_list_def frame_key_human frame_key_other map_filter_simps split: if_splits)
  then show "stream_keys e' = stream_keys e @ (if err = None then key_list i else [])" "st_stdin e = None \<Longrightarrow> st_stdin e' = None"
    using writeFrame_stdin[of _ "snd (nextSeq e)" err e'] q by (auto split: if_splits)
qed

lemma concat_update:
  assumes "k < length xs" "\<forall>j. k < j \<longrightarrow> j < length xs \<longrightarrow> f (xs ! j) = []" "f y = f (xs ! k) @ zs"
  shows "concat (map f (xs[k := y])) = concat (map f xs) @ zs"
proof -
  have "\<forall>x \<in> set (drop (Suc k) xs). f x = []" using assms(1,2) by (auto simp: in_set_conv_nth)
  then have d: "concat (map f (drop (Suc k) xs)) = []" by simp
  have "concat (map f xs) = concat (map f (take k xs)) @ f (xs ! k) @ concat (map f (drop (Suc k) xs))"
    by (subst id_take_nth_drop[OF assms(1)]) simp
  then show ?thesis using assms(1,3) d by (simp add: upd_conv_take_nth_drop)
qed

text \<open>The state of the session once the frame in flight has been handed to the stream.\<close>

lemma put_state:
  assumes "inputs_ok s" "in_write s = Some (i, k)" "deliver i (ns_streams s ! k) = (err, e)"
  defines "t \<equiv> s\<lparr> ns_streams := (ns_streams s)[k := e], in_write := None \<rparr>"
  shows "runs_ok t" "write_ok t" "sent_keys t = sent_keys s @ (if err = None then key_list i else [])"
    "queued_keys s = key_list i @ queued_keys t" "tame i"
proof -
  have R: "runs_ok s" "write_ok s" using assms(1) by (simp_all add: inputs_ok_def)
  have k: "tame i" "k < length (ns_streams s)" "\<forall>j. k < j \<longrightarrow> j < length (ns_streams s) \<longrightarrow> stream_keys (ns_streams s ! j) = []"
    using R(2) assms(2) unfolding write_ok_def by blast+
  note d = deliver_keys[OF assms(3)]
  show "sent_keys t = sent_keys s @ (if err = None then key_list i else [])"
    using concat_update[OF k(2,3) d(1)] by (simp add: t_def sent_keys_def)
  show "queued_keys s = key_list i @ queued_keys t" using assms(2) by (simp add: queued_keys_def t_def)
  show "write_ok t" using R(2) by (simp add: write_ok_def t_def)
  have n: "st_stdin ((ns_streams s)[k := e] ! j) = None" if "j < length (ns_streams s)" "st_stdin (ns_streams s ! j) = None" for j
    using that d(2) by (auto simp: nth_upd)
  have e: "ns_runs t = ns_runs s" "ns_executor t = ns_executor s" "ns_streams t = (ns_streams s)[k := e]" "length ((ns_streams s)[k := e]) = length (ns_streams s)"
    by (simp_all add: t_def)
  show "runs_ok t" using R(1) n unfolding runs_ok_def e by metis
  show "tame i" by (rule k(1))
qed

lemma keys_ok_of: "keys_ok s \<Longrightarrow> all_keys t = all_keys s \<Longrightarrow> seenMessageIDs t = seenMessageIDs s \<Longrightarrow> accepted t = accepted s \<Longrightarrow> keys_ok t"
  unfolding keys_ok_def by metis

lemma inputs_ok_put:
  assumes S: "inputs_ok s" and w: "in_write s = Some (i, k)" and d: "deliver i (ns_streams s ! k) = (err, e)"
  shows "inputs_ok (put_frame k e s)"
    "err \<noteq> None \<Longrightarrow> inputs_ok (unreserve i (put_frame k e s))"
    "err \<noteq> None \<Longrightarrow> inputs_ok ((put_frame k e s)\<lparr> pendingInputs := i # pendingInputs s \<rparr>)"
proof -
  let ?t = "put_frame k e s"
  note t = put_state[OF S w d, folded put_frame_def]
  have K: "keys_ok s" using S by (simp add: inputs_ok_def)
  have sa: "seenMessageIDs ?t = seenMessageIDs s" "accepted ?t = accepted s" "pendingInputs ?t = pendingInputs s" by (simp_all add: put_frame_def)
  have ok: "inputs_ok ?t" if "err = None"
    unfolding inputs_ok_def by (intro conjI t(1,2) keys_ok_of[OF K]) (simp_all add: t(3,4) sa that)
  have sk: "sent_keys ?t = sent_keys s" if "err \<noteq> None" using t(3) that by simp
  have dk: "distinct (sent_keys ?t @ key_list i @ queued_keys ?t)" if "err \<noteq> None" using K sk[OF that] unfolding keys_ok_def t(4) by simp
  have er: "inputs_ok ?t" if x: "err \<noteq> None"
  proof -
    have "keys_ok ?t" unfolding keys_ok_def sa
    proof (intro conjI)
      show "distinct (all_keys ?t)" using dk[OF x] by auto
      show "set (all_keys ?t) \<subseteq> set (seenMessageIDs s)" using K unfolding keys_ok_def sk[OF x] t(4) by auto
      have "subseq (sent_keys s @ queued_keys ?t) (sent_keys s @ key_list i @ queued_keys ?t)"
        by (intro list_emb_append_mono list_emb_append2 subseq_order.refl)
      with K show "subseq (all_keys ?t) (accepted s)"
        unfolding keys_ok_def sk[OF x] t(4) using subseq_order.trans by fastforce
    qed
    with t(1,2) show ?thesis by (simp add: inputs_ok_def)
  qed
  show "inputs_ok ?t" using ok er by blast
  show "inputs_ok (unreserve i ?t)" if "err \<noteq> None"
    by (rule inputs_ok_unreserve[OF er[OF that]]) (use dk[OF that] tame_key[OF t(5)] in auto)
  show "inputs_ok (?t\<lparr> pendingInputs := i # pendingInputs s \<rparr>)" if x: "err \<noteq> None"
  proof -
    let ?u = "?t\<lparr> pendingInputs := i # pendingInputs s \<rparr>"
    have "runs_ok ?u = runs_ok ?t" by (simp add: runs_ok_def)
    moreover have "write_ok ?u" using t(2,5) sa by (simp add: write_ok_def)
    moreover have "queued_keys ?u = queued_keys s" by (simp add: queued_keys_def w put_frame_def)
    moreover have "sent_keys ?u = sent_keys s" using sk[OF x] by (simp add: sent_keys_def)
    ultimately show ?thesis unfolding inputs_ok_def using t(1) by (intro conjI keys_ok_of[OF K]) (simp_all add: sa)
  qed
qed

lemma inputs_ok_accept:
  assumes ok: "inputs_ok s" and i: "tame i" "key_list i = (if dd then [messageKey i] else [])"
    "dd \<Longrightarrow> messageKey i \<notin> set (seenMessageIDs s)"
  shows "inputs_ok (s\<lparr> seenMessageIDs := (if dd then messageKey i # seenMessageIDs s else seenMessageIDs s),
     pendingInputs := pendingInputs s @ [i], accepted := accepted s @ (if dd then [messageKey i] else []) \<rparr>)" (is "inputs_ok ?t")
proof -
  have "runs_ok ?t = runs_ok s" by (simp add: runs_ok_def)
  moreover have "write_ok ?t" using ok i(1) by (auto simp: inputs_ok_def write_ok_def)
  moreover have e: "sent_keys ?t = sent_keys s" "queued_keys ?t = queued_keys s @ (if dd then [messageKey i] else [])"
    by (simp_all add: sent_keys_def queued_keys_def i(2))
  have "keys_ok ?t"
  proof -
    have k: "distinct (all_keys s)" "set (all_keys s) \<subseteq> set (seenMessageIDs s)" "subseq (all_keys s) (accepted s)"
      using ok unfolding inputs_ok_def keys_ok_def by simp_all
    have "subseq (all_keys s @ xs) (accepted s @ xs)" for xs by (rule list_emb_append_mono[OF k(3)]) simp
    then show ?thesis unfolding keys_ok_def e using k(1,2) i(3) by (auto simp flip: append_assoc)
  qed
  ultimately show ?thesis using ok by (simp add: inputs_ok_def)
qed

lemma inputs_ok_reserve: "inputs_ok s \<Longrightarrow> inputs_ok (s\<lparr> seenMessageIDs := k # seenMessageIDs s \<rparr>)"
proof -
  assume ok: "inputs_ok s"
  let ?t = "s\<lparr> seenMessageIDs := k # seenMessageIDs s \<rparr>"
  have "runs_ok ?t = runs_ok s" "write_ok ?t = write_ok s" by (simp_all add: runs_ok_def write_ok_def)
  moreover have "all_keys ?t = all_keys s" by (simp add: sent_keys_def queued_keys_def)
  then have "keys_ok ?t" using ok unfolding inputs_ok_def keys_ok_def by auto
  ultimately show ?thesis using ok by (simp add: inputs_ok_def)
qed

lemma inputs_ok_phase: "inputs_ok s \<Longrightarrow> p \<noteq> Spawning \<Longrightarrow> inputs_ok (at_run r (set_phase p) s)"
  by (erule inputs_ok_run) (simp_all add: set_phase_def)

lemma inputs_ok_stream_keys:
  assumes "inputs_ok s" "k < length (ns_streams s) \<Longrightarrow> stream_keys e = stream_keys (ns_streams s ! k)"
    "st_stdin (ns_streams s ! k) = None \<Longrightarrow> st_stdin e = None"
  shows "inputs_ok (stream_at (StreamEx k) (\<lambda>_. e) s)"
proof -
  let ?ys = "(ns_streams s)[k := e]"
  have sk: "j < length (ns_streams s) \<Longrightarrow> stream_keys (?ys ! j) = stream_keys (ns_streams s ! j)" for j
    using assms(2) by (auto simp: nth_upd)
  then have "map stream_keys ?ys = map stream_keys (ns_streams s)" by (simp add: list_eq_iff_nth_eq)
  then have "keys_ok (stream_at (StreamEx k) (\<lambda>_. e) s) = keys_ok s"
    by (simp add: stream_at_def keys_ok_def sent_keys_def queued_keys_def)
  moreover have "write_ok s \<Longrightarrow> write_ok (stream_at (StreamEx k) (\<lambda>_. e) s)" using sk by (simp add: stream_at_def write_ok_def)
  moreover have "runs_ok (stream_at (StreamEx k) (\<lambda>_. e) s)" if ok: "runs_ok s"
  proof -
    have e: "ns_runs (stream_at (StreamEx k) (\<lambda>_. e) s) = ns_runs s" "ns_executor (stream_at (StreamEx k) (\<lambda>_. e) s) = ns_executor s"
      "ns_streams (stream_at (StreamEx k) (\<lambda>_. e) s) = ?ys" "length ?ys = length (ns_streams s)"
      by (simp_all add: stream_at_def)
    have "st_stdin (?ys ! j) = None" if "j < length (ns_streams s)" "st_stdin (ns_streams s ! j) = None" for j
      using that assms(3) by (auto simp: nth_upd)
    then show ?thesis using ok unfolding runs_ok_def e by metis
  qed
  ultimately show ?thesis using assms(1) by (simp add: inputs_ok_def)
qed

lemma inputs_ok_new: "inputs_ok (new_session spec l hm)"
  by (simp add: new_session_def inputs_ok_def runs_ok_def write_ok_def keys_ok_def sent_keys_def queued_keys_def)

lemma inputs_ok_greeted:
  assumes "inputs_ok s" "send_start si spec skills plugins (ns_streams s ! k) = (err, e)"
  shows "inputs_ok (stream_at (StreamEx k) (\<lambda>_. e) s)"
proof -
  have w: "writeFrame (start_frame si spec skills plugins (sint (st_seq (ns_streams s ! k)))) (snd (nextSeq (ns_streams s ! k))) = (err, e)"
    using assms(2) by (simp add: send_start_def nextSeq_def)
  have q: "stream_keys (snd (nextSeq x)) = stream_keys x" "st_stdin (snd (nextSeq x)) = st_stdin x" for x
    by (simp_all add: nextSeq_def stream_keys_def)
  have "stream_keys e = stream_keys (ns_streams s ! k)" "st_stdin (ns_streams s ! k) = None \<Longrightarrow> st_stdin e = None"
    using writeFrame_stdin[OF w] q by (cases "err = None"; simp add: frame_key_other map_filter_simps)+
  then show ?thesis by (intro inputs_ok_stream_keys[OF assms(1)])
qed

lemma inputs_ok_all_cancelled:
  assumes "inputs_ok s"
  shows "inputs_ok (s\<lparr> ns_runs := map (\<lambda>rn. rn\<lparr> r_cancelled := True \<rparr>) (ns_runs s) \<rparr>)"
proof -
  let ?t = "s\<lparr> ns_runs := map (\<lambda>rn. rn\<lparr> r_cancelled := True \<rparr>) (ns_runs s) \<rparr>"
  have e: "r_exec (ns_runs ?t ! r) = r_exec (ns_runs s ! r)" "r_phase (ns_runs ?t ! r) = r_phase (ns_runs s ! r)" if "r < length (ns_runs s)" for r
    using that by simp_all
  have l: "length (ns_runs ?t) = length (ns_runs s)" "ns_streams ?t = ns_streams s" "ns_executor ?t = ns_executor s" by simp_all
  have "runs_ok s \<Longrightarrow> runs_ok ?t" unfolding runs_ok_def l using e by metis
  moreover have "write_ok ?t = write_ok s" "keys_ok ?t = keys_ok s" by (simp_all add: write_ok_def keys_ok_def sent_keys_def queued_keys_def)
  ultimately show ?thesis using assms by (simp add: inputs_ok_def)
qed

lemma inputs_ok_cancel: "inputs_ok s \<Longrightarrow> inputs_ok (at_run r (\<lambda>rn. rn\<lparr> r_cancelled := True \<rparr>) s)"
  by (erule inputs_ok_run) simp_all

lemma inputs_ok_stop: "inputs_ok s \<Longrightarrow> inputs_ok (stop_run s)"
  by (simp add: stop_run_def Let_def inputs_ok_cancel split: option.split)

lemma inputs_ok_reserved: "inputs_ok s \<Longrightarrow> inputs_ok (reserve i s)"
  by (simp add: reserve_def inputs_ok_reserve)

lemma inputs_ok_queued:
  assumes "inputs_ok s" "tame i" "fresh_input i s"
  shows "inputs_ok (enqueue i (reserve i s))"
proof -
  let ?dd = "is_human i \<and> trim_space (in_client_message_id i) \<noteq> []"
  have "enqueue i (reserve i s) = s\<lparr> seenMessageIDs := (if ?dd then messageKey i # seenMessageIDs s else seenMessageIDs s),
     pendingInputs := pendingInputs s @ [i], accepted := accepted s @ (if ?dd then [messageKey i] else []) \<rparr>"
    by (simp add: enqueue_def reserve_def)
  with inputs_ok_accept[OF assms(1,2), of ?dd] assms(3) show ?thesis by (simp add: key_list_def fresh_input_def)
qed

lemma inputs_ok_rejected:
  assumes "inputs_ok s" "tame i" "fresh_input i s"
  shows "inputs_ok (unreserve i (reserve i s))"
proof (rule inputs_ok_unreserve[OF inputs_ok_reserved[OF assms(1)]])
  assume "trim_space (in_client_message_id i) \<noteq> []"
  with assms(2,3) have "messageKey i \<notin> set (seenMessageIDs s)" by (auto simp: tame_def fresh_input_def)
  moreover have "set (all_keys s) \<subseteq> set (seenMessageIDs s)" using assms(1) unfolding inputs_ok_def keys_ok_def by blast
  moreover have "all_keys (reserve i s) = all_keys s" by (simp add: reserve_def sent_keys_def queued_keys_def)
  ultimately show "messageKey i \<notin> set (all_keys (reserve i s))" by auto
qed

interpretation inputs: session_invariant h inputs_ok tame True for h
proof
  show "inputs_ok (unreserve i (put_frame k e s))" if "inputs_ok s" "in_write s = Some (i, k)" "deliver i (ns_streams s ! k) = (Some er, e)" for s i k er e
    using inputs_ok_put(2)[OF that] by simp
  show "inputs_ok ((put_frame k e s)\<lparr> pendingInputs := i # pendingInputs s \<rparr>)" if "inputs_ok s" "in_write s = Some (i, k)" "deliver i (ns_streams s ! k) = (Some er, e)" for s i k er e
    using inputs_ok_put(3)[OF that] by simp
  show "tame (stampInputSnapshot s i) = tame i" for s i by (simp add: tame_def)
qed (auto intro: inputs_ok_new inputs_ok_begin inputs_ok_cancel inputs_ok_all_cancelled inputs_ok_stop inputs_ok_attach
    inputs_ok_greeted inputs_ok_phase inputs_ok_stream inputs_ok_run inputs_ok_failed inputs_ok_take inputs_ok_put(1) inputs_ok_reserved
    inputs_ok_queued inputs_ok_rejected)

text \<open>
  \<^bold>\<open>C1\<close>. Whatever the schedule of dispatch loop, provisioning, runs, restarts, connection drops, deletions
  and drains, no user message is written to the providers of a session twice, and messages are written
  in the order in which the node accepted them.  A message is identified by its id and delivery attempt;
  the hypothesis is that only user messages carry an id.
\<close>

theorem inputs_once_in_order:
  assumes "exec (mstep h) (newSessionManager w) es = Some m" "\<forall>e \<in> set es. allowed_action tame True e" "a < length (m_heap m)"
  shows "distinct (sent_keys (sess m a)) \<and> subseq (sent_keys (sess m a)) (accepted (sess m a))"
  using inputs.reachable[OF assms] by (auto simp: inputs_ok_def keys_ok_def dest: subseq_appendD)

theorem inputs_once_in_order_witness:
  "\<exists>m. demo_run [AGreet 0 0, ATake 0, APut 0, AInput (demo_message ''n''), AInput (demo_message ''m'')] = Some m \<and>
    sent_keys (sess m 0) \<noteq> [] \<and> distinct (sent_keys (sess m 0)) \<and> subseq (sent_keys (sess m 0)) (accepted (sess m 0))"
proof -
  let ?es = "[AGreet 0 0, ATake 0, APut 0, AInput (demo_message ''n''), AInput (demo_message ''m'')]"
  have "map_option (\<lambda>m. (length (m_heap m), sent_keys (sess m 0) = [])) (demo_run ?es) = Some (1, False)" by code_simp
  then obtain m where m: "demo_run ?es = Some m" "length (m_heap m) = Suc 0" "sent_keys (sess m 0) \<noteq> []" by auto
  have "list_all (allowed_action tame True) (demo_schedule @ ?es)" by code_simp
  with inputs_once_in_order[OF m(1)[unfolded demo_run_def], of 0] m show ?thesis by (auto simp: list_all_iff)
qed

section \<open>Writing the queue to a provider that listens\<close>

text \<open>The frame of an input, and the frames of a queue, numbered from \<open>n\<close>.\<close>

definition input_frame :: "int \<Rightarrow> NodeSessionInput \<Rightarrow> json" where
  "input_frame n i = (if is_human i then human_frame n i else bare_frame n (trim_space (in_kind i)))"

primrec input_frames :: "64 word \<Rightarrow> NodeSessionInput list \<Rightarrow> json list" where
  "input_frames n [] = []"
| "input_frames n (i # is) = input_frame (sint n) i # input_frames (n + 1) is"

definition known_kind :: "NodeSessionInput \<Rightarrow> bool" where
  "known_kind i \<longleftrightarrow> trim_space (in_kind i) \<in> {[], ''human_message'', ''eof'', ''cancel''}"

definition listens :: "streamExecutor \<Rightarrow> bool" where
  "listens e \<longleftrightarrow> stream_ready e \<and> \<not> st_broken e"

definition written_to :: "NodeSessionInput list \<Rightarrow> streamExecutor \<Rightarrow> streamExecutor" where
  "written_to is e = e\<lparr> st_stdin := Some (the (st_stdin e) @ input_frames (st_seq e) is), st_seq := st_seq e + of_nat (length is) \<rparr>"

lemma deliver_listens: "listens e \<Longrightarrow> known_kind i \<Longrightarrow> deliver i e = (None, written_to [i] e)"
  by (auto simp: listens_def stream_ready_def known_kind_def deliver_def Let_def nextSeq_def writeFrame_def written_to_def input_frame_def is_human_def)

lemma listens_written: "listens e \<Longrightarrow> listens (written_to is e)"
  by (auto simp: listens_def stream_ready_def written_to_def)

lemma written_to_Cons: "written_to (i # is) e = written_to is (written_to [i] e)"
  by (simp add: written_to_def)

lemma written_to_Nil: "listens e \<Longrightarrow> written_to [] e = e"
  by (cases e) (auto simp: listens_def stream_ready_def written_to_def)

text \<open>A frame of any other kind is refused and leaves the pipe as it is.\<close>

definition refused :: "NodeSessionInput \<Rightarrow> fail_reason" where
  "refused i = FailStream (ErrUnknownKind (trim_space (in_kind i)))"

lemma deliver_refused: "\<not> known_kind i \<Longrightarrow> deliver i e = (Some (ErrUnknownKind (trim_space (in_kind i))), e)"
  by (auto simp: known_kind_def deliver_def is_human_def)

lemma no_write_same: "in_write s = None \<Longrightarrow> s\<lparr> in_write := None \<rparr> = s"
  by (cases s) simp

text \<open>One round of the loop.\<close>

lemma drain_round:
  fixes m a defines "s \<equiv> sess m a"
  assumes a: "a < length (m_heap m)" and x: "ns_executor s = Some (StreamEx k)" and k: "k < length (ns_streams s)"
    and l: "listens (ns_streams s ! k)" and p: "pendingInputs s = i # is" "known_kind i"
  defines "s' \<equiv> s\<lparr> pendingInputs := is, ns_streams := (ns_streams s)[k := written_to [i] (ns_streams s ! k)], in_write := None \<rparr>"
  shows "drain_loop (Suc n) a m = drain_loop n a (upd a (\<lambda>_. s') m)"
proof -
  let ?m1 = "upd a (\<lambda>s. s\<lparr> in_write := Some (hd (pendingInputs s), k), pendingInputs := tl (pendingInputs s) \<rparr>) m"
  have t: "drain_take a m = (True, ?m1)"
    using x l p by (simp add: drain_take_def Let_def isClosed_def listens_def stream_ready_def flip: s_def)
  have s1: "sess ?m1 a = s\<lparr> in_write := Some (i, k), pendingInputs := is \<rparr>" using a p by (simp add: sess_upd flip: s_def)
  have "drain_put a ?m1 = (True, upd a (\<lambda>s. s\<lparr> ns_streams := (ns_streams s)[k := written_to [i] (ns_streams s ! k)], in_write := None \<rparr>) ?m1)"
    using deliver_listens[OF l p(2)] s1 by (simp add: drain_put_def upd_def sess_def)
  also have "upd a (\<lambda>s. s\<lparr> ns_streams := (ns_streams s)[k := written_to [i] (ns_streams s ! k)], in_write := None \<rparr>) ?m1 = upd a (\<lambda>_. s') m"
    using a p by (simp add: upd_def sess_def s'_def s_def)
  finally show ?thesis by (simp add: t)
qed

lemma drain_round_refused:
  assumes a: "a < length (m_heap m)" and w: "in_write (sess m a) = None" and x: "ns_executor (sess m a) = Some (StreamEx k)"
    and l: "listens (ns_streams (sess m a) ! k)" and p: "pendingInputs (sess m a) = i # is" "\<not> known_kind i"
  shows "drain_loop (Suc n) a m = drain_loop n a (reportInputFailure a (refused i) i (upd a (\<lambda>s. s\<lparr> pendingInputs := is \<rparr>) m))"
proof -
  let ?m1 = "upd a (\<lambda>s. s\<lparr> in_write := Some (hd (pendingInputs s), k), pendingInputs := tl (pendingInputs s) \<rparr>) m"
  have t: "drain_take a m = (True, ?m1)"
    using x l p by (simp add: drain_take_def Let_def isClosed_def listens_def stream_ready_def)
  have s1: "sess ?m1 a = (sess m a)\<lparr> in_write := Some (i, k), pendingInputs := is \<rparr>" using a p by (simp add: sess_upd)
  have "upd a (\<lambda>s. s\<lparr> ns_streams := (ns_streams s)[k := ns_streams (sess m a) ! k], in_write := None \<rparr>) ?m1 = upd a (\<lambda>s. s\<lparr> pendingInputs := is \<rparr>) m"
    using a p w by (simp add: upd_def sess_def no_write_same)
  then have "drain_put a ?m1 = (True, reportInputFailure a (refused i) i (upd a (\<lambda>s. s\<lparr> pendingInputs := is \<rparr>) m))"
    using deliver_refused[OF p(2)] s1 by (simp add: drain_put_def refused_def)
  then show ?thesis by (simp add: t)
qed

text \<open>What the loop does to the queue and the pipe, and that reports do not touch it.\<close>

definition written_all :: "nat \<Rightarrow> nodeSession \<Rightarrow> nodeSession" where
  "written_all k s = s\<lparr> pendingInputs := [],
    ns_streams := (ns_streams s)[k := written_to (filter known_kind (pendingInputs s)) (ns_streams s ! k)] \<rparr>"

lemma written_all_simps:
  "written_all k (s\<lparr> seenMessageIDs := y \<rparr>) = (written_all k s)\<lparr> seenMessageIDs := y \<rparr>" "seenMessageIDs (written_all k s) = seenMessageIDs s"
  "written_all k (s\<lparr> structSeq := n \<rparr>) = (written_all k s)\<lparr> structSeq := n \<rparr>" "structSeq (written_all k s) = structSeq s"
  "ns_id (written_all k s) = ns_id s"
  by (cases s; simp add: written_all_def)+

lemma upd_seq_commute:
  "upd a (written_all k) (upd b (\<lambda>s. s\<lparr> structSeq := structSeq s + 1 \<rparr>) m) = upd b (\<lambda>s. s\<lparr> structSeq := structSeq s + 1 \<rparr>) (upd a (written_all k) m)"
  by (cases "a = b"; cases "a < length (m_heap m)") (simp_all add: upd_def written_all_simps list_update_swap list_update_beyond)

lemma status_commute: "upd a (written_all k) (emitInputStatus sid mid att f m) = emitInputStatus sid mid att f (upd a (written_all k) m)"
proof -
  have "structSeq (sess (upd a (written_all k) m) b) = structSeq (sess m b)" for b
    by (cases "a = b"; cases "a < length (m_heap m)") (simp_all add: upd_def sess_def written_all_simps list_update_beyond)
  moreover have "upd a g (emit u n) = emit u (upd a g n)" for g u n by (simp add: upd_def emit_def)
  moreover have "m_table (upd a g n) = m_table n" for g n by (simp add: upd_def)
  ultimately show ?thesis by (simp add: emitInputStatus_def Let_def upd_seq_commute split: option.split)
qed

lemma failure_commute:
  assumes "a < length (m_heap m)"
  shows "upd a (written_all k) (reportInputFailure a reason i m) = reportInputFailure a reason i (upd a (written_all k) m)"
proof -
  have "upd a (written_all k) (upd a (\<lambda>s. s\<lparr> seenMessageIDs := removeAll x (seenMessageIDs s) \<rparr>) m) =
      upd a (\<lambda>s. s\<lparr> seenMessageIDs := removeAll x (seenMessageIDs s) \<rparr>) (upd a (written_all k) m)" for x
    using assms by (simp add: upd_def written_all_simps)
  then show ?thesis using assms by (simp add: reportInputFailure_def Let_def status_commute sess_upd written_all_simps)
qed

definition report_refused :: "nat \<Rightarrow> NodeSessionInput list \<Rightarrow> sessionManager \<Rightarrow> sessionManager" where
  "report_refused a is = fold (\<lambda>i. reportInputFailure a (refused i) i) (filter (\<lambda>i. \<not> known_kind i) is)"

lemma drain_loop_listens:
  assumes "a < length (m_heap m)" "in_write (sess m a) = None" "ns_executor (sess m a) = Some (StreamEx k)" "k < length (ns_streams (sess m a))"
    "listens (ns_streams (sess m a) ! k)" "length (pendingInputs (sess m a)) < n"
  shows "drain_loop n a m = report_refused a (pendingInputs (sess m a)) (upd a (written_all k) m)"
  using assms
proof (induction "pendingInputs (sess m a)" arbitrary: m n)
  case Nil
  then have "drain_loop n a m = m" by (cases n) (simp_all add: drain_take_def)
  moreover have "upd a (written_all k) m = m"
    using Nil by (cases m) (simp add: upd_def sess_def written_to_Nil written_all_def list_update_same_conv)
  ultimately show ?case using Nil.hyps by (simp add: report_refused_def)
next
  case (Cons i "is")
  obtain n' where n: "n = Suc n'" using Cons.prems(6) by (cases n) auto
  let ?s = "sess m a"
  note p = Cons.hyps(2)[symmetric]
  show ?case
  proof (cases "known_kind i")
    case True
    let ?s' = "?s\<lparr> pendingInputs := is, ns_streams := (ns_streams ?s)[k := written_to [i] (ns_streams ?s ! k)], in_write := None \<rparr>"
    let ?m = "upd a (\<lambda>_. ?s') m"
    have s: "sess ?m a = ?s'" using Cons.prems(1) by (simp add: sess_upd)
    have "drain_loop n a m = drain_loop n' a ?m" unfolding n using Cons.prems p True by (intro drain_round) auto
    also have "\<dots> = report_refused a is (upd a (written_all k) ?m)"
      using Cons.hyps(1)[of ?m n'] Cons.prems p n by (simp add: s listens_written)
    also have "upd a (written_all k) ?m = upd a (written_all k) m"
      using Cons.prems(1,2,4) p True by (simp add: upd_def sess_def written_all_def written_to_Cons[of i "filter known_kind is"] no_write_same)
    finally show ?thesis using True p by (simp add: report_refused_def)
  next
    case False
    let ?m1 = "upd a (\<lambda>s. s\<lparr> pendingInputs := is \<rparr>) m"
    let ?m = "reportInputFailure a (refused i) i ?m1"
    obtain j where s: "sess ?m a = (unreserve i (?s\<lparr> pendingInputs := is \<rparr>))\<lparr> structSeq := j \<rparr>"
      using sess_failure[of a ?m1] Cons.prems(1) by (auto simp: sess_upd)
    then have f: "pendingInputs (sess ?m a) = is" "in_write (sess ?m a) = None" "ns_executor (sess ?m a) = ns_executor ?s"
      "ns_streams (sess ?m a) = ns_streams ?s" using Cons.prems(2) by (simp_all add: unreserve_def)
    have "drain_loop n a m = drain_loop n' a ?m" unfolding n using Cons.prems p False by (intro drain_round_refused)
    also have "\<dots> = report_refused a is (upd a (written_all k) ?m)"
      using Cons.hyps(1)[of ?m n'] Cons.prems p n by (simp add: f)
    also have "upd a (written_all k) ?m = reportInputFailure a (refused i) i (upd a (written_all k) ?m1)"
      using Cons.prems(1) by (simp add: failure_commute)
    also have "upd a (written_all k) ?m1 = upd a (written_all k) m"
      using Cons.prems(1) p False by (simp add: upd_def sess_def written_all_def)
    finally show ?thesis using False p by (simp add: report_refused_def)
  qed
qed

text \<open>
  \<^bold>\<open>C12\<close>. The drain loop, run by the holder of \<open>drainMu\<close> while the provider listens and no other step
  comes in between, is one batch write: the queue is empty, the frames of all inputs of a known kind are
  appended to the pipe in queue order under consecutive 64-bit sequence numbers, and then each input of another
  kind is reported failed for that kind, in queue order, which takes its id out of the deduplication table.
  Nothing else of the node changes.  The fuel, one more than the length of the queue, is enough.
\<close>

theorem drain_writes_queue:
  assumes "a < length (m_heap m)" "in_write (sess m a) = None" "ns_executor (sess m a) = Some (StreamEx k)" "k < length (ns_streams (sess m a))"
    "listens (ns_streams (sess m a) ! k)" "pendingInputs (sess m a) = q"
  shows "drainPending a m = fold (\<lambda>i. reportInputFailure a (FailStream (ErrUnknownKind (trim_space (in_kind i)))) i) (filter (\<lambda>i. \<not> known_kind i) q)
    (upd a (\<lambda>s. s\<lparr> pendingInputs := [], ns_streams := (ns_streams s)[k := written_to (filter known_kind q) (ns_streams s ! k)] \<rparr>) m)"
proof -
  have "upd a (written_all k) m = upd a (\<lambda>s. s\<lparr> pendingInputs := [], ns_streams := (ns_streams s)[k := written_to (filter known_kind q) (ns_streams s ! k)] \<rparr>) m"
    using assms(6) by (simp add: upd_def sess_def written_all_def)
  then show ?thesis using drain_loop_listens[OF assms(1-5)] assms(6) by (simp add: drainPending_def report_refused_def refused_def del: drain_loop.simps)
qed

theorem drain_writes_queue_witness:
  "\<exists>m. demo_run [AGreet 0 0, AInput (demo_message ''n''), AInput ((demo_message ''o'')\<lparr> in_kind := ''poke'' \<rparr>)] = Some m \<and>
    length (pendingInputs (sess m 0)) = 3 \<and> pendingInputs (sess (drainPending 0 m) 0) = [] \<and>
    st_seq (ns_streams (sess (drainPending 0 m) 0) ! 0) = st_seq (ns_streams (sess m 0) ! 0) + 2"
proof -
  let ?es = "[AGreet 0 0, AInput (demo_message ''n''), AInput ((demo_message ''o'')\<lparr> in_kind := ''poke'' \<rparr>)]"
  have "map_option (\<lambda>m. (length (m_heap m), in_write (sess m 0), ns_executor (sess m 0), length (ns_streams (sess m 0)),
     listens (ns_streams (sess m 0) ! 0), map known_kind (pendingInputs (sess m 0)))) (demo_run ?es)
     = Some (1, None, Some (StreamEx 0), 1, True, [True, True, False])" by code_simp
  then obtain m where m: "demo_run ?es = Some m" "length (m_heap m) = 1" "in_write (sess m 0) = None" "ns_executor (sess m 0) = Some (StreamEx 0)"
    "length (ns_streams (sess m 0)) = 1" "listens (ns_streams (sess m 0) ! 0)" "map known_kind (pendingInputs (sess m 0)) = [True, True, False]" by auto
  then obtain i j l where q: "pendingInputs (sess m 0) = [i, j, l]" "known_kind i" "known_kind j" "\<not> known_kind l" by auto
  let ?n = "upd 0 (\<lambda>s. s\<lparr> pendingInputs := [], ns_streams := (ns_streams s)[0 := written_to [i, j] (ns_streams s ! 0)] \<rparr>) m"
  have d: "drainPending 0 m = reportInputFailure 0 (FailStream (ErrUnknownKind (trim_space (in_kind l)))) l ?n"
    using drain_writes_queue[of 0 m 0] m q by simp
  obtain x where "sess (drainPending 0 m) 0 = (unreserve l (sess ?n 0))\<lparr> structSeq := x \<rparr>"
    using sess_failure[of 0 ?n] m(2) by (auto simp: d)
  with m q show ?thesis by (intro exI[of _ m]) (simp add: unreserve_def sess_upd written_to_def)
qed

section \<open>A message in front of the start frame\<close>

text \<open>
  The pipe is attached before the start frame is written.  A drain that runs in between
  writes a user message first: the provider receives it as frame 0, in front of its start frame, and
  the run goes on as if nothing had happened.
\<close>

theorem message_overtakes_start:
  assumes "has_run m a r" "phase_of m a r = Attached" "r_exec (ns_runs (sess m a) ! r) = StreamEx k" "ns_executor (sess m a) = Some (StreamEx k)"
    "k < length (ns_streams (sess m a))" "ns_streams (sess m a) ! k = attach_stdin new_stream" "in_write (sess m a) = None"
    "pendingInputs (sess m a) = i # is" "is_human i" "\<not> m_crashed m"
  shows "\<exists>m' start. exec (mstep h) m [ATake a, APut a, AGreet a r] = Some m' \<and>
    st_stdin (ns_streams (sess m' a) ! k) = Some [human_frame 0 i, start] \<and> phase_of m' a r = Live"
proof -
  let ?s = "sess m a"
  have a: "a < length (m_heap m)" and r: "r < length (ns_runs ?s)" using assms(1) by (simp_all add: has_run_def)
  let ?m1 = "upd a (\<lambda>s. s\<lparr> in_write := Some (i, k), pendingInputs := is \<rparr>) m"
  have 1: "mstep h m (ATake a) = Some ?m1"
    using assms a by (simp add: mstep_def drain_take_def Let_def isClosed_def stream_ready_def attach_stdin_def new_stream_def upd_def sess_def)
  have s1: "sess ?m1 a = ?s\<lparr> in_write := Some (i, k), pendingInputs := is \<rparr>" using a by (simp add: sess_upd)
  let ?e = "\<lparr> st_stdin = Some [human_frame 0 i], st_seq = 1, st_closed = False, st_broken = False \<rparr>"
  let ?m2 = "upd a (\<lambda>s. s\<lparr> ns_streams := (ns_streams s)[k := ?e], in_write := None \<rparr>) ?m1"
  have "deliver i (attach_stdin new_stream) = (None, ?e)"
    using assms(9) by (simp add: deliver_def nextSeq_def writeFrame_def attach_stdin_def new_stream_def)
  then have 2: "mstep h ?m1 (APut a) = Some ?m2"
    using assms(6,10) a s1 by (simp add: mstep_def drain_put_def upd_def sess_def)
  have s2: "sess ?m2 a = ?s\<lparr> pendingInputs := is, ns_streams := (ns_streams ?s)[k := ?e], in_write := None \<rparr>" using a s1 by (simp add: sess_upd)
  define skills where "skills = activeSkillNames (h_parse h) (h_marshal h) (h_opts h) (ns_spec ?s) (gfs (m_world m))"
  define plugins where "plugins = activePluginNames (h_parse h) (h_marshal h) (h_opts h) (ns_spec ?s) (gfs (m_world m))"
  let ?start = "start_frame (identity_of (sess ?m2 a)) (ns_spec ?s) skills plugins 1"
  let ?e3 = "\<lparr> st_stdin = Some [human_frame 0 i, ?start], st_seq = 2, st_closed = False, st_broken = False \<rparr>"
  let ?m3 = "upd a (at_run r (set_phase Live)) (reportStage (ns_id ?s) STAGE_RUNNING True None (upd a (stream_at (StreamEx k) (\<lambda>_. ?e3)) ?m2))"
  have "run_greet h a r ?m2 = ?m3"
    using assms(3,5) s2 by (simp add: run_greet_def Let_def send_start_def nextSeq_def writeFrame_def skills_def plugins_def upd_def)
  then have 3: "mstep h ?m2 (AGreet a r) = Some ?m3"
    using assms(1,2,10) s2 by (simp add: mstep_def has_run_def phase_of_def upd_def)
  have "sess ?m3 a = at_run r (set_phase Live) (stream_at (StreamEx k) (\<lambda>_. ?e3) (sess ?m2 a))" using a by (simp add: sess_upd)
  then have "st_stdin (ns_streams (sess ?m3 a) ! k) = Some [human_frame 0 i, ?start]" "phase_of ?m3 a r = Live"
    using s2 assms(5) r by (simp_all add: at_run_def stream_at_def phase_of_def set_phase_def)
  with 1 2 3 show ?thesis by (intro exI[of _ ?m3] exI[of _ ?start]) simp
qed

theorem message_overtakes_start_witness:
  "\<exists>m' start. demo_run [ATake 0, APut 0, AGreet 0 0] = Some m' \<and>
    st_stdin (ns_streams (sess m' 0) ! 0) = Some [human_frame 0 (demo_message ''m''), start] \<and> phase_of m' 0 0 = Live"
proof -
  have "map_option (\<lambda>m. (has_run m 0 0, phase_of m 0 0, r_exec (ns_runs (sess m 0) ! 0), ns_executor (sess m 0),
     length (ns_streams (sess m 0)), ns_streams (sess m 0) ! 0, in_write (sess m 0), pendingInputs (sess m 0), m_crashed m)) (demo_run [])
     = Some (True, Attached, StreamEx 0, Some (StreamEx 0), 1, attach_stdin new_stream, None, [demo_message ''m''], False)" by code_simp
  then obtain m where d: "demo_run [] = Some m" and m: "has_run m 0 0" "phase_of m 0 0 = Attached" "r_exec (ns_runs (sess m 0) ! 0) = StreamEx 0"
    "ns_executor (sess m 0) = Some (StreamEx 0)" "length (ns_streams (sess m 0)) = 1" "ns_streams (sess m 0) ! 0 = attach_stdin new_stream"
    "in_write (sess m 0) = None" "pendingInputs (sess m 0) = [demo_message ''m'']" "\<not> m_crashed m" by auto
  have "is_human (demo_message ''m'')" by code_simp
  from message_overtakes_start[OF m(1-4) _ m(6-8) this m(9), of demo_host] m(5) d show ?thesis by (simp add: demo_run_def exec_append)
qed

end
