(* ===== verification/Session_Runs.thy ===== *)
theory Session_Runs
  imports Session_Inputs
begin

text \<open>
  The provider runs and the configuration revision of a session, under every interleaving.
\<close>

section \<open>One editor at a time\<close>

definition live :: "nodeSession \<Rightarrow> nat set" where
  "live s = {r. r < length (ns_runs s) \<and> r_phase (ns_runs s ! r) \<noteq> Ended}"

definition one_editor :: "nodeSession \<Rightarrow> bool" where
  "one_editor s \<longleftrightarrow> (\<forall>r < length (ns_runs s). r_phase (ns_runs s ! r) \<noteq> Ended \<longrightarrow> ns_run s = Some r \<and> ns_state s = sessionRunning)"

lemma one_editor_frame:
  "map r_phase (ns_runs t) = map r_phase (ns_runs s) \<Longrightarrow> ns_run t = ns_run s \<Longrightarrow> ns_state t = ns_state s \<Longrightarrow> one_editor t = one_editor s"
  unfolding one_editor_def by (metis length_map nth_map)

lemma map_phase_upd: "map r_phase ((ns_runs s)[r := f (ns_runs s ! r)]) = (map r_phase (ns_runs s))[r := r_phase (f (ns_runs s ! r))]"
  by (simp add: map_update)

lemma one_editor_at_run: "r_phase (f (ns_runs s ! r)) = r_phase (ns_runs s ! r) \<Longrightarrow> one_editor (at_run r f s) = one_editor s"
  by (intro one_editor_frame) (cases "r < length (ns_runs s)"; simp add: at_run_def map_update list_update_same_conv list_update_beyond)+

lemma one_editor_stream [simp]: "one_editor (stream_at x f s) = one_editor s"
  by (cases x) (simp_all add: stream_at_def one_editor_def)

lemma stream_runs [simp]: "ns_runs (stream_at x f s) = ns_runs s"
  by (simp add: stream_at_def split: executor.split)

lemma one_editor_moved:
  "one_editor s \<Longrightarrow> r_phase (ns_runs s ! r) \<noteq> Ended \<Longrightarrow> one_editor (at_run r (set_phase p) s)"
  by (auto simp: one_editor_def at_run_def set_phase_def nth_upd split: if_splits)

lemma one_editor_begin: "one_editor s \<Longrightarrow> ns_state s \<noteq> sessionRunning \<Longrightarrow> one_editor (begin_run kind s)"
  by (cases kind) (auto simp: one_editor_def begin_run_def with_executor_def nth_append less_Suc_eq)

lemma one_editor_ended:
  assumes "one_editor s" "r < length (ns_runs s)" "r_phase (ns_runs s ! r) \<noteq> Ended"
  shows "one_editor (at_run r (set_phase Ended) (markStopped s))"
proof -
  have "r_phase (ns_runs s ! q) = Ended" if "q < length (ns_runs s)" "q \<noteq> r" for q
    using assms that unfolding one_editor_def by (metis option.inject)
  then show ?thesis by (auto simp: one_editor_def at_run_def set_phase_def markStopped_def nth_upd split: if_splits)
qed

lemma one_editor_fold [simp]: "one_editor (fold unreserve is s) = one_editor s"
  by (induction "is" arbitrary: s) (simp_all add: unreserve_def one_editor_def)

interpretation editors: session_invariant h one_editor "\<lambda>_. True" False for h
proof
  show "one_editor (new_session spec lay hm)" for spec lay hm by (simp add: one_editor_def new_session_def)
  show "one_editor (recordRevisionLocked rv s)" if "one_editor s" for rv s using that by (simp add: one_editor_def recordRevisionLocked_def)
  show "one_editor (s\<lparr> ns_state := sessionProvisioned \<rparr>)" if "one_editor s" "ns_state s = sessionProvisioning" for s
    using that by (auto simp: one_editor_def)
  show "one_editor (at_run r (\<lambda>rn. rn\<lparr> r_cancelled := True \<rparr>) s)" if "one_editor s" for s r using that by (simp add: one_editor_at_run)
  show "one_editor (at_run r (\<lambda>rn. rn\<lparr> r_result := j \<rparr>) s)" if "one_editor s" for s r j using that by (simp add: one_editor_at_run)
  show "one_editor (s\<lparr> ns_runs := map (\<lambda>rn. rn\<lparr> r_cancelled := True \<rparr>) (ns_runs s) \<rparr>)" if "one_editor s" for s
    using that by (simp add: one_editor_def)
  show "one_editor (at_run r (set_phase Attached) (stream_at (r_exec (ns_runs s ! r)) attach_stdin s))"
    if "one_editor s" "r_phase (ns_runs s ! r) = Spawning" for s r
    by (intro one_editor_moved) (use that in \<open>simp_all add: stream_runs\<close>)
qed (auto simp: one_editor_begin one_editor_ended one_editor_moved, simp_all add: one_editor_def put_frame_def unreserve_def reserve_def enqueue_def)


text \<open>
  \<^bold>\<open>C13\<close>. As long as no connection drop and no restart makes the session startable again, at most one
  provider run of a session is alive, however starts, inputs, exits and deletions interleave, and while
  one is alive the session is marked as running.
\<close>

theorem one_editor_at_a_time:
  assumes "exec (mstep h) (newSessionManager w) es = Some m" "AStopAll \<notin> set es" "ARestart \<notin> set es" "a < length (m_heap m)"
  shows "card (live (sess m a)) \<le> 1 \<and> (live (sess m a) \<noteq> {} \<longrightarrow> ns_state (sess m a) = sessionRunning)"
proof -
  have "\<forall>e \<in> set es. allowed_action (\<lambda>_. True) False e"
    using assms(2,3) by (auto simp: allowed_action_def split: action.split)
  with editors.reachable[OF assms(1) _ assms(4)] have o: "one_editor (sess m a)" by blast
  then have "live (sess m a) \<subseteq> (case ns_run (sess m a) of None \<Rightarrow> {} | Some r \<Rightarrow> {r})"
    by (auto simp: one_editor_def live_def split: option.split)
  then have "card (live (sess m a)) \<le> card (case ns_run (sess m a) of None \<Rightarrow> {} | Some r \<Rightarrow> {r})"
    by (intro card_mono) (auto split: option.split)
  also have "\<dots> \<le> 1" by (simp split: option.split)
  finally show ?thesis using o by (auto simp: one_editor_def live_def)
qed

theorem one_editor_at_a_time_witness:
  "\<exists>m. demo_run [AGreet 0 0, AExit 0 0 0 None, AFinish 0 0, AStart ''s''] = Some m \<and> length (ns_runs (sess m 0)) = 2 \<and>
    card (live (sess m 0)) \<le> 1"
proof -
  let ?es = "[AGreet 0 0, AExit 0 0 0 None, AFinish 0 0, AStart ''s'']"
  have "map_option (\<lambda>m. (length (m_heap m), length (ns_runs (sess m 0)))) (demo_run ?es) = Some (1, 2)" by code_simp
  then obtain m where m: "demo_run ?es = Some m" "length (m_heap m) = 1" "length (ns_runs (sess m 0)) = 2" by auto
  from m(2) one_editor_at_a_time[OF m(1)[unfolded demo_run_def], of 0] have "card (live (sess m 0)) \<le> 1"
    by (simp add: demo_schedule_def)
  with m show ?thesis by blast
qed

section \<open>Two editors\<close>

lemma stop_run_idem: "stop_run (stop_run s) = stop_run s"
proof (cases "ns_run s")
  case (Some r)
  then show ?thesis by (cases "r < length (ns_runs s)") (auto simp: stop_run_def Let_def at_run_def list_update_beyond)
qed (auto simp: stop_run_def)

lemma stop_run_phases: "map r_phase (ns_runs (stop_run s)) = map r_phase (ns_runs s)"
proof (cases "ns_run s")
  case (Some r)
  then show ?thesis
    by (cases "r < length (ns_runs s)") (simp_all add: stop_run_def Let_def at_run_def map_update list_update_same_conv list_update_beyond)
qed (simp add: stop_run_def)

lemma stop_run_fields: "ns_spec (stop_run s) = ns_spec s" "ns_state s = sessionRunning \<Longrightarrow> ns_state (stop_run s) = sessionProvisioned"
  by (cases "ns_run s"; simp add: stop_run_def Let_def at_run_def)+

lemma upd_fields [simp]: "m_table (upd a f m) = m_table m" "m_crashed (upd a f m) = m_crashed m" "m_dispatch (upd a f m) = m_dispatch m"
  "m_world (upd a f m) = m_world m" "m_jobs (upd a f m) = m_jobs m"
  by (simp_all add: upd_def)

lemma stop_fold [simp]:
  "m_table (fold (\<lambda>(sid, a). upd a f) ps n) = m_table n"
  "m_crashed (fold (\<lambda>(sid, a). upd a f) ps n) = m_crashed n"
  "m_dispatch (fold (\<lambda>(sid, a). upd a f) ps n) = m_dispatch n"
  "length (m_heap (fold (\<lambda>(sid, a). upd a f) ps n)) = length (m_heap n)"
  by (induction ps arbitrary: n) (simp_all add: split_beta)

lemma stopAll_fields [simp]: "m_table (stopAll m) = m_table m" "m_crashed (stopAll m) = m_crashed m" "m_dispatch (stopAll m) = m_dispatch m"
  "length (m_heap (stopAll m)) = length (m_heap m)"
  by (simp_all add: stopAll_def)

lemma stopAll_sess:
  assumes "a \<in> snd ` set (m_table m)" "a < length (m_heap m)"
  shows "sess (stopAll m) a = stop_run (sess m a)"
proof -
  have fl: "sess (fold (\<lambda>(sid, a). upd a stop_run) ps n) a = (if a \<in> snd ` set ps then stop_run (sess n a) else sess n a)"
    if "a < length (m_heap n)" for ps n
    using that
  proof (induction ps arbitrary: n)
    case (Cons p ps)
    then show ?case by (cases "snd p = a") (simp_all add: split_beta sess_upd stop_run_idem)
  qed simp
  show ?thesis unfolding stopAll_def fl[OF assms(2)] using assms(1) by (rule if_P)
qed

lemma begin_run_fields: "ns_state (begin_run k s) = sessionRunning" "ns_run (begin_run k s) = Some (length (ns_runs s))"
  "map r_phase (ns_runs (begin_run k s)) = map r_phase (ns_runs s) @ [Spawning]"
  by (cases k; simp add: begin_run_def with_executor_def)+

lemma live_phases: "live s = {r. r < length (map r_phase (ns_runs s)) \<and> map r_phase (ns_runs s) ! r \<noteq> Ended}"
  by (auto simp: live_def)

lemma live_begin: "live (begin_run k s) = insert (length (ns_runs s)) (live s)"
proof -
  have "length (ns_runs (begin_run k s)) = Suc (length (ns_runs s))" using arg_cong[OF begin_run_fields(3), of length] by simp
  then show ?thesis unfolding live_phases begin_run_fields(3) by (auto simp: nth_append less_Suc_eq)
qed

lemma startRuntime_starts:
  assumes "mget (m_table m) (trim_space sid) = Some a" "a < length (m_heap m)" "ns_state (sess m a) \<in> {sessionProvisioned, sessionStopped}"
    "selectExecutor (h_installed h) (h_opts h) (ns_spec (sess m a)) = Inr kind"
  shows "fst (startRuntime h sid m) = None" "sess (snd (startRuntime h sid m)) a = begin_run kind (sess m a)"
  using assms by (auto simp: startRuntime_def Let_def sess_upd)

text \<open>
  \<^bold>\<open>C35\<close>. A connection drop marks a running session as startable without waiting for its run.  A start
  command that arrives before that run has ended launches a second editor beside it, in the same working
  directory; when the old run ends, it marks the session as stopped although the new one is alive.
\<close>

theorem reconnect_starts_second_editor:
  assumes "mget (m_table m) (trim_space sid) = Some a" "a < length (m_heap m)" "ns_state (sess m a) = sessionRunning"
    "selectExecutor (h_installed h) (h_opts h) (ns_spec (sess m a)) = Inr kind" "\<not> m_crashed m" "m_dispatch m = Ready"
  shows "\<exists>m'. exec (mstep h) m [AStopAll, AStart sid] = Some m' \<and>
    live (sess m' a) = insert (length (ns_runs (sess m a))) (live (sess m a))"
proof -
  let ?s = "stop_run (sess m a)"
  have "a \<in> snd ` set (m_table m)" using map_of_SomeD[OF assms(1)] by force
  then have s: "sess (stopAll m) a = ?s" using assms(2) by (rule stopAll_sess)
  note f = stop_run_fields[of "sess m a"] stop_run_phases[of "sess m a"]
  let ?m' = "snd (startRuntime h sid (stopAll m))"
  have "sess ?m' a = begin_run kind ?s"
    using startRuntime_starts(2)[of "stopAll m" sid a h kind] assms s f by simp
  moreover have "live ?s = live (sess m a)" "length (ns_runs ?s) = length (ns_runs (sess m a))"
    by (simp add: live_phases f(3)) (metis f(3) length_map)
  ultimately show ?thesis using assms by (intro exI[of _ ?m']) (simp add: mstep_def live_begin)
qed


theorem reconnect_starts_second_editor_witness:
  "\<exists>m. demo_run [AGreet 0 0, AStopAll, AStart ''s''] = Some m \<and> live (sess m 0) = {0, 1} \<and>
    map_option (\<lambda>m. (ns_state (sess m 0), phase_of m 0 1)) (exec (mstep demo_host) m [AExit 0 0 1 (Some SpawnFailed), AFinish 0 0])
      = Some (sessionStopped, Spawning)"
proof -
  have "map_option (\<lambda>m. (mget (m_table m) ''s'', length (m_heap m), ns_state (sess m 0), length (ns_runs (sess m 0)), phase_of m 0 0, m_crashed m, m_dispatch m))
    (demo_run [AGreet 0 0]) = Some (Some 0, 1, sessionRunning, 1, Live, False, Ready)" by code_simp
  then obtain m where d: "demo_run [AGreet 0 0] = Some m" and m: "mget (m_table m) ''s'' = Some 0" "length (m_heap m) = 1" "ns_state (sess m 0) = sessionRunning"
    "length (ns_runs (sess m 0)) = 1" "phase_of m 0 0 = Live" "\<not> m_crashed m" "m_dispatch m = Ready" by auto
  have s: "map_option (\<lambda>m. selectExecutor (h_installed demo_host) (h_opts demo_host) (ns_spec (sess m 0))) (demo_run [AGreet 0 0]) = Some (Inr StreamKind)"
    by code_simp
  have t: "trim_space ''s'' = ''s''" by code_simp
  from reconnect_starts_second_editor[of m "''s''" 0 demo_host StreamKind] m d s t
  obtain m' where m': "exec (mstep demo_host) m [AStopAll, AStart ''s''] = Some m'" "live (sess m' 0) = insert (length (ns_runs (sess m 0))) (live (sess m 0))" by auto
  have "live (sess m 0) = {0}" using m(4,5) by (auto simp: live_def phase_of_def)
  with m' m(4) have l: "live (sess m' 0) = {0, 1}" by auto
  have r: "demo_run [AGreet 0 0, AStopAll, AStart ''s''] = Some m'"
    using m'(1) d exec_append[of "mstep demo_host" "newSessionManager demo_world" "demo_schedule @ [AGreet 0 0]" "[AStopAll, AStart ''s'']"]
    by (simp add: demo_run_def)
  have "map_option (\<lambda>m. (ns_state (sess m 0), phase_of m 0 1)) (Option.bind (demo_run [AGreet 0 0, AStopAll, AStart ''s''])
     (\<lambda>m. exec (mstep demo_host) m [AExit 0 0 1 (Some SpawnFailed), AFinish 0 0])) = Some (sessionStopped, Spawning)" by code_simp
  with r l show ?thesis by simp
qed

lemma startRuntime_jobs: "m_jobs (snd (startRuntime h sid m)) = m_jobs m"
proof -
  have "m_jobs (reportStage sid st ok e n) = m_jobs n" for sid st ok e n by (simp add: reportStage_def emit_def)
  then show ?thesis by (simp add: startRuntime_def Let_def split: option.split sum.split)
qed

text \<open>
  A restart command for a session that is still being provisioned has no run to wait for and
  overwrites the provisioning state: the editor is started while the provisioning job is still pending.
\<close>

theorem restart_ignores_provisioning:
  assumes "lookupSession sid m = Some a" "a < length (m_heap m)" "ns_run (sess m a) = None"
    "selectExecutor (h_installed h) (h_opts h) (ns_spec (sess m a)) = Inr kind" "\<not> m_crashed m" "m_dispatch m = Ready"
  shows "\<exists>m'. exec (mstep h) m [ARestartCancel sid False, ARestart] = Some m' \<and> ns_state (sess m' a) = sessionRunning \<and>
    ns_run (sess m' a) = Some (length (ns_runs (sess m a))) \<and> m_jobs m' = m_jobs m"
proof -
  have c: "restart_cancel a m = m" using assms(2,3) by (cases m) (simp add: restart_cancel_def upd_def sess_def)
  let ?m = "upd a (\<lambda>s. s\<lparr> ns_state := sessionProvisioned \<rparr>) (m\<lparr> m_dispatch := Ready \<rparr>)"
  have s: "sess ?m a = (sess m a)\<lparr> ns_state := sessionProvisioned \<rparr>" using assms(2) by (simp add: upd_def sess_def)
  have l: "a < length (m_heap ?m)" "mget (m_table ?m) (trim_space sid) = Some a" using assms(1,2) by (simp_all add: lookupSession_def)
  have "sess (snd (startRuntime h sid ?m)) a = begin_run kind (sess ?m a)"
    by (rule startRuntime_starts(2)) (use assms(4) s l in simp_all)
  moreover have "m_jobs (snd (startRuntime h sid ?m)) = m_jobs m" by (simp add: startRuntime_jobs)
  ultimately show ?thesis
    using assms c by (intro exI[of _ "snd (startRuntime h sid ?m)"])
      (simp add: mstep_def run_over_def restart_after_def s begin_run_fields)
qed

theorem restart_ignores_provisioning_witness:
  "\<exists>m m'. exec (mstep demo_host) (newSessionManager demo_world) [ACreate (demo_session ''s'')] = Some m \<and>
    ns_state (sess m 0) = sessionProvisioning \<and> m_jobs m = [0] \<and>
    exec (mstep demo_host) m [ARestartCancel ''s'' False, ARestart] = Some m' \<and> ns_state (sess m' 0) = sessionRunning \<and> m_jobs m' = [0]"
proof -
  let ?x = "exec (mstep demo_host) (newSessionManager demo_world) [ACreate (demo_session ''s'')]"
  have "map_option (\<lambda>m. (lookupSession ''s'' m, length (m_heap m), ns_run (sess m 0), ns_state (sess m 0), m_jobs m, m_crashed m, m_dispatch m,
      selectExecutor (h_installed demo_host) (h_opts demo_host) (ns_spec (sess m 0)))) ?x
    = Some (Some 0, 1, None, sessionProvisioning, [0], False, Ready, Inr StreamKind)" by code_simp
  then obtain m where "?x = Some m" "lookupSession ''s'' m = Some 0" "length (m_heap m) = 1" "ns_run (sess m 0) = None"
    "ns_state (sess m 0) = sessionProvisioning" "m_jobs m = [0]" "\<not> m_crashed m" "m_dispatch m = Ready"
    "selectExecutor (h_installed demo_host) (h_opts demo_host) (ns_spec (sess m 0)) = Inr StreamKind" by auto
  with restart_ignores_provisioning[of "''s''" m 0 demo_host StreamKind] show ?thesis by auto
qed

section \<open>Revisions\<close>

text \<open>The contract of a session's configuration revision: a register that only grows.\<close>

definition max_register :: "64 word \<Rightarrow> (64 word \<times> bool) list \<Rightarrow> 64 word" where
  "max_register = foldl (\<lambda>reg (revision, ok). if ok then max reg revision else reg)"

fun applied_ok :: "session_error + configResult \<Rightarrow> bool" where
  "applied_ok (Inr _) = True"
| "applied_ok (Inl _) = False"

primrec configure_all ::
  "host \<Rightarrow> string \<Rightarrow> (64 word \<times> config_op) list \<Rightarrow> sessionManager \<Rightarrow> (session_error + configResult) list \<times> sessionManager" where
  "configure_all h sid [] m = ([], m)"
| "configure_all h sid (c # cs) m =
    (let (r, m) = configure h sid (fst c) (snd c) m; (rs, m) = configure_all h sid cs m in (r # rs, m))"

lemma config_command_revision:
  assumes "config_command sid revision change write m = (r, m')" "lookupSession sid m = Some a" "a < length (m_heap m)"
    "\<And>s. appliedRevision (change s) = appliedRevision s"
  shows "appliedRevision (sess m' a) = max_register (appliedRevision (sess m a)) [(revision, applied_ok r)]"
    "applied_ok r \<Longrightarrow> projr r = \<lparr> cr_applied = appliedRevision (sess m' a), cr_effective = appliedRevision (sess m' a), cr_restart = False \<rparr>"
    "m_table m' = m_table m" "length (m_heap m') = length (m_heap m)"
proof -
  obtain e w where w: "in_world (write (sess (upd a change m) a)) (upd a change m) = (e, w)" by (meson surj_pair)
  have s: "sess w a = change (sess m a)" "length (m_heap w) = length (m_heap m)" "m_table w = m_table m"
    using sess_world[OF w] heap_world[OF w] assms(3) w by (auto simp: sess_upd in_world_def split: prod.splits)
  have c: "config_command sid revision change write m = (case e of Some x \<Rightarrow> (Inl x, crash_on e w)
      | None \<Rightarrow> (Inr (config_result (sess (upd a (recordRevisionLocked revision) w) a)), upd a (recordRevisionLocked revision) w))"
    using assms(2) w by (cases e) (simp_all add: config_command_def Let_def)
  have u: "sess (upd a (recordRevisionLocked revision) w) a = recordRevisionLocked revision (change (sess m a))"
    using assms(3) s by (simp add: sess_upd)
  have "m_table (crash_on e w) = m_table w" by (simp add: crash_on_def)
  with assms(1,4) s u show "appliedRevision (sess m' a) = max_register (appliedRevision (sess m a)) [(revision, applied_ok r)]"
    "applied_ok r \<Longrightarrow> projr r = \<lparr> cr_applied = appliedRevision (sess m' a), cr_effective = appliedRevision (sess m' a), cr_restart = False \<rparr>"
    "m_table m' = m_table m" "length (m_heap m') = length (m_heap m)"
    unfolding c by (auto simp: max_register_def recordRevisionLocked_def Let_def max_def config_result_def split: option.splits)
qed

lemmas config_ops = configure_def configureLLM_def applyMCPs_def applySkills_def applyPlugins_def configureMode_def

lemma configure_revision:
  assumes "configure h sid revision c m = (r, m')" "lookupSession sid m = Some a" "a < length (m_heap m)"
  shows "appliedRevision (sess m' a) = max_register (appliedRevision (sess m a)) [(revision, applied_ok r)]"
    "applied_ok r \<Longrightarrow> projr r = \<lparr> cr_applied = appliedRevision (sess m' a), cr_effective = appliedRevision (sess m' a), cr_restart = False \<rparr>"
    "lookupSession sid m' = Some a" "a < length (m_heap m')"
proof -
  obtain change wr where c: "configure h sid revision c m = config_command sid revision change wr m" "\<And>s. appliedRevision (change s) = appliedRevision s"
    by (cases c) (simp_all add: config_ops)
  note cc = config_command_revision[OF assms(1)[unfolded c(1)] assms(2,3) c(2)]
  show "appliedRevision (sess m' a) = max_register (appliedRevision (sess m a)) [(revision, applied_ok r)]"
    "applied_ok r \<Longrightarrow> projr r = \<lparr> cr_applied = appliedRevision (sess m' a), cr_effective = appliedRevision (sess m' a), cr_restart = False \<rparr>"
    "lookupSession sid m' = Some a" "a < length (m_heap m')"
    using cc assms(2,3) by (simp_all add: lookupSession_def)
qed

text \<open>
  \<^bold>\<open>C15\<close>. The configuration revision of a session implements a register that only grows: after any sequence
  of configuration commands it is the maximum of the old revision and those of the commands that
  succeeded, and every successful command reports the value the register had after it.
\<close>

theorem revisions_refine_register:
  assumes "configure_all h sid cs m = (rs, m')" "lookupSession sid m = Some a" "a < length (m_heap m)"
  shows "length rs = length cs \<and>
    appliedRevision (sess m' a) = max_register (appliedRevision (sess m a)) (zip (map fst cs) (map applied_ok rs)) \<and>
    (\<forall>n < length rs. applied_ok (rs ! n) \<longrightarrow>
      cr_applied (projr (rs ! n)) = max_register (appliedRevision (sess m a)) (zip (map fst (take (Suc n) cs)) (map applied_ok rs)))"
  using assms
proof (induction cs arbitrary: m rs)
  case Nil
  then show ?case by (simp add: max_register_def)
next
  case (Cons c cs)
  obtain r m1 where c: "configure h sid (fst c) (snd c) m = (r, m1)" by (meson surj_pair)
  obtain rs1 where rs: "rs = r # rs1" "configure_all h sid cs m1 = (rs1, m')"
    using Cons.prems(1) c by (auto split: prod.splits)
  note f = configure_revision[OF c Cons.prems(2,3)]
  note IH = Cons.IH[OF rs(2) f(3,4)]
  have reg: "max_register (max_register x [p]) ps = max_register x (p # ps)" for x p ps by (simp add: max_register_def)
  have n: "cr_applied (projr (rs ! n)) = max_register (appliedRevision (sess m a)) (zip (map fst (take (Suc n) (c # cs))) (map applied_ok rs))"
    if "n < length rs" "applied_ok (rs ! n)" for n
  proof (cases n)
    case 0
    with that f(2) f(1) rs(1) show ?thesis by simp
  next
    case (Suc k)
    with that IH rs(1) have "cr_applied (projr (rs1 ! k)) = max_register (appliedRevision (sess m1 a)) (zip (map fst (take (Suc k) cs)) (map applied_ok rs1))" by simp
    with Suc rs(1) show ?thesis by (simp add: f(1) reg)
  qed
  with IH rs(1) show ?case by (simp add: f(1) reg)
qed


theorem revisions_refine_register_witness:
  "\<exists>m rs m'. demo_run [] = Some m \<and>
    configure_all demo_host ''s'' [(5, OpMode ''plan''), (3, OpMode ''act'')] m = (rs, m') \<and>
    appliedRevision (sess m' 0) = max_register (appliedRevision (sess m 0)) (zip [5, 3] (map applied_ok rs)) \<and>
    map applied_ok rs = [True, True]"
proof -
  let ?cs = "[(5, OpMode ''plan''), (3, OpMode ''act'')]"
  have "map_option (\<lambda>m. (lookupSession ''s'' m, length (m_heap m), map applied_ok (fst (configure_all demo_host ''s'' ?cs m)))) (demo_run [])
    = Some (Some 0, 1, [True, True])" by code_simp
  then obtain m where m: "demo_run [] = Some m" "lookupSession ''s'' m = Some 0" "length (m_heap m) = 1"
    "map applied_ok (fst (configure_all demo_host ''s'' ?cs m)) = [True, True]" by auto
  obtain rs m' where r: "configure_all demo_host ''s'' ?cs m = (rs, m')" by (meson surj_pair)
  have "appliedRevision (sess m' 0) = max_register (appliedRevision (sess m 0)) (zip [5, 3] (map applied_ok rs))"
    using revisions_refine_register[OF r m(2)] m(3) by simp
  moreover have "map applied_ok rs = [True, True]" using m(4) unfolding r by simp
  ultimately show ?thesis using m(1) r by (intro exI[of _ m] exI[of _ rs] exI[of _ m'] conjI)
qed

end
