(* ===== verification/Session_Storage.thy ===== *)
theory Session_Storage
  imports Session_Inputs
begin

text \<open>
  What deleting and restarting a session does to the files of the node.
\<close>

section \<open>Deleting\<close>

text \<open>The directories and flags of a session are the ones its creation derived from the request.\<close>

definition laid_out :: "sessionOptions \<Rightarrow> nodeSession \<Rightarrow> bool" where
  "laid_out opts s \<longleftrightarrow> (let l = session_layout opts (ns_spec s) in
     workDir s = l_workDir l \<and> runtimeDir s = l_runtimeDir l \<and> workspaceOwned s = l_owned l \<and>
     persistentWorkspace s = l_persistent l \<and> worktreeEnvID s = l_envID l)"

lemma laid_out_new: "laid_out opts (new_session spec (session_layout opts spec) hm)"
  by (simp add: laid_out_def new_session_def)

text \<open>A request for a directory below the work root: no worktree, no external checkout.\<close>

definition plain_spec :: "NodeCreateSession \<Rightarrow> bool" where
  "plain_spec spec \<longleftrightarrow> \<not> usesWorktree spec \<and> externalWorktreePath spec = []"

definition dir_fields :: "nodeSession \<Rightarrow> bool \<times> bool \<times> string \<times> string \<times> string" where
  "dir_fields s = (workspaceOwned s, persistentWorkspace s, workDir s, runtimeDir s, worktreeEnvID s)"

lemma dir_fields_unreserve [simp]: "dir_fields (fold unreserve is s) = dir_fields s"
  by (induction "is" arbitrary: s) (simp_all add: unreserve_def dir_fields_def)

lemma failPending_dirs:
  assumes "a < length (m_heap m)"
  shows "dir_fields (sess (failPendingInputs a reason m) a) = dir_fields (sess m a)"
proof -
  obtain n where "sess (failPendingInputs a reason m) a = (fold unreserve (pendingInputs (sess m a)) ((sess m a)\<lparr> pendingInputs := [] \<rparr>))\<lparr> structSeq := n \<rparr>"
    using failPending_heap[OF assms] by blast
  then have "dir_fields (sess (failPendingInputs a reason m) a) = dir_fields (fold unreserve (pendingInputs (sess m a)) ((sess m a)\<lparr> pendingInputs := [] \<rparr>))"
    by (simp add: dir_fields_def)
  then show ?thesis by simp (simp add: dir_fields_def)
qed

lemma failPending_world [simp]: "m_world (failPendingInputs a reason m) = m_world m" "m_table (failPendingInputs a reason m) = m_table m"
proof -
  have e: "m_world (emitInputStatus sid mid att f k) = m_world k" "m_table (emitInputStatus sid mid att f k) = m_table k" for sid mid att f k
    by (simp_all add: emitInputStatus_def Let_def emit_def upd_def split: option.split)
  have "m_world (reportInputFailure a reason i k) = m_world k" "m_table (reportInputFailure a reason i k) = m_table k" for i k
    by (simp_all add: reportInputFailure_def Let_def e) (simp_all add: upd_def)
  then have "m_world (fold (reportInputFailure a reason) is k) = m_world k" "m_table (fold (reportInputFailure a reason) is k) = m_table k" for "is" k
    by (induction "is" arbitrary: k) simp_all
  then show "m_world (failPendingInputs a reason m) = m_world m" "m_table (failPendingInputs a reason m) = m_table m"
    by (simp_all add: failPendingInputs_def upd_def)
qed

lemma removed_dir_fields: "dir_fields s = dir_fields t \<Longrightarrow> removed_dir s = removed_dir t \<and> worktreeEnvID s = worktreeEnvID t"
  by (simp add: dir_fields_def removed_dir_def)

text \<open>A session without a worktree of its own: one tree is removed and nothing else changes.\<close>

lemma delete_exact:
  assumes "delete_session h sid m = (None, m')" "lookupSession sid m = Some a" "a < length (m_heap m)"
    "worktreeEnvID (sess m a) = []" "fs_wf (gfs (m_world m))"
  shows "lookupSession sid m' = None"
    "q \<noteq> [] \<Longrightarrow> lookup (gfs (m_world m')) q = (if prefix (comps (removed_dir (sess m a))) q then None else lookup (gfs (m_world m)) q)"
proof -
  let ?m1 = "delete_begin sid a m"
  let ?m2 = "upd a (\<lambda>s. s\<lparr> fileService := False \<rparr>) (failPendingInputs a FailDeleted ?m1)"
  have l1: "a < length (m_heap ?m1)" using assms(3) by (simp add: delete_begin_def)
  have "dir_fields (sess ?m1 a) = dir_fields (sess m a)" using assms(3) by (simp add: delete_begin_def upd_def sess_def dir_fields_def)
  then have "dir_fields (sess (failPendingInputs a FailDeleted ?m1) a) = dir_fields (sess m a)" by (simp add: failPending_dirs[OF l1])
  then have "dir_fields (sess ?m2 a) = dir_fields (sess m a)" using l1 by (simp add: sess_upd) (simp add: dir_fields_def)
  note d = removed_dir_fields[OF this]
  have w: "m_world ?m2 = m_world m" "m_table ?m2 = mdel (trim_space sid) (m_table m)" by (simp_all add: upd_def delete_begin_def)
  obtain s' where s': "remove_all (gfs (m_world m)) (removed_dir (sess m a)) = Inr s'" "m' = ?m2\<lparr> m_world := (m_world m)\<lparr> gfs := s' \<rparr> \<rparr>"
    using assms(1,2,4) d w(1) by (auto simp: delete_session_def delete_end_def Let_def split: sum.splits)
  show "lookupSession sid m' = None" by (simp add: s'(2) lookupSession_def w(2))
  show "lookup (gfs (m_world m')) q = (if prefix (comps (removed_dir (sess m a))) q then None else lookup (gfs (m_world m)) q)" if "q \<noteq> []"
    using remove_all_lookup[OF assms(5) s'(1), of q] that by (simp add: s'(2))
qed

lemma plain_layout:
  assumes "plain_spec spec"
  shows "l_envID (session_layout opts spec) = []"
    "l_persistent (session_layout opts spec) = (trim_space (cs_task_id spec) \<noteq> [])"
    "l_owned (session_layout opts spec) = (trim_space (cs_task_id spec) = [] \<and> trim_space (tag spec ''editor_workdir'') = [])"
    "l_runtimeDir (session_layout opts spec) = path_join [l_workDir (session_layout opts spec), ''.agent-compose'', ''sessions'',
       sanitizeSessionDir (trim_space (cs_session_id spec))]"
    "l_workDir (session_layout opts spec) = (if trim_space (cs_task_id spec) \<noteq> []
       then path_join [workRoot opts, ''tasks'', sanitizeSessionDir (trim_space (cs_task_id spec))]
       else if trim_space (tag spec ''editor_workdir'') \<noteq> [] then path_join [workRoot opts, sanitizeSessionDir (trim_space (tag spec ''editor_workdir''))]
       else path_join [workRoot opts, sanitizeSessionDir (trim_space (cs_session_id spec))])"
  using assms by (simp_all add: plain_spec_def session_layout_def Let_def)

lemma task_dir:
  assumes "is_abs (workRoot opts)"
  shows "comps (path_join [workRoot opts, ''tasks'', sanitizeSessionDir t]) = comps (workRoot opts) @ [''tasks'', sanitizeSessionDir t]"
    "is_abs (path_join [workRoot opts, ''tasks'', sanitizeSessionDir t])"
  using comps_join_segs[OF assms, of "[''tasks'', sanitizeSessionDir t]"] by simp_all

section \<open>Deleting the session of a task\<close>

text \<open>What the creation of a session fixes about its directories stays as it was.\<close>

definition fixed_fields :: "nodeSession \<Rightarrow> NodeCreateSession \<times> string \<times> string \<times> bool \<times> bool \<times> string \<times> string" where
  "fixed_fields s = (ns_spec s, taskID s, runtimeDir s, workspaceOwned s, persistentWorkspace s, worktreeEnvID s, worktreeRepoDir s)"

definition as_created :: "sessionOptions \<Rightarrow> nodeSession \<Rightarrow> bool" where
  "as_created opts s \<longleftrightarrow> (let spec = ns_spec s; l = session_layout opts spec in
     fixed_fields s = (spec, trim_space (cs_task_id spec), l_runtimeDir l, l_owned l, l_persistent l, l_envID l, l_repoDir l))"

lemma as_created_fields: "fixed_fields s = fixed_fields t \<Longrightarrow> as_created opts s = as_created opts t"
  by (simp add: as_created_def fixed_fields_def Let_def)

lemma fixed_fields_steps [simp]:
  "fixed_fields (at_run r f s) = fixed_fields s" "fixed_fields (stream_at x g s) = fixed_fields s" "fixed_fields (markStopped s) = fixed_fields s"
  "fixed_fields (begin_run kind s) = fixed_fields s" "fixed_fields (stop_run s) = fixed_fields s" "fixed_fields (recordRevisionLocked rv s) = fixed_fields s"
  "fixed_fields (unreserve i s) = fixed_fields s" "fixed_fields (reserve i s) = fixed_fields s" "fixed_fields (enqueue i s) = fixed_fields s"
  "fixed_fields (put_frame k e s) = fixed_fields s"
  by (simp_all add: fixed_fields_def at_run_def stream_at_def markStopped_def begin_run_def with_executor_def stop_run_def recordRevisionLocked_def
      unreserve_def reserve_def enqueue_def put_frame_def Let_def split: executor.split executor_kind.split option.split)

lemma fixed_fields_fold [simp]: "fixed_fields (fold unreserve is s) = fixed_fields s"
  by (induction "is" arbitrary: s) simp_all

lemma as_created_steps [simp]:
  "as_created opts (at_run r f s) = as_created opts s" "as_created opts (stream_at x g s) = as_created opts s" "as_created opts (markStopped s) = as_created opts s"
  "as_created opts (begin_run kind s) = as_created opts s" "as_created opts (stop_run s) = as_created opts s"
  "as_created opts (recordRevisionLocked rv s) = as_created opts s" "as_created opts (unreserve i s) = as_created opts s"
  "as_created opts (reserve i s) = as_created opts s" "as_created opts (enqueue i s) = as_created opts s"
  "as_created opts (put_frame k e s) = as_created opts s" "as_created opts (fold unreserve is s) = as_created opts s"
  by (rule as_created_fields; simp)+

interpretation layouts: session_invariant h "as_created (h_opts h)" "\<lambda>_. True" True for h
  by (unfold_locales, simp_all, simp_all add: as_created_def fixed_fields_def new_session_def put_frame_def Let_def)

lemma reached_layout:
  assumes "exec (mstep h) (newSessionManager w) es = Some m" "a < length (m_heap m)"
  shows "as_created (h_opts h) (sess m a)"
proof (rule layouts.reachable[OF assms(1) _ assms(2)])
  show "\<forall>e \<in> set es. allowed_action (\<lambda>_. True) True e" by (simp add: allowed_action_def split: action.split)
qed

text \<open>The last step of a deletion, as the directories it removes.\<close>

lemma failPending_fixed:
  assumes "a < length (m_heap m)"
  shows "fixed_fields (sess (failPendingInputs a reason m) a) = fixed_fields (sess m a)"
proof -
  obtain n where "sess (failPendingInputs a reason m) a = (fold unreserve (pendingInputs (sess m a)) ((sess m a)\<lparr> pendingInputs := [] \<rparr>))\<lparr> structSeq := n \<rparr>"
    using failPending_heap[OF assms] by blast
  then have "fixed_fields (sess (failPendingInputs a reason m) a) = fixed_fields (fold unreserve (pendingInputs (sess m a)) ((sess m a)\<lparr> pendingInputs := [] \<rparr>))"
    by (simp add: fixed_fields_def)
  then show ?thesis by simp (simp add: fixed_fields_def)
qed

lemma delete_step:
  assumes "exec (mstep h) (newSessionManager w) es = Some m" "m_dispatch m = Deleting a r" "a < length (m_heap m)" "mstep h m ADeleteEnd = Some m'"
    "l = session_layout (h_opts h) (ns_spec (sess m a))" "trim_space (cs_task_id (ns_spec (sess m a))) \<noteq> []"
  shows "m_world m' = (case remove_all (gfs (m_world m)) (l_runtimeDir l) of
      Inl _ \<Rightarrow> m_world m
    | Inr s' \<Rightarrow> (let w = (m_world m)\<lparr> gfs := s' \<rparr> in if l_envID l = [] then w
         else removeWorktree (h_git h) (h_opts h) (l_envID l) (trim_space (cs_task_id (ns_spec (sess m a)))) (l_repoDir l) w))"
proof -
  let ?m1 = "m\<lparr> m_dispatch := Ready \<rparr>"
  let ?m2 = "upd a (\<lambda>s. s\<lparr> fileService := False \<rparr>) (failPendingInputs a FailDeleted ?m1)"
  have "fixed_fields (sess (failPendingInputs a FailDeleted ?m1) a) = fixed_fields (sess m a)"
    using failPending_fixed[of a ?m1] assms(3) by (simp add: sess_def)
  then have "fixed_fields (sess ?m2 a) = fixed_fields (sess m a)" using assms(3) by (simp add: sess_upd) (simp add: fixed_fields_def)
  moreover have "as_created (h_opts h) (sess m a)" by (rule reached_layout[OF assms(1,3)])
  moreover have "\<not> l_owned l" using assms(5,6) by (simp add: session_layout_def Let_def)
  ultimately have s: "removed_dir (sess ?m2 a) = l_runtimeDir l" "worktreeEnvID (sess ?m2 a) = l_envID l" "worktreeRepoDir (sess ?m2 a) = l_repoDir l"
    "taskID (sess ?m2 a) = trim_space (cs_task_id (ns_spec (sess m a)))"
    using assms(5) by (simp_all add: as_created_def fixed_fields_def removed_dir_def Let_def)
  have w: "m_world ?m2 = m_world m" by (simp add: upd_def)
  have "m' = snd (delete_end h a ?m1)" using assms(2,4) by (auto simp: mstep_def split: if_splits)
  then show ?thesis by (simp add: delete_end_def Let_def s w split: sum.split)
qed

text \<open>The directory of a session: below the workspace of its task, or below its environment.\<close>

definition session_path :: "sessionOptions \<Rightarrow> NodeCreateSession \<Rightarrow> path" where
  "session_path opts spec =
    comps (workRoot opts) @
    (if usesWorktree spec \<or> externalWorktreePath spec \<noteq> [] then [''envs'', sanitizeSessionDir (env_id_tag spec)]
     else [''tasks'', sanitizeSessionDir (trim_space (cs_task_id spec))]) @
    [''.agent-compose'', ''sessions'', sanitizeSessionDir (trim_space (cs_session_id spec))]"

lemma task_session_dir:
  assumes "is_abs (workRoot opts)" "trim_space (cs_task_id spec) \<noteq> []"
  shows "comps (l_runtimeDir (session_layout opts spec)) = session_path opts spec"
proof -
  have j: "comps (path_join [path_join [workRoot opts, x, sanitizeSessionDir y], ''.agent-compose'', ''sessions'', sanitizeSessionDir z]) =
      comps (workRoot opts) @ [x, sanitizeSessionDir y, ''.agent-compose'', ''sessions'', sanitizeSessionDir z]" if "plain_seg x" for x y z
  proof -
    have "comps (path_join [workRoot opts, x, sanitizeSessionDir y]) = comps (workRoot opts) @ [x, sanitizeSessionDir y]"
      "is_abs (path_join [workRoot opts, x, sanitizeSessionDir y])"
      using comps_join_segs[OF assms(1), of "[x, sanitizeSessionDir y]"] that by simp_all
    then show ?thesis
      using comps_join_segs(1)[of "path_join [workRoot opts, x, sanitizeSessionDir y]" "[''.agent-compose'', ''sessions'', sanitizeSessionDir z]"] by simp
  qed
  show ?thesis using assms(2) j[of "''envs''"] j[of "''tasks''"]
    by (auto simp: session_layout_def Let_def session_path_def envDir_def usesWorktree_def externalWorktreePath_def)
qed

text \<open>
  \<^bold>\<open>C14\<close>. Deleting the session of a task keeps the task's workspace: in every state the node can reach, the
  step that ends the deletion changes no file outside the directory of that session, which is
  \<^verbatim>\<open>.agent-compose/sessions/<session>\<close> below the task's workspace or, for an external checkout, below its
  environment.  Whether the removal succeeds or not makes no difference.  The session is one whose workspace is
  not a git worktree; a worktree is removed with its session.
\<close>

theorem delete_keeps_task_workspace:
  assumes "exec (mstep h) (newSessionManager w) es = Some m" "m_dispatch m = Deleting a r" "a < length (m_heap m)" "mstep h m ADeleteEnd = Some m'"
    "trim_space (cs_task_id (ns_spec (sess m a))) \<noteq> []" "\<not> usesWorktree (ns_spec (sess m a))" "is_abs (workRoot (h_opts h))"
    "\<not> prefix (session_path (h_opts h) (ns_spec (sess m a))) q"
  shows "lookup (gfs (m_world m')) q = lookup (gfs (m_world m)) q"
proof -
  let ?l = "session_layout (h_opts h) (ns_spec (sess m a))"
  have "l_envID ?l = []" using assms(6) by (simp add: session_layout_def Let_def)
  then show ?thesis
    using delete_step[OF assms(1-4) refl assms(5)] task_session_dir[OF assms(7,5)] assms(8) remove_all_lookup_out[of "gfs (m_world m)" "l_runtimeDir ?l"]
    by (auto simp: Let_def split: sum.splits)
qed

text \<open>
  A workspace that is a git worktree goes with its session: nothing of it is left, uncommitted work included.
  The hypotheses are that the two removals are permitted and that \<^verbatim>\<open>git worktree prune\<close>, which drops stale
  registrations, puts nothing into the worktree.
\<close>

theorem delete_drops_worktree:
  assumes "exec (mstep h) (newSessionManager w) es = Some m" "m_dispatch m = Deleting a r" "a < length (m_heap m)" "mstep h m ADeleteEnd = Some m'"
    "trim_space (cs_task_id (ns_spec (sess m a))) \<noteq> []" "usesWorktree (ns_spec (sess m a))" "is_abs (workRoot (h_opts h))"
    "wt = envWorktreeDir (h_opts h) (env_id_tag (ns_spec (sess m a))) (trim_space (cs_task_id (ns_spec (sess m a))))"
    "session_path (h_opts h) (ns_spec (sess m a)) \<notin> set (denied (gfs (m_world m)))" "comps wt \<notin> set (denied (gfs (m_world m)))"
    "\<forall>s d q. prefix (comps wt) q \<and> lookup s q = None \<longrightarrow> lookup (snd (h_git h s d [''worktree'', ''prune''])) q = None"
    "prefix (comps wt) q"
  shows "lookup (gfs (m_world m')) q = None"
proof -
  let ?l = "session_layout (h_opts h) (ns_spec (sess m a))"
  have l: "l_envID ?l = env_id_tag (ns_spec (sess m a))" "l_envID ?l \<noteq> []"
    using assms(6) by (simp_all add: session_layout_def Let_def usesWorktree_def)
  have q: "q \<noteq> []"
  proof -
    have e: "is_abs (envDir (h_opts h) x)" for x
      unfolding envDir_def using comps_join_segs(2)[OF assms(7), of "[''envs'', sanitizeSessionDir x]"] by simp
    then have "comps wt \<noteq> []" unfolding assms(8) envWorktreeDir_def by (subst comps_join_segs(1)) simp_all
    then show ?thesis using assms(12) by auto
  qed
  let ?w1 = "\<lambda>s. (m_world m)\<lparr> gfs := s \<rparr>"
  obtain s1 where s1: "remove_all (gfs (m_world m)) (l_runtimeDir ?l) = Inr s1" "denied s1 = denied (gfs (m_world m))"
    using task_session_dir[OF assms(7,5)] assms(9) by (simp add: remove_all_def Let_def)
  obtain s2 where s2: "remove_all s1 wt = Inr s2" using assms(10) s1(2) by (simp add: remove_all_def Let_def)
  have "lookup s2 q = None" by (rule remove_all_lookup_in[OF s2 assms(12) q])
  moreover have "gfs (snd (runNodeGit g d args v)) = snd (g (gfs v) (if trim_space d \<noteq> [] then d else []) args)" for g d args v
    by (simp add: runNodeGit_def Let_def split: prod.split option.split)
  ultimately have "lookup (gfs (removeWorktree (h_git h) (h_opts h) (l_envID ?l) (trim_space (cs_task_id (ns_spec (sess m a)))) (l_repoDir ?l) (?w1 s1))) q = None"
    using assms(11,12) s2 by (simp add: removeWorktree_def Let_def l(1) flip: assms(8))
  then show ?thesis using delete_step[OF assms(1-4) refl assms(5)] s1(1) l(2) by (simp add: Let_def)
qed

section \<open>A session that removes every workspace\<close>

text \<open>
  The working directory of a session without task is named after the session, beside the directory
  \<^verbatim>\<open>tasks\<close> that holds all task workspaces.  Deleting a session whose id is reduced to that name removes
  the workspace of every task.
\<close>

theorem session_named_tasks_wipes_tasks:
  assumes "delete_session h sid m = (None, m')" "lookupSession sid m = Some a" "a < length (m_heap m)" "fs_wf (gfs (m_world m))"
    "laid_out opts (sess m a)" "plain_spec (ns_spec (sess m a))" "trim_space (cs_task_id (ns_spec (sess m a))) = []"
    "trim_space (tag (ns_spec (sess m a)) ''editor_workdir'') = []" "is_abs (workRoot opts)"
    "sanitizeSessionDir (trim_space (cs_session_id (ns_spec (sess m a)))) = ''tasks''" "plain_spec spec" "trim_space (cs_task_id spec) \<noteq> []"
  shows "lookup (gfs (m_world m')) (comps (l_workDir (session_layout opts spec))) = None"
proof -
  let ?s = "sess m a"
  note p = plain_layout[OF assms(6), of opts] and q = plain_layout[OF assms(11), of opts]
  have w: "worktreeEnvID ?s = []" "removed_dir ?s = path_join [workRoot opts, ''tasks'']"
    using assms(5,7,8,10) p by (simp_all add: laid_out_def Let_def removed_dir_def)
  have "comps (removed_dir ?s) = comps (workRoot opts) @ [''tasks'']" using comps_join_segs(1)[OF assms(9), of "[''tasks'']"] w(2) by simp
  moreover have "comps (l_workDir (session_layout opts spec)) = comps (workRoot opts) @ [''tasks'', sanitizeSessionDir (trim_space (cs_task_id spec))]"
    using q(5) assms(12) task_dir(1)[OF assms(9)] by simp
  ultimately show ?thesis using delete_exact(2)[OF assms(1-3) w(1) assms(4), of "comps (l_workDir (session_layout opts spec))"] by simp
qed

section \<open>Fresh restarts\<close>

text \<open>
  A fresh restart keeps the MCP configuration below the state directory and everything outside it.
  The activation lists and the system prompt are below it as well, and are gone afterwards.
\<close>

theorem fresh_restart_state:
  assumes "resetRuntimeState root s = (None, s')" "fs_wf s" "is_abs root"
  shows "(\<forall>c. read_file s (runtimeMCPConfigPath root) = Inr c \<and> c \<noteq> Text [] \<longrightarrow> read_file s' (runtimeMCPConfigPath root) = Inr c) \<and>
    lookup s' (comps (runtimeActivationConfigPath root)) = None \<and> lookup s' (comps (agentSystemPromptPath root)) = None \<and>
    (\<forall>q. \<not> prefix (comps root) q \<and> \<not> prefix q (comps root) \<longrightarrow> lookup s' q = lookup s q)"
proof -
  let ?mcp = "runtimeMCPConfigPath root"
  have c: "comps ?mcp = comps root @ [''agents'', ''mcp'', ''config.json'']" "is_abs ?mcp" "clean ?mcp = ?mcp"
    "comps (runtimeActivationConfigPath root) = comps root @ [''agents'', ''activation.json'']"
    "comps (agentSystemPromptPath root) = comps root @ [''agents'', ''system-prompts'', ''system-prompt.txt'']"
    using comps_join_segs[OF assms(3)] clean_path_join[OF assms(3)]
    by (simp_all add: runtimeMCPConfigPath_def runtimeActivationConfigPath_def agentSystemPromptPath_def)
  have d: "comps (path_dir ?mcp) = comps root @ [''agents'', ''mcp'']"
    using comps_path_dir(1)[OF c(2,3)] c(1) by simp
  let ?clear = "and_then (try_fs s (remove_all s root)) (\<lambda>s. try_fs s (mkdir_all s root))"
  let ?gone = "\<lambda>s1. \<forall>q. prefix (comps root @ [''agents'']) q \<longrightarrow> lookup s1 q = None"
  let ?else = "\<lambda>s1. \<forall>q. \<not> prefix (comps root) q \<and> \<not> prefix q (comps root) \<longrightarrow> lookup s1 q = lookup s q"
  have cl: "?gone s1 \<and> ?else s1" if cl: "?clear = (None, s1)" for s1
  proof -
    from cl obtain s0 where r: "remove_all s root = Inr s0" "mkdir_all s0 root = Inr s1" by (auto simp: and_then_None try_fs_None)
    have "lookup s1 q = None" if "prefix (comps root @ [''agents'']) q" for q
    proof -
      have "\<not> prefix q (comps root)" "prefix (comps root) q" "q \<noteq> []" using that by (auto simp: prefix_def)
      then show ?thesis using mkdir_all_frame[OF r(2)] remove_all_lookup[OF assms(2) r(1), of q] by simp
    qed
    moreover have "lookup s1 q = lookup s q" if "\<not> prefix (comps root) q" "\<not> prefix q (comps root)" for q
      using that mkdir_all_frame[OF r(2)] remove_all_lookup[OF assms(2) r(1), of q] by (cases "q = []") auto
    ultimately show ?thesis by blast
  qed
  show ?thesis
  proof (cases "\<exists>c. read_file s ?mcp = Inr c \<and> c \<noteq> Text []")
    case False
    then have "?clear = (None, s')" using assms(1) by (auto simp: resetRuntimeState_def Let_def split: sum.splits fs_error.splits if_splits)
    from cl[OF this] False show ?thesis unfolding c(4,5) by auto
  next
    case True
    then obtain ct s1 where m: "read_file s ?mcp = Inr ct" "ct \<noteq> Text []" "?clear = (None, s1)" "write_in_dir s1 ?mcp ct = (None, s')"
      using assms(1) by (auto simp: resetRuntimeState_def Let_def and_then_None split: if_splits)
    from m(4) obtain s2 where w: "mkdir_all s1 (path_dir ?mcp) = Inr s2" "write_file s2 ?mcp ct = Inr s'"
      by (auto simp: write_in_dir_def and_then_None try_fs_None)
    have keep: "lookup s' q = lookup s1 q" if "\<not> prefix q (comps root @ [''agents'', ''mcp''])" "q \<noteq> comps ?mcp" for q
      using mkdir_all_frame[OF w(1), unfolded d, OF that(1)] write_file_lookup[OF w(2), of q] that(2) by simp
    have "lookup s' q = lookup s q" if "\<not> prefix (comps root) q" "\<not> prefix q (comps root)" for q
    proof -
      have "\<not> prefix q (comps root @ [''agents'', ''mcp''])" using that prefix_same_cases[of q _ "comps root"] by (meson prefixI)
      moreover have "q \<noteq> comps ?mcp" using that(1) c(1) by auto
      ultimately show ?thesis using keep cl[OF m(3)] that by simp
    qed
    moreover have "lookup s' (comps root @ [''agents'', ''activation.json'']) = None"
      "lookup s' (comps root @ [''agents'', ''system-prompts'', ''system-prompt.txt'']) = None"
      using cl[OF m(3)] keep c(1) by (simp_all add: prefix_append)
    ultimately show ?thesis unfolding c(4,5) using write_in_dir_reads[OF m(4)] m(1) by auto
  qed
qed


section \<open>Witnesses\<close>

theorem delete_keeps_task_workspace_witness:
  "\<exists>m m'. exec (mstep demo_host) (newSessionManager demo_world) [ACreate demo_spec, ADeleteBegin ''s1''] = Some m \<and> mstep demo_host m ADeleteEnd = Some m' \<and>
    lookup (gfs (m_world m')) [''w'', ''tasks'', ''t1''] = Some NDir \<and>
    lookup (gfs (m_world m)) [''w'', ''tasks'', ''t1'', ''.agent-compose'', ''sessions'', ''s1''] = Some NDir \<and>
    lookup (gfs (m_world m')) [''w'', ''tasks'', ''t1'', ''.agent-compose'', ''sessions'', ''s1''] = None"
proof -
  let ?x = "exec (mstep demo_host) (newSessionManager demo_world) [ACreate demo_spec, ADeleteBegin ''s1'']"
  let ?d = "[''w'', ''tasks'', ''t1'', ''.agent-compose'', ''sessions'', ''s1'']"
  have "map_option (\<lambda>m. (m_dispatch m, length (m_heap m), trim_space (cs_task_id (ns_spec (sess m 0))) = [], usesWorktree (ns_spec (sess m 0)),
      session_path demo_opts (ns_spec (sess m 0)), lookup (gfs (m_world m)) [''w'', ''tasks'', ''t1''], lookup (gfs (m_world m)) ?d,
      map_option (\<lambda>m. lookup (gfs (m_world m)) ?d) (mstep demo_host m ADeleteEnd))) ?x
    = Some (Deleting 0 None, 1, False, False, ?d, Some NDir, Some NDir, Some None)" by code_simp
  then obtain m m' where m: "?x = Some m" "m_dispatch m = Deleting 0 None" "length (m_heap m) = 1" "trim_space (cs_task_id (ns_spec (sess m 0))) \<noteq> []"
    "\<not> usesWorktree (ns_spec (sess m 0))" "session_path demo_opts (ns_spec (sess m 0)) = ?d"
    "lookup (gfs (m_world m)) [''w'', ''tasks'', ''t1''] = Some NDir" "lookup (gfs (m_world m)) ?d = Some NDir"
    "mstep demo_host m ADeleteEnd = Some m'" "lookup (gfs (m_world m')) ?d = None" by auto
  have o: "h_opts demo_host = demo_opts" "is_abs (workRoot (h_opts demo_host))" by code_simp+
  have "lookup (gfs (m_world m')) [''w'', ''tasks'', ''t1''] = lookup (gfs (m_world m)) [''w'', ''tasks'', ''t1'']"
    using delete_keeps_task_workspace[OF m(1,2) _ m(9,4,5) o(2)] m(3) by (simp add: o(1) m(6))
  with m show ?thesis by (intro exI[of _ m] exI[of _ m']) simp
qed

text \<open>A node that finds the worktree of a task with a file in it, and a git that does nothing.\<close>

definition worktree_spec :: NodeCreateSession where
  "worktree_spec = demo_spec\<lparr> cs_tags := [(''workspace_mode'', ''worktree''), (''env_id'', ''e'')] \<rparr>"

definition worktree_world :: git_world where
  "worktree_world = \<lparr> gfs = \<lparr> nodes = map (\<lambda>n. (take n [''w'', ''envs'', ''e'', ''worktrees'', ''t1'', ''x''], if n < 6 then NDir else NFile (Text ''work''))) [1..<7],
     denied = [] \<rparr>, commands = [] \<rparr>"

definition idle_host :: host where
  "idle_host = demo_host\<lparr> h_git := \<lambda>s d args. (None, s) \<rparr>"

theorem delete_drops_worktree_witness:
  "\<exists>m m'. exec (mstep idle_host) (newSessionManager worktree_world) [ACreate worktree_spec, ADeleteBegin ''s1''] = Some m \<and>
    mstep idle_host m ADeleteEnd = Some m' \<and>
    lookup (gfs (m_world m)) [''w'', ''envs'', ''e'', ''worktrees'', ''t1'', ''x''] = Some (NFile (Text ''work'')) \<and>
    lookup (gfs (m_world m')) [''w'', ''envs'', ''e'', ''worktrees'', ''t1'', ''x''] = None"
proof -
  let ?x = "exec (mstep idle_host) (newSessionManager worktree_world) [ACreate worktree_spec, ADeleteBegin ''s1'']"
  let ?d = "[''w'', ''envs'', ''e'', ''worktrees'', ''t1'']"
  have "map_option (\<lambda>m. (m_dispatch m, length (m_heap m), trim_space (cs_task_id (ns_spec (sess m 0))) = [], usesWorktree (ns_spec (sess m 0)),
      comps (envWorktreeDir demo_opts (env_id_tag (ns_spec (sess m 0))) (trim_space (cs_task_id (ns_spec (sess m 0))))),
      denied (gfs (m_world m)), lookup (gfs (m_world m)) (?d @ [''x'']), mstep idle_host m ADeleteEnd = None)) ?x
    = Some (Deleting 0 None, 1, False, True, ?d, [], Some (NFile (Text ''work'')), False)" by code_simp
  then obtain m m' where m: "?x = Some m" "m_dispatch m = Deleting 0 None" "length (m_heap m) = 1" "trim_space (cs_task_id (ns_spec (sess m 0))) \<noteq> []"
    "usesWorktree (ns_spec (sess m 0))"
    "comps (envWorktreeDir demo_opts (env_id_tag (ns_spec (sess m 0))) (trim_space (cs_task_id (ns_spec (sess m 0))))) = ?d"
    "denied (gfs (m_world m)) = []" "lookup (gfs (m_world m)) (?d @ [''x'']) = Some (NFile (Text ''work''))" "mstep idle_host m ADeleteEnd = Some m'" by auto
  have o: "h_opts idle_host = demo_opts" "is_abs (workRoot (h_opts idle_host))" by code_simp+
  have g: "snd (h_git idle_host s d args) = s" for s d args by (simp add: idle_host_def)
  have "lookup (gfs (m_world m')) (?d @ [''x'']) = None"
    by (rule delete_drops_worktree[OF m(1,2) _ m(9,4,5) o(2) refl]) (simp_all add: m(3,6,7) o(1) g)
  with m show ?thesis by (intro exI[of _ m] exI[of _ m']) simp
qed

theorem session_named_tasks_wipes_tasks_witness:
  "\<exists>m m'. exec (mstep demo_host) (newSessionManager demo_world) [ACreate demo_spec, ACreate (demo_session ''tasks'')] = Some m \<and>
    delete_session demo_host ''tasks'' m = (None, m') \<and>
    lookup (gfs (m_world m)) (comps (l_workDir (session_layout demo_opts demo_spec))) = Some NDir \<and>
    lookup (gfs (m_world m')) (comps (l_workDir (session_layout demo_opts demo_spec))) = None"
proof -
  let ?x = "exec (mstep demo_host) (newSessionManager demo_world) [ACreate demo_spec, ACreate (demo_session ''tasks'')]"
  have "map_option (\<lambda>m. (lookupSession ''tasks'' m, length (m_heap m), fs_wf (gfs (m_world m)), laid_out demo_opts (sess m 1), plain_spec (ns_spec (sess m 1)),
      trim_space (cs_task_id (ns_spec (sess m 1))), trim_space (tag (ns_spec (sess m 1)) ''editor_workdir''),
      sanitizeSessionDir (trim_space (cs_session_id (ns_spec (sess m 1)))),
      lookup (gfs (m_world m)) (comps (l_workDir (session_layout demo_opts demo_spec))), fst (delete_session demo_host ''tasks'' m))) ?x
    = Some (Some 1, 2, True, True, True, [], [], ''tasks'', Some NDir, None)" by code_simp
  then obtain m where m: "?x = Some m" "lookupSession ''tasks'' m = Some 1" "length (m_heap m) = 2" "fs_wf (gfs (m_world m))" "laid_out demo_opts (sess m 1)"
    "plain_spec (ns_spec (sess m 1))" "trim_space (cs_task_id (ns_spec (sess m 1))) = []" "trim_space (tag (ns_spec (sess m 1)) ''editor_workdir'') = []"
    "sanitizeSessionDir (trim_space (cs_session_id (ns_spec (sess m 1)))) = ''tasks''"
    "lookup (gfs (m_world m)) (comps (l_workDir (session_layout demo_opts demo_spec))) = Some NDir" "fst (delete_session demo_host ''tasks'' m) = None" by auto
  obtain m' where m': "delete_session demo_host ''tasks'' m = (None, m')" using m(11) by (metis prod.collapse)
  have "is_abs (workRoot demo_opts)" "plain_spec demo_spec" "trim_space (cs_task_id demo_spec) \<noteq> []" by code_simp+
  from session_named_tasks_wipes_tasks[OF m' m(2) _ m(4-8) this(1) m(9) this(2,3)] m(3)
  have "lookup (gfs (m_world m')) (comps (l_workDir (session_layout demo_opts demo_spec))) = None" by simp
  with m(1,10) m' show ?thesis by blast
qed

definition demo_state :: fs where
  "demo_state = \<lparr> nodes = [([''r''], NDir), ([''r'', ''agents''], NDir), ([''r'', ''agents'', ''activation.json''], NFile (Text ''a'')),
     ([''r'', ''agents'', ''mcp''], NDir), ([''r'', ''agents'', ''mcp'', ''config.json''], NFile (Text ''m''))], denied = [] \<rparr>"

theorem fresh_restart_state_witness:
  "\<exists>s'. resetRuntimeState ''/r'' demo_state = (None, s') \<and> lookup demo_state (comps (runtimeActivationConfigPath ''/r'')) \<noteq> None \<and>
    lookup s' (comps (runtimeActivationConfigPath ''/r'')) = None \<and> read_file s' (runtimeMCPConfigPath ''/r'') = Inr (Text ''m'')"
proof -
  have "fst (resetRuntimeState ''/r'' demo_state) = None" by code_simp
  then obtain s' where s': "resetRuntimeState ''/r'' demo_state = (None, s')" by (metis prod.collapse)
  have "fs_wf demo_state" "is_abs ''/r''" "read_file demo_state (runtimeMCPConfigPath ''/r'') = Inr (Text ''m'')"
    "lookup demo_state (comps (runtimeActivationConfigPath ''/r'')) \<noteq> None" by code_simp+
  with fresh_restart_state[OF s'] s' show ?thesis by auto
qed

end
