(* ===== verification/Terminals.thy ===== *)
theory Terminals
  imports Machines
begin

text \<open>
  Host terminals: \<^verbatim>\<open>common/agent/terminal.go\<close>.

  A terminal is an object its pump goroutine keeps using after it has left the registry, so there is a heap
  of them.  The pseudo-terminal is what the code uses of it: bytes written to it, its window, whether it was
  closed; the bytes it yields, its exit and the success of a write, of a resize and of an upstream send are inputs of
  the steps.  \<open>ts_history\<close> is every chunk read so far.  Times are nanoseconds.  Atomic loads and stores
  are steps of their own where two goroutines meet.
\<close>

section \<open>State\<close>

definition defaultTermCols :: "16 word" where "defaultTermCols = 80"
definition defaultTermRows :: "16 word" where "defaultTermRows = 24"
definition termReadChunk :: int where "termReadChunk = 32 * 1024"
definition termReplayLimit :: int where "termReplayLimit = 256 * 1024"
definition termDetachTimeout :: int where "termDetachTimeout = 30 * 60 * 1000000000"

record terminalEntry =
  te_seq :: "64 word"
  te_data :: string

record terminalBuffer =
  tb_entries :: "terminalEntry list"
  tb_limit :: int
  tb_size :: int

datatype pump_pc = PRead | PEmit "64 word" string | PMark | PWait | PExit int string | PDone

record terminalSession =
  ts_id :: string
  ts_stdin :: string
  ts_window :: "16 word \<times> 16 word"
  ts_closed :: bool
  ts_attached :: bool
  ts_detachedAt :: int
  ts_seq :: "64 word"
  ts_lineBuf :: string
  ts_lastCommand :: string
  ts_lastCommandT :: "int option"
  ts_createdT :: int
  ts_pc :: pump_pc
  ts_history :: "string list"

record NodeTerminalStatus =
  st_terminal_id :: string
  st_current_command :: string
  st_started_at :: "int option"
  st_created_at :: int
  st_attached :: bool

datatype term_frame =
    TerminalOutput string string "64 word" bool
  | TerminalExit string "32 word" string
  | TerminalListResult string "NodeTerminalStatus list"

text \<open>What the dispatch loop is doing to terminals.\<close>

datatype term_dispatch =
    TdReady
  | TdLookup nat "64 word"
  | TdReplay nat "terminalEntry list" bool
  | TdMark nat
  | TdDetach "nat list"
  | TdStamp nat "nat list"

record TerminalManager =
  tm_terms :: "(string, nat) gomap"
  tm_buffers :: "(string, terminalBuffer) gomap"
  tm_heap :: "terminalSession list"
  tm_dispatch :: term_dispatch
  tm_sent :: "term_frame list"

definition NewTerminalManager :: TerminalManager where
  "NewTerminalManager = \<lparr> tm_terms = [], tm_buffers = [], tm_heap = [], tm_dispatch = TdReady, tm_sent = [] \<rparr>"

section \<open>Replay buffer\<close>

definition newTerminalBuffer :: "int \<Rightarrow> terminalBuffer" where
  "newTerminalBuffer limit = \<lparr> tb_entries = [], tb_limit = limit, tb_size = 0 \<rparr>"

fun evict :: "int \<Rightarrow> int \<Rightarrow> terminalEntry list \<Rightarrow> int \<times> terminalEntry list" where
  "evict limit sz [] = (sz, [])"
| "evict limit sz (e # es) =
    (if sz > limit then evict limit (sz - int (length (te_data e))) es else (sz, e # es))"

definition buffer_append :: "64 word \<Rightarrow> string \<Rightarrow> terminalBuffer \<Rightarrow> terminalBuffer" where
  "buffer_append seq data b =
    (let (sz, es) = evict (tb_limit b) (tb_size b + int (length data)) (tb_entries b @ [\<lparr> te_seq = seq, te_data = data \<rparr>])
     in b\<lparr> tb_entries := es, tb_size := sz \<rparr>)"

definition replay :: "64 word \<Rightarrow> terminalBuffer \<Rightarrow> terminalEntry list \<times> bool" where
  "replay afterSeq b =
    (case tb_entries b of
       [] \<Rightarrow> ([], False)
     | e # _ \<Rightarrow> (filter (\<lambda>x. afterSeq < te_seq x) (tb_entries b), afterSeq + 1 < te_seq e))"

section \<open>Operations\<close>

definition resolveTerminalCwd :: "string option \<Rightarrow> string \<Rightarrow> string" where
  "resolveTerminalCwd userHome cwd =
    (if trim_space cwd \<noteq> [] then trim_space cwd else case userHome of None \<Rightarrow> [] | Some h \<Rightarrow> h)"

definition shell :: "TerminalManager \<Rightarrow> nat \<Rightarrow> terminalSession" where
  "shell m a = tm_heap m ! a"

definition upd_term :: "nat \<Rightarrow> (terminalSession \<Rightarrow> terminalSession) \<Rightarrow> TerminalManager \<Rightarrow> TerminalManager" where
  "upd_term a f m = m\<lparr> tm_heap := (tm_heap m)[a := f (tm_heap m ! a)] \<rparr>"

definition send :: "bool \<Rightarrow> term_frame \<Rightarrow> TerminalManager \<Rightarrow> TerminalManager" where
  "send ok fr m = (if ok then m\<lparr> tm_sent := tm_sent m @ [fr] \<rparr> else m)"

definition get :: "string \<Rightarrow> TerminalManager \<Rightarrow> nat option" where
  "get i m = (if i = [] then None else mget (tm_terms m) i)"

definition ActiveTerminalIDs :: "TerminalManager \<Rightarrow> string list" where
  "ActiveTerminalIDs m = mkeys (tm_terms m)"

definition window_size :: "(32 word \<times> 32 word) option \<Rightarrow> 16 word \<times> 16 word" where
  "window_size wsz = (case wsz of
      None \<Rightarrow> (defaultTermCols, defaultTermRows)
    | Some (c, r) \<Rightarrow> ((if 0 < (ucast c :: 16 word) then ucast c else defaultTermCols), (if 0 < (ucast r :: 16 word) then ucast r else defaultTermRows)))"

definition new_terminal :: "string \<Rightarrow> (32 word \<times> 32 word) option \<Rightarrow> int \<Rightarrow> terminalSession" where
  "new_terminal i wsz now =
    \<lparr> ts_id = i, ts_stdin = [], ts_window = window_size wsz, ts_closed = False, ts_attached = False, ts_detachedAt = now, ts_seq = 0,
      ts_lineBuf = [], ts_lastCommand = [], ts_lastCommandT = None, ts_createdT = now, ts_pc = PRead, ts_history = [] \<rparr>"

text \<open>\<open>err\<close> is the error of the platform call, if it fails, and \<open>ok\<close> whether the exit frame can be sent.\<close>

definition Open :: "string \<Rightarrow> (32 word \<times> 32 word) option \<Rightarrow> int \<Rightarrow> string option \<Rightarrow> bool \<Rightarrow> TerminalManager \<Rightarrow> TerminalManager" where
  "Open i wsz now err ok m =
    (if i = [] \<or> mget (tm_terms m) i \<noteq> None then m
     else case err of
         Some e \<Rightarrow> send ok (TerminalExit i (-1) e) m
       | None \<Rightarrow> m\<lparr> tm_terms := mput i (length (tm_heap m)) (tm_terms m), tm_buffers := mput i (newTerminalBuffer termReplayLimit) (tm_buffers m),
           tm_heap := tm_heap m @ [new_terminal i wsz now] \<rparr>)"

text \<open>Attaching: look up, replay, then the two stores of \<open>markAttached\<close>.\<close>

definition attach_begin :: "string \<Rightarrow> 64 word \<Rightarrow> bool \<Rightarrow> TerminalManager \<Rightarrow> TerminalManager" where
  "attach_begin i afterSeq ok m =
    (if i = [] then m
     else case mget (tm_terms m) i of
         None \<Rightarrow> send ok (TerminalExit i (-1) ''terminal_not_found'') m
       | Some a \<Rightarrow> m\<lparr> tm_dispatch := TdLookup a afterSeq \<rparr>)"

definition mark_attached :: "terminalSession \<Rightarrow> terminalSession" where
  "mark_attached s = s\<lparr> ts_attached := True \<rparr>"

definition clear_detached :: "terminalSession \<Rightarrow> terminalSession" where
  "clear_detached s = s\<lparr> ts_detachedAt := 0 \<rparr>"

definition attach_next :: "bool \<Rightarrow> TerminalManager \<Rightarrow> TerminalManager option" where
  "attach_next ok m = (case tm_dispatch m of
      TdLookup a afterSeq \<Rightarrow>
        (let (es, truncated) = (case mget (tm_buffers m) (ts_id (shell m a)) of None \<Rightarrow> ([], False) | Some b \<Rightarrow> replay afterSeq b)
         in Some (m\<lparr> tm_dispatch := TdReplay a es truncated \<rparr>))
    | TdReplay a (e # es) truncated \<Rightarrow>
        Some ((send ok (TerminalOutput (ts_id (shell m a)) (te_data e) (te_seq e) truncated) m)\<lparr> tm_dispatch := TdReplay a es False \<rparr>)
    | TdReplay a [] truncated \<Rightarrow> Some ((upd_term a mark_attached m)\<lparr> tm_dispatch := TdMark a \<rparr>)
    | TdMark a \<Rightarrow> Some ((upd_term a clear_detached m)\<lparr> tm_dispatch := TdReady \<rparr>)
    | _ \<Rightarrow> None)"

text \<open>One byte of input: the line being typed and the last line submitted.\<close>

definition record_byte :: "int \<Rightarrow> char \<Rightarrow> terminalSession \<Rightarrow> terminalSession" where
  "record_byte now b s =
    (if b = CHR 0x0A \<or> b = CHR 0x0D then
       (let line = trim_space (ts_lineBuf s) in
        if line \<noteq> [] then s\<lparr> ts_lineBuf := [], ts_lastCommand := line, ts_lastCommandT := Some now \<rparr> else s\<lparr> ts_lineBuf := [] \<rparr>)
     else if b = CHR 0x7F \<or> b = CHR 0x08 then s\<lparr> ts_lineBuf := butlast (ts_lineBuf s) \<rparr>
     else if b = CHR 0x03 then s\<lparr> ts_lineBuf := [] \<rparr>
     else if 32 \<le> (of_char b :: nat) \<and> (of_char b :: nat) < 127 then s\<lparr> ts_lineBuf := ts_lineBuf s @ [b] \<rparr>
     else s)"

definition recordInput :: "int \<Rightarrow> string \<Rightarrow> terminalSession \<Rightarrow> terminalSession" where
  "recordInput now data s = fold (record_byte now) data s"

definition pty_write :: "bool \<Rightarrow> string \<Rightarrow> terminalSession \<Rightarrow> terminalSession" where
  "pty_write ok data s = (if ok then s\<lparr> ts_stdin := ts_stdin s @ data \<rparr> else s)"

definition on_term :: "string \<Rightarrow> (terminalSession \<Rightarrow> terminalSession) \<Rightarrow> TerminalManager \<Rightarrow> TerminalManager" where
  "on_term i f m = (case get i m of None \<Rightarrow> m | Some a \<Rightarrow> upd_term a f m)"

definition Input :: "string \<Rightarrow> string \<Rightarrow> int \<Rightarrow> bool \<Rightarrow> TerminalManager \<Rightarrow> TerminalManager" where
  "Input i data now ok = on_term i (\<lambda>s. recordInput now data (pty_write ok data s))"

definition Interrupt :: "string \<Rightarrow> bool \<Rightarrow> TerminalManager \<Rightarrow> TerminalManager" where
  "Interrupt i ok = on_term i (\<lambda>s. if ok then (pty_write ok [CHR 0x03] s)\<lparr> ts_lineBuf := [] \<rparr> else s)"

definition Resize :: "string \<Rightarrow> (32 word \<times> 32 word) option \<Rightarrow> bool \<Rightarrow> TerminalManager \<Rightarrow> TerminalManager" where
  "Resize i wsz ok = on_term i (\<lambda>s. case wsz of
      None \<Rightarrow> s
    | Some (c, r) \<Rightarrow> if (ucast c :: 16 word) = 0 \<or> (ucast r :: 16 word) = 0 \<or> \<not> ok then s else s\<lparr> ts_window := (ucast c, ucast r) \<rparr>)"

definition close_term :: "terminalSession \<Rightarrow> terminalSession" where
  "close_term s = s\<lparr> ts_closed := True \<rparr>"

definition Close :: "string \<Rightarrow> TerminalManager \<Rightarrow> TerminalManager" where
  "Close i = on_term i close_term"

definition CloseAll :: "TerminalManager \<Rightarrow> TerminalManager" where
  "CloseAll m = fold (\<lambda>(i, a). upd_term a close_term) (tm_terms m) m"

definition status :: "terminalSession \<Rightarrow> NodeTerminalStatus" where
  "status s = \<lparr> st_terminal_id = ts_id s, st_current_command = ts_lastCommand s, st_started_at = ts_lastCommandT s,
     st_created_at = ts_createdT s, st_attached = ts_attached s \<rparr>"

definition List_terminals :: "string \<Rightarrow> bool \<Rightarrow> TerminalManager \<Rightarrow> TerminalManager" where
  "List_terminals req ok m = send ok (TerminalListResult req (map (\<lambda>(i, a). status (shell m a)) (tm_terms m))) m"

text \<open>Detaching all terminals: for each the swap and then, if it was attached, the time stamp.\<close>

definition detach_next :: "int \<Rightarrow> TerminalManager \<Rightarrow> TerminalManager option" where
  "detach_next now m = (case tm_dispatch m of
      TdDetach [] \<Rightarrow> Some (m\<lparr> tm_dispatch := TdReady \<rparr>)
    | TdDetach (a # rest) \<Rightarrow>
        Some ((upd_term a (\<lambda>s. s\<lparr> ts_attached := False \<rparr>) m)\<lparr> tm_dispatch := (if ts_attached (shell m a) then TdStamp a rest else TdDetach rest) \<rparr>)
    | TdStamp a rest \<Rightarrow> Some ((upd_term a (\<lambda>s. s\<lparr> ts_detachedAt := now \<rparr>) m)\<lparr> tm_dispatch := TdDetach rest \<rparr>)
    | _ \<Rightarrow> None)"

section \<open>Pump\<close>

text \<open>A chunk read from the terminal gets the next number and is buffered; sending it is a step of its own.\<close>

definition pump_read :: "nat \<Rightarrow> string \<Rightarrow> TerminalManager \<Rightarrow> TerminalManager" where
  "pump_read a data m =
    (let s = shell m a; seq = ts_seq s + 1;
         m = upd_term a (\<lambda>s. s\<lparr> ts_seq := seq, ts_pc := PEmit seq data, ts_history := ts_history s @ [data] \<rparr>) m
     in case mget (tm_buffers m) (ts_id s) of
          None \<Rightarrow> m
        | Some b \<Rightarrow> m\<lparr> tm_buffers := mput (ts_id s) (buffer_append seq data b) (tm_buffers m) \<rparr>)"

definition pump_emit :: "nat \<Rightarrow> bool \<Rightarrow> TerminalManager \<Rightarrow> TerminalManager" where
  "pump_emit a ok m = (case ts_pc (shell m a) of
      PEmit seq data \<Rightarrow>
        (let m = send ok (TerminalOutput (ts_id (shell m a)) data seq False) m
         in upd_term a (\<lambda>s. if ok then (mark_attached s)\<lparr> ts_pc := PMark \<rparr> else s\<lparr> ts_pc := PRead \<rparr>) m)
    | _ \<Rightarrow> m)"

definition pump_mark :: "nat \<Rightarrow> TerminalManager \<Rightarrow> TerminalManager" where
  "pump_mark a = upd_term a (\<lambda>s. (clear_detached s)\<lparr> ts_pc := PRead \<rparr>)"

definition pump_eof :: "nat \<Rightarrow> TerminalManager \<Rightarrow> TerminalManager" where
  "pump_eof a = upd_term a (\<lambda>s. s\<lparr> ts_pc := PWait \<rparr>)"

definition remove_term :: "string \<Rightarrow> TerminalManager \<Rightarrow> TerminalManager" where
  "remove_term i m = m\<lparr> tm_terms := mdel i (tm_terms m), tm_buffers := mdel i (tm_buffers m) \<rparr>"

definition pump_wait :: "nat \<Rightarrow> int \<Rightarrow> string \<Rightarrow> TerminalManager \<Rightarrow> TerminalManager" where
  "pump_wait a code err m = remove_term (ts_id (shell m a)) (upd_term a (\<lambda>s. s\<lparr> ts_pc := PExit code err \<rparr>) m)"

definition pump_exit :: "nat \<Rightarrow> bool \<Rightarrow> TerminalManager \<Rightarrow> TerminalManager" where
  "pump_exit a ok m = (case ts_pc (shell m a) of
      PExit code err \<Rightarrow> upd_term a (\<lambda>s. s\<lparr> ts_pc := PDone \<rparr>) (send ok (TerminalExit (ts_id (shell m a)) (of_int code) err) m)
    | _ \<Rightarrow> m)"

definition reapable :: "int \<Rightarrow> terminalSession \<Rightarrow> bool" where
  "reapable now s \<longleftrightarrow> ts_detachedAt s \<noteq> 0 \<and> \<not> now - ts_detachedAt s < termDetachTimeout"

definition reapDetached :: "int \<Rightarrow> TerminalManager \<Rightarrow> TerminalManager" where
  "reapDetached now m = fold (\<lambda>(i, a). upd_term a close_term) (filter (\<lambda>(i, a). reapable now (shell m a)) (tm_terms m)) m"

section \<open>Interleavings\<close>

datatype term_event =
    TOpen string "(32 word \<times> 32 word) option" int "string option" bool
  | TAttach string "64 word" bool
  | TAttachNext bool
  | TInput string string int bool
  | TInterrupt string bool
  | TResize string "(32 word \<times> 32 word) option" bool
  | TClose string
  | TList string bool
  | TDetachAll
  | TDetachNext int
  | TRead nat string
  | TEmit nat bool
  | TMarked nat
  | TEof nat
  | TWaited nat int string
  | TExited nat bool
  | TReap int

fun at_emit :: "pump_pc \<Rightarrow> bool" where
  "at_emit (PEmit n data) = True"
| "at_emit _ = False"

fun at_exit :: "pump_pc \<Rightarrow> bool" where
  "at_exit (PExit code err) = True"
| "at_exit _ = False"

definition has_pc :: "TerminalManager \<Rightarrow> nat \<Rightarrow> (pump_pc \<Rightarrow> bool) \<Rightarrow> bool" where
  "has_pc m a P \<longleftrightarrow> a < length (tm_heap m) \<and> P (ts_pc (shell m a))"

fun tstep :: "TerminalManager \<Rightarrow> term_event \<Rightarrow> TerminalManager option" where
  "tstep m (TOpen i wsz now err ok) = (if tm_dispatch m = TdReady then Some (Open i wsz now err ok m) else None)"
| "tstep m (TAttach i n ok) = (if tm_dispatch m = TdReady then Some (attach_begin i n ok m) else None)"
| "tstep m (TAttachNext ok) = attach_next ok m"
| "tstep m (TInput i data now ok) = (if tm_dispatch m = TdReady then Some (Input i data now ok m) else None)"
| "tstep m (TInterrupt i ok) = (if tm_dispatch m = TdReady then Some (Interrupt i ok m) else None)"
| "tstep m (TResize i wsz ok) = (if tm_dispatch m = TdReady then Some (Resize i wsz ok m) else None)"
| "tstep m (TClose i) = (if tm_dispatch m = TdReady then Some (Close i m) else None)"
| "tstep m (TList req ok) = (if tm_dispatch m = TdReady then Some (List_terminals req ok m) else None)"
| "tstep m TDetachAll = (if tm_dispatch m = TdReady then Some (m\<lparr> tm_dispatch := TdDetach (map snd (tm_terms m)) \<rparr>) else None)"
| "tstep m (TDetachNext now) = detach_next now m"
| "tstep m (TRead a data) = (if has_pc m a (\<lambda>p. p = PRead) \<and> data \<noteq> [] \<and> int (length data) \<le> termReadChunk then Some (pump_read a data m) else None)"
| "tstep m (TEmit a ok) = (if has_pc m a at_emit then Some (pump_emit a ok m) else None)"
| "tstep m (TMarked a) = (if has_pc m a (\<lambda>p. p = PMark) then Some (pump_mark a m) else None)"
| "tstep m (TEof a) = (if has_pc m a (\<lambda>p. p = PRead) then Some (pump_eof a m) else None)"
| "tstep m (TWaited a code err) = (if has_pc m a (\<lambda>p. p = PWait) then Some (pump_wait a code err m) else None)"
| "tstep m (TExited a ok) = (if has_pc m a at_exit then Some (pump_exit a ok m) else None)"
| "tstep m (TReap now) = Some (reapDetached now m)"

section \<open>Reference: what a terminal printed\<close>

definition numbered :: "string list \<Rightarrow> terminalEntry list" where
  "numbered h = map (\<lambda>n. \<lparr> te_seq = of_nat (Suc n), te_data = h ! n \<rparr>) [0..<length h]"

definition bytes_total :: "terminalEntry list \<Rightarrow> int" where
  "bytes_total es = sum_list (map (\<lambda>e. int (length (te_data e))) es)"

text \<open>The longest suffix of at most \<open>limit\<close> bytes.\<close>

fun fit :: "int \<Rightarrow> terminalEntry list \<Rightarrow> terminalEntry list" where
  "fit limit [] = []"
| "fit limit (e # es) = (if bytes_total (e # es) > limit then fit limit es else e # es)"

definition retained :: "string list \<Rightarrow> terminalEntry list" where
  "retained h = fit termReplayLimit (numbered h)"

definition spec_buffer :: "string list \<Rightarrow> terminalBuffer" where
  "spec_buffer h = \<lparr> tb_entries = retained h, tb_limit = termReplayLimit, tb_size = bytes_total (retained h) \<rparr>"

lemma total_simps [simp]:
  "bytes_total [] = 0" "bytes_total (e # es) = int (length (te_data e)) + bytes_total es" "bytes_total (es @ fs) = bytes_total es + bytes_total fs"
  by (simp_all add: bytes_total_def)

lemma total_data: "bytes_total es = int (length (concat (map te_data es)))"
  by (induction es) simp_all

lemma total_nonneg [simp]: "0 \<le> bytes_total es"
  by (induction es) simp_all

lemma numbered_Nil [simp]: "numbered [] = []"
  by (simp add: numbered_def)

lemma numbered_snoc: "numbered (h @ [d]) = numbered h @ [\<lparr> te_seq = of_nat (length h) + 1, te_data = d \<rparr>]"
  by (simp add: numbered_def nth_append)

lemma length_numbered [simp]: "length (numbered h) = length h"
  by (simp add: numbered_def)

lemma nth_numbered: "n < length h \<Longrightarrow> numbered h ! n = \<lparr> te_seq = of_nat (Suc n), te_data = h ! n \<rparr>"
  by (simp add: numbered_def)

lemma data_numbered: "map te_data (numbered h) = h"
  by (rule nth_equalityI) (simp_all add: nth_numbered)

lemma evict_fit: "evict limit (bytes_total es) es = (bytes_total (fit limit es), fit limit es)"
  by (induction es) simp_all

lemma fit_snoc: "fit limit (fit limit es @ [e]) = fit limit (es @ [e])"
proof (induction es)
  case (Cons x es)
  show ?case
  proof (cases "bytes_total (x # es) > limit")
    case True
    moreover have "bytes_total (x # es @ [e]) > limit" using True by simp
    ultimately show ?thesis using Cons by simp
  qed simp
qed simp

lemma fit_le: "0 \<le> limit \<Longrightarrow> bytes_total (fit limit es) \<le> limit"
  by (induction es) simp_all

lemma fit_drop: "\<exists>k \<le> length es. fit limit es = drop k es \<and> (0 < k \<longrightarrow> limit < bytes_total (drop (k - 1) es))"
proof (induction es)
  case (Cons x es)
  show ?case
  proof (cases "bytes_total (x # es) > limit")
    case True
    from Cons obtain k where k: "k \<le> length es" "fit limit es = drop k es" "0 < k \<longrightarrow> limit < bytes_total (drop (k - 1) es)" by blast
    have "limit < bytes_total (drop k (x # es))" using True k(3) by (cases k) simp_all
    with True k show ?thesis by (intro exI[of _ "Suc k"]) simp
  next
    case False
    then show ?thesis by (intro exI[of _ 0]) simp
  qed
qed simp

lemma buffer_append_spec: "buffer_append (of_nat (length h) + 1) d (spec_buffer h) = spec_buffer (h @ [d])"
proof -
  let ?e = "\<lparr> te_seq = of_nat (length h) + 1, te_data = d \<rparr> :: terminalEntry"
  have "evict termReplayLimit (bytes_total (retained h) + int (length d)) (retained h @ [?e])
      = (bytes_total (retained (h @ [d])), retained (h @ [d]))"
    using evict_fit[of termReplayLimit "retained h @ [?e]"] by (simp add: retained_def numbered_snoc fit_snoc)
  then show ?thesis by (simp add: buffer_append_def spec_buffer_def)
qed

section \<open>Invariant of the registry\<close>

fun term_live :: "pump_pc \<Rightarrow> bool" where
  "term_live (PExit code err) = False"
| "term_live PDone = False"
| "term_live _ = True"

definition registry_ok :: "TerminalManager \<Rightarrow> bool" where
  "registry_ok m \<longleftrightarrow> gomap_wf (tm_terms m)
     \<and> (\<forall>i a. mget (tm_terms m) i = Some a \<longleftrightarrow> a < length (tm_heap m) \<and> ts_id (shell m a) = i \<and> term_live (ts_pc (shell m a)))
     \<and> (\<forall>i a. mget (tm_terms m) i = Some a \<longrightarrow> mget (tm_buffers m) i = Some (spec_buffer (ts_history (shell m a))))
     \<and> (\<forall>a < length (tm_heap m). ts_seq (shell m a) = of_nat (length (ts_history (shell m a))))"

lemma registry_registered: "registry_ok m \<Longrightarrow> mget (tm_terms m) i = Some a \<longleftrightarrow> a < length (tm_heap m) \<and> ts_id (shell m a) = i \<and> term_live (ts_pc (shell m a))"
  by (simp add: registry_ok_def)

lemma registry_buffer: "registry_ok m \<Longrightarrow> mget (tm_terms m) i = Some a \<Longrightarrow> mget (tm_buffers m) i = Some (spec_buffer (ts_history (shell m a)))"
  by (simp add: registry_ok_def)

lemma registry_seq: "registry_ok m \<Longrightarrow> a < length (tm_heap m) \<Longrightarrow> ts_seq (shell m a) = of_nat (length (ts_history (shell m a)))"
  by (simp add: registry_ok_def)

lemma registry_ok_init: "registry_ok NewTerminalManager"
  by (simp add: registry_ok_def NewTerminalManager_def)

lemma registry_ok_dispatch [simp]: "registry_ok (m\<lparr> tm_dispatch := d \<rparr>) = registry_ok m"
  by (simp add: registry_ok_def shell_def)

lemma registry_ok_send [simp]: "registry_ok (send ok fr m) = registry_ok m"
  by (simp add: registry_ok_def shell_def send_def)

lemma send_simps [simp]:
  "tm_terms (send ok fr m) = tm_terms m" "tm_buffers (send ok fr m) = tm_buffers m" "tm_heap (send ok fr m) = tm_heap m"
  "tm_dispatch (send ok fr m) = tm_dispatch m" "shell (send ok fr m) a = shell m a"
  by (simp_all add: send_def shell_def)

lemma upd_term_simps [simp]:
  "tm_terms (upd_term a f m) = tm_terms m" "tm_buffers (upd_term a f m) = tm_buffers m"
  "tm_dispatch (upd_term a f m) = tm_dispatch m" "tm_sent (upd_term a f m) = tm_sent m"
  "length (tm_heap (upd_term a f m)) = length (tm_heap m)"
  by (simp_all add: upd_term_def)

lemma shell_upd: "b < length (tm_heap m) \<Longrightarrow> shell (upd_term a f m) b = (if b = a then f (shell m b) else shell m b)"
  by (simp add: upd_term_def shell_def nth_upd)

lemma shell_simps [simp]: "shell (m\<lparr> tm_dispatch := d \<rparr>) a = shell m a" "shell (m\<lparr> tm_buffers := B \<rparr>) a = shell m a"
  "shell (m\<lparr> tm_terms := R \<rparr>) a = shell m a" "shell (m\<lparr> tm_sent := fs \<rparr>) a = shell m a"
  by (simp_all add: shell_def)

text \<open>An update that keeps what the registry is about.\<close>

definition neutral :: "terminalSession \<Rightarrow> terminalSession \<Rightarrow> bool" where
  "neutral s s' \<longleftrightarrow> ts_id s' = ts_id s \<and> ts_seq s' = ts_seq s \<and> ts_history s' = ts_history s \<and> term_live (ts_pc s') = term_live (ts_pc s)
     \<and> (at_emit (ts_pc s') \<longrightarrow> ts_pc s' = ts_pc s)"

lemma registry_ok_upd: "registry_ok m \<Longrightarrow> (a < length (tm_heap m) \<Longrightarrow> neutral (shell m a) (f (shell m a))) \<Longrightarrow> registry_ok (upd_term a f m)"
  unfolding registry_ok_def by (simp add: shell_upd neutral_def cong: conj_cong)

lemma neutral_refl [simp]: "neutral s s"
  by (simp add: neutral_def)

lemma neutral_trans: "neutral s t \<Longrightarrow> neutral t u \<Longrightarrow> neutral s u"
  by (auto simp: neutral_def)

lemma record_byte_neutral: "neutral s (record_byte now b s)"
  by (simp add: record_byte_def neutral_def Let_def)

lemma recordInput_neutral: "neutral s (recordInput now data s)"
  unfolding recordInput_def
  by (induction data arbitrary: s) (simp, metis fold_simps(2) neutral_trans record_byte_neutral)

lemma pty_write_neutral: "neutral s (pty_write ok data s)"
  by (simp add: pty_write_def neutral_def)

lemma close_neutral: "neutral s (close_term s)"
  by (simp add: close_term_def neutral_def)

text \<open>What operations other than opening, reading and exiting do to the shells.\<close>

definition mild :: "TerminalManager \<Rightarrow> TerminalManager \<Rightarrow> bool" where
  "mild m m' \<longleftrightarrow> tm_terms m' = tm_terms m \<and> tm_buffers m' = tm_buffers m \<and> length (tm_heap m') = length (tm_heap m)
     \<and> (\<forall>a < length (tm_heap m). neutral (shell m a) (shell m' a))"

lemma mild_refl [simp]: "mild m m"
  by (simp add: mild_def)

lemma mild_trans: "mild m n \<Longrightarrow> mild n k \<Longrightarrow> mild m k"
  by (auto simp: mild_def intro: neutral_trans)

lemma mild_dispatch [simp]: "mild m (n\<lparr> tm_dispatch := d \<rparr>) = mild m n"
  by (simp add: mild_def)

lemma mild_send [simp]: "mild m (send ok fr n) = mild m n"
  by (simp add: mild_def)

lemma mild_upd: "(\<And>s. neutral s (f s)) \<Longrightarrow> mild m (upd_term a f m)"
  by (simp add: mild_def shell_upd)

lemma mild_on_term: "(\<And>s. neutral s (f s)) \<Longrightarrow> mild m (on_term i f m)"
  by (simp add: on_term_def mild_upd split: option.split)

lemma mild_fold: "(\<And>s. neutral s (f s)) \<Longrightarrow> mild m (fold (\<lambda>(i, a). upd_term a f) xs m)"
proof (induction xs arbitrary: m)
  case (Cons x xs)
  have "mild m (upd_term (snd x) f m)" by (rule mild_upd) (rule Cons.prems)
  moreover have "mild (upd_term (snd x) f m) (fold (\<lambda>(i, a). upd_term a f) xs (upd_term (snd x) f m))"
    by (rule Cons.IH) (rule Cons.prems)
  ultimately have "mild m (fold (\<lambda>(i, a). upd_term a f) xs (upd_term (snd x) f m))" by (rule mild_trans)
  then show ?case by (cases x) simp
qed simp

lemma mild_registry: "registry_ok m \<Longrightarrow> mild m m' \<Longrightarrow> registry_ok m'"
  unfolding registry_ok_def mild_def neutral_def by (simp cong: conj_cong)

lemma mild_Input: "mild m (Input i data now ok m)"
  unfolding Input_def by (rule mild_on_term) (rule neutral_trans[OF pty_write_neutral recordInput_neutral])

lemma mild_Interrupt: "mild m (Interrupt i ok m)"
  unfolding Interrupt_def by (rule mild_on_term) (simp add: pty_write_def neutral_def)

lemma mild_Resize: "mild m (Resize i wsz ok m)"
  unfolding Resize_def by (rule mild_on_term) (simp add: neutral_def split: option.split prod.split)

lemma mild_Close: "mild m (Close i m)"
  unfolding Close_def by (rule mild_on_term) (rule close_neutral)

lemma mild_List: "mild m (List_terminals req ok m)"
  by (simp add: List_terminals_def)

lemma mild_reap: "mild m (reapDetached now m)"
  unfolding reapDetached_def by (rule mild_fold) (rule close_neutral)

lemma mild_CloseAll: "mild m (CloseAll m)"
  unfolding CloseAll_def by (rule mild_fold) (rule close_neutral)

lemma mild_attach_begin: "mild m (attach_begin i n ok m)"
  by (simp add: attach_begin_def split: option.split)

lemma mild_attach_next: "attach_next ok m = Some m' \<Longrightarrow> mild m m'"
  by (auto simp: attach_next_def mark_attached_def clear_detached_def neutral_def split_beta
      split: term_dispatch.splits list.splits intro!: mild_upd)

lemma mild_detach_next: "detach_next now m = Some m' \<Longrightarrow> mild m m'"
  by (auto simp: detach_next_def neutral_def split: term_dispatch.splits list.splits intro!: mild_upd)

lemma mild_emit: "has_pc m a at_emit \<Longrightarrow> mild m (pump_emit a ok m)"
  by (auto simp: pump_emit_def has_pc_def mild_def shell_upd neutral_def mark_attached_def Let_def split: pump_pc.splits)

lemma mild_mark: "has_pc m a (\<lambda>p. p = PMark) \<Longrightarrow> mild m (pump_mark a m)"
  by (auto simp: pump_mark_def has_pc_def mild_def shell_upd neutral_def clear_detached_def)

lemma mild_eof: "has_pc m a (\<lambda>p. p = PRead) \<Longrightarrow> mild m (pump_eof a m)"
  by (auto simp: pump_eof_def has_pc_def mild_def shell_upd neutral_def)

lemma mild_exit: "has_pc m a at_exit \<Longrightarrow> mild m (pump_exit a ok m)"
  by (auto simp: pump_exit_def has_pc_def mild_def shell_upd neutral_def split: pump_pc.splits)

fun mild_event :: "term_event \<Rightarrow> bool" where
  "mild_event (TOpen i wsz now err ok) = False"
| "mild_event (TRead a data) = False"
| "mild_event (TWaited a code err) = False"
| "mild_event _ = True"

lemmas mild_ops = mild_Input mild_Interrupt mild_Resize mild_Close mild_List mild_reap mild_attach_begin mild_attach_next
  mild_detach_next mild_emit mild_mark mild_eof mild_exit

lemma mild_step: "mild_event e \<Longrightarrow> tstep m e = Some m' \<Longrightarrow> mild m m'"
  by (cases e) (auto intro: mild_ops split: if_splits)

lemma registry_ok_Open: "registry_ok m \<Longrightarrow> registry_ok (Open i wsz now err ok m)"
proof (cases "i = [] \<or> mget (tm_terms m) i \<noteq> None \<or> err \<noteq> None")
  case True
  moreover assume "registry_ok m"
  ultimately show ?thesis by (auto simp: Open_def)
next
  case False
  assume inv: "registry_ok m"
  let ?n = "length (tm_heap m)"
  let ?m = "Open i wsz now err ok m"
  have new: "?m = m\<lparr> tm_terms := mput i ?n (tm_terms m), tm_buffers := mput i (newTerminalBuffer termReplayLimit) (tm_buffers m),
      tm_heap := tm_heap m @ [new_terminal i wsz now] \<rparr>"
    using False by (simp add: Open_def)
  have old: "a < ?n \<Longrightarrow> shell ?m a = shell m a" for a by (simp add: new shell_def nth_append)
  have fresh: "shell ?m ?n = new_terminal i wsz now" by (simp add: new shell_def)
  have none: "a < ?n \<Longrightarrow> ts_id (shell m a) = i \<Longrightarrow> \<not> term_live (ts_pc (shell m a))" for a
    using False registry_registered[OF inv, of i a] by auto
  have reg: "mget (tm_terms ?m) j = Some a \<longleftrightarrow> a < length (tm_heap ?m) \<and> ts_id (shell ?m a) = j \<and> term_live (ts_pc (shell ?m a))" for j a
  proof (cases "a < ?n")
    case True
    then show ?thesis using old[OF True] registry_registered[OF inv, of j a] none[OF True] by (auto simp: new)
  next
    case False
    then show ?thesis using registry_registered[OF inv, of j a] fresh
      by (cases "a = ?n") (auto simp: new new_terminal_def shell_def)
  qed
  have buf: "mget (tm_buffers ?m) j = Some (spec_buffer (ts_history (shell ?m a)))" if "mget (tm_terms ?m) j = Some a" for j a
  proof (cases "j = i")
    case True
    with that have "a = ?n" by (simp add: new)
    with True show ?thesis using fresh by (simp add: new new_terminal_def newTerminalBuffer_def spec_buffer_def retained_def)
  next
    case False
    with that have "mget (tm_terms m) j = Some a" by (simp add: new)
    with False show ?thesis using registry_buffer[OF inv, of j a] registry_registered[OF inv, of j a] old[of a] by (simp add: new)
  qed
  have sq: "ts_seq (shell ?m a) = of_nat (length (ts_history (shell ?m a)))" if "a < length (tm_heap ?m)" for a
    using that old[of a] fresh registry_seq[OF inv, of a] by (cases "a = ?n") (simp_all add: new new_terminal_def)
  have "gomap_wf (tm_terms ?m)" using inv by (simp add: new registry_ok_def)
  with reg buf sq show ?thesis unfolding registry_ok_def by blast
qed

lemma registry_live_distinct:
  "registry_ok m \<Longrightarrow> a < length (tm_heap m) \<Longrightarrow> term_live (ts_pc (shell m a)) \<Longrightarrow> mget (tm_terms m) (ts_id (shell m a)) = Some a"
  by (simp add: registry_registered)

lemma registry_ok_read:
  assumes inv: "registry_ok m" and pc: "has_pc m a (\<lambda>p. p = PRead)"
  shows "registry_ok (pump_read a data m)"
proof -
  let ?m = "pump_read a data m" and ?s = "shell m a"
  have a: "a < length (tm_heap m)" "term_live (ts_pc ?s)" using pc by (simp_all add: has_pc_def)
  note here = registry_live_distinct[OF inv a]
  have buf: "mget (tm_buffers m) (ts_id ?s) = Some (spec_buffer (ts_history ?s))" by (rule registry_buffer[OF inv here])
  have sq: "ts_seq ?s = of_nat (length (ts_history ?s))" by (rule registry_seq[OF inv a(1)])
  have new: "?m = (upd_term a (\<lambda>s. s\<lparr> ts_seq := ts_seq ?s + 1, ts_pc := PEmit (ts_seq ?s + 1) data, ts_history := ts_history s @ [data] \<rparr>) m)
      \<lparr> tm_buffers := mput (ts_id ?s) (spec_buffer (ts_history ?s @ [data])) (tm_buffers m) \<rparr>"
    using buf by (simp add: pump_read_def Let_def sq buffer_append_spec)
  have sh: "b < length (tm_heap m) \<Longrightarrow> shell ?m b = (if b = a
      then ?s\<lparr> ts_seq := ts_seq ?s + 1, ts_pc := PEmit (ts_seq ?s + 1) data, ts_history := ts_history ?s @ [data] \<rparr> else shell m b)" for b
    by (simp add: new shell_upd)
  have reg: "mget (tm_terms ?m) j = Some b \<longleftrightarrow> b < length (tm_heap ?m) \<and> ts_id (shell ?m b) = j \<and> term_live (ts_pc (shell ?m b))" for j b
  proof -
    have "tm_terms ?m = tm_terms m" "length (tm_heap ?m) = length (tm_heap m)" by (simp_all add: new)
    then show ?thesis using registry_registered[OF inv, of j b] a(2) sh[of b] by (cases "b = a") (auto simp del: mget_mput)
  qed
  have bufs: "mget (tm_buffers ?m) j = Some (spec_buffer (ts_history (shell ?m b)))" if "mget (tm_terms ?m) j = Some b" for j b
  proof -
    from that have b: "mget (tm_terms m) j = Some b" by (simp add: new)
    then have "b < length (tm_heap m)" using registry_registered[OF inv] by blast
    moreover have "ts_id (shell m b) = j" using b registry_registered[OF inv] by blast
    moreover have "mget (tm_buffers ?m) j = (if j = ts_id ?s then Some (spec_buffer (ts_history ?s @ [data])) else mget (tm_buffers m) j)"
      by (simp add: new)
    moreover have "b \<noteq> a \<Longrightarrow> j \<noteq> ts_id ?s" using b here by (metis option.inject)
    ultimately show ?thesis using sh[of b] registry_buffer[OF inv b] by (cases "b = a") simp_all
  qed
  have sqs: "ts_seq (shell ?m b) = of_nat (length (ts_history (shell ?m b)))" if "b < length (tm_heap ?m)" for b
  proof -
    have "b < length (tm_heap m)" using that by (simp add: new)
    then show ?thesis using sh[of b] registry_seq[OF inv, of b] by (cases "b = a") simp_all
  qed
  have "gomap_wf (tm_terms ?m)" using inv by (simp add: new registry_ok_def)
  with reg bufs sqs show ?thesis unfolding registry_ok_def by blast
qed

lemma registry_ok_wait:
  assumes inv: "registry_ok m" and pc: "has_pc m a (\<lambda>p. p = PWait)"
  shows "registry_ok (pump_wait a code err m)"
proof -
  let ?m = "pump_wait a code err m" and ?s = "shell m a"
  have a: "a < length (tm_heap m)" "term_live (ts_pc ?s)" using pc by (simp_all add: has_pc_def)
  note here = registry_live_distinct[OF inv a]
  have sh: "b < length (tm_heap m) \<Longrightarrow> shell ?m b = (if b = a then ?s\<lparr> ts_pc := PExit code err \<rparr> else shell m b)" for b
    by (simp add: pump_wait_def remove_term_def shell_upd)
  have len: "length (tm_heap ?m) = length (tm_heap m)" by (simp add: pump_wait_def remove_term_def)
  have reg: "mget (tm_terms ?m) j = Some b \<longleftrightarrow> b < length (tm_heap ?m) \<and> ts_id (shell ?m b) = j \<and> term_live (ts_pc (shell ?m b))" for j b
  proof (cases "b = a")
    case True
    have "mget (tm_terms ?m) j \<noteq> Some a"
      using registry_registered[OF inv, of j a] by (auto simp: pump_wait_def remove_term_def)
    then show ?thesis using True sh[of a] a(1) by simp
  next
    case False
    have "mget (tm_terms ?m) j = Some b \<longleftrightarrow> mget (tm_terms m) j = Some b"
      using here False by (auto simp: pump_wait_def remove_term_def)
    then show ?thesis using registry_registered[OF inv, of j b] False sh[of b] by (cases "b < length (tm_heap m)") (simp_all add: len)
  qed
  have bufs: "mget (tm_buffers ?m) j = Some (spec_buffer (ts_history (shell ?m b)))" if "mget (tm_terms ?m) j = Some b" for j b
  proof -
    from that have b: "j \<noteq> ts_id ?s" "mget (tm_terms m) j = Some b" by (simp_all add: pump_wait_def remove_term_def split: if_splits)
    note r = registry_registered[OF inv, of j b]
    from r b(2) have "b < length (tm_heap m)" "ts_id (shell m b) = j" by simp_all
    moreover from this b(1) have "b \<noteq> a" by metis
    ultimately show ?thesis using b(1) sh[of b] registry_buffer[OF inv b(2)] by (simp add: pump_wait_def remove_term_def)
  qed
  have sqs: "ts_seq (shell ?m b) = of_nat (length (ts_history (shell ?m b)))" if "b < length (tm_heap ?m)" for b
    using that sh[of b] registry_seq[OF inv, of b] by (cases "b = a") (simp_all add: len)
  have "gomap_wf (tm_terms ?m)" using inv by (simp add: pump_wait_def remove_term_def registry_ok_def)
  with reg bufs sqs show ?thesis unfolding registry_ok_def by blast
qed

lemma registry_ok_step: "registry_ok m \<Longrightarrow> tstep m e = Some m' \<Longrightarrow> registry_ok m'"
proof (cases "mild_event e")
  case True
  moreover assume "registry_ok m" "tstep m e = Some m'"
  ultimately show ?thesis using mild_step mild_registry by blast
next
  case False
  moreover assume "registry_ok m" "tstep m e = Some m'"
  ultimately show ?thesis
    by (cases e) (auto simp: registry_ok_Open registry_ok_read registry_ok_wait split: if_splits)
qed

interpretation registry: guarded_machine tstep "\<lambda>_. True" registry_ok
  by unfold_locales (rule registry_ok_step)

lemma registry_reachable: "reach tstep NewTerminalManager m \<Longrightarrow> registry_ok m"
  by (rule registry.reach_inv[OF _ registry_ok_init]) simp_all

section \<open>Replay\<close>

lemma retained_drop:
  obtains k where "k \<le> length h" "retained h = drop k (numbered h)" "0 < k \<Longrightarrow> termReplayLimit < int (length (concat (drop (k - 1) h)))"
proof -
  have tot: "bytes_total (drop k (numbered h)) = int (length (concat (drop k h)))" for k
  proof -
    have "map te_data (drop k (numbered h)) = drop k h" by (simp add: drop_map data_numbered flip: drop_map)
    then show ?thesis by (metis total_data)
  qed
  obtain k where k: "k \<le> length (numbered h)" "fit termReplayLimit (numbered h) = drop k (numbered h)"
      "0 < k \<longrightarrow> termReplayLimit < bytes_total (drop (k - 1) (numbered h))"
    using fit_drop by blast
  with tot show thesis by (intro that[of k]) (simp_all add: retained_def)
qed

definition chunk_ok :: "string \<Rightarrow> bool" where
  "chunk_ok d \<longleftrightarrow> d \<noteq> [] \<and> int (length d) \<le> termReadChunk"

definition chunks_ok :: "TerminalManager \<Rightarrow> bool" where
  "chunks_ok m \<longleftrightarrow> (\<forall>a < length (tm_heap m). \<forall>d \<in> set (ts_history (shell m a)). chunk_ok d)"

text \<open>No step loses a shell, renames it or takes back what it printed.\<close>

definition grows :: "TerminalManager \<Rightarrow> TerminalManager \<Rightarrow> bool" where
  "grows m m' \<longleftrightarrow> length (tm_heap m) \<le> length (tm_heap m')
     \<and> (\<forall>a < length (tm_heap m). ts_id (shell m' a) = ts_id (shell m a) \<and> prefix (ts_history (shell m a)) (ts_history (shell m' a)))"

lemma mild_grows: "mild m m' \<Longrightarrow> grows m m'"
  by (simp add: mild_def grows_def neutral_def)

lemma grows_Open: "grows m (Open i wsz now err ok m)"
  by (simp add: grows_def Open_def shell_def nth_append send_def split: option.split)

lemma shell_read: "b < length (tm_heap m) \<Longrightarrow> shell (pump_read a data m) b = (if b = a
    then (shell m a)\<lparr> ts_seq := ts_seq (shell m a) + 1, ts_pc := PEmit (ts_seq (shell m a) + 1) data, ts_history := ts_history (shell m a) @ [data] \<rparr>
    else shell m b)"
  by (simp add: pump_read_def Let_def shell_upd split: option.split)

lemma read_simps [simp]: "length (tm_heap (pump_read a data m)) = length (tm_heap m)" "tm_sent (pump_read a data m) = tm_sent m"
  "tm_dispatch (pump_read a data m) = tm_dispatch m"
  by (simp_all add: pump_read_def Let_def split: option.split)

lemma shell_wait: "b < length (tm_heap m) \<Longrightarrow> shell (pump_wait a code err m) b = (if b = a then (shell m a)\<lparr> ts_pc := PExit code err \<rparr> else shell m b)"
  by (simp add: pump_wait_def remove_term_def shell_upd)

lemma wait_simps [simp]: "length (tm_heap (pump_wait a code err m)) = length (tm_heap m)" "tm_sent (pump_wait a code err m) = tm_sent m"
  "tm_dispatch (pump_wait a code err m) = tm_dispatch m"
  by (simp_all add: pump_wait_def remove_term_def)

lemma grows_read: "grows m (pump_read a data m)"
  by (simp add: grows_def shell_read)

lemma grows_wait: "grows m (pump_wait a code err m)"
  by (simp add: grows_def shell_wait)

lemma grows_step: "tstep m e = Some m' \<Longrightarrow> grows m m'"
proof (cases "mild_event e")
  case True
  moreover assume "tstep m e = Some m'"
  ultimately show ?thesis using mild_step mild_grows by blast
next
  case False
  moreover assume "tstep m e = Some m'"
  ultimately show ?thesis
    by (cases e) (auto simp: grows_Open grows_read grows_wait split: if_splits)
qed

lemma chunks_ok_step: "chunks_ok m \<Longrightarrow> tstep m e = Some m' \<Longrightarrow> chunks_ok m'"
proof (cases "mild_event e")
  case True
  moreover assume "tstep m e = Some m'" "chunks_ok m"
  ultimately show ?thesis using mild_step[of e m m'] by (simp add: mild_def neutral_def chunks_ok_def)
next
  case False
  moreover assume "tstep m e = Some m'" "chunks_ok m"
  ultimately show ?thesis
  proof (cases e)
    case (TRead a data)
    with \<open>tstep m e = Some m'\<close> have "m' = pump_read a data m" "chunk_ok data" by (simp_all add: chunk_ok_def split: if_splits)
    then show ?thesis using \<open>chunks_ok m\<close> by (simp add: chunks_ok_def shell_read)
  next
    case (TOpen i wsz now err ok)
    with \<open>tstep m e = Some m'\<close> have "m' = Open i wsz now err ok m" by (simp split: if_splits)
    then show ?thesis using \<open>chunks_ok m\<close>
      by (simp add: Open_def chunks_ok_def send_def shell_def nth_append new_terminal_def less_Suc_eq split: option.split)
  qed (auto simp: chunks_ok_def shell_read shell_wait split: if_splits)
qed

interpretation chunks: guarded_machine tstep "\<lambda>_. True" chunks_ok
  by unfold_locales (rule chunks_ok_step)

lemma chunks_reachable: "reach tstep NewTerminalManager m \<Longrightarrow> chunks_ok m"
  by (rule chunks.reach_inv) (simp_all add: chunks_ok_def NewTerminalManager_def)

lemma numbered_drop: "drop k (numbered h) = map (\<lambda>j. \<lparr> te_seq = of_nat (Suc j), te_data = h ! j \<rparr>) [k..<length h]"
  by (simp add: numbered_def drop_map)

lemma filter_le_upt: "filter (\<lambda>j. n \<le> j) [k..<l] = [max n k..<l]"
  by (induction l) (auto simp: max_def)

lemma of_nat_less64: "m < 2 ^ 64 \<Longrightarrow> n < 2 ^ 64 \<Longrightarrow> (of_nat m :: 64 word) < of_nat n \<longleftrightarrow> m < n"
  by (simp add: word_of_nat_less_iff take_bit_nat_eq_self)

lemma retained_recent:
  assumes "\<forall>d \<in> set h. int (length d) \<le> termReadChunk" "k \<le> length h" "0 < k"
    and "termReplayLimit < int (length (concat (drop (k - 1) h)))"
  shows "k < length h"
proof (rule ccontr)
  assume "\<not> k < length h"
  then have k: "k = length h" "h \<noteq> []" using assms(2,3) by auto
  then have "drop (k - 1) h = [last h]" by (metis append_butlast_last_id append_eq_conv_conj length_butlast)
  moreover have "int (length (last h)) \<le> termReadChunk" using assms(1) k(2) by simp
  ultimately show False using assms(4) by (simp add: termReadChunk_def termReplayLimit_def)
qed

lemma replay_spec:
  assumes h: "\<forall>d \<in> set h. int (length d) \<le> termReadChunk" and n: "n \<le> length h" "length h < 2 ^ 64 - 1"
  shows "\<exists>k \<ge> n. replay (of_nat n) (spec_buffer h) = (map (\<lambda>j. \<lparr> te_seq = of_nat (Suc j), te_data = h ! j \<rparr>) [k..<length h], n < k)
      \<and> (n < k \<longrightarrow> termReplayLimit < int (length (concat (drop (k - 1) h))))"
proof -
  obtain k where k: "k \<le> length h" "retained h = drop k (numbered h)"
      "0 < k \<Longrightarrow> termReplayLimit < int (length (concat (drop (k - 1) h)))"
    using retained_drop[of h] by blast
  show ?thesis
  proof (cases "h = []")
    case True
    with n show ?thesis by (simp add: replay_def spec_buffer_def retained_def)
  next
    case False
    have lt: "k < length h" using retained_recent[OF h k(1)] k(3) False by (cases "k = 0") simp_all
    have first: "retained h = \<lparr> te_seq = of_nat (Suc k), te_data = h ! k \<rparr> # drop (Suc k) (numbered h)"
      using lt by (simp add: k(2) numbered_drop upt_rec[of k])
    have cmp: "(of_nat n :: 64 word) < of_nat (Suc j) \<longleftrightarrow> n \<le> j" if "j < length h" for j
      using that n of_nat_less64[of n "Suc j"] by (simp add: less_Suc_eq_le)
    have "filter (\<lambda>x. of_nat n < te_seq x) (drop k (numbered h))
        = map (\<lambda>j. \<lparr> te_seq = of_nat (Suc j), te_data = h ! j \<rparr>) (filter (\<lambda>j. n \<le> j) [k..<length h])"
      unfolding numbered_drop filter_map by (rule arg_cong[of _ _ "map _"], rule filter_cong) (use cmp in \<open>simp_all del: of_nat_Suc\<close>)
    moreover have "(of_nat n :: 64 word) + 1 < of_nat (Suc k) \<longleftrightarrow> n < k"
      using n lt of_nat_less64[of "Suc n" "Suc k"] by (simp add: add.commute)
    ultimately have "replay (of_nat n) (spec_buffer h)
        = (map (\<lambda>j. \<lparr> te_seq = of_nat (Suc j), te_data = h ! j \<rparr>) [max n k..<length h], n < k)"
      using first k(2) by (simp add: replay_def spec_buffer_def filter_le_upt del: of_nat_Suc)
    then show ?thesis using k(3) by (intro exI[of _ "max n k"]) (auto simp: max_def)
  qed
qed

section \<open>Where sent output comes from\<close>

definition genuine :: "TerminalManager \<Rightarrow> string \<Rightarrow> terminalEntry \<Rightarrow> bool" where
  "genuine m i e \<longleftrightarrow> (\<exists>a < length (tm_heap m). ts_id (shell m a) = i \<and> e \<in> set (numbered (ts_history (shell m a))))"

fun frame_ok :: "TerminalManager \<Rightarrow> term_frame \<Rightarrow> bool" where
  "frame_ok m (TerminalOutput i d n t) = genuine m i \<lparr> te_seq = n, te_data = d \<rparr>"
| "frame_ok m _ = True"

definition pump_ok :: "TerminalManager \<Rightarrow> terminalSession \<Rightarrow> bool" where
  "pump_ok m s \<longleftrightarrow> (case ts_pc s of PEmit n d \<Rightarrow> genuine m (ts_id s) \<lparr> te_seq = n, te_data = d \<rparr> | _ \<Rightarrow> True)"

fun dispatch_ok :: "TerminalManager \<Rightarrow> term_dispatch \<Rightarrow> bool" where
  "dispatch_ok m (TdLookup a n) = (a < length (tm_heap m))"
| "dispatch_ok m (TdReplay a es t) = (a < length (tm_heap m) \<and> list_all (genuine m (ts_id (shell m a))) es)"
| "dispatch_ok m _ = True"

definition output_ok :: "TerminalManager \<Rightarrow> bool" where
  "output_ok m \<longleftrightarrow> list_all (frame_ok m) (tm_sent m) \<and> (\<forall>a < length (tm_heap m). pump_ok m (shell m a)) \<and> dispatch_ok m (tm_dispatch m)
     \<and> (\<forall>i b. mget (tm_buffers m) i = Some b \<longrightarrow> list_all (genuine m i) (tb_entries b))"

lemma set_numbered_prefix: "prefix g h \<Longrightarrow> set (numbered g) \<subseteq> set (numbered h)"
  by (induction h rule: rev_induct) (auto simp: numbered_snoc)

lemma grows_shell: "grows m m' \<Longrightarrow> a < length (tm_heap m) \<Longrightarrow> a < length (tm_heap m') \<and> ts_id (shell m' a) = ts_id (shell m a)"
  by (auto simp: grows_def)

lemma genuine_grows: "grows m m' \<Longrightarrow> genuine m i e \<Longrightarrow> genuine m' i e"
proof -
  assume g: "grows m m'" and "genuine m i e"
  then obtain a where a: "a < length (tm_heap m)" "ts_id (shell m a) = i" "e \<in> set (numbered (ts_history (shell m a)))"
    by (auto simp: genuine_def)
  moreover have "prefix (ts_history (shell m a)) (ts_history (shell m' a))" using g a(1) by (simp add: grows_def)
  ultimately show ?thesis
    unfolding genuine_def using grows_shell[OF g a(1)] set_numbered_prefix by (intro exI[of _ a]) blast
qed

lemma frame_ok_grows: "grows m m' \<Longrightarrow> frame_ok m fr \<Longrightarrow> frame_ok m' fr"
  by (cases fr) (auto intro: genuine_grows)

lemma dispatch_ok_grows: "grows m m' \<Longrightarrow> dispatch_ok m d \<Longrightarrow> dispatch_ok m' d"
  by (cases d) (auto simp: grows_shell list_all_iff genuine_grows)

lemma output_okI:
  assumes "output_ok m" "grows m m'" "\<And>fr. fr \<in> set (tm_sent m') \<Longrightarrow> fr \<in> set (tm_sent m) \<or> frame_ok m fr"
    "\<And>a. a < length (tm_heap m') \<Longrightarrow> at_emit (ts_pc (shell m' a)) \<Longrightarrow>
        a < length (tm_heap m) \<and> ts_pc (shell m' a) = ts_pc (shell m a) \<or> pump_ok m' (shell m' a)"
    "dispatch_ok m (tm_dispatch m')"
    "\<And>i b. mget (tm_buffers m') i = Some b \<Longrightarrow> mget (tm_buffers m) i = Some b \<or> list_all (genuine m' i) (tb_entries b)"
  shows "output_ok m'"
proof -
  have "frame_ok m' fr" if "fr \<in> set (tm_sent m')" for fr
    using assms(1,2) assms(3)[OF that] by (auto simp: output_ok_def list_all_iff intro: frame_ok_grows)
  moreover have "pump_ok m' (shell m' a)" if a: "a < length (tm_heap m')" for a
  proof (cases "ts_pc (shell m' a)")
    case (PEmit n d)
    from assms(4)[OF a] PEmit show ?thesis
    proof (simp, elim disjE conjE)
      assume old: "a < length (tm_heap m)" "PEmit n d = ts_pc (shell m a)"
      then have "pump_ok m (shell m a)" using assms(1) by (simp add: output_ok_def)
      then have "genuine m (ts_id (shell m a)) \<lparr> te_seq = n, te_data = d \<rparr>" by (simp add: pump_ok_def old(2)[symmetric])
      then show ?thesis using genuine_grows[OF assms(2)] grows_shell[OF assms(2) old(1)] PEmit by (simp add: pump_ok_def)
    qed
  qed (simp_all add: pump_ok_def)
  moreover have "list_all (genuine m' i) (tb_entries b)" if "mget (tm_buffers m') i = Some b" for i b
    using assms(1) assms(6)[OF that] genuine_grows[OF assms(2)] unfolding output_ok_def list_all_iff by blast
  ultimately show ?thesis using dispatch_ok_grows[OF assms(2,5)] by (simp add: output_ok_def list_all_iff)
qed

lemma output_buffer: "output_ok m \<Longrightarrow> mget (tm_buffers m) i = Some b \<Longrightarrow> list_all (genuine m i) (tb_entries b)"
  by (simp add: output_ok_def)

lemma entry_eta: "\<lparr> te_seq = te_seq e, te_data = te_data e \<rparr> = e"
  by simp

lemma output_dispatch: "output_ok m \<Longrightarrow> dispatch_ok m (tm_dispatch m)"
  by (simp add: output_ok_def)

lemma replay_subset: "replay n b = (es, t) \<Longrightarrow> set es \<subseteq> set (tb_entries b)"
  by (auto simp: replay_def split: list.splits if_splits)

lemma retained_subset: "set (retained h) \<subseteq> set (numbered h)"
  using retained_drop[of h] by (metis set_drop_subset)

lemma sent_send: "fr \<in> set (tm_sent (send ok f m)) \<Longrightarrow> fr \<in> set (tm_sent m) \<or> fr = f"
  by (auto simp: send_def split: if_splits)

lemma sent_on_term [simp]: "tm_sent (on_term i f m) = tm_sent m" "tm_dispatch (on_term i f m) = tm_dispatch m"
  by (simp_all add: on_term_def split: option.split)

lemma sent_fold [simp]: "tm_sent (fold (\<lambda>(i, a). upd_term a f) xs m) = tm_sent m" "tm_dispatch (fold (\<lambda>(i, a). upd_term a f) xs m) = tm_dispatch m"
  by (induction xs arbitrary: m) auto

lemmas quiet_ops = Input_def Interrupt_def Resize_def Close_def reapDetached_def pump_mark_def pump_eof_def

lemma sent_mild:
  assumes ok: "output_ok m" and st: "tstep m e = Some m'" and fr: "fr \<in> set (tm_sent m')"
  shows "fr \<in> set (tm_sent m) \<or> frame_ok m fr"
proof (cases e)
  case (TOpen i wsz now err ok)
  with st fr show ?thesis by (auto simp: Open_def split: if_splits option.splits dest!: sent_send)
next
  case (TAttach i n ok)
  with st fr show ?thesis by (auto simp: attach_begin_def split: if_splits option.splits dest!: sent_send)
next
  case (TAttachNext ok')
  with st fr output_dispatch[OF ok] show ?thesis
    by (auto simp: attach_next_def split_beta entry_eta split: term_dispatch.splits list.splits dest!: sent_send)
next
  case (TList req ok)
  with st fr show ?thesis by (auto simp: List_terminals_def split: if_splits dest!: sent_send)
next
  case (TDetachNext now)
  with st fr show ?thesis by (auto simp: detach_next_def split: term_dispatch.splits list.splits)
next
  case (TEmit a ok')
  with st have a: "has_pc m a at_emit" "m' = pump_emit a ok' m" by (simp_all split: if_splits)
  then have "pump_ok m (shell m a)" using ok by (simp add: has_pc_def output_ok_def)
  with a fr show ?thesis by (auto simp: pump_emit_def pump_ok_def has_pc_def Let_def split: pump_pc.splits dest!: sent_send)
next
  case (TExited a ok')
  with st fr show ?thesis by (auto simp: pump_exit_def split: if_splits pump_pc.splits dest!: sent_send)
qed (use st fr in \<open>auto simp: quiet_ops split: if_splits\<close>)

lemma dispatch_mild:
  assumes reg: "registry_ok m" and ok: "output_ok m" and st: "tstep m e = Some m'"
  shows "dispatch_ok m (tm_dispatch m')"
proof (cases e)
  case (TOpen i wsz now err ok')
  with st output_dispatch[OF ok] show ?thesis by (auto simp: Open_def split: if_splits option.splits)
next
  case (TAttach i n ok')
  with st output_dispatch[OF ok] show ?thesis
    by (auto simp: attach_begin_def registry_registered[OF reg] split: if_splits option.splits)
next
  case (TAttachNext ok')
  show ?thesis
  proof (cases "tm_dispatch m")
    case (TdLookup a n)
    then have a: "a < length (tm_heap m)" using output_dispatch[OF ok] by simp
    obtain es t where es: "(case mget (tm_buffers m) (ts_id (shell m a)) of None \<Rightarrow> ([], False) | Some b \<Rightarrow> replay n b) = (es, t)" by fastforce
    then have "list_all (genuine m (ts_id (shell m a))) es"
      using output_buffer[OF ok] replay_subset unfolding list_all_iff by (fastforce split: option.splits)
    moreover have "tm_dispatch m' = TdReplay a es t" using st TAttachNext TdLookup es by (auto simp: attach_next_def)
    ultimately show ?thesis using a by simp
  qed (use st TAttachNext output_dispatch[OF ok] in \<open>auto simp: attach_next_def split: list.splits\<close>)
qed (use st output_dispatch[OF ok] in \<open>auto simp: quiet_ops List_terminals_def detach_next_def pump_emit_def pump_exit_def Let_def
      split: if_splits term_dispatch.splits list.splits pump_pc.splits\<close>)

lemma emit_read: "has_pc m a (\<lambda>p. p = PRead) \<Longrightarrow> registry_ok m \<Longrightarrow>
    genuine (pump_read a data m) (ts_id (shell m a)) \<lparr> te_seq = ts_seq (shell m a) + 1, te_data = data \<rparr>"
  unfolding genuine_def by (rule exI[of _ a]) (simp add: has_pc_def shell_read numbered_snoc registry_seq)

lemma buffers_read:
  assumes pc: "has_pc m a (\<lambda>p. p = PRead)" and reg: "registry_ok m" and b: "mget (tm_buffers (pump_read a data m)) i = Some b"
  shows "mget (tm_buffers m) i = Some b \<or> list_all (genuine (pump_read a data m) i) (tb_entries b)"
proof -
  have a: "a < length (tm_heap m)" "term_live (ts_pc (shell m a))" using pc by (simp_all add: has_pc_def)
  let ?h = "ts_history (shell m a) @ [data]"
  have buf: "mget (tm_buffers m) (ts_id (shell m a)) = Some (spec_buffer (ts_history (shell m a)))"
    by (rule registry_buffer[OF reg registry_live_distinct[OF reg a]])
  have new: "tm_buffers (pump_read a data m) = mput (ts_id (shell m a)) (spec_buffer ?h) (tm_buffers m)"
    using buf registry_seq[OF reg a(1)] by (simp add: pump_read_def Let_def buffer_append_spec)
  have gen: "genuine (pump_read a data m) (ts_id (shell m a)) e" if "e \<in> set (numbered ?h)" for e
    unfolding genuine_def using that a by (intro exI[of _ a]) (simp add: shell_read)
  show ?thesis
  proof (cases "i = ts_id (shell m a)")
    case True
    then show ?thesis using b gen retained_subset[of ?h] by (auto simp: new spec_buffer_def list_all_iff)
  next
    case False
    then show ?thesis using b by (simp add: new)
  qed
qed

lemma output_ok_step:
  assumes reg: "registry_ok m" and ok: "output_ok m" and st: "tstep m e = Some m'"
  shows "output_ok m'"
proof (rule output_okI[OF ok grows_step[OF st] sent_mild[OF ok st] _ dispatch_mild[OF reg ok st]])
  fix a assume a: "a < length (tm_heap m')" "at_emit (ts_pc (shell m' a))"
  show "a < length (tm_heap m) \<and> ts_pc (shell m' a) = ts_pc (shell m a) \<or> pump_ok m' (shell m' a)"
  proof (cases "mild_event e")
    case True
    then show ?thesis using mild_step[OF True st] a by (auto simp: mild_def neutral_def)
  next
    case False
    then show ?thesis
    proof (cases e)
      case (TOpen i wsz now err ok)
      with st a show ?thesis by (auto simp: Open_def shell_def send_def nth_append new_terminal_def less_Suc_eq split: if_splits option.splits)
    next
      case (TRead b data)
      with st have b: "has_pc m b (\<lambda>p. p = PRead)" "m' = pump_read b data m" by (simp_all split: if_splits)
      then show ?thesis using a emit_read[OF b(1) reg, of data] by (cases "a = b") (simp_all add: shell_read pump_ok_def)
    next
      case (TWaited b code err)
      with st a show ?thesis by (cases "a = b") (auto simp: shell_wait split: if_splits)
    qed simp_all
  qed
next
  fix i b assume b: "mget (tm_buffers m') i = Some b"
  show "mget (tm_buffers m) i = Some b \<or> list_all (genuine m' i) (tb_entries b)"
  proof (cases "mild_event e")
    case True
    then show ?thesis using mild_step[OF True st] b by (simp add: mild_def)
  next
    case False
    then show ?thesis
    proof (cases e)
      case (TOpen i wsz now err ok)
      with st b show ?thesis by (auto simp: Open_def newTerminalBuffer_def split: if_splits option.splits)
    next
      case (TRead a data)
      with st have "has_pc m a (\<lambda>p. p = PRead)" "m' = pump_read a data m" by (simp_all split: if_splits)
      then show ?thesis using buffers_read[OF _ reg] b by blast
    next
      case (TWaited a code err)
      with st b show ?thesis by (auto simp: pump_wait_def remove_term_def split: if_splits)
    qed simp_all
  qed
qed

interpretation sent: guarded_machine tstep "\<lambda>_. True" "\<lambda>m. registry_ok m \<and> output_ok m"
  by unfold_locales (use registry_ok_step output_ok_step in blast)

lemma output_reachable: "reach tstep NewTerminalManager m \<Longrightarrow> output_ok m"
  using sent.reach_inv[of NewTerminalManager m] registry_ok_init by (simp add: output_ok_def NewTerminalManager_def)

section \<open>Abandoned terminals\<close>

text \<open>Detached, but without a time stamp: the reaper passes over it.\<close>

definition unstamped :: "nat \<Rightarrow> TerminalManager \<Rightarrow> bool" where
  "unstamped a m \<longleftrightarrow> a < length (tm_heap m) \<and> \<not> ts_closed (shell m a) \<and> \<not> ts_attached (shell m a) \<and> ts_detachedAt (shell m a) = 0
     \<and> (case tm_dispatch m of TdStamp b rest \<Rightarrow> b \<noteq> a | _ \<Rightarrow> True)"

text \<open>What happens on the node while it has no connection: no frame arrives and no send succeeds.\<close>

fun offline :: "term_event \<Rightarrow> bool" where
  "offline TDetachAll = True"
| "offline (TDetachNext now) = True"
| "offline (TRead a data) = True"
| "offline (TEmit a ok) = (\<not> ok)"
| "offline (TMarked a) = True"
| "offline (TEof a) = True"
| "offline (TWaited a code err) = True"
| "offline (TExited a ok) = (\<not> ok)"
| "offline (TReap now) = True"
| "offline _ = False"

lemma shell_fold_close:
  "a < length (tm_heap m) \<Longrightarrow> a \<notin> snd ` set xs \<Longrightarrow> shell (fold (\<lambda>(i, b). upd_term b f) xs m) a = shell m a"
  by (induction xs arbitrary: m) (auto simp: shell_upd)

lemma length_fold_upd [simp]: "length (tm_heap (fold (\<lambda>(i, b). upd_term b f) xs m)) = length (tm_heap m)"
  by (induction xs arbitrary: m) auto

lemma reap_unstamped: "unstamped a m \<Longrightarrow> unstamped a (reapDetached now m)"
proof -
  assume u: "unstamped a m"
  then have "shell (reapDetached now m) a = shell m a"
    unfolding reapDetached_def by (intro shell_fold_close) (auto simp: unstamped_def reapable_def)
  with u show ?thesis by (simp add: unstamped_def) (simp add: reapDetached_def)
qed

lemma unstamped_keep:
  assumes "unstamped a m" "length (tm_heap m') = length (tm_heap m)" "tm_dispatch m' = tm_dispatch m"
    and "ts_closed (shell m' a) = ts_closed (shell m a)" "ts_attached (shell m' a) = ts_attached (shell m a)"
    and "ts_detachedAt (shell m' a) = ts_detachedAt (shell m a) \<or> ts_detachedAt (shell m' a) = 0"
  shows "unstamped a m'"
  using assms by (auto simp: unstamped_def)

lemma unstamped_detach: "unstamped a m \<Longrightarrow> detach_next now m = Some m' \<Longrightarrow> unstamped a m'"
  by (cases "tm_dispatch m") (auto simp: unstamped_def detach_next_def shell_upd split: list.splits if_splits)

lemma unstamped_exit: "unstamped a m \<Longrightarrow> unstamped a (pump_exit b ok m)"
  by (cases "ts_pc (shell m b)") (auto simp: pump_exit_def unstamped_def shell_upd)

lemma unstamped_emit: "unstamped a m \<Longrightarrow> unstamped a (pump_emit b False m)"
  by (cases "ts_pc (shell m b)") (auto simp: pump_emit_def Let_def unstamped_def shell_upd)

lemma unstamped_step:
  assumes u: "unstamped a m" and off: "offline e" and st: "tstep m e = Some m'"
  shows "unstamped a m'"
proof -
  have a: "a < length (tm_heap m)" using u by (simp add: unstamped_def)
  show ?thesis
  proof (cases e)
    case (TReap now)
    with st reap_unstamped[OF u, of now] show ?thesis by simp
  next
    case (TDetachNext now)
    with st unstamped_detach[OF u] show ?thesis by simp
  next
    case TDetachAll
    with st u show ?thesis by (auto simp: unstamped_def split: if_splits)
  next
    case (TRead b data)
    with st have "m' = pump_read b data m" by (simp split: if_splits)
    then show ?thesis by (intro unstamped_keep[OF u]) (simp_all add: a shell_read)
  next
    case (TEmit b ok)
    with st off unstamped_emit[OF u, of b] show ?thesis by (simp split: if_splits)
  next
    case (TMarked b)
    with st have "m' = pump_mark b m" by (simp split: if_splits)
    then show ?thesis by (intro unstamped_keep[OF u]) (simp_all add: a pump_mark_def clear_detached_def shell_upd)
  next
    case (TEof b)
    with st have "m' = pump_eof b m" by (simp split: if_splits)
    then show ?thesis by (intro unstamped_keep[OF u]) (simp_all add: a pump_eof_def shell_upd)
  next
    case (TWaited b code err)
    with st have "m' = pump_wait b code err m" by (simp split: if_splits)
    then show ?thesis by (intro unstamped_keep[OF u]) (simp_all add: a shell_wait)
  next
    case (TExited b ok)
    with st unstamped_exit[OF u, of b ok] show ?thesis by (simp split: if_splits)
  qed (use off in simp_all)
qed

interpretation abandoned: machine_trap tstep offline "unstamped a" "\<lambda>m. ts_closed (shell m a)"
proof unfold_locales
  fix m e m' assume u: "unstamped a m" "offline e" "tstep m e = Some m'"
  show u': "unstamped a m'" by (rule unstamped_step[OF u])
  show "ts_closed (shell m' a) = ts_closed (shell m a)" using u(1) u' by (simp add: unstamped_def)
qed

section \<open>Properties\<close>

text \<open> \<^bold>\<open>C6\<close>. Whatever the interleaving of frames, output pumps, reconnects and the reaper, a terminal that is registered replays, after any
  sequence number \<open>n\<close> the server may have seen, exactly the numbered chunks of the shell's output from \<open>k\<close> on, where \<open>k = n\<close> and the
  replay is not marked truncated unless the output from just before \<open>k\<close> exceeds the 256 KiB limit; the buffer never exceeds it.\<close>

theorem terminal_replay_exact:
  assumes "reach tstep NewTerminalManager m" "mget (tm_terms m) i = Some a"
    and "h = ts_history (shell m a)" "n \<le> length h" "length h < 2 ^ 64 - 1"
  shows "\<exists>b k. mget (tm_buffers m) i = Some b \<and> tb_size b = bytes_total (tb_entries b) \<and> tb_size b \<le> termReplayLimit \<and> n \<le> k
     \<and> replay (of_nat n) b = (map (\<lambda>j. \<lparr> te_seq = of_nat (Suc j), te_data = h ! j \<rparr>) [k..<length h], n < k)
     \<and> (n < k \<longrightarrow> termReplayLimit < int (length (concat (drop (k - 1) h))))"
proof -
  note reg = registry_reachable[OF assms(1)]
  have "a < length (tm_heap m)" using registry_registered[OF reg] assms(2) by blast
  then have "\<forall>d \<in> set h. int (length d) \<le> termReadChunk"
    using chunks_reachable[OF assms(1)] assms(3) by (simp add: chunks_ok_def chunk_ok_def)
  then obtain k where "n \<le> k" "n < k \<longrightarrow> termReplayLimit < int (length (concat (drop (k - 1) h)))"
      "replay (of_nat n) (spec_buffer h) = (map (\<lambda>j. \<lparr> te_seq = of_nat (Suc j), te_data = h ! j \<rparr>) [k..<length h], n < k)"
    using replay_spec[OF _ assms(4,5)] by blast
  moreover have "tb_size (spec_buffer h) \<le> termReplayLimit"
    using fit_le[of termReplayLimit] by (simp add: spec_buffer_def retained_def termReplayLimit_def)
  moreover have "tb_size (spec_buffer h) = bytes_total (tb_entries (spec_buffer h))" by (simp add: spec_buffer_def)
  ultimately show ?thesis using registry_buffer[OF reg assms(2)] assms(3) by blast
qed

definition demo_open :: "term_event list" where
  "demo_open = [TOpen ''t1'' None 5 None True, TRead 0 ''one'', TEmit 0 True, TMarked 0, TRead 0 ''two'']"

lemma demo_open_runs: "\<exists>m. exec tstep NewTerminalManager demo_open = Some m \<and> mget (tm_terms m) ''t1'' = Some 0
    \<and> ts_history (shell m 0) = [''one'', ''two''] \<and> tm_sent m = [TerminalOutput ''t1'' ''one'' 1 False]"
  by (rule exec_caseD) code_simp

theorem terminal_replay_exact_witness:
  "\<exists>m b. exec tstep NewTerminalManager demo_open = Some m \<and> mget (tm_buffers m) ''t1'' = Some b
     \<and> replay 1 b = ([\<lparr> te_seq = 2, te_data = ''two'' \<rparr>], False)"
proof -
  obtain m where m: "exec tstep NewTerminalManager demo_open = Some m" "mget (tm_terms m) ''t1'' = Some 0"
      "ts_history (shell m 0) = [''one'', ''two'']"
    using demo_open_runs by blast
  from m(1) have r: "reach tstep NewTerminalManager m" by (auto simp: reach_iff_exec)
  have "1 \<le> length [''one'', ''two'']" "length [''one'', ''two''] < 2 ^ 64 - 1" by simp_all
  from terminal_replay_exact[OF r m(2) m(3)[symmetric] this]
  obtain b k where b: "mget (tm_buffers m) ''t1'' = Some b" "1 \<le> k"
      "replay (of_nat 1) b = (map (\<lambda>j. \<lparr> te_seq = of_nat (Suc j), te_data = [''one'', ''two''] ! j \<rparr>) [k..<length [''one'', ''two'']], 1 < k)"
      "1 < k \<longrightarrow> termReplayLimit < int (length (concat (drop (k - 1) [''one'', ''two''])))"
    by blast
  have "length (concat (drop j [''one'', ''two''])) \<le> 6" for j
    by (cases j) (auto simp: drop_Cons split: nat.split)
  from this[of "k - 1"] b(2,4) have "k = 1" unfolding termReplayLimit_def by linarith
  with b m(1) show ?thesis by (simp add: upt_rec)
qed

text \<open> \<^bold>\<open>C17\<close>. The registry is exactly the shells whose pump has not finished: two live shells never share an id, a live shell is always
  found under its id, and no id leads to a shell that has exited.\<close>

theorem terminal_registry_exact:
  assumes "reach tstep NewTerminalManager m"
  shows "mget (tm_terms m) i = Some a \<longleftrightarrow> a < length (tm_heap m) \<and> ts_id (shell m a) = i \<and> term_live (ts_pc (shell m a))"
  using registry_registered[OF registry_reachable[OF assms]] .

theorem terminal_registry_exact_witness:
  "\<exists>m. exec tstep NewTerminalManager demo_open = Some m
     \<and> (mget (tm_terms m) ''t1'' = Some 0 \<longleftrightarrow> 0 < length (tm_heap m) \<and> ts_id (shell m 0) = ''t1'' \<and> term_live (ts_pc (shell m 0)))"
proof -
  obtain m where m: "exec tstep NewTerminalManager demo_open = Some m" using demo_open_runs by blast
  then have "reach tstep NewTerminalManager m" by (auto simp: reach_iff_exec)
  from terminal_registry_exact[OF this] m show ?thesis by blast
qed

text \<open> \<^bold>\<open>C19\<close>. Every output frame the node sends, live or replayed, carries a chunk that a shell with that id printed, under the number it was
  printed as.\<close>

theorem terminal_output_genuine:
  assumes "reach tstep NewTerminalManager m" "TerminalOutput i d n t \<in> set (tm_sent m)"
  shows "\<exists>a < length (tm_heap m). \<exists>j < length (ts_history (shell m a)). ts_id (shell m a) = i \<and> n = of_nat (Suc j) \<and> d = ts_history (shell m a) ! j"
proof -
  have "genuine m i \<lparr> te_seq = n, te_data = d \<rparr>"
    using output_reachable[OF assms(1)] assms(2) by (auto simp: output_ok_def list_all_iff)
  then obtain a where a: "a < length (tm_heap m)" "ts_id (shell m a) = i" "\<lparr> te_seq = n, te_data = d \<rparr> \<in> set (numbered (ts_history (shell m a)))"
    by (auto simp: genuine_def)
  then obtain j where "j < length (ts_history (shell m a))" "n = of_nat (Suc j)" "d = ts_history (shell m a) ! j"
    by (auto simp: numbered_def simp del: of_nat_Suc)
  with a show ?thesis by blast
qed

theorem terminal_output_genuine_witness:
  "\<exists>m a j. exec tstep NewTerminalManager demo_open = Some m \<and> TerminalOutput ''t1'' ''one'' 1 False \<in> set (tm_sent m)
     \<and> (1 :: 64 word) = of_nat (Suc j) \<and> ''one'' = ts_history (shell m a) ! j"
proof -
  obtain m where m: "exec tstep NewTerminalManager demo_open = Some m" "TerminalOutput ''t1'' ''one'' 1 False \<in> set (tm_sent m)"
    using demo_open_runs by auto
  from m(1) have "reach tstep NewTerminalManager m" by (auto simp: reach_iff_exec)
  from terminal_output_genuine[OF this m(2)] m show ?thesis by blast
qed

text \<open> A connection that drops between the two stores with which a pump marks its terminal attached leaves a terminal that is
  detached without a time stamp; while the node stays offline the reaper never closes it, however much time passes.\<close>

theorem unstamped_terminal_never_reaped:
  assumes "unstamped a m" "\<forall>e \<in> set es. offline e" "exec tstep m es = Some m'"
  shows "\<not> ts_closed (shell m' a) \<and> \<not> reapable now (shell m' a)"
  using abandoned.exec_inv[OF assms] by (simp add: unstamped_def reapable_def)

definition demo_race :: "term_event list" where
  "demo_race = [TOpen ''t1'' None 5 None True, TRead 0 ''one'', TEmit 0 True, TDetachAll, TDetachNext 7, TDetachNext 7, TDetachNext 7, TMarked 0]"

theorem unstamped_terminal_never_reaped_witness:
  "\<exists>m m'. exec tstep NewTerminalManager demo_race = Some m \<and> exec tstep m [TReap (termDetachTimeout * 1000)] = Some m' \<and> \<not> ts_closed (shell m' 0)"
proof -
  have "\<exists>m. exec tstep NewTerminalManager demo_race = Some m \<and> unstamped 0 m" by (rule exec_caseD) code_simp
  then obtain m where m: "exec tstep NewTerminalManager demo_race = Some m" "unstamped 0 m" by blast
  obtain m' where m': "exec tstep m [TReap (termDetachTimeout * 1000)] = Some m'" by simp
  from unstamped_terminal_never_reaped[OF m(2) _ m'] m(1) m' show ?thesis by auto
qed

text \<open> Replay and live output are not ordered: a chunk read while a reattach is replaying can be sent between two replayed
  chunks, before older ones.\<close>

theorem live_output_overtakes_replay:
  assumes "tm_dispatch m = TdReplay a (e # es) t" "ts_pc (shell m a) = PEmit n d" "a < length (tm_heap m)"
  shows "\<exists>m'. exec tstep m [TEmit a True, TAttachNext True] = Some m'
     \<and> tm_sent m' = tm_sent m @ [TerminalOutput (ts_id (shell m a)) d n False, TerminalOutput (ts_id (shell m a)) (te_data e) (te_seq e) t]"
  using assms by (simp add: has_pc_def pump_emit_def Let_def attach_next_def) (simp add: send_def shell_upd mark_attached_def)

definition demo_attach :: "term_event list" where
  "demo_attach = [TOpen ''t1'' None 5 None True, TRead 0 ''one'', TEmit 0 False, TRead 0 ''two'', TAttach ''t1'' 0 True, TAttachNext True]"

theorem live_output_overtakes_replay_witness:
  "\<exists>m m'. exec tstep NewTerminalManager demo_attach = Some m \<and> exec tstep m [TEmit 0 True, TAttachNext True] = Some m'
     \<and> tm_sent m' = [TerminalOutput ''t1'' ''two'' 2 False, TerminalOutput ''t1'' ''one'' 1 False]"
proof -
  have "\<exists>m. exec tstep NewTerminalManager demo_attach = Some m \<and> tm_sent m = [] \<and> ts_id (shell m 0) = ''t1'' \<and> tm_heap m \<noteq> []
      \<and> ts_pc (shell m 0) = PEmit 2 ''two''
      \<and> tm_dispatch m = TdReplay 0 [\<lparr> te_seq = 1, te_data = ''one'' \<rparr>, \<lparr> te_seq = 2, te_data = ''two'' \<rparr>] False" by (rule exec_caseD) code_simp
  then obtain m where m: "exec tstep NewTerminalManager demo_attach = Some m" "tm_sent m = []" "ts_id (shell m 0) = ''t1''"
      "0 < length (tm_heap m)" "ts_pc (shell m 0) = PEmit 2 ''two''"
      "tm_dispatch m = TdReplay 0 [\<lparr> te_seq = 1, te_data = ''one'' \<rparr>, \<lparr> te_seq = 2, te_data = ''two'' \<rparr>] False" by auto
  from live_output_overtakes_replay[OF m(6,5,4)] m show ?thesis by auto
qed

end
