(* ===== verification/Tool_Runs.thy ===== *)
theory Tool_Runs
  imports Machines
begin

text \<open>
  Long-running tools: \<^verbatim>\<open>common/agent/toolrun.go\<close>.

  Each run has goroutines that keep using it after it has left the registry, so there is a heap of runs.  The
  operating system is what the code uses of it: whether pipes and process could be made, the chunks the pipes yield, their end, the result
  of waiting, all inputs of the steps.  \<open>rm_log\<close> is every event handed to the connection, with the run it
  belongs to (\<open>None\<close> when none was spawned).
\<close>

section \<open>State\<close>

definition defaultToolRunChunk :: int where "defaultToolRunChunk = 16 * 1024"
definition defaultStopGrace :: int where "defaultStopGrace = 5 * 1000"

datatype tool_kind = STARTED | STDOUT | STDERR | EXITED

record NodeToolRunEvent =
  ev_run_id :: string
  ev_kind :: tool_kind
  ev_data :: string
  ev_exit_code :: "32 word"
  ev_error :: string
  ev_revision :: "64 word"
  ev_pid :: int

record NodeToolRunRequest =
  rq_run_id :: string
  rq_binary_path :: string
  rq_args :: "string list"
  rq_cwd :: string
  rq_env :: "(string, string) gomap"
  rq_max_event_bytes :: "32 word"
  rq_revision :: "64 word"

record command =
  cmd_path :: string
  cmd_args :: "string list"
  cmd_dir :: string
  cmd_env :: "string list"

text \<open>\<open>Spawned\<close>: started but not yet registered; \<open>Registered\<close>: not yet announced; \<open>Exiting\<close>: waited for, not yet
  reported.\<close>

datatype tool_phase = Spawned | Registered | Running | Exiting "32 word" string | Gone

record toolRun =
  tr_runID :: string
  tr_revision :: "64 word"
  tr_pid :: int
  tr_cmd :: command
  tr_chunk :: int
  tr_cancelled :: bool
  tr_interrupted :: bool
  tr_timers :: "int list"
  tr_killed :: bool
  tr_stdout :: bool
  tr_stderr :: bool
  tr_phase :: tool_phase

record NodeActiveToolRun =
  ar_run_id :: string
  ar_revision :: "64 word"
  ar_pid :: int

record ToolRunManager =
  rm_runs :: "(string, nat) gomap"
  rm_cancel :: "(string, nat) gomap"
  rm_heap :: "toolRun list"
  rm_starting :: "nat option"
  rm_log :: "(nat option \<times> NodeToolRunEvent) list"

definition NewToolRunManager :: ToolRunManager where
  "NewToolRunManager = \<lparr> rm_runs = [], rm_cancel = [], rm_heap = [], rm_starting = None, rm_log = [] \<rparr>"

definition tool_at :: "ToolRunManager \<Rightarrow> nat \<Rightarrow> toolRun" where
  "tool_at m a = rm_heap m ! a"

definition upd_run :: "nat \<Rightarrow> (toolRun \<Rightarrow> toolRun) \<Rightarrow> ToolRunManager \<Rightarrow> ToolRunManager" where
  "upd_run a f m = m\<lparr> rm_heap := (rm_heap m)[a := f (rm_heap m ! a)] \<rparr>"

definition emit_tool :: "nat option \<Rightarrow> NodeToolRunEvent \<Rightarrow> ToolRunManager \<Rightarrow> ToolRunManager" where
  "emit_tool a ev m = m\<lparr> rm_log := rm_log m @ [(a, ev)] \<rparr>"

section \<open>Operations\<close>

definition ActiveRuns :: "ToolRunManager \<Rightarrow> NodeActiveToolRun list" where
  "ActiveRuns m = map (\<lambda>(i, a). \<lparr> ar_run_id = i, ar_revision = tr_revision (tool_at m a), ar_pid = tr_pid (tool_at m a) \<rparr>) (rm_runs m)"

definition started_event :: "toolRun \<Rightarrow> NodeToolRunEvent" where
  "started_event r = \<lparr> ev_run_id = tr_runID r, ev_kind = STARTED, ev_data = [], ev_exit_code = 0, ev_error = [],
     ev_revision = tr_revision r, ev_pid = tr_pid r \<rparr>"

definition chunk_event :: "string \<Rightarrow> tool_kind \<Rightarrow> string \<Rightarrow> NodeToolRunEvent" where
  "chunk_event i kind data = \<lparr> ev_run_id = i, ev_kind = kind, ev_data = data, ev_exit_code = 0, ev_error = [], ev_revision = 0, ev_pid = 0 \<rparr>"

definition emitExitRevision :: "nat option \<Rightarrow> string \<Rightarrow> 32 word \<Rightarrow> string \<Rightarrow> 64 word \<Rightarrow> ToolRunManager \<Rightarrow> ToolRunManager" where
  "emitExitRevision a i code err revision = emit_tool a
     \<lparr> ev_run_id = i, ev_kind = EXITED, ev_data = [], ev_exit_code = code, ev_error = err, ev_revision = revision, ev_pid = 0 \<rparr>"

definition emitExit :: "string \<Rightarrow> 32 word \<Rightarrow> string \<Rightarrow> ToolRunManager \<Rightarrow> ToolRunManager" where
  "emitExit i code err = emitExitRevision None i code err 0"

definition mergeEnv :: "string list \<Rightarrow> (string, string) gomap \<Rightarrow> string list" where
  "mergeEnv environ extra = environ @ concat (map (\<lambda>(k, v). if trim_space k = [] then [] else [trim_space k @ ''='' @ v]) extra)"

text \<open>The node's own environment and home directory.\<close>

record node_env =
  ne_environ :: "string list"
  ne_home :: "string option"

definition command_of :: "node_env \<Rightarrow> NodeToolRunRequest \<Rightarrow> command" where
  "command_of node req = \<lparr> cmd_path = trim_space (rq_binary_path req), cmd_args = rq_args req,
     cmd_dir = (if trim_space (rq_cwd req) \<noteq> [] then trim_space (rq_cwd req) else case ne_home node of None \<Rightarrow> [] | Some h \<Rightarrow> h),
     cmd_env = mergeEnv (ne_environ node) (rq_env req) \<rparr>"

text \<open>What the operating system answers: one of the pipes or the process could not be made, or the process id.\<close>

datatype spawn_result = StdoutPipe string | StderrPipe string | SpawnFailed string | Pid int

definition run_chunk :: "NodeToolRunRequest \<Rightarrow> int" where
  "run_chunk req = (if uint (rq_max_event_bytes req) \<le> 0 then defaultToolRunChunk else uint (rq_max_event_bytes req))"

definition new_run :: "node_env \<Rightarrow> NodeToolRunRequest \<Rightarrow> int \<Rightarrow> toolRun" where
  "new_run node req pid = \<lparr> tr_runID = trim_space (rq_run_id req), tr_revision = rq_revision req, tr_pid = pid, tr_cmd = command_of node req,
     tr_chunk = run_chunk req, tr_cancelled = False, tr_interrupted = False, tr_timers = [], tr_killed = False, tr_stdout = True, tr_stderr = True,
     tr_phase = Spawned \<rparr>"

definition cancel_run :: "toolRun \<Rightarrow> toolRun" where
  "cancel_run r = r\<lparr> tr_cancelled := True \<rparr>"

text \<open>Starting up to the point where the lock is taken again to register: a run with the same id is cancelled.\<close>

definition spawn_tool :: "node_env \<Rightarrow> NodeToolRunRequest \<Rightarrow> spawn_result \<Rightarrow> ToolRunManager \<Rightarrow> ToolRunManager" where
  "spawn_tool node req res m =
    (let i = trim_space (rq_run_id req) in
     if i = [] then m
     else if trim_space (rq_binary_path req) = [] then emitExit i (-1) ''binary_path is required'' m
     else case res of
         StdoutPipe e \<Rightarrow> emitExit i (-1) (''stdout pipe: '' @ e) m
       | StderrPipe e \<Rightarrow> emitExit i (-1) (''stderr pipe: '' @ e) m
       | SpawnFailed e \<Rightarrow> emitExit i (-1) (''spawn: '' @ e) m
       | Pid pid \<Rightarrow>
           (let m = (case mget (rm_cancel m) i of None \<Rightarrow> m | Some b \<Rightarrow> upd_run b cancel_run m)
            in m\<lparr> rm_heap := rm_heap m @ [new_run node req pid], rm_starting := Some (length (rm_heap m)) \<rparr>))"

definition register_tool :: "ToolRunManager \<Rightarrow> ToolRunManager" where
  "register_tool m = (case rm_starting m of
      None \<Rightarrow> m
    | Some a \<Rightarrow> (upd_run a (\<lambda>r. r\<lparr> tr_phase := Registered \<rparr>) m)
        \<lparr> rm_runs := mput (tr_runID (tool_at m a)) a (rm_runs m), rm_cancel := mput (tr_runID (tool_at m a)) a (rm_cancel m) \<rparr>)"

definition announce_tool :: "ToolRunManager \<Rightarrow> ToolRunManager" where
  "announce_tool m = (case rm_starting m of
      None \<Rightarrow> m
    | Some a \<Rightarrow> (emit_tool (Some a) (started_event (tool_at m a)) (upd_run a (\<lambda>r. r\<lparr> tr_phase := Running \<rparr>) m))\<lparr> rm_starting := None \<rparr>)"

definition pump_tool :: "nat \<Rightarrow> tool_kind \<Rightarrow> string \<Rightarrow> ToolRunManager \<Rightarrow> ToolRunManager" where
  "pump_tool a kind data m = emit_tool (Some a) (chunk_event (tr_runID (tool_at m a)) kind data) m"

fun stream_open :: "tool_kind \<Rightarrow> toolRun \<Rightarrow> bool" where
  "stream_open STDOUT r = tr_stdout r"
| "stream_open STDERR r = tr_stderr r"
| "stream_open _ r = False"

fun close_stream :: "tool_kind \<Rightarrow> toolRun \<Rightarrow> toolRun" where
  "close_stream STDOUT r = r\<lparr> tr_stdout := False \<rparr>"
| "close_stream STDERR r = r\<lparr> tr_stderr := False \<rparr>"
| "close_stream _ r = r"

text \<open>The result of waiting for the process.\<close>

datatype wait_result = WaitOk | WaitExitError int | WaitCanceled | WaitOther string

fun exit_of :: "wait_result \<Rightarrow> int \<times> string" where
  "exit_of WaitOk = (0, [])"
| "exit_of (WaitExitError code) = (code, [])"
| "exit_of WaitCanceled = (-1, ''stopped'')"
| "exit_of (WaitOther e) = (-1, e)"

definition wait_tool :: "nat \<Rightarrow> wait_result \<Rightarrow> ToolRunManager \<Rightarrow> ToolRunManager" where
  "wait_tool a res m =
    (let (code, err) = exit_of res; i = tr_runID (tool_at m a)
     in (upd_run a (\<lambda>r. (cancel_run r)\<lparr> tr_phase := Exiting (of_int code) err \<rparr>) m)\<lparr> rm_runs := mdel i (rm_runs m), rm_cancel := mdel i (rm_cancel m) \<rparr>)"

definition exit_tool :: "nat \<Rightarrow> ToolRunManager \<Rightarrow> ToolRunManager" where
  "exit_tool a m = (case tr_phase (tool_at m a) of
      Exiting code err \<Rightarrow> emitExitRevision (Some a) (tr_runID (tool_at m a)) code err (tr_revision (tool_at m a)) (upd_run a (\<lambda>r. r\<lparr> tr_phase := Gone \<rparr>) m)
    | _ \<Rightarrow> m)"

definition stop_grace :: "32 word \<Rightarrow> int" where
  "stop_grace ms = (if uint ms \<le> 0 then defaultStopGrace else uint ms)"

definition stop_tool_run :: "int \<Rightarrow> toolRun \<Rightarrow> toolRun" where
  "stop_tool_run grace r = r\<lparr> tr_interrupted := True, tr_timers := tr_timers r @ [grace] \<rparr>"

definition Stop_tool :: "string \<Rightarrow> 32 word \<Rightarrow> ToolRunManager \<Rightarrow> ToolRunManager" where
  "Stop_tool run_id ms m =
    (let i = trim_space run_id in
     if i = [] then m
     else case mget (rm_runs m) i of None \<Rightarrow> m | Some a \<Rightarrow> upd_run a (stop_tool_run (stop_grace ms)) m)"

definition StopAll_tools :: "ToolRunManager \<Rightarrow> ToolRunManager" where
  "StopAll_tools m = fold (\<lambda>i. Stop_tool i 0) (mkeys (rm_runs m)) m"

definition kill_timer :: "nat \<Rightarrow> ToolRunManager \<Rightarrow> ToolRunManager" where
  "kill_timer a = upd_run a (\<lambda>r. (cancel_run r)\<lparr> tr_killed := True, tr_timers := tl (tr_timers r) \<rparr>)"

section \<open>Interleavings\<close>

datatype tool_event =
    RSpawn node_env NodeToolRunRequest spawn_result
  | RRegister
  | RAnnounce
  | RChunk nat tool_kind string
  | REof nat tool_kind
  | RWait nat wait_result
  | RExit nat
  | RStop string "32 word"
  | RStopAll
  | RTimer nat

definition in_phase :: "ToolRunManager \<Rightarrow> nat \<Rightarrow> tool_phase \<Rightarrow> bool" where
  "in_phase m a p \<longleftrightarrow> a < length (rm_heap m) \<and> tr_phase (tool_at m a) = p"

definition starting_in :: "ToolRunManager \<Rightarrow> tool_phase \<Rightarrow> bool" where
  "starting_in m p \<longleftrightarrow> (case rm_starting m of None \<Rightarrow> False | Some a \<Rightarrow> in_phase m a p)"

fun exiting :: "tool_phase \<Rightarrow> bool" where
  "exiting (Exiting code err) = True"
| "exiting _ = False"

fun rstep :: "ToolRunManager \<Rightarrow> tool_event \<Rightarrow> ToolRunManager option" where
  "rstep m (RSpawn node req res) = (if rm_starting m = None then Some (spawn_tool node req res m) else None)"
| "rstep m RRegister = (if starting_in m Spawned then Some (register_tool m) else None)"
| "rstep m RAnnounce = (if starting_in m Registered then Some (announce_tool m) else None)"
| "rstep m (RChunk a kind data) = (if in_phase m a Running \<and> stream_open kind (tool_at m a) \<and> data \<noteq> [] \<and> int (length data) \<le> tr_chunk (tool_at m a)
     then Some (pump_tool a kind data m) else None)"
| "rstep m (REof a kind) = (if in_phase m a Running \<and> stream_open kind (tool_at m a) then Some (upd_run a (close_stream kind) m) else None)"
| "rstep m (RWait a res) = (if in_phase m a Running \<and> \<not> tr_stdout (tool_at m a) \<and> \<not> tr_stderr (tool_at m a) then Some (wait_tool a res m) else None)"
| "rstep m (RExit a) = (if a < length (rm_heap m) \<and> exiting (tr_phase (tool_at m a)) then Some (exit_tool a m) else None)"
| "rstep m (RStop i ms) = (if rm_starting m = None then Some (Stop_tool i ms m) else None)"
| "rstep m RStopAll = Some (StopAll_tools m)"
| "rstep m (RTimer a) = (if a < length (rm_heap m) \<and> tr_timers (tool_at m a) \<noteq> [] then Some (kill_timer a m) else None)"

text \<open>The steps of a server that never starts a run under the id of one that has not been reported as exited from the registry.\<close>

definition unfinished :: "tool_phase \<Rightarrow> bool" where
  "unfinished p \<longleftrightarrow> (case p of Spawned \<Rightarrow> True | Registered \<Rightarrow> True | Running \<Rightarrow> True | _ \<Rightarrow> False)"

definition id_in_use :: "ToolRunManager \<Rightarrow> string \<Rightarrow> bool" where
  "id_in_use m i \<longleftrightarrow> list_ex (\<lambda>r. tr_runID r = i \<and> unfinished (tr_phase r)) (rm_heap m)"

definition fresh_rstep :: "ToolRunManager \<Rightarrow> tool_event \<Rightarrow> ToolRunManager option" where
  "fresh_rstep m e = (case e of RSpawn node req res \<Rightarrow> if id_in_use m (trim_space (rq_run_id req)) then None else rstep m e | _ \<Rightarrow> rstep m e)"

section \<open>Steps that only signal\<close>

lemma run_upd: "b < length (rm_heap m) \<Longrightarrow> tool_at (upd_run a f m) b = (if b = a then f (tool_at m b) else tool_at m b)"
  by (simp add: upd_run_def tool_at_def nth_upd)

lemma upd_run_simps [simp]:
  "rm_runs (upd_run a f m) = rm_runs m" "rm_cancel (upd_run a f m) = rm_cancel m" "rm_starting (upd_run a f m) = rm_starting m"
  "rm_log (upd_run a f m) = rm_log m" "length (rm_heap (upd_run a f m)) = length (rm_heap m)"
  by (simp_all add: upd_run_def)

lemma run_simps [simp]: "tool_at (m\<lparr> rm_runs := x \<rparr>) a = tool_at m a" "tool_at (m\<lparr> rm_cancel := x \<rparr>) a = tool_at m a" "tool_at (m\<lparr> rm_starting := y \<rparr>) a = tool_at m a"
  "tool_at (m\<lparr> rm_log := z \<rparr>) a = tool_at m a"
  by (simp_all add: tool_at_def)

lemma emit_simps [simp]: "rm_runs (emit_tool a ev m) = rm_runs m" "rm_cancel (emit_tool a ev m) = rm_cancel m"
  "rm_starting (emit_tool a ev m) = rm_starting m" "rm_heap (emit_tool a ev m) = rm_heap m" "tool_at (emit_tool a ev m) b = tool_at m b"
  "rm_log (emit_tool a ev m) = rm_log m @ [(a, ev)]"
  by (simp_all add: emit_tool_def)

definition same_run :: "toolRun \<Rightarrow> toolRun \<Rightarrow> bool" where
  "same_run r r' \<longleftrightarrow> tr_runID r' = tr_runID r \<and> tr_revision r' = tr_revision r \<and> tr_pid r' = tr_pid r \<and> tr_chunk r' = tr_chunk r \<and> tr_phase r' = tr_phase r"

definition calm :: "ToolRunManager \<Rightarrow> ToolRunManager \<Rightarrow> bool" where
  "calm m m' \<longleftrightarrow> rm_runs m' = rm_runs m \<and> rm_cancel m' = rm_cancel m \<and> rm_starting m' = rm_starting m \<and> rm_log m' = rm_log m
     \<and> length (rm_heap m') = length (rm_heap m) \<and> (\<forall>a < length (rm_heap m). same_run (tool_at m a) (tool_at m' a))"

lemma same_run_refl [simp]: "same_run r r"
  by (simp add: same_run_def)

lemma calm_refl [simp]: "calm m m"
  by (simp add: calm_def)

lemma calm_trans: "calm m n \<Longrightarrow> calm n k \<Longrightarrow> calm m k"
  by (auto simp: calm_def same_run_def)

lemma calm_upd: "(\<And>r. same_run r (f r)) \<Longrightarrow> calm m (upd_run a f m)"
  by (simp add: calm_def run_upd)

lemma calm_Stop: "calm m (Stop_tool i ms m)"
  by (simp add: Stop_tool_def Let_def stop_tool_run_def same_run_def calm_upd split: option.split)

lemma calm_StopAll: "calm m (StopAll_tools m)"
proof -
  have "calm m n \<Longrightarrow> calm m (fold (\<lambda>i. Stop_tool i 0) xs n)" for xs n
  proof (induction xs arbitrary: n)
    case (Cons x xs)
    then show ?case using calm_trans[OF Cons.prems calm_Stop] by simp
  qed simp
  then show ?thesis by (simp add: StopAll_tools_def)
qed

lemma calm_Timer: "calm m (kill_timer a m)"
  by (simp add: kill_timer_def calm_upd same_run_def cancel_run_def)

lemma calm_Eof: "calm m (upd_run a (close_stream kind) m)"
  by (rule calm_upd) (cases kind; simp add: same_run_def)

lemma calm_cancel: "calm m (upd_run a cancel_run m)"
  by (simp add: calm_upd same_run_def cancel_run_def)

fun calm_event :: "tool_event \<Rightarrow> bool" where
  "calm_event (REof a kind) = True"
| "calm_event (RStop i ms) = True"
| "calm_event RStopAll = True"
| "calm_event (RTimer a) = True"
| "calm_event _ = False"

lemma calm_step: "calm_event e \<Longrightarrow> rstep m e = Some m' \<Longrightarrow> calm m m'"
  by (cases e) (auto intro: calm_Stop calm_StopAll calm_Timer calm_Eof split: if_splits)

text \<open>Spawning: either only a report, or a new run after a cancellation that changes no registration.\<close>

lemma spawn_cases:
  obtains (report) "spawn_tool node req res m = m" | (failed) i err where "spawn_tool node req res m = emitExit i (-1) err m"
  | (new) n pid where "calm m n" "spawn_tool node req res m = n\<lparr> rm_heap := rm_heap n @ [new_run node req pid], rm_starting := Some (length (rm_heap n)) \<rparr>"
proof (cases "trim_space (rq_run_id req) = []")
  case True
  then have "spawn_tool node req res m = m" by (simp add: spawn_tool_def)
  then show thesis by (rule report)
next
  case id: False
  show thesis
  proof (cases "trim_space (rq_binary_path req) = []")
    case True
    with id have "spawn_tool node req res m = emitExit (trim_space (rq_run_id req)) (-1) ''binary_path is required'' m" by (simp add: spawn_tool_def)
    then show thesis by (rule failed)
  next
    case False
    show thesis
    proof (cases res)
      case (Pid pid)
      let ?n = "case mget (rm_cancel m) (trim_space (rq_run_id req)) of None \<Rightarrow> m | Some b \<Rightarrow> upd_run b cancel_run m"
      have "calm m ?n" using calm_cancel by (simp split: option.split)
      moreover have "spawn_tool node req res m = ?n\<lparr> rm_heap := rm_heap ?n @ [new_run node req pid], rm_starting := Some (length (rm_heap ?n)) \<rparr>"
        using id False Pid by (simp add: spawn_tool_def Let_def)
      ultimately show thesis by (rule new)
    next
      case (StdoutPipe e)
      with id False show thesis by (intro failed) (simp add: spawn_tool_def)
    next
      case (StderrPipe e)
      with id False show thesis by (intro failed) (simp add: spawn_tool_def)
    next
      case (SpawnFailed e)
      with id False show thesis by (intro failed) (simp add: spawn_tool_def)
    qed
  qed
qed

section \<open>Registry\<close>

definition tools_ok :: "ToolRunManager \<Rightarrow> bool" where
  "tools_ok m \<longleftrightarrow> gomap_wf (rm_runs m) \<and> rm_cancel m = rm_runs m
     \<and> (\<forall>i a. mget (rm_runs m) i = Some a \<longleftrightarrow> a < length (rm_heap m) \<and> tr_runID (tool_at m a) = i \<and> tr_phase (tool_at m a) \<in> {Registered, Running})
     \<and> (\<forall>a. rm_starting m = Some a \<longleftrightarrow> a < length (rm_heap m) \<and> tr_phase (tool_at m a) \<in> {Spawned, Registered})
     \<and> (\<forall>a < length (rm_heap m). \<forall>b < length (rm_heap m). unfinished (tr_phase (tool_at m a)) \<longrightarrow> unfinished (tr_phase (tool_at m b))
          \<longrightarrow> tr_runID (tool_at m a) = tr_runID (tool_at m b) \<longrightarrow> a = b)"

lemma tools_ok_init: "tools_ok NewToolRunManager"
  by (simp add: tools_ok_def NewToolRunManager_def)

lemma tools_ok_calm: "tools_ok m \<Longrightarrow> calm m m' \<Longrightarrow> tools_ok m'"
  unfolding tools_ok_def calm_def same_run_def by (simp cong: conj_cong)

lemma tools_ok_emit [simp]: "tools_ok (emit_tool a ev m) = tools_ok m"
  by (simp add: tools_ok_def)

lemma tools_wf: "tools_ok m \<Longrightarrow> gomap_wf (rm_runs m)" "tools_ok m \<Longrightarrow> rm_cancel m = rm_runs m"
  by (simp_all add: tools_ok_def)

lemma tools_registered:
  "tools_ok m \<Longrightarrow> mget (rm_runs m) i = Some a \<longleftrightarrow> a < length (rm_heap m) \<and> tr_runID (tool_at m a) = i \<and> tr_phase (tool_at m a) \<in> {Registered, Running}"
  unfolding tools_ok_def by blast

lemma tools_starting: "tools_ok m \<Longrightarrow> rm_starting m = Some a \<longleftrightarrow> a < length (rm_heap m) \<and> tr_phase (tool_at m a) \<in> {Spawned, Registered}"
  unfolding tools_ok_def by blast

lemma tools_unique: "tools_ok m \<Longrightarrow> a < length (rm_heap m) \<Longrightarrow> b < length (rm_heap m) \<Longrightarrow> unfinished (tr_phase (tool_at m a)) \<Longrightarrow>
    unfinished (tr_phase (tool_at m b)) \<Longrightarrow> tr_runID (tool_at m a) = tr_runID (tool_at m b) \<Longrightarrow> a = b"
  unfolding tools_ok_def by blast

lemma unfinished_simps [simp]: "unfinished Spawned" "unfinished Registered" "unfinished Running" "\<not> unfinished (Exiting c e)" "\<not> unfinished Gone"
  by (simp_all add: unfinished_def)

lemma tools_okI:
  assumes "gomap_wf (rm_runs m)" "rm_cancel m = rm_runs m"
    "\<And>i a. mget (rm_runs m) i = Some a \<longleftrightarrow> a < length (rm_heap m) \<and> tr_runID (tool_at m a) = i \<and> tr_phase (tool_at m a) \<in> {Registered, Running}"
    "\<And>a. rm_starting m = Some a \<longleftrightarrow> a < length (rm_heap m) \<and> tr_phase (tool_at m a) \<in> {Spawned, Registered}"
    "\<And>a b. a < length (rm_heap m) \<Longrightarrow> b < length (rm_heap m) \<Longrightarrow> unfinished (tr_phase (tool_at m a)) \<Longrightarrow> unfinished (tr_phase (tool_at m b)) \<Longrightarrow>
       tr_runID (tool_at m a) = tr_runID (tool_at m b) \<Longrightarrow> a = b"
  shows "tools_ok m"
  unfolding tools_ok_def using assms by blast

lemma tools_ok_register:
  assumes ok: "tools_ok m" and st: "starting_in m Spawned"
  shows "tools_ok (register_tool m)"
proof -
  obtain a where a: "rm_starting m = Some a" "a < length (rm_heap m)" "tr_phase (tool_at m a) = Spawned"
    using st by (auto simp: starting_in_def in_phase_def split: option.splits)
  let ?m = "register_tool m" and ?i = "tr_runID (tool_at m a)"
  have r: "b < length (rm_heap m) \<Longrightarrow> tool_at ?m b = (if b = a then (tool_at m a)\<lparr> tr_phase := Registered \<rparr> else tool_at m b)" for b
    using a(1) by (simp add: register_tool_def run_upd)
  have s: "rm_runs ?m = mput ?i a (rm_runs m)" "rm_cancel ?m = mput ?i a (rm_cancel m)" "rm_starting ?m = Some a" "length (rm_heap ?m) = length (rm_heap m)"
    using a(1) by (simp_all add: register_tool_def)
  show ?thesis
  proof (rule tools_okI)
    show "gomap_wf (rm_runs ?m)" "rm_cancel ?m = rm_runs ?m" using tools_wf[OF ok] by (simp_all add: s)
    show "mget (rm_runs ?m) i = Some b \<longleftrightarrow> b < length (rm_heap ?m) \<and> tr_runID (tool_at ?m b) = i \<and> tr_phase (tool_at ?m b) \<in> {Registered, Running}" for i b
    proof (cases "b = a")
      case True
      then show ?thesis using a r[of a] tools_registered[OF ok, of i a] by (simp add: s)
    next
      case False
      have "b < length (rm_heap m) \<Longrightarrow> unfinished (tr_phase (tool_at m b)) \<Longrightarrow> tr_runID (tool_at m b) \<noteq> ?i"
        using tools_unique[OF ok _ a(2), of b] a(3) False by auto
      moreover have "unfinished (tr_phase (tool_at m b))" if "tr_phase (tool_at m b) \<in> {Registered, Running}" using that by auto
      ultimately show ?thesis using False r[of b] tools_registered[OF ok, of i b] by (cases "b < length (rm_heap m)") (auto simp: s)
    qed
    show "rm_starting ?m = Some b \<longleftrightarrow> b < length (rm_heap ?m) \<and> tr_phase (tool_at ?m b) \<in> {Spawned, Registered}" for b
      using tools_starting[OF ok, of b] a r[of b] by (cases "b = a") (auto simp: s)
    show "x = y" if "x < length (rm_heap ?m)" "y < length (rm_heap ?m)" "unfinished (tr_phase (tool_at ?m x))" "unfinished (tr_phase (tool_at ?m y))"
        "tr_runID (tool_at ?m x) = tr_runID (tool_at ?m y)" for x y
      using that r[of x] r[of y] tools_unique[OF ok, of x y] a(3) by (cases "x = a"; cases "y = a") (simp_all add: s)
  qed
qed

lemma tools_ok_announce:
  assumes ok: "tools_ok m" and st: "starting_in m Registered"
  shows "tools_ok (announce_tool m)"
proof -
  obtain a where a: "rm_starting m = Some a" "a < length (rm_heap m)" "tr_phase (tool_at m a) = Registered"
    using st by (auto simp: starting_in_def in_phase_def split: option.splits)
  let ?m = "announce_tool m"
  have r: "b < length (rm_heap m) \<Longrightarrow> tool_at ?m b = (if b = a then (tool_at m a)\<lparr> tr_phase := Running \<rparr> else tool_at m b)" for b
    using a(1) by (simp add: announce_tool_def run_upd)
  have s: "rm_runs ?m = rm_runs m" "rm_cancel ?m = rm_cancel m" "rm_starting ?m = None" "length (rm_heap ?m) = length (rm_heap m)"
    using a(1) by (simp_all add: announce_tool_def)
  show ?thesis
  proof (rule tools_okI)
    show "gomap_wf (rm_runs ?m)" "rm_cancel ?m = rm_runs ?m" using tools_wf[OF ok] by (simp_all add: s)
    show "mget (rm_runs ?m) i = Some b \<longleftrightarrow> b < length (rm_heap ?m) \<and> tr_runID (tool_at ?m b) = i \<and> tr_phase (tool_at ?m b) \<in> {Registered, Running}" for i b
      using a r[of b] tools_registered[OF ok, of i b] by (cases "b = a") (auto simp: s)
    show "rm_starting ?m = Some b \<longleftrightarrow> b < length (rm_heap ?m) \<and> tr_phase (tool_at ?m b) \<in> {Spawned, Registered}" for b
      using tools_starting[OF ok, of b] a r[of b] by (cases "b = a") (auto simp: s)
    show "x = y" if "x < length (rm_heap ?m)" "y < length (rm_heap ?m)" "unfinished (tr_phase (tool_at ?m x))" "unfinished (tr_phase (tool_at ?m y))"
        "tr_runID (tool_at ?m x) = tr_runID (tool_at ?m y)" for x y
      using that r[of x] r[of y] tools_unique[OF ok, of x y] a(3) by (cases "x = a"; cases "y = a") (simp_all add: s)
  qed
qed

lemma tools_ok_wait:
  assumes ok: "tools_ok m" and st: "in_phase m a Running"
  shows "tools_ok (wait_tool a res m)"
proof -
  have a: "a < length (rm_heap m)" "tr_phase (tool_at m a) = Running" using st by (simp_all add: in_phase_def)
  obtain code err where res: "exit_of res = (code, err)" by fastforce
  let ?m = "wait_tool a res m" and ?i = "tr_runID (tool_at m a)"
  have r: "b < length (rm_heap m) \<Longrightarrow> tool_at ?m b = (if b = a then (cancel_run (tool_at m a))\<lparr> tr_phase := Exiting (of_int code) err \<rparr> else tool_at m b)" for b
    by (simp add: wait_tool_def res Let_def run_upd)
  have s: "rm_runs ?m = mdel ?i (rm_runs m)" "rm_cancel ?m = mdel ?i (rm_cancel m)" "rm_starting ?m = rm_starting m" "length (rm_heap ?m) = length (rm_heap m)"
    by (simp_all add: wait_tool_def res Let_def)
  have here: "mget (rm_runs m) ?i = Some a" using tools_registered[OF ok] a by simp
  show ?thesis
  proof (rule tools_okI)
    show "gomap_wf (rm_runs ?m)" "rm_cancel ?m = rm_runs ?m" using tools_wf[OF ok] by (simp_all add: s)
    show "mget (rm_runs ?m) i = Some b \<longleftrightarrow> b < length (rm_heap ?m) \<and> tr_runID (tool_at ?m b) = i \<and> tr_phase (tool_at ?m b) \<in> {Registered, Running}" for i b
    proof (cases "b = a")
      case True
      then show ?thesis using a r[of a] tools_registered[OF ok, of i a] by (auto simp: s)
    next
      case False
      have "mget (rm_runs ?m) i = Some b \<longleftrightarrow> mget (rm_runs m) i = Some b" using here False by (auto simp: s)
      then show ?thesis using False r[of b] tools_registered[OF ok, of i b] by (cases "b < length (rm_heap m)") (simp_all add: s)
    qed
    show "rm_starting ?m = Some b \<longleftrightarrow> b < length (rm_heap ?m) \<and> tr_phase (tool_at ?m b) \<in> {Spawned, Registered}" for b
      using tools_starting[OF ok, of b] a r[of b] by (cases "b = a") (auto simp: s)
    show "x = y" if "x < length (rm_heap ?m)" "y < length (rm_heap ?m)" "unfinished (tr_phase (tool_at ?m x))" "unfinished (tr_phase (tool_at ?m y))"
        "tr_runID (tool_at ?m x) = tr_runID (tool_at ?m y)" for x y
      using that r[of x] r[of y] tools_unique[OF ok, of x y] a(2) by (cases "x = a"; cases "y = a") (simp_all add: s)
  qed
qed

lemma tools_ok_exit:
  assumes ok: "tools_ok m" and a: "a < length (rm_heap m)" and st: "exiting (tr_phase (tool_at m a))"
  shows "tools_ok (exit_tool a m)"
proof -
  obtain code err where ph: "tr_phase (tool_at m a) = Exiting code err" using st by (cases "tr_phase (tool_at m a)") simp_all
  let ?m = "exit_tool a m"
  have r: "b < length (rm_heap m) \<Longrightarrow> tool_at ?m b = (if b = a then (tool_at m a)\<lparr> tr_phase := Gone \<rparr> else tool_at m b)" for b
    by (simp add: exit_tool_def ph run_upd emitExitRevision_def)
  have s: "rm_runs ?m = rm_runs m" "rm_cancel ?m = rm_cancel m" "rm_starting ?m = rm_starting m" "length (rm_heap ?m) = length (rm_heap m)"
    by (simp_all add: exit_tool_def ph emitExitRevision_def)
  show ?thesis
  proof (rule tools_okI)
    show "gomap_wf (rm_runs ?m)" "rm_cancel ?m = rm_runs ?m" using tools_wf[OF ok] by (simp_all add: s)
    show "mget (rm_runs ?m) i = Some b \<longleftrightarrow> b < length (rm_heap ?m) \<and> tr_runID (tool_at ?m b) = i \<and> tr_phase (tool_at ?m b) \<in> {Registered, Running}" for i b
      using ph r[of b] tools_registered[OF ok, of i b] by (cases "b = a") (auto simp: s)
    show "rm_starting ?m = Some b \<longleftrightarrow> b < length (rm_heap ?m) \<and> tr_phase (tool_at ?m b) \<in> {Spawned, Registered}" for b
      using tools_starting[OF ok, of b] ph r[of b] by (cases "b = a") (auto simp: s)
    show "x = y" if "x < length (rm_heap ?m)" "y < length (rm_heap ?m)" "unfinished (tr_phase (tool_at ?m x))" "unfinished (tr_phase (tool_at ?m y))"
        "tr_runID (tool_at ?m x) = tr_runID (tool_at ?m y)" for x y
      using that r[of x] r[of y] tools_unique[OF ok, of x y] by (cases "x = a"; cases "y = a") (simp_all add: s)
  qed
qed

lemma id_in_use_iff: "id_in_use m i \<longleftrightarrow> (\<exists>a < length (rm_heap m). tr_runID (tool_at m a) = i \<and> unfinished (tr_phase (tool_at m a)))"
  by (simp add: id_in_use_def list_ex_length tool_at_def)

lemma id_in_use_calm: "calm m n \<Longrightarrow> id_in_use n i = id_in_use m i"
  unfolding id_in_use_iff calm_def same_run_def by (simp cong: conj_cong)

lemma tools_ok_new:
  assumes ok: "tools_ok m" and idle: "rm_starting m = None" and free: "\<not> id_in_use m (trim_space (rq_run_id req))"
  shows "tools_ok (m\<lparr> rm_heap := rm_heap m @ [new_run node req pid], rm_starting := Some (length (rm_heap m)) \<rparr>)" (is "tools_ok ?m")
proof -
  let ?n = "length (rm_heap m)"
  have old: "b < ?n \<Longrightarrow> tool_at ?m b = tool_at m b" for b by (simp add: tool_at_def nth_append)
  have new: "tool_at ?m ?n = new_run node req pid" by (simp add: tool_at_def)
  have none: "b < ?n \<Longrightarrow> tr_phase (tool_at m b) \<noteq> Spawned \<and> tr_phase (tool_at m b) \<noteq> Registered" for b
    using tools_starting[OF ok, of b] idle by auto
  have other: "b < ?n \<Longrightarrow> unfinished (tr_phase (tool_at m b)) \<Longrightarrow> tr_runID (tool_at m b) \<noteq> trim_space (rq_run_id req)" for b
    using free unfolding id_in_use_iff by blast
  have len: "length (rm_heap ?m) = Suc ?n" by simp
  show ?thesis
  proof (rule tools_okI)
    show "gomap_wf (rm_runs ?m)" "rm_cancel ?m = rm_runs ?m" using tools_wf[OF ok] by simp_all
    show "mget (rm_runs ?m) i = Some b \<longleftrightarrow> b < length (rm_heap ?m) \<and> tr_runID (tool_at ?m b) = i \<and> tr_phase (tool_at ?m b) \<in> {Registered, Running}" for i b
      using tools_registered[OF ok, of i b] old[of b] new by (cases "b < ?n"; cases "b = ?n") (auto simp: new_run_def)
    show "rm_starting ?m = Some b \<longleftrightarrow> b < length (rm_heap ?m) \<and> tr_phase (tool_at ?m b) \<in> {Spawned, Registered}" for b
      using none[of b] old[of b] new by (cases "b < ?n"; cases "b = ?n") (auto simp: new_run_def)
    fix x y
    assume xy: "x < length (rm_heap ?m)" "y < length (rm_heap ?m)" "unfinished (tr_phase (tool_at ?m x))" "unfinished (tr_phase (tool_at ?m y))"
        "tr_runID (tool_at ?m x) = tr_runID (tool_at ?m y)"
    show "x = y"
    proof -
      consider "x < ?n" "y < ?n" | "x = ?n" "y = ?n" | "x < ?n" "y = ?n" | "x = ?n" "y < ?n" using xy(1,2) len by linarith
      then show ?thesis
        using xy(3-5) old[of x] old[of y] new other[of x] other[of y] tools_unique[OF ok, of x y]
        by cases (auto simp: new_run_def)
    qed
  qed
qed

lemma tools_ok_spawn:
  assumes ok: "tools_ok m" and idle: "rm_starting m = None" and free: "\<not> id_in_use m (trim_space (rq_run_id req))"
  shows "tools_ok (spawn_tool node req res m)"
proof (rule spawn_cases[of node req res m])
  fix n pid
  assume n: "calm m n" and eq: "spawn_tool node req res m = n\<lparr> rm_heap := rm_heap n @ [new_run node req pid], rm_starting := Some (length (rm_heap n)) \<rparr>"
  have "rm_starting n = None" using n idle by (simp add: calm_def)
  with tools_ok_new[OF tools_ok_calm[OF ok n], of req node pid] free id_in_use_calm[OF n] eq show ?thesis by simp
qed (simp_all add: ok emitExit_def emitExitRevision_def)

lemma tools_ok_step: "tools_ok m \<Longrightarrow> fresh_rstep m e = Some m' \<Longrightarrow> tools_ok m'"
proof (cases "calm_event e")
  case True
  moreover assume "tools_ok m" "fresh_rstep m e = Some m'"
  moreover from this True have "rstep m e = Some m'" by (cases e) (simp_all add: fresh_rstep_def)
  ultimately show ?thesis using tools_ok_calm calm_step by blast
next
  case False
  moreover assume "tools_ok m" "fresh_rstep m e = Some m'"
  ultimately show ?thesis
    by (cases e) (auto simp: fresh_rstep_def pump_tool_def intro: tools_ok_spawn tools_ok_register tools_ok_announce tools_ok_wait tools_ok_exit split: if_splits)
qed

interpretation tools: guarded_machine fresh_rstep "\<lambda>_. True" tools_ok
  by unfold_locales (rule tools_ok_step)

section \<open>Events of a run\<close>

definition run_log :: "ToolRunManager \<Rightarrow> nat \<Rightarrow> NodeToolRunEvent list" where
  "run_log m a = map snd (filter (\<lambda>(x, ev). x = Some a) (rm_log m))"

definition is_chunk :: "toolRun \<Rightarrow> NodeToolRunEvent \<Rightarrow> bool" where
  "is_chunk r ev \<longleftrightarrow> ev_run_id ev = tr_runID r \<and> (ev_kind ev = STDOUT \<or> ev_kind ev = STDERR) \<and> ev_data ev \<noteq> [] \<and> int (length (ev_data ev)) \<le> tr_chunk r"

definition is_exit :: "toolRun \<Rightarrow> NodeToolRunEvent \<Rightarrow> bool" where
  "is_exit r ev \<longleftrightarrow> ev_run_id ev = tr_runID r \<and> ev_kind ev = EXITED \<and> ev_revision ev = tr_revision r"

definition protocol :: "toolRun \<Rightarrow> NodeToolRunEvent list \<Rightarrow> bool" where
  "protocol r evs \<longleftrightarrow> (case tr_phase r of
      Running \<Rightarrow> evs \<noteq> [] \<and> hd evs = started_event r \<and> list_all (is_chunk r) (tl evs)
    | Exiting code err \<Rightarrow> evs \<noteq> [] \<and> hd evs = started_event r \<and> list_all (is_chunk r) (tl evs)
    | Gone \<Rightarrow> 2 \<le> length evs \<and> hd evs = started_event r \<and> list_all (is_chunk r) (butlast (tl evs)) \<and> is_exit r (last evs)
    | _ \<Rightarrow> evs = [])"

definition logs_ok :: "ToolRunManager \<Rightarrow> bool" where
  "logs_ok m \<longleftrightarrow> (\<forall>a. run_log m a \<noteq> [] \<longrightarrow> a < length (rm_heap m)) \<and> (\<forall>a < length (rm_heap m). protocol (tool_at m a) (run_log m a))"

lemma protocol_cong: "same_run r r' \<Longrightarrow> protocol r' evs = protocol r evs"
  by (simp add: protocol_def same_run_def is_chunk_def[abs_def] is_exit_def started_event_def split: tool_phase.split)

lemma logs_ok_calm: "logs_ok m \<Longrightarrow> calm m m' \<Longrightarrow> logs_ok m'"
proof -
  assume ok: "logs_ok m" and c: "calm m m'"
  have log: "run_log m' a = run_log m a" for a using c by (simp add: run_log_def calm_def)
  have "protocol (tool_at m' a) (run_log m a)" if "a < length (rm_heap m)" for a
    using that ok c protocol_cong[of "tool_at m a" "tool_at m' a"] by (simp add: logs_ok_def calm_def)
  then show ?thesis using ok c by (simp add: logs_ok_def log) (simp add: calm_def)
qed

lemma run_log_emit [simp]: "run_log (emit_tool b ev m) a = run_log m a @ (if b = Some a then [ev] else [])"
  by (simp add: run_log_def)

lemma run_log_simps [simp]: "run_log (upd_run b f m) a = run_log m a" "run_log (m\<lparr> rm_runs := x \<rparr>) a = run_log m a"
  "run_log (m\<lparr> rm_cancel := x \<rparr>) a = run_log m a" "run_log (m\<lparr> rm_starting := y \<rparr>) a = run_log m a" "run_log (m\<lparr> rm_heap := h \<rparr>) a = run_log m a"
  by (simp_all add: run_log_def)

lemma logs_ok_emit_None [simp]: "logs_ok (emit_tool None ev m) = logs_ok m"
  by (simp add: logs_ok_def)

lemma logs_ok_new:
  assumes "logs_ok m"
  shows "logs_ok (m\<lparr> rm_heap := rm_heap m @ [new_run node req pid], rm_starting := y \<rparr>)" (is "logs_ok ?m")
proof -
  have "run_log m (length (rm_heap m)) = []" using assms by (auto simp: logs_ok_def)
  then have "protocol (tool_at ?m a) (run_log m a)" if "a < Suc (length (rm_heap m))" for a
    using assms that by (cases "a = length (rm_heap m)") (auto simp: logs_ok_def tool_at_def nth_append protocol_def new_run_def)
  then show ?thesis using assms by (auto simp: logs_ok_def less_SucI)
qed

lemma logs_ok_spawn: "logs_ok m \<Longrightarrow> logs_ok (spawn_tool node req res m)"
  by (rule spawn_cases[of node req res m]) (simp_all add: emitExit_def emitExitRevision_def logs_ok_new logs_ok_calm)

text \<open>A step that changes one run and logs at most one event of it.\<close>

lemma logs_ok_one:
  assumes ok: "logs_ok m" and a: "a < length (rm_heap m)" and len: "length (rm_heap m') = length (rm_heap m)"
    and other: "\<And>b. b < length (rm_heap m) \<Longrightarrow> b \<noteq> a \<Longrightarrow> tool_at m' b = tool_at m b" "\<And>b. b \<noteq> a \<Longrightarrow> run_log m' b = run_log m b"
    and step: "protocol (tool_at m a) (run_log m a) \<Longrightarrow> protocol (tool_at m' a) (run_log m' a)"
  shows "logs_ok m'"
proof -
  have "b < length (rm_heap m)" if "run_log m' b \<noteq> []" for b
    using that ok a other(2)[of b] by (cases "b = a") (auto simp: logs_ok_def)
  moreover have "protocol (tool_at m' b) (run_log m' b)" if "b < length (rm_heap m)" for b
    using that ok step other[of b] by (cases "b = a") (auto simp: logs_ok_def)
  ultimately show ?thesis by (simp add: logs_ok_def len)
qed

lemma logs_ok_step:
  assumes ok: "logs_ok m" and st: "rstep m e = Some m'"
  shows "logs_ok m'"
proof (cases "calm_event e")
  case True
  then show ?thesis using logs_ok_calm[OF ok calm_step] st by blast
next
  case False
  then show ?thesis
  proof (cases e)
    case (RSpawn node req res)
    with st ok show ?thesis by (auto simp: logs_ok_spawn split: if_splits)
  next
    case RRegister
    with st obtain a where a: "rm_starting m = Some a" "a < length (rm_heap m)" "tr_phase (tool_at m a) = Spawned" "m' = register_tool m"
      by (auto simp: starting_in_def in_phase_def split: if_splits option.splits)
    then show ?thesis by (intro logs_ok_one[OF ok a(2)]) (simp_all add: register_tool_def run_upd protocol_def)
  next
    case RAnnounce
    with st obtain a where a: "rm_starting m = Some a" "a < length (rm_heap m)" "tr_phase (tool_at m a) = Registered" "m' = announce_tool m"
      by (auto simp: starting_in_def in_phase_def split: if_splits option.splits)
    then show ?thesis by (intro logs_ok_one[OF ok a(2)]) (simp_all add: announce_tool_def run_upd protocol_def started_event_def)
  next
    case (RChunk a kind data)
    with st have a: "a < length (rm_heap m)" "tr_phase (tool_at m a) = Running" "m' = pump_tool a kind data m" "stream_open kind (tool_at m a)"
        "data \<noteq> []" "int (length data) \<le> tr_chunk (tool_at m a)"
      by (simp_all add: in_phase_def split: if_splits)
    moreover have "kind = STDOUT \<or> kind = STDERR" using a(4) by (cases kind) simp_all
    then have "is_chunk (tool_at m a) (chunk_event (tr_runID (tool_at m a)) kind data)" using a by (auto simp: is_chunk_def chunk_event_def)
    ultimately show ?thesis
      by (intro logs_ok_one[OF ok a(1)]) (simp_all add: pump_tool_def protocol_def)
  next
    case (RWait a res)
    with st have a: "a < length (rm_heap m)" "tr_phase (tool_at m a) = Running" "m' = wait_tool a res m" by (simp_all add: in_phase_def split: if_splits)
    obtain code err where "exit_of res = (code, err)" by fastforce
    with a show ?thesis
      by (intro logs_ok_one[OF ok a(1)])
        (simp_all add: wait_tool_def Let_def run_upd protocol_def cancel_run_def started_event_def is_chunk_def[abs_def])
  next
    case (RExit a)
    with st obtain code err where a: "a < length (rm_heap m)" "tr_phase (tool_at m a) = Exiting code err" "m' = exit_tool a m"
      by (cases "tr_phase (tool_at m a)") (simp_all split: if_splits)
    have "protocol (tool_at m' a) (run_log m' a)" if "protocol (tool_at m a) (run_log m a)"
      using that a by (cases "run_log m a") (simp_all add: exit_tool_def emitExitRevision_def run_upd protocol_def started_event_def
          is_chunk_def[abs_def] is_exit_def)
    with a show ?thesis by (intro logs_ok_one[OF ok a(1)]) (simp_all add: exit_tool_def emitExitRevision_def run_upd)
  qed simp_all
qed

interpretation logs: guarded_machine rstep "\<lambda>_. True" logs_ok
  by unfold_locales (rule logs_ok_step)

section \<open>Runs that lost their registration\<close>

definition keyed :: "ToolRunManager \<Rightarrow> bool" where
  "keyed m \<longleftrightarrow> (\<forall>j c. mget (rm_runs m) j = Some c \<or> mget (rm_cancel m) j = Some c \<longrightarrow> c < length (rm_heap m) \<and> tr_runID (tool_at m c) = j)"

definition untouched :: "toolRun \<Rightarrow> bool" where
  "untouched r \<longleftrightarrow> tr_phase r = Running \<and> \<not> tr_cancelled r \<and> \<not> tr_interrupted r \<and> \<not> tr_killed r \<and> tr_timers r = []"

definition lost :: "nat \<Rightarrow> string \<Rightarrow> ToolRunManager \<Rightarrow> bool" where
  "lost b i m \<longleftrightarrow> b < length (rm_heap m) \<and> tr_runID (tool_at m b) = i \<and> untouched (tool_at m b) \<and> mget (rm_runs m) i = None \<and> mget (rm_cancel m) i = None
     \<and> keyed m \<and> (case rm_starting m of None \<Rightarrow> True | Some a \<Rightarrow> a < length (rm_heap m) \<and> tr_runID (tool_at m a) \<noteq> i)"

text \<open>Anything but a new start under the id and the end of the process itself.\<close>

fun no_restart :: "nat \<Rightarrow> string \<Rightarrow> tool_event \<Rightarrow> bool" where
  "no_restart b i (RSpawn node req res) = (trim_space (rq_run_id req) \<noteq> i)"
| "no_restart b i (RWait a res) = (a \<noteq> b)"
| "no_restart b i _ = True"

lemma keyed_calm: "keyed m \<Longrightarrow> calm m m' \<Longrightarrow> keyed m'"
  by (simp add: keyed_def calm_def same_run_def)

lemma lost_calm:
  assumes "lost b i m" "calm m m'" "untouched (tool_at m' b)"
  shows "lost b i m'"
proof -
  have "keyed m'" using assms(1) keyed_calm[OF _ assms(2)] by (simp add: lost_def)
  then show ?thesis using assms by (simp add: lost_def calm_def same_run_def split: option.splits)
qed

lemma lost_Stop: "lost b i m \<Longrightarrow> lost b i (Stop_tool j ms m)"
proof -
  assume l: "lost b i m"
  then have "mget (rm_runs m) (trim_space j) \<noteq> Some b" by (auto simp: lost_def keyed_def)
  moreover have "b < length (rm_heap m)" using l by (simp add: lost_def)
  ultimately have "tool_at (Stop_tool j ms m) b = tool_at m b"
    by (auto simp: Stop_tool_def Let_def run_upd split: option.split)
  with l show ?thesis by (intro lost_calm[OF l calm_Stop]) (simp add: lost_def)
qed

lemma lost_StopAll: "lost b i m \<Longrightarrow> lost b i (StopAll_tools m)"
proof -
  have "lost b i n \<Longrightarrow> lost b i (fold (\<lambda>i. Stop_tool i 0) xs n)" for xs n
    by (induction xs arbitrary: n) (simp_all add: lost_Stop)
  then show "lost b i m \<Longrightarrow> lost b i (StopAll_tools m)" by (simp add: StopAll_tools_def)
qed

lemma lost_untouched: "lost b i m \<Longrightarrow> untouched (tool_at m b)"
  by (simp add: lost_def)

lemma lost_other:
  assumes l: "lost b i m" and len: "length (rm_heap m') = length (rm_heap m)" and b: "tool_at m' b = tool_at m b"
    and ids: "\<And>a. a < length (rm_heap m) \<Longrightarrow> tr_runID (tool_at m' a) = tr_runID (tool_at m a)"
    and maps: "\<And>j c. mget (rm_runs m') j = Some c \<Longrightarrow> mget (rm_runs m) j = Some c \<or> rm_starting m = Some c \<and> tr_runID (tool_at m c) = j"
      "\<And>j c. mget (rm_cancel m') j = Some c \<Longrightarrow> mget (rm_cancel m) j = Some c \<or> rm_starting m = Some c \<and> tr_runID (tool_at m c) = j"
    and starting: "rm_starting m' = rm_starting m \<or> rm_starting m' = None"
  shows "lost b i m'"
proof -
  have k: "\<And>j c. mget (rm_runs m) j = Some c \<Longrightarrow> c < length (rm_heap m) \<and> tr_runID (tool_at m c) = j"
      "\<And>j c. mget (rm_cancel m) j = Some c \<Longrightarrow> c < length (rm_heap m) \<and> tr_runID (tool_at m c) = j"
      "\<And>c. rm_starting m = Some c \<Longrightarrow> c < length (rm_heap m) \<and> tr_runID (tool_at m c) \<noteq> i"
    using l by (simp_all add: lost_def keyed_def)
  have none: "mget (rm_runs m') i = None" "mget (rm_cancel m') i = None"
  proof -
    have n: "mget (rm_runs m) i = None" "mget (rm_cancel m) i = None" using l by (simp_all add: lost_def)
    show "mget (rm_runs m') i = None" using maps(1)[of i] k(3) n(1) by (cases "mget (rm_runs m') i") auto
    show "mget (rm_cancel m') i = None" using maps(2)[of i] k(3) n(2) by (cases "mget (rm_cancel m') i") auto
  qed
  have "c < length (rm_heap m) \<and> tr_runID (tool_at m' c) = j" if "mget (rm_runs m') j = Some c \<or> mget (rm_cancel m') j = Some c" for j c
  proof -
    from that maps[of j c] have "mget (rm_runs m) j = Some c \<or> mget (rm_cancel m) j = Some c \<or> rm_starting m = Some c \<and> tr_runID (tool_at m c) = j"
      by blast
    then have "c < length (rm_heap m) \<and> tr_runID (tool_at m c) = j" using k by blast
    then show ?thesis using ids[of c] by simp
  qed
  then have "keyed m'" by (simp add: keyed_def len)
  moreover have "case rm_starting m' of None \<Rightarrow> True | Some a \<Rightarrow> a < length (rm_heap m') \<and> tr_runID (tool_at m' a) \<noteq> i"
    using starting k(3) ids by (cases "rm_starting m") (auto simp: len)
  ultimately show ?thesis using l none by (simp add: lost_def len b)
qed

lemma lost_spawn:
  assumes l: "lost b i m" and st: "rm_starting m = None" and other: "trim_space (rq_run_id req) \<noteq> i"
  shows "lost b i (spawn_tool node req res m)"
proof (cases "\<exists>pid. res = Pid pid \<and> trim_space (rq_run_id req) \<noteq> [] \<and> trim_space (rq_binary_path req) \<noteq> []")
  case False
  then have "(\<exists>j c err. spawn_tool node req res m = emitExit j c err m) \<or> spawn_tool node req res m = m"
    by (cases res) (auto simp: spawn_tool_def Let_def)
  moreover have "lost b i (emitExit j c err m)" for j c err
    by (rule lost_other[OF l]) (simp_all add: emitExit_def emitExitRevision_def)
  ultimately show ?thesis using l by auto
next
  case True
  then obtain pid where pid: "res = Pid pid" by blast
  let ?j = "trim_space (rq_run_id req)"
  let ?n = "case mget (rm_cancel m) ?j of None \<Rightarrow> m | Some c \<Rightarrow> upd_run c cancel_run m"
  have eq: "spawn_tool node req res m = ?n\<lparr> rm_heap := rm_heap ?n @ [new_run node req pid], rm_starting := Some (length (rm_heap ?n)) \<rparr>"
    using True pid by (simp add: spawn_tool_def Let_def)
  have "calm m ?n" using calm_cancel by (simp split: option.split)
  moreover have "tool_at ?n b = tool_at m b" using l other by (auto simp: lost_def keyed_def run_upd split: option.split)
  ultimately have n: "lost b i ?n" using lost_calm[OF l] lost_untouched[OF l] by simp
  have old: "a < length (rm_heap n) \<Longrightarrow> tool_at (n\<lparr> rm_heap := rm_heap n @ [r], rm_starting := x \<rparr>) a = tool_at n a" for n a r x
    by (simp add: tool_at_def nth_append)
  have new: "tool_at (n\<lparr> rm_heap := rm_heap n @ [r], rm_starting := x \<rparr>) (length (rm_heap n)) = r" for n r x
    by (simp add: tool_at_def)
  have "lost b i (n\<lparr> rm_heap := rm_heap n @ [new_run node req pid], rm_starting := Some (length (rm_heap n)) \<rparr>)" if "lost b i n" for n
  proof -
    have "keyed (n\<lparr> rm_heap := rm_heap n @ [new_run node req pid], rm_starting := Some (length (rm_heap n)) \<rparr>)"
      using that old[where n = n] by (auto simp: lost_def keyed_def less_SucI)
    then show ?thesis using that old[where n = n and a = b] new[where n = n] other by (simp add: lost_def new_run_def)
  qed
  with n show ?thesis unfolding eq by blast
qed

lemma lost_step:
  assumes l: "lost b i m" and ok: "no_restart b i e" and st: "rstep m e = Some m'"
  shows "lost b i m'"
proof -
  note u = lost_untouched[OF l]
  have b: "b < length (rm_heap m)" using l by (simp add: lost_def)
  show ?thesis
  proof (cases e)
    case (RSpawn node req res)
    with st ok have "rm_starting m = None" "m' = spawn_tool node req res m" "trim_space (rq_run_id req) \<noteq> i" by (simp_all split: if_splits)
    with lost_spawn[OF l] show ?thesis by simp
  next
    case RRegister
    with st obtain a where a: "rm_starting m = Some a" "tr_phase (tool_at m a) = Spawned" "m' = register_tool m"
      by (auto simp: starting_in_def in_phase_def split: if_splits option.splits)
    with u have "a \<noteq> b" by (auto simp: untouched_def)
    with a b show ?thesis by (intro lost_other[OF l]) (auto simp: register_tool_def run_upd split: if_splits)
  next
    case RAnnounce
    with st obtain a where a: "rm_starting m = Some a" "tr_phase (tool_at m a) = Registered" "m' = announce_tool m"
      by (auto simp: starting_in_def in_phase_def split: if_splits option.splits)
    with u have "a \<noteq> b" by (auto simp: untouched_def)
    with a b show ?thesis by (intro lost_other[OF l]) (auto simp: announce_tool_def run_upd split: if_splits)
  next
    case (RChunk a kind data)
    with st have "m' = pump_tool a kind data m" by (simp split: if_splits)
    then show ?thesis by (intro lost_other[OF l]) (simp_all add: pump_tool_def)
  next
    case (REof a kind)
    with st have "m' = upd_run a (close_stream kind) m" by (simp split: if_splits)
    moreover have "untouched (close_stream kind r) = untouched r" for r by (cases kind) (simp_all add: untouched_def)
    ultimately show ?thesis using u b by (intro lost_calm[OF l]) (auto simp: calm_Eof run_upd)
  next
    case (RWait a res)
    obtain code err where "exit_of res = (code, err)" by fastforce
    with RWait st ok b show ?thesis
      by (intro lost_other[OF l]) (auto simp: wait_tool_def Let_def run_upd cancel_run_def split: if_splits)
  next
    case (RExit a)
    with st obtain code err where a: "a < length (rm_heap m)" "tr_phase (tool_at m a) = Exiting code err" "m' = exit_tool a m"
      by (cases "tr_phase (tool_at m a)") (simp_all split: if_splits)
    with u have "a \<noteq> b" by (auto simp: untouched_def)
    with a b show ?thesis by (intro lost_other[OF l]) (simp_all add: exit_tool_def emitExitRevision_def run_upd)
  next
    case (RStop j ms)
    with st lost_Stop[OF l, of j ms] show ?thesis by (simp split: if_splits)
  next
    case RStopAll
    with st lost_StopAll[OF l] show ?thesis by simp
  next
    case (RTimer a)
    with st have a: "tr_timers (tool_at m a) \<noteq> []" "m' = kill_timer a m" by (simp_all split: if_splits)
    with u have "a \<noteq> b" by (auto simp: untouched_def)
    with a b u show ?thesis by (intro lost_calm[OF l]) (simp_all add: calm_Timer, simp add: kill_timer_def run_upd)
  qed
qed

interpretation lost_run: guarded_machine rstep "no_restart b i" "lost b i"
  by unfold_locales (rule lost_step)

text \<open>The two maps always refer to runs under their own id.\<close>

definition keyed_runs :: "ToolRunManager \<Rightarrow> bool" where
  "keyed_runs m \<longleftrightarrow> keyed m \<and> (\<forall>a. rm_starting m = Some a \<longrightarrow> a < length (rm_heap m))"

lemma keyed_other:
  assumes "keyed_runs m" "length (rm_heap m) \<le> length (rm_heap m')"
    "\<And>a. a < length (rm_heap m) \<Longrightarrow> tr_runID (tool_at m' a) = tr_runID (tool_at m a)"
    "\<And>j c. mget (rm_runs m') j = Some c \<or> mget (rm_cancel m') j = Some c \<Longrightarrow>
      mget (rm_runs m) j = Some c \<or> mget (rm_cancel m) j = Some c \<or> rm_starting m = Some c \<and> tr_runID (tool_at m c) = j"
    "\<And>a. rm_starting m' = Some a \<Longrightarrow> rm_starting m = Some a \<or> a < length (rm_heap m')"
  shows "keyed_runs m'"
proof -
  have "c < length (rm_heap m') \<and> tr_runID (tool_at m' c) = j" if "mget (rm_runs m') j = Some c \<or> mget (rm_cancel m') j = Some c" for j c
  proof -
    have "c < length (rm_heap m) \<and> tr_runID (tool_at m c) = j"
      using assms(1) assms(4)[OF that] by (auto simp: keyed_runs_def keyed_def)
    then show ?thesis using assms(2,3) by auto
  qed
  moreover have "a < length (rm_heap m')" if "rm_starting m' = Some a" for a
    using assms(5)[OF that] assms(1,2) by (auto simp: keyed_runs_def)
  ultimately show ?thesis by (simp add: keyed_runs_def keyed_def)
qed

lemma keyed_step:
  assumes k: "keyed_runs m" and st: "rstep m e = Some m'"
  shows "keyed_runs m'"
proof (cases "calm_event e")
  case True
  from calm_step[OF True st] show ?thesis
    by (intro keyed_other[OF k]) (auto simp: calm_def same_run_def)
next
  case False
  show ?thesis
  proof (cases e)
    case (RSpawn node req res)
    with st have m': "m' = spawn_tool node req res m" by (simp split: if_splits)
    show ?thesis unfolding m'
      by (rule keyed_other[OF k])
        (auto simp: spawn_tool_def Let_def emitExit_def emitExitRevision_def tool_at_def upd_run_def cancel_run_def nth_append nth_upd
          split: spawn_result.splits option.splits if_splits)
  next
    case RRegister
    with st show ?thesis
      by (intro keyed_other[OF k]) (auto simp: register_tool_def run_upd split: if_splits option.splits)
  next
    case RAnnounce
    with st show ?thesis
      by (intro keyed_other[OF k]) (auto simp: announce_tool_def run_upd split: if_splits option.splits)
  next
    case (RChunk a kind data)
    with st show ?thesis by (intro keyed_other[OF k]) (auto simp: pump_tool_def split: if_splits)
  next
    case (RWait a res)
    obtain code err where "exit_of res = (code, err)" by fastforce
    with RWait st show ?thesis
      by (intro keyed_other[OF k]) (auto simp: wait_tool_def Let_def run_upd cancel_run_def mget_mdel split: if_splits)
  next
    case (RExit a)
    with st show ?thesis
      by (intro keyed_other[OF k]) (auto simp: exit_tool_def emitExitRevision_def run_upd split: if_splits tool_phase.splits)
  qed (use False in simp_all)
qed

interpretation keys: guarded_machine rstep "\<lambda>_. True" keyed_runs
  by unfold_locales (rule keyed_step)

lemma wait_loses:
  assumes "keyed_runs m" "mget (rm_runs m) i = Some b" "untouched (tool_at m b)" "a \<noteq> b" "tr_runID (tool_at m a) = i"
    "\<And>c. rm_starting m = Some c \<Longrightarrow> tr_runID (tool_at m c) \<noteq> i" "rstep m (RWait a res) = Some m1"
  shows "lost b i m1"
proof -
  obtain code err where x: "exit_of res = (code, err)" by fastforce
  have a: "a < length (rm_heap m)" "m1 = wait_tool a res m" using assms(7) by (auto simp: in_phase_def split: if_splits)
  have b: "b < length (rm_heap m)" "tr_runID (tool_at m b) = i" using assms(1,2) by (auto simp: keyed_runs_def keyed_def)
  have "keyed_runs m1" by (rule keyed_step[OF assms(1,7)])
  then show ?thesis using a b x assms
    by (auto simp: lost_def keyed_runs_def wait_tool_def Let_def run_upd cancel_run_def split: option.splits)
qed

section \<open>Properties\<close>

text \<open> \<^bold>\<open>C26\<close>. As long as no run is started under the id of an unfinished one, the registry that the heartbeat reports and stopping
  uses is exactly the processes that were started and have not been waited for, one per id.\<close>

theorem tool_registry_exact:
  assumes "reach fresh_rstep NewToolRunManager m"
  shows "mget (rm_runs m) i = Some a \<longleftrightarrow> a < length (rm_heap m) \<and> tr_runID (tool_at m a) = i \<and> tr_phase (tool_at m a) \<in> {Registered, Running}"
proof -
  have "tools_ok m" by (rule tools.reach_inv[OF _ tools_ok_init assms]) simp
  then show ?thesis by (rule tools_registered)
qed

definition demo_node :: node_env where
  "demo_node = \<lparr> ne_environ = [''PATH=/bin''], ne_home = Some ''/home/n'' \<rparr>"

definition demo_tool_request :: "64 word \<Rightarrow> NodeToolRunRequest" where
  "demo_tool_request rev_no = \<lparr> rq_run_id = ''frpc-1'', rq_binary_path = ''/opt/frpc'', rq_args = [''-c'', ''f.toml''], rq_cwd = [], rq_env = [],
     rq_max_event_bytes = 0, rq_revision = rev_no \<rparr>"

definition demo_start :: "64 word \<Rightarrow> int \<Rightarrow> tool_event list" where
  "demo_start rev_no pid = [RSpawn demo_node (demo_tool_request rev_no) (Pid pid), RRegister, RAnnounce]"

lemma demo_start_runs: "\<exists>m. exec fresh_rstep NewToolRunManager (demo_start 1 100) = Some m \<and> ar_pid (hd (ActiveRuns m)) = 100 \<and> length (ActiveRuns m) = 1"
  by (rule exec_caseD) code_simp

theorem tool_registry_exact_witness:
  "\<exists>m. exec fresh_rstep NewToolRunManager (demo_start 1 100) = Some m \<and> length (ActiveRuns m) = 1
     \<and> (mget (rm_runs m) ''frpc-1'' = Some 0 \<longleftrightarrow> 0 < length (rm_heap m) \<and> tr_runID (tool_at m 0) = ''frpc-1'' \<and> tr_phase (tool_at m 0) \<in> {Registered, Running})"
proof -
  obtain m where m: "exec fresh_rstep NewToolRunManager (demo_start 1 100) = Some m" "length (ActiveRuns m) = 1" using demo_start_runs by blast
  then have "reach fresh_rstep NewToolRunManager m" by (auto simp: reach_iff_exec)
  from tool_registry_exact[OF this] m show ?thesis by blast
qed

text \<open> \<^bold>\<open>C9\<close>. Whatever the interleaving, the events of one run are a single start event with its id, revision and process id, then output
  chunks of at most the negotiated size, then, once it is over, a single exit event that carries its revision, and nothing after it.\<close>

theorem tool_run_protocol:
  assumes "reach rstep NewToolRunManager m" "a < length (rm_heap m)"
  shows "protocol (tool_at m a) (run_log m a)"
proof -
  have "logs_ok m"
    by (rule logs.reach_inv[OF _ _ assms(1)]) (simp_all add: logs_ok_def NewToolRunManager_def run_log_def)
  with assms(2) show ?thesis by (simp add: logs_ok_def)
qed

definition demo_full :: "tool_event list" where
  "demo_full = demo_start 7 100 @ [RChunk 0 STDOUT ''up'', REof 0 STDERR, REof 0 STDOUT, RWait 0 (WaitExitError 3), RExit 0]"

theorem tool_run_protocol_witness:
  "\<exists>m. exec rstep NewToolRunManager demo_full = Some m \<and> map ev_kind (run_log m 0) = [STARTED, STDOUT, EXITED]
     \<and> protocol (tool_at m 0) (run_log m 0)"
proof -
  have "\<exists>m. exec rstep NewToolRunManager demo_full = Some m \<and> length (rm_heap m) = 1 \<and> map ev_kind (run_log m 0) = [STARTED, STDOUT, EXITED]"
    by (rule exec_caseD) code_simp
  then obtain m where m: "exec rstep NewToolRunManager demo_full = Some m" "length (rm_heap m) = 1"
      "map ev_kind (run_log m 0) = [STARTED, STDOUT, EXITED]" by (elim exE conjE)
  from m(1) have "reach rstep NewToolRunManager m" by (auto simp: reach_iff_exec)
  moreover have "0 < length (rm_heap m)" using m(2) by simp
  ultimately have "protocol (tool_at m 0) (run_log m 0)" by (rule tool_run_protocol)
  with m(1,3) show ?thesis by (intro exI[of _ m] conjI)
qed

text \<open>
  \<^bold>\<open>C37\<close>. A run that was started under the id of an earlier one loses its registration when the earlier one is
  waited for: the heartbeat reports it before and no longer afterwards, and no stop request reaches it, for as
  long as it lives and no run is started under the id again.
\<close>

theorem restarted_tool_unstoppable:
  assumes "reach rstep NewToolRunManager m" "mget (rm_runs m) i = Some b" "untouched (tool_at m b)"
    "a \<noteq> b" "tr_runID (tool_at m a) = i" "\<And>c. rm_starting m = Some c \<Longrightarrow> tr_runID (tool_at m c) \<noteq> i"
    "rstep m (RWait a res) = Some m1" "\<forall>e \<in> set es. no_restart b i e" "exec rstep m1 es = Some m'"
  shows "i \<in> ar_run_id ` set (ActiveRuns m) \<and> untouched (tool_at m' b) \<and> i \<notin> ar_run_id ` set (ActiveRuns m')"
proof -
  have "keyed_runs NewToolRunManager" by (simp add: keyed_runs_def keyed_def NewToolRunManager_def)
  then have k: "keyed_runs m" using keys.reach_inv[OF _ _ assms(1)] by simp
  have l: "lost b i m'" by (rule lost_run.exec_inv[OF wait_loses[OF k assms(2-7)] assms(8,9)])
  then have "i \<notin> fst ` set (rm_runs m')" by (simp add: lost_def map_of_eq_None_iff)
  moreover have "i \<in> fst ` set (rm_runs m)" using assms(2) by (metis map_of_eq_None_iff option.distinct(1))
  ultimately show ?thesis using lost_untouched[OF l] by (force simp: ActiveRuns_def)
qed

definition demo_duplicate :: "tool_event list" where
  "demo_duplicate = demo_start 1 100 @ demo_start 2 101 @ [REof 0 STDOUT, REof 0 STDERR]"

theorem restarted_tool_unstoppable_witness:
  "\<exists>m m'. exec rstep NewToolRunManager demo_duplicate = Some m \<and>
    exec rstep m [RWait 0 WaitCanceled, RStop ''frpc-1'' 0] = Some m' \<and>
    ''frpc-1'' \<in> ar_run_id ` set (ActiveRuns m) \<and> untouched (tool_at m' 1) \<and> ''frpc-1'' \<notin> ar_run_id ` set (ActiveRuns m')"
proof -
  have "\<exists>m. exec rstep NewToolRunManager demo_duplicate = Some m \<and> mget (rm_runs m) ''frpc-1'' = Some 1
      \<and> untouched (tool_at m 1) \<and> tr_runID (tool_at m 0) = ''frpc-1'' \<and> rm_starting m = None
      \<and> rstep m (RWait 0 WaitCanceled) \<noteq> None \<and> exec rstep m [RWait 0 WaitCanceled, RStop ''frpc-1'' 0] \<noteq> None"
    by (rule exec_caseD) code_simp
  then obtain m m1 m' where m: "exec rstep NewToolRunManager demo_duplicate = Some m" "mget (rm_runs m) ''frpc-1'' = Some 1"
      "untouched (tool_at m 1)" "tr_runID (tool_at m 0) = ''frpc-1''" "rm_starting m = None"
      "rstep m (RWait 0 WaitCanceled) = Some m1" "exec rstep m [RWait 0 WaitCanceled, RStop ''frpc-1'' 0] = Some m'"
    by (elim exE conjE) auto
  have "reach rstep NewToolRunManager m" using m(1) by (auto simp: reach_iff_exec)
  moreover have "exec rstep m1 [RStop ''frpc-1'' 0] = Some m'" using m(6,7) by (simp del: rstep.simps)
  ultimately have "''frpc-1'' \<in> ar_run_id ` set (ActiveRuns m) \<and> untouched (tool_at m' 1) \<and> ''frpc-1'' \<notin> ar_run_id ` set (ActiveRuns m')"
    using restarted_tool_unstoppable[OF _ m(2,3) _ m(4) _ m(6), of "[RStop ''frpc-1'' 0]" m'] m(5) by simp
  with m(1,7) show ?thesis by (intro exI[of _ m] exI[of _ m'] conjI) simp_all
qed

end
