(* ===== verification/Ios_Devices.thy ===== *)
theory Ios_Devices
  imports Wda_Jobs
begin

text \<open>
  The device state of an iOS host: \<^verbatim>\<open>common/ioshost/manager.go\<close>, and the device list of \<^verbatim>\<open>config.go\<close>.

  Devices are never dropped from the manager's map, so a device is its entry.  A section under the manager's lock is one step; a call of a
  cancel function, which happens outside it, is a step of its own.  Connection loops are numbered.  Pairing, the USB stack, the connection loops
  and the clock are inputs of the steps.  Times are seconds.
\<close>

section \<open>Data\<close>

datatype IosConnectionType = CONNECTION_UNSPECIFIED | CONNECTION_USB | CONNECTION_NETWORK

datatype IosWdaState = WDA_UNSPECIFIED | WDA_MISSING | WDA_PREPARING | WDA_INSTALLED | WDA_READY | WDA_RENEWAL_DUE | WDA_EXPIRED | WDA_FAILED

datatype IosRunnerControlAction = RUNNER_UNSPECIFIED | RUNNER_START | RUNNER_STOP | RUNNER_RESTART

record DeviceConfig =
  dc_Name :: string
  dc_UDID :: string
  dc_Transport :: string
  dc_WDABundle :: string
  dc_XCTest :: string
  dc_WDAPort :: int
  dc_CredentialPath :: string

record EnumeratedDevice =
  ed_UDID :: string
  ed_ConnectionType :: string

record DeviceInfo =
  di_Name :: string
  di_Model :: string
  di_ProductVersion :: string

record managedDevice =
  md_udid :: string
  md_name :: string
  md_model :: string
  md_productVersion :: string
  md_connectionType :: IosConnectionType
  md_present :: bool
  md_lanOn :: bool
  md_claimed :: bool
  md_claiming :: bool
  md_deviceID :: string
  md_credentialPath :: string
  md_configRevision :: int
  md_transport :: string
  md_wdaBundle :: string
  md_xctest :: string
  md_hostWDAPort :: int
  md_deviceControlOn :: bool
  md_wdaState :: IosWdaState
  md_profileExpiresAt :: string
  md_wdaProgress :: int
  md_wdaStage :: string
  md_renewBeforeDays :: int
  md_lastError :: string
  md_userStopped :: bool
  md_cancel :: "nat option"

definition no_device :: "string \<Rightarrow> managedDevice" where
  "no_device u = \<lparr> md_udid = u, md_name = [], md_model = [], md_productVersion = [], md_connectionType = CONNECTION_UNSPECIFIED, md_present = False, md_lanOn = False,
     md_claimed = False, md_claiming = False, md_deviceID = [], md_credentialPath = [], md_configRevision = 0, md_transport = [], md_wdaBundle = [], md_xctest = [],
     md_hostWDAPort = 0, md_deviceControlOn = False, md_wdaState = WDA_UNSPECIFIED, md_profileExpiresAt = [], md_wdaProgress = 0, md_wdaStage = [],
     md_renewBeforeDays = 0, md_lastError = [], md_userStopped = False, md_cancel = None \<rparr>"

text \<open>A connection loop with the configuration it was started with.\<close>

record device_loop =
  dl_udid :: string
  dl_credentialPath :: string
  dl_transport :: string
  dl_wdaBundle :: string
  dl_xctest :: string
  dl_port :: int
  dl_cancelled :: bool
  dl_running :: bool

record NodeIosDevice =
  nd_udid :: string
  nd_name :: string
  nd_model :: string
  nd_product_version :: string
  nd_connection_type :: IosConnectionType
  nd_present :: bool
  nd_claimed :: bool
  nd_device_id :: string
  nd_device_control_online :: bool
  nd_wda_state :: IosWdaState
  nd_wda_bundle_id :: string
  nd_profile_expires_at :: string
  nd_last_error :: string
  nd_config_revision_applied :: int
  nd_wda_progress :: int
  nd_wda_stage :: string

record NodeIosDevicesReport =
  rp_snapshot_revision :: int
  rp_enumerate_error :: string
  rp_devices :: "NodeIosDevice list"

record NodeIosClaimDevice =
  cl_udid :: string
  cl_pairing_code :: string
  cl_server_url :: string
  cl_device_label :: string
  cl_transport :: string
  cl_wda_bundle_id :: string
  cl_xctest_config_name :: string
  cl_config_revision :: int

record NodeIosConfigureDevice =
  cf_device_id :: string
  cf_udid :: string
  cf_config_revision :: int
  cf_transport :: string
  cf_wda_bundle_id :: string
  cf_xctest_config_name :: string
  cf_host_wda_port :: int
  cf_renew_before_days :: int

record DeviceManager =
  dm_devices :: "(string, managedDevice) gomap"
  dm_snapshotRev :: int
  dm_enumerateError :: string
  dm_stopped :: bool
  dm_loops :: "device_loop list"
  dm_cancelling :: "nat list"
  dm_claims :: "(string \<times> string \<times> NodeIosClaimDevice) list"
  dm_restarts :: "(string \<times> string) list"
  dm_reconfigures :: "string list"
  dm_saved :: "DeviceConfig list option"
  dm_deleted :: "string list"
  dm_reports :: "NodeIosDevicesReport list"

section \<open>Device list on disk\<close>

definition matches_device :: "DeviceConfig \<Rightarrow> DeviceConfig \<Rightarrow> bool" where
  "matches_device dev existing \<longleftrightarrow> dc_UDID dev \<noteq> [] \<and> dc_UDID existing = dc_UDID dev
     \<or> dc_UDID dev = [] \<and> dc_Name dev \<noteq> [] \<and> dc_Name existing = dc_Name dev"

fun Upsert :: "DeviceConfig \<Rightarrow> DeviceConfig list \<Rightarrow> DeviceConfig list" where
  "Upsert dev [] = [dev]"
| "Upsert dev (e # es) = (if matches_device dev e then dev # es else e # Upsert dev es)"

definition DefaultCredentialPath :: "string \<Rightarrow> string \<Rightarrow> string" where
  "DefaultCredentialPath configPath deviceName = path_join [path_dir configPath, ''credentials'', sanitizeFileName deviceName @ ''.json'']"

definition defaultRunnerBundle :: "string \<Rightarrow> string" where
  "defaultRunnerBundle v = (if trim_space v \<noteq> [] then trim_space v else ''com.deviceboxhq.goios.devicekit.runner'')"

definition defaultRunnerXctest :: "string \<Rightarrow> string" where
  "defaultRunnerXctest v = (if trim_space v \<noteq> [] then trim_space v else ''devicekit-iosUITests.xctest'')"

definition adopted_device :: "DeviceConfig \<Rightarrow> managedDevice" where
  "adopted_device d = (no_device (dc_UDID d))\<lparr> md_name := dc_Name d, md_transport := dc_Transport d, md_wdaBundle := defaultRunnerBundle (dc_WDABundle d),
     md_xctest := defaultRunnerXctest (dc_XCTest d), md_hostWDAPort := dc_WDAPort d, md_credentialPath := dc_CredentialPath d,
     md_claimed := (dc_CredentialPath d \<noteq> []) \<rparr>"

definition adoptConfiguredDevices :: "DeviceConfig list option \<Rightarrow> (string, managedDevice) gomap" where
  "adoptConfiguredDevices cfg = (case cfg of
      None \<Rightarrow> []
    | Some ds \<Rightarrow> fold (\<lambda>d m. if trim_space (dc_UDID d) = [] then m else mput (dc_UDID d) (adopted_device d) m) ds [])"

definition NewDeviceManager :: "DeviceConfig list option \<Rightarrow> DeviceManager" where
  "NewDeviceManager cfg = \<lparr> dm_devices = adoptConfiguredDevices cfg, dm_snapshotRev = 0, dm_enumerateError = [], dm_stopped = False, dm_loops = [],
     dm_cancelling = [], dm_claims = [], dm_restarts = [], dm_reconfigures = [], dm_saved = cfg, dm_deleted = [], dm_reports = [] \<rparr>"

section \<open>Reports\<close>

definition toProto :: "managedDevice \<Rightarrow> NodeIosDevice" where
  "toProto d = \<lparr> nd_udid = md_udid d, nd_name = md_name d, nd_model = md_model d, nd_product_version = md_productVersion d,
     nd_connection_type = (if md_lanOn d \<and> \<not> md_present d then CONNECTION_NETWORK else md_connectionType d), nd_present = (md_present d \<or> md_lanOn d),
     nd_claimed = md_claimed d, nd_device_id = md_deviceID d, nd_device_control_online = md_deviceControlOn d, nd_wda_state = md_wdaState d,
     nd_wda_bundle_id = md_wdaBundle d, nd_profile_expires_at = md_profileExpiresAt d, nd_last_error = md_lastError d,
     nd_config_revision_applied = md_configRevision d, nd_wda_progress = md_wdaProgress d, nd_wda_stage = md_wdaStage d \<rparr>"

fun insert_device :: "managedDevice \<Rightarrow> managedDevice list \<Rightarrow> managedDevice list" where
  "insert_device d [] = [d]"
| "insert_device d (e # es) = (if ord.lexordp (\<lambda>x y. (of_char x :: nat) < of_char y) (md_udid d) (md_udid e) then d # e # es else e # insert_device d es)"

definition sortedDevices :: "(string, managedDevice) gomap \<Rightarrow> managedDevice list" where
  "sortedDevices ds = foldr insert_device (map snd ds) []"

definition snapshotLocked :: "DeviceManager \<Rightarrow> NodeIosDevicesReport" where
  "snapshotLocked m = \<lparr> rp_snapshot_revision = dm_snapshotRev m, rp_enumerate_error = dm_enumerateError m, rp_devices = map toProto (sortedDevices (dm_devices m)) \<rparr>"

definition markDirtyLocked :: "DeviceManager \<Rightarrow> DeviceManager" where
  "markDirtyLocked m = m\<lparr> dm_snapshotRev := dm_snapshotRev m + 1 \<rparr>"

definition reportLocked :: "DeviceManager \<Rightarrow> DeviceManager" where
  "reportLocked m = m\<lparr> dm_reports := dm_reports m @ [snapshotLocked m] \<rparr>"

definition changed :: "DeviceManager \<Rightarrow> DeviceManager" where
  "changed m = reportLocked (markDirtyLocked m)"

section \<open>Devices and loops\<close>

definition device :: "DeviceManager \<Rightarrow> string \<Rightarrow> managedDevice option" where
  "device m u = mget (dm_devices m) u"

definition upd_device :: "string \<Rightarrow> (managedDevice \<Rightarrow> managedDevice) \<Rightarrow> DeviceManager \<Rightarrow> DeviceManager" where
  "upd_device u f m = (case mget (dm_devices m) u of None \<Rightarrow> m | Some d \<Rightarrow> m\<lparr> dm_devices := mput u (f d) (dm_devices m) \<rparr>)"

definition findLocked :: "string \<Rightarrow> string \<Rightarrow> DeviceManager \<Rightarrow> string option" where
  "findLocked deviceID udid m =
    (let i = trim_space deviceID; u = trim_space udid;
         byID = (if i = [] then [] else filter (\<lambda>(k, d). md_deviceID d = i) (dm_devices m))
     in case byID of
          (k, d) # _ \<Rightarrow> Some k
        | [] \<Rightarrow> if u \<noteq> [] \<and> mget (dm_devices m) u \<noteq> None then Some u else None)"

definition describeTarget :: "string \<Rightarrow> string \<Rightarrow> string" where
  "describeTarget deviceID udid = (if trim_space deviceID \<noteq> [] then ''device_id='' @ deviceID else ''udid='' @ udid)"

definition loop_of :: "managedDevice \<Rightarrow> device_loop" where
  "loop_of d = \<lparr> dl_udid = md_udid d, dl_credentialPath = md_credentialPath d, dl_transport = md_transport d, dl_wdaBundle = md_wdaBundle d,
     dl_xctest = md_xctest d, dl_port = md_hostWDAPort d, dl_cancelled = False, dl_running = True \<rparr>"

definition startDeviceLocked :: "string \<Rightarrow> DeviceManager \<Rightarrow> DeviceManager" where
  "startDeviceLocked u m = (case device m u of
      None \<Rightarrow> m
    | Some d \<Rightarrow>
        if md_cancel d \<noteq> None \<or> dm_stopped m then m
        else (upd_device u (\<lambda>d. d\<lparr> md_cancel := Some (length (dm_loops m)) \<rparr>) m)\<lparr> dm_loops := dm_loops m @ [loop_of d] \<rparr>)"

definition cancel_later :: "nat option \<Rightarrow> DeviceManager \<Rightarrow> DeviceManager" where
  "cancel_later c m = (case c of None \<Rightarrow> m | Some l \<Rightarrow> m\<lparr> dm_cancelling := dm_cancelling m @ [l] \<rparr>)"

definition cancel_loop :: "nat \<Rightarrow> DeviceManager \<Rightarrow> DeviceManager" where
  "cancel_loop l m = m\<lparr> dm_loops := (dm_loops m)[l := (dm_loops m ! l)\<lparr> dl_cancelled := True \<rparr>], dm_cancelling := remove1 l (dm_cancelling m) \<rparr>"

text \<open>The end of a loop's goroutine: \<open>err\<close> is what the loop returned, \<open>ctx\<close> whether its context had ended.\<close>

definition loop_end :: "nat \<Rightarrow> string option \<Rightarrow> bool \<Rightarrow> DeviceManager \<Rightarrow> DeviceManager" where
  "loop_end l err ctx m =
    (let u = dl_udid (dm_loops m ! l);
         m = m\<lparr> dm_loops := (dm_loops m)[l := (dm_loops m ! l)\<lparr> dl_running := False \<rparr>] \<rparr>
     in changed (upd_device u (\<lambda>d. let d = d\<lparr> md_deviceControlOn := False \<rparr> in
          case err of None \<Rightarrow> d | Some e \<Rightarrow> if ctx then d else d\<lparr> md_lastError := e \<rparr>) m))"

definition state_update :: "bool \<Rightarrow> managedDevice \<Rightarrow> managedDevice" where
  "state_update online d =
    (let d = d\<lparr> md_deviceControlOn := online \<rparr> in
     if online \<and> md_wdaState d \<noteq> WDA_PREPARING then d\<lparr> md_wdaState := WDA_READY, md_lastError := [] \<rparr>
     else if \<not> online \<and> md_wdaState d = WDA_READY then d\<lparr> md_wdaState := WDA_INSTALLED \<rparr> else d)"

definition onDeviceState :: "string \<Rightarrow> bool \<Rightarrow> DeviceManager \<Rightarrow> DeviceManager" where
  "onDeviceState u online m = (case device m u of
      None \<Rightarrow> m
    | Some d \<Rightarrow> if online \<noteq> md_deviceControlOn d then changed (upd_device u (state_update online) m) else m)"

definition onDeviceWipe :: "string \<Rightarrow> DeviceManager \<Rightarrow> DeviceManager" where
  "onDeviceWipe u m = changed (upd_device u (\<lambda>d. d\<lparr> md_claimed := False, md_deviceID := [], md_deviceControlOn := False,
     md_lastError := ''credential wiped by server; re-claim required'' \<rparr>) m)"

definition persistLocked :: "string \<Rightarrow> DeviceManager \<Rightarrow> DeviceManager" where
  "persistLocked u m = (case (device m u, dm_saved m) of
      (Some d, Some cfg) \<Rightarrow> m\<lparr> dm_saved := Some (Upsert \<lparr> dc_Name = first_non_empty [md_name d, md_udid d], dc_UDID = md_udid d, dc_Transport = md_transport d,
        dc_WDABundle = md_wdaBundle d, dc_XCTest = md_xctest d, dc_WDAPort = md_hostWDAPort d, dc_CredentialPath = md_credentialPath d \<rparr> cfg) \<rparr>
    | _ \<Rightarrow> m)"

definition removeFromConfigLocked :: "string \<Rightarrow> DeviceManager \<Rightarrow> DeviceManager" where
  "removeFromConfigLocked u m = m\<lparr> dm_saved := map_option (filter (\<lambda>d. dc_UDID d \<noteq> u)) (dm_saved m) \<rparr>"

section \<open>Server frames\<close>

definition StartClaimedDevices :: "DeviceManager \<Rightarrow> DeviceManager" where
  "StartClaimedDevices m = fold (\<lambda>(u, d). if md_claimed d \<and> md_credentialPath d \<noteq> [] then startDeviceLocked u else id) (dm_devices m) m"

definition Stop_manager :: "DeviceManager \<Rightarrow> DeviceManager" where
  "Stop_manager m = m\<lparr> dm_stopped := True, dm_cancelling := dm_cancelling m @ concat (map (\<lambda>(u, d). case md_cancel d of None \<Rightarrow> [] | Some l \<Rightarrow> [l]) (dm_devices m)) \<rparr>"

text \<open>Claiming: the section that reserves the device, and the one after pairing.  A reserved claim is pending with the label it will use.\<close>

definition claim_begin :: "NodeIosClaimDevice \<Rightarrow> DeviceManager \<Rightarrow> string option \<times> DeviceManager" where
  "claim_begin req m =
    (let u = trim_space (cl_udid req) in
     if u = [] then (Some ''claim: udid is required'', m)
     else if trim_space (cl_pairing_code req) = [] \<or> trim_space (cl_server_url req) = [] then (Some ''claim: pairing_code and server_url are required'', m)
     else case device m u of
         None \<Rightarrow> (Some (''claim: udid '' @ u @ '' is not in this host's inventory''), m)
       | Some d \<Rightarrow>
           if md_claimed d then (Some (''claim: udid '' @ u @ '' is already claimed''), m)
           else if md_claiming d then (Some (''claim: udid '' @ u @ '' is already being claimed''), m)
           else
             let name = (if trim_space (cl_device_label req) = [] then first_non_empty [md_name d, u] else trim_space (cl_device_label req))
             in (None, (upd_device u (\<lambda>d. d\<lparr> md_claiming := True \<rparr>) m)\<lparr> dm_claims := dm_claims m @ [(u, name, req)] \<rparr>))"

definition or_keep :: "string \<Rightarrow> string \<Rightarrow> string" where
  "or_keep new old = (if trim_space new \<noteq> [] then trim_space new else old)"

definition claimed_device :: "NodeIosClaimDevice \<Rightarrow> string \<Rightarrow> string \<Rightarrow> string \<Rightarrow> managedDevice \<Rightarrow> managedDevice" where
  "claimed_device req name credPath deviceID d = d\<lparr> md_claiming := False, md_claimed := True, md_deviceID := deviceID, md_credentialPath := credPath, md_name := name,
     md_lastError := [], md_transport := or_keep (cl_transport req) (md_transport d), md_wdaBundle := or_keep (cl_wda_bundle_id req) (md_wdaBundle d),
     md_xctest := or_keep (cl_xctest_config_name req) (md_xctest d), md_configRevision := cl_config_revision req \<rparr>"

definition claim_end :: "string \<Rightarrow> string \<times> string \<times> NodeIosClaimDevice \<Rightarrow> string + string \<Rightarrow> DeviceManager \<Rightarrow> DeviceManager" where
  "claim_end configPath c res m =
    (let (u, name, req) = c; m = m\<lparr> dm_claims := remove1 c (dm_claims m) \<rparr>
     in case res of
          Inl err \<Rightarrow> changed (upd_device u (\<lambda>d. d\<lparr> md_claiming := False, md_lastError := ''pairing failed: '' @ err \<rparr>) m)
        | Inr deviceID \<Rightarrow>
            changed (startDeviceLocked u (persistLocked u (upd_device u (claimed_device req name (DefaultCredentialPath configPath name) deviceID) m))))"

definition control_start :: "string \<Rightarrow> DeviceManager \<Rightarrow> DeviceManager" where
  "control_start u m = (case device m u of
      None \<Rightarrow> m
    | Some d \<Rightarrow> if md_cancel d = None \<and> \<not> dm_stopped m then changed (startDeviceLocked u (upd_device u (\<lambda>d. d\<lparr> md_userStopped := False \<rparr>) m)) else m)"

definition control_stop :: "bool \<Rightarrow> string \<Rightarrow> DeviceManager \<Rightarrow> DeviceManager" where
  "control_stop stop u m = (case device m u of
      None \<Rightarrow> m
    | Some d \<Rightarrow> cancel_later (md_cancel d) (changed (upd_device u (\<lambda>d. d\<lparr> md_cancel := None, md_userStopped := stop, md_deviceControlOn := False \<rparr>) m)))"

definition ControlRunner :: "string \<Rightarrow> string \<Rightarrow> IosRunnerControlAction \<Rightarrow> DeviceManager \<Rightarrow> string option \<times> DeviceManager" where
  "ControlRunner deviceID udid action m =
    (let i = trim_space deviceID; u = trim_space udid
     in case findLocked i u m of
          None \<Rightarrow> (Some (''runner control: device '' @ describeTarget i u @ '' not found on this host''), m)
        | Some k \<Rightarrow> (case device m k of
            None \<Rightarrow> (None, m)
          | Some d \<Rightarrow>
              if md_credentialPath d = [] then (Some (''runner control: device '' @ md_udid d @ '' is not claimed (no credential on disk)''), m)
              else case action of
                  RUNNER_START \<Rightarrow> (None, control_start k m)
                | RUNNER_STOP \<Rightarrow> (None, control_stop True k m)
                | RUNNER_RESTART \<Rightarrow> (None, (control_stop False k m)\<lparr> dm_restarts := dm_restarts m @ [(i, u)] \<rparr>)
                | RUNNER_UNSPECIFIED \<Rightarrow> (Some ''runner control: unknown action 0'', m)))"

definition restart_end :: "string \<times> string \<Rightarrow> DeviceManager \<Rightarrow> DeviceManager" where
  "restart_end r m =
    (let m = m\<lparr> dm_restarts := remove1 r (dm_restarts m) \<rparr>
     in case findLocked (fst r) (snd r) m of
          None \<Rightarrow> m
        | Some k \<Rightarrow> (case device m k of
            None \<Rightarrow> m
          | Some d \<Rightarrow> if md_credentialPath d \<noteq> [] \<and> \<not> dm_stopped m then changed (startDeviceLocked k m) else m))"

definition Release :: "string \<Rightarrow> string \<Rightarrow> bool \<Rightarrow> DeviceManager \<Rightarrow> string option \<times> DeviceManager" where
  "Release deviceID udid delete m = (case findLocked deviceID udid m of
      None \<Rightarrow> (Some (''release: device '' @ describeTarget deviceID udid @ '' not found on this host''), m)
    | Some k \<Rightarrow> (case device m k of
        None \<Rightarrow> (None, m)
      | Some d \<Rightarrow>
          let m = upd_device k (\<lambda>d. d\<lparr> md_cancel := None, md_claimed := False, md_deviceID := [], md_deviceControlOn := False, md_wdaState := WDA_UNSPECIFIED,
                md_credentialPath := (if delete then [] else md_credentialPath d) \<rparr>) m;
              m = cancel_later (md_cancel d) (changed (removeFromConfigLocked k m))
          in (None, if delete \<and> md_credentialPath d \<noteq> [] then m\<lparr> dm_deleted := dm_deleted m @ [md_credentialPath d] \<rparr> else m)))"

definition or_changed :: "string \<Rightarrow> string \<Rightarrow> bool" where
  "or_changed new old \<longleftrightarrow> trim_space new \<noteq> [] \<and> trim_space new \<noteq> old"

definition configured_device :: "NodeIosConfigureDevice \<Rightarrow> managedDevice \<Rightarrow> managedDevice" where
  "configured_device req d = d\<lparr> md_transport := or_keep (cf_transport req) (md_transport d), md_wdaBundle := or_keep (cf_wda_bundle_id req) (md_wdaBundle d),
     md_xctest := or_keep (cf_xctest_config_name req) (md_xctest d), md_hostWDAPort := cf_host_wda_port req,
     md_renewBeforeDays := (if cf_renew_before_days req > 0 then cf_renew_before_days req else if md_renewBeforeDays d \<le> 0 then 14 else md_renewBeforeDays d),
     md_configRevision := cf_config_revision req \<rparr>"

definition restart_needed :: "NodeIosConfigureDevice \<Rightarrow> managedDevice \<Rightarrow> bool" where
  "restart_needed req d \<longleftrightarrow> or_changed (cf_transport req) (md_transport d) \<or> or_changed (cf_wda_bundle_id req) (md_wdaBundle d)
     \<or> or_changed (cf_xctest_config_name req) (md_xctest d) \<or> cf_host_wda_port req \<noteq> md_hostWDAPort d"

definition ConfigureDevice :: "NodeIosConfigureDevice \<Rightarrow> DeviceManager \<Rightarrow> (string + int) \<times> DeviceManager" where
  "ConfigureDevice req m = (case findLocked (cf_device_id req) (cf_udid req) m of
      None \<Rightarrow> (Inl (''configure: device '' @ describeTarget (cf_device_id req) (cf_udid req) @ '' not found on this host''), m)
    | Some k \<Rightarrow> (case device m k of
        None \<Rightarrow> (Inr 0, m)
      | Some d \<Rightarrow>
          if cf_config_revision req \<noteq> 0 \<and> cf_config_revision req \<le> md_configRevision d then (Inr (md_configRevision d), m)
          else
            let m = persistLocked k (upd_device k (configured_device req) m)
            in if restart_needed req d \<and> md_cancel d \<noteq> None
               then (Inr (cf_config_revision req),
                 (cancel_later (md_cancel d) (markDirtyLocked (upd_device k (\<lambda>d. d\<lparr> md_cancel := None \<rparr>) m)))\<lparr> dm_reconfigures := dm_reconfigures m @ [k] \<rparr>)
               else (Inr (cf_config_revision req), reportLocked (markDirtyLocked m))))"

definition reconfigure_end :: "string \<Rightarrow> DeviceManager \<Rightarrow> DeviceManager" where
  "reconfigure_end k m =
    (let m = m\<lparr> dm_reconfigures := remove1 k (dm_reconfigures m) \<rparr>
     in reportLocked (case device m k of
          None \<Rightarrow> m
        | Some d \<Rightarrow> if md_claimed d \<and> md_credentialPath d \<noteq> [] then startDeviceLocked k m else m))"

definition IsPresent :: "string \<Rightarrow> DeviceManager \<Rightarrow> bool" where
  "IsPresent udid m = (case device m (trim_space udid) of None \<Rightarrow> False | Some d \<Rightarrow> trim_space udid \<noteq> [] \<and> (md_present d \<or> md_lanOn d))"

section \<open>Discovery\<close>

definition toConnectionType :: "string \<Rightarrow> IosConnectionType" where
  "toConnectionType c = (if to_upper (trim_space c) = ''USB'' then CONNECTION_USB else if to_upper (trim_space c) = ''NETWORK'' then CONNECTION_NETWORK else CONNECTION_UNSPECIFIED)"

definition refreshed :: "EnumeratedDevice \<Rightarrow> DeviceInfo \<Rightarrow> managedDevice \<Rightarrow> managedDevice" where
  "refreshed e info d = d\<lparr> md_present := True, md_connectionType := toConnectionType (ed_ConnectionType e),
     md_name := (if di_Name info \<noteq> [] \<and> md_name d = [] then di_Name info else md_name d),
     md_model := (if di_Model info \<noteq> [] then di_Model info else md_model d),
     md_productVersion := (if di_ProductVersion info \<noteq> [] then di_ProductVersion info else md_productVersion d) \<rparr>"

definition upsertLocked :: "EnumeratedDevice \<Rightarrow> DeviceInfo \<Rightarrow> DeviceManager \<Rightarrow> bool \<times> DeviceManager" where
  "upsertLocked e info m =
    (let old = mget (dm_devices m) (ed_UDID e); d = (case old of None \<Rightarrow> no_device (ed_UDID e) | Some d \<Rightarrow> d); d' = refreshed e info d
     in (old = None \<or> d' \<noteq> d, m\<lparr> dm_devices := mput (ed_UDID e) d' (dm_devices m) \<rparr>))"

definition no_info :: DeviceInfo where
  "no_info = \<lparr> di_Name = [], di_Model = [], di_ProductVersion = [] \<rparr>"

text \<open>The clock: what a recorded expiry means, if it can be read, and the present.\<close>

record clock =
  ck_expiry :: "string \<Rightarrow> int option"
  ck_now :: int

definition expiry_state :: "clock \<Rightarrow> managedDevice \<Rightarrow> IosWdaState option" where
  "expiry_state ck d =
    (if md_wdaState d \<noteq> WDA_READY \<and> md_wdaState d \<noteq> WDA_INSTALLED \<and> md_wdaState d \<noteq> WDA_RENEWAL_DUE then None
     else case ck_expiry ck (trim_space (md_profileExpiresAt d)) of
         None \<Rightarrow> None
       | Some exp \<Rightarrow>
           let window = (if md_renewBeforeDays d > 0 then md_renewBeforeDays d else 14)
           in if ck_now ck > exp then Some WDA_EXPIRED
              else if ck_now ck + window * 86400 > exp then Some WDA_RENEWAL_DUE else None)"

definition refreshWdaExpiryLocked :: "clock \<Rightarrow> DeviceManager \<Rightarrow> bool \<times> DeviceManager" where
  "refreshWdaExpiryLocked ck m =
    (list_ex (\<lambda>(u, d). expiry_state ck d \<noteq> None) (dm_devices m),
     m\<lparr> dm_devices := map (\<lambda>(u, d). (u, case expiry_state ck d of None \<Rightarrow> d | Some s \<Rightarrow> d\<lparr> md_wdaState := s \<rparr>)) (dm_devices m) \<rparr>)"

text \<open>What the lookups before the lock found for a device that may be listed more than once.\<close>

definition info_for :: "(EnumeratedDevice \<times> DeviceInfo option) list \<Rightarrow> string \<Rightarrow> DeviceInfo" where
  "info_for es u = fold (\<lambda>(e, info) acc. if ed_UDID e = u then (case info of None \<Rightarrow> acc | Some i \<Rightarrow> i) else acc) es no_info"

definition upsert_all :: "(EnumeratedDevice \<times> DeviceInfo option) list \<Rightarrow> bool \<times> DeviceManager \<Rightarrow> bool \<times> DeviceManager" where
  "upsert_all es = fold (\<lambda>(e, info) (c, m). let (c', m') = upsertLocked e (info_for es (ed_UDID e)) m in (c \<or> c', m')) es"

definition unseen :: "(EnumeratedDevice \<times> DeviceInfo option) list \<Rightarrow> string \<Rightarrow> managedDevice \<Rightarrow> bool" where
  "unseen es u d \<longleftrightarrow> u \<notin> set (map (ed_UDID \<circ> fst) es) \<and> md_present d"

definition drop_unseen :: "(EnumeratedDevice \<times> DeviceInfo option) list \<Rightarrow> bool \<times> DeviceManager \<Rightarrow> bool \<times> DeviceManager" where
  "drop_unseen es = (\<lambda>(c, m). (c \<or> list_ex (\<lambda>(u, d). unseen es u d) (dm_devices m),
     m\<lparr> dm_devices := map (\<lambda>(u, d). (u, if unseen es u d then d\<lparr> md_present := False \<rparr> else d)) (dm_devices m) \<rparr>))"

definition apply_list :: "clock \<Rightarrow> (EnumeratedDevice \<times> DeviceInfo option) list \<Rightarrow> DeviceManager \<Rightarrow> DeviceManager" where
  "apply_list ck es m =
    (let (c, m) = drop_unseen es (upsert_all es (False, m));
         (c, m) = (if dm_enumerateError m \<noteq> [] then (True, m\<lparr> dm_enumerateError := [] \<rparr>) else (c, m));
         (c', m) = refreshWdaExpiryLocked ck m
     in if c \<or> c' then changed m else m)"

definition probe_targets :: "DeviceManager \<Rightarrow> string list" where
  "probe_targets m = map fst (filter (\<lambda>(u, d). md_wdaState d = WDA_INSTALLED \<and> \<not> md_userStopped d \<and> md_present d \<and> md_claimed d \<and> md_credentialPath d \<noteq> []
     \<and> \<not> md_deviceControlOn d) (dm_devices m))"

definition probeControl :: "DeviceManager \<Rightarrow> DeviceManager" where
  "probeControl m = fold (\<lambda>u m. snd (ControlRunner [] u RUNNER_START m)) (probe_targets m) m"

definition applySnapshot :: "clock \<Rightarrow> (EnumeratedDevice \<times> DeviceInfo option) list \<Rightarrow> DeviceManager \<Rightarrow> DeviceManager" where
  "applySnapshot ck es m = probeControl (apply_list ck es m)"

definition Rescan_error :: "string \<Rightarrow> DeviceManager \<Rightarrow> DeviceManager" where
  "Rescan_error err m = reportLocked (if dm_enumerateError m \<noteq> err then markDirtyLocked (m\<lparr> dm_enumerateError := err \<rparr>) else m)"

text \<open>The section of a rescan under the lock; the probes follow it.\<close>

definition rescan_list :: "clock \<Rightarrow> string + (EnumeratedDevice \<times> DeviceInfo option) list \<Rightarrow> DeviceManager \<Rightarrow> DeviceManager" where
  "rescan_list ck res m = (case res of Inl err \<Rightarrow> Rescan_error err m | Inr es \<Rightarrow> apply_list ck es m)"

definition Rescan :: "clock \<Rightarrow> string + (EnumeratedDevice \<times> DeviceInfo option) list \<Rightarrow> DeviceManager \<Rightarrow> DeviceManager" where
  "Rescan ck res m = (case res of
      Inl err \<Rightarrow> Rescan_error err m
    | Inr es \<Rightarrow> applySnapshot ck es m)"

definition detach :: "string \<Rightarrow> DeviceManager \<Rightarrow> DeviceManager" where
  "detach u m = (case device m u of
      None \<Rightarrow> m
    | Some d \<Rightarrow> if md_present d then changed (upd_device u (\<lambda>d. d\<lparr> md_present := False, md_deviceControlOn := False \<rparr>) m) else m)"

definition applyEvent :: "clock \<Rightarrow> string \<Rightarrow> bool \<Rightarrow> string + (EnumeratedDevice \<times> DeviceInfo option) list \<Rightarrow> DeviceManager \<Rightarrow> DeviceManager" where
  "applyEvent ck u attached res m =
    (if \<not> attached then detach u m else Rescan ck res (upd_device u (\<lambda>d. d\<lparr> md_userStopped := False \<rparr>) m))"

section \<open>Jobs and the local network\<close>

definition wdaStateKey :: "managedDevice \<Rightarrow> IosWdaState \<times> int \<times> string \<times> string \<times> string" where
  "wdaStateKey d = (md_wdaState d, md_wdaProgress d, md_wdaStage d, md_profileExpiresAt d, md_lastError d)"

definition noteWdaState :: "string \<Rightarrow> (managedDevice \<Rightarrow> managedDevice) \<Rightarrow> DeviceManager \<Rightarrow> DeviceManager" where
  "noteWdaState udid f m =
    (if trim_space udid = [] then m
     else case findLocked [] (trim_space udid) m of
         None \<Rightarrow> m
       | Some k \<Rightarrow> (case device m k of
           None \<Rightarrow> m
         | Some d \<Rightarrow> if wdaStateKey (f d) = wdaStateKey d then upd_device k f m else changed (upd_device k f m)))"

definition NoteWdaJobStarted :: "string \<Rightarrow> DeviceManager \<Rightarrow> DeviceManager" where
  "NoteWdaJobStarted u = noteWdaState u (\<lambda>d. d\<lparr> md_wdaState := WDA_PREPARING, md_wdaProgress := 0, md_wdaStage := ''queued'' \<rparr>)"

definition NoteWdaJobProgress :: "string \<Rightarrow> int \<Rightarrow> string \<Rightarrow> DeviceManager \<Rightarrow> DeviceManager" where
  "NoteWdaJobProgress u percent stage = noteWdaState u (\<lambda>d.
     if md_wdaState d \<noteq> WDA_PREPARING then d
     else d\<lparr> md_wdaProgress := max 0 (min 100 percent), md_wdaStage := (if trim_space stage \<noteq> [] then trim_space stage else md_wdaStage d) \<rparr>)"

definition set_reason :: "string \<Rightarrow> string \<Rightarrow> managedDevice \<Rightarrow> managedDevice" where
  "set_reason message code d =
    (if trim_space message \<noteq> [] then d\<lparr> md_lastError := trim_space message \<rparr>
     else if trim_space code \<noteq> [] then d\<lparr> md_lastError := trim_space code \<rparr> else d)"

definition result_update :: "device_report \<Rightarrow> managedDevice \<Rightarrow> managedDevice" where
  "result_update r d =
    (let d = d\<lparr> md_wdaProgress := 0, md_wdaStage := [] \<rparr> in
     if dr_cancelled r then (if md_wdaState d = WDA_PREPARING then d\<lparr> md_wdaState := WDA_MISSING \<rparr> else d)
     else if dr_ok r \<or> dr_installed r then
       let d = d\<lparr> md_wdaState := (if md_deviceControlOn d then WDA_READY else WDA_INSTALLED),
             md_profileExpiresAt := (if trim_space (dr_profile_expires_at r) \<noteq> [] then trim_space (dr_profile_expires_at r) else md_profileExpiresAt d) \<rparr>
       in if \<not> dr_ok r then set_reason (dr_message r) (dr_error_code r) d else d\<lparr> md_lastError := [] \<rparr>
     else set_reason (dr_message r) (dr_error_code r) (d\<lparr> md_wdaState := WDA_FAILED \<rparr>))"

definition NoteWdaJobResult :: "device_report \<Rightarrow> DeviceManager \<Rightarrow> DeviceManager" where
  "NoteWdaJobResult r = noteWdaState (dr_udid r) (result_update r)"

definition NoteLanReachable :: "string \<Rightarrow> bool \<Rightarrow> DeviceManager \<Rightarrow> DeviceManager" where
  "NoteLanReachable udid on m =
    (let u = trim_space udid in
     if u = [] then m
     else case device m u of
         None \<Rightarrow> m
       | Some d \<Rightarrow>
           if md_lanOn d = on then m
           else if \<not> on \<and> md_present d then upd_device u (\<lambda>d. d\<lparr> md_lanOn := on \<rparr>) m
           else changed (upd_device u (\<lambda>d. d\<lparr> md_lanOn := on, md_lastError := (if on then [] else md_lastError d) \<rparr>) m))"

definition NoteLanPairingPending :: "string \<Rightarrow> string \<Rightarrow> DeviceManager \<Rightarrow> DeviceManager" where
  "NoteLanPairingPending hint udid m =
    (let u = trim_space udid in
     if u = [] then m
     else case device m u of
         None \<Rightarrow> m
       | Some d \<Rightarrow> if md_lanOn d then m else changed (upd_device u (\<lambda>d. d\<lparr> md_lastError := hint \<rparr>) m))"

definition ClaimedUDIDs :: "DeviceManager \<Rightarrow> string list" where
  "ClaimedUDIDs m = map fst (filter (\<lambda>(u, d). md_claimed d \<and> trim_space (md_credentialPath d) \<noteq> []) (dm_devices m))"

section \<open>Interleavings\<close>

text \<open>
  \<open>DRescan\<close> and \<open>DAttach\<close> are whole rescans and device events.  Their first sections under the lock are
  also events of their own, \<open>DList\<close> and \<open>DPlugged\<close>, and each probe that follows is a \<open>DControl\<close>, so that
  other events may come in between.
\<close>

datatype dev_event =
    DClaim NodeIosClaimDevice
  | DClaimEnd string "string \<times> string \<times> NodeIosClaimDevice" "string + string"
  | DControl string string IosRunnerControlAction
  | DRestartEnd "string \<times> string"
  | DRelease string string bool
  | DConfigure NodeIosConfigureDevice
  | DReconfigureEnd string
  | DRescan clock "string + (EnumeratedDevice \<times> DeviceInfo option) list"
  | DAttach clock string bool "string + (EnumeratedDevice \<times> DeviceInfo option) list"
  | DList clock "string + (EnumeratedDevice \<times> DeviceInfo option) list"
  | DPlugged string
  | DCancel nat
  | DLoopEnd nat "string option" bool
  | DState nat bool
  | DWipe nat
  | DJobStarted string
  | DJobProgress string int string
  | DJobResult device_report
  | DLan string bool
  | DLanPending string string
  | DStartClaimed
  | DStop

definition loop_runs :: "DeviceManager \<Rightarrow> nat \<Rightarrow> bool" where
  "loop_runs m l \<longleftrightarrow> l < length (dm_loops m) \<and> dl_running (dm_loops m ! l)"

fun dstep :: "DeviceManager \<Rightarrow> dev_event \<Rightarrow> DeviceManager option" where
  "dstep m (DClaim req) = Some (snd (claim_begin req m))"
| "dstep m (DClaimEnd configPath c res) = (if c \<in> set (dm_claims m) then Some (claim_end configPath c res m) else None)"
| "dstep m (DControl i u action) = Some (snd (ControlRunner i u action m))"
| "dstep m (DRestartEnd r) = (if r \<in> set (dm_restarts m) then Some (restart_end r m) else None)"
| "dstep m (DRelease i u delete) = Some (snd (Release i u delete m))"
| "dstep m (DConfigure req) = Some (snd (ConfigureDevice req m))"
| "dstep m (DReconfigureEnd k) = (if k \<in> set (dm_reconfigures m) then Some (reconfigure_end k m) else None)"
| "dstep m (DRescan ck res) = Some (Rescan ck res m)"
| "dstep m (DAttach ck u attached res) = Some (applyEvent ck u attached res m)"
| "dstep m (DList ck res) = Some (rescan_list ck res m)"
| "dstep m (DPlugged u) = Some (upd_device u (\<lambda>d. d\<lparr> md_userStopped := False \<rparr>) m)"
| "dstep m (DCancel l) = (if l \<in> set (dm_cancelling m) then Some (cancel_loop l m) else None)"
| "dstep m (DLoopEnd l err ctx) = (if loop_runs m l then Some (loop_end l err ctx m) else None)"
| "dstep m (DState l online) = (if loop_runs m l then Some (onDeviceState (dl_udid (dm_loops m ! l)) online m) else None)"
| "dstep m (DWipe l) = (if loop_runs m l then Some (onDeviceWipe (dl_udid (dm_loops m ! l)) m) else None)"
| "dstep m (DJobStarted u) = Some (NoteWdaJobStarted u m)"
| "dstep m (DJobProgress u percent stage) = Some (NoteWdaJobProgress u percent stage m)"
| "dstep m (DJobResult r) = Some (NoteWdaJobResult r m)"
| "dstep m (DLan u on) = Some (NoteLanReachable u on m)"
| "dstep m (DLanPending hint u) = Some (NoteLanPairingPending hint u m)"
| "dstep m DStartClaimed = Some (StartClaimedDevices m)"
| "dstep m DStop = Some (Stop_manager m)"

section \<open>Loops\<close>

text \<open>A running loop that nobody has cancelled or is about to cancel is the one its device has a handle on.\<close>

definition loops_ok :: "DeviceManager \<Rightarrow> bool" where
  "loops_ok m \<longleftrightarrow> gomap_wf (dm_devices m)
     \<and> (\<forall>u d. device m u = Some d \<longrightarrow> md_udid d = u \<and> (\<forall>l. md_cancel d = Some l \<longrightarrow> l < length (dm_loops m) \<and> dl_udid (dm_loops m ! l) = u))
     \<and> (\<forall>l < length (dm_loops m). dl_running (dm_loops m ! l) \<and> \<not> dl_cancelled (dm_loops m ! l) \<and> l \<notin> set (dm_cancelling m)
          \<longrightarrow> (\<exists>d. device m (dl_udid (dm_loops m ! l)) = Some d \<and> md_cancel d = Some l))"

lemma loops_okD:
  assumes "loops_ok m"
  shows "gomap_wf (dm_devices m)" "\<And>u d. device m u = Some d \<Longrightarrow> md_udid d = u"
    "\<And>u d l. device m u = Some d \<Longrightarrow> md_cancel d = Some l \<Longrightarrow> l < length (dm_loops m) \<and> dl_udid (dm_loops m ! l) = u"
    "\<And>l. l < length (dm_loops m) \<Longrightarrow> dl_running (dm_loops m ! l) \<Longrightarrow> \<not> dl_cancelled (dm_loops m ! l) \<Longrightarrow> l \<notin> set (dm_cancelling m) \<Longrightarrow>
       \<exists>d. device m (dl_udid (dm_loops m ! l)) = Some d \<and> md_cancel d = Some l"
  using assms unfolding loops_ok_def by blast+

lemma loops_okI:
  assumes "gomap_wf (dm_devices m)" "\<And>u d. device m u = Some d \<Longrightarrow> md_udid d = u"
    "\<And>u d l. device m u = Some d \<Longrightarrow> md_cancel d = Some l \<Longrightarrow> l < length (dm_loops m) \<and> dl_udid (dm_loops m ! l) = u"
    "\<And>l. l < length (dm_loops m) \<Longrightarrow> dl_running (dm_loops m ! l) \<Longrightarrow> \<not> dl_cancelled (dm_loops m ! l) \<Longrightarrow> l \<notin> set (dm_cancelling m) \<Longrightarrow>
       \<exists>d. device m (dl_udid (dm_loops m ! l)) = Some d \<and> md_cancel d = Some l"
  shows "loops_ok m"
  unfolding loops_ok_def using assms by blast

text \<open>Changes of anything but devices, loops and pending cancellations.\<close>

definition same_core :: "DeviceManager \<Rightarrow> DeviceManager \<Rightarrow> bool" where
  "same_core m m' \<longleftrightarrow> dm_devices m' = dm_devices m \<and> dm_loops m' = dm_loops m \<and> dm_cancelling m' = dm_cancelling m"

lemma loops_ok_core: "loops_ok m \<Longrightarrow> same_core m m' \<Longrightarrow> loops_ok m'"
  unfolding loops_ok_def same_core_def device_def by simp

lemma same_core_simps [simp]: "same_core m (markDirtyLocked m)" "same_core m (reportLocked m)" "same_core m (changed m)" "same_core m (removeFromConfigLocked u m)"
  "same_core m (persistLocked u m)"
  by (simp_all add: same_core_def markDirtyLocked_def reportLocked_def changed_def removeFromConfigLocked_def persistLocked_def split: option.split)

lemma loops_ok_simps [simp]: "loops_ok (markDirtyLocked m) = loops_ok m" "loops_ok (reportLocked m) = loops_ok m" "loops_ok (changed m) = loops_ok m"
  "loops_ok (removeFromConfigLocked u m) = loops_ok m" "loops_ok (persistLocked u m) = loops_ok m" "loops_ok (m\<lparr> dm_claims := cs \<rparr>) = loops_ok m"
  "loops_ok (m\<lparr> dm_restarts := rs \<rparr>) = loops_ok m" "loops_ok (m\<lparr> dm_reconfigures := ks \<rparr>) = loops_ok m" "loops_ok (m\<lparr> dm_deleted := ds \<rparr>) = loops_ok m"
  "loops_ok (m\<lparr> dm_enumerateError := e \<rparr>) = loops_ok m" "loops_ok (m\<lparr> dm_stopped := b \<rparr>) = loops_ok m"
  by (simp_all add: loops_ok_def device_def markDirtyLocked_def reportLocked_def changed_def removeFromConfigLocked_def persistLocked_def split: option.split)

lemma device_simps [simp]: "device (markDirtyLocked m) u = device m u" "device (reportLocked m) u = device m u" "device (changed m) u = device m u"
  "device (removeFromConfigLocked k m) u = device m u" "device (persistLocked k m) u = device m u" "device (m\<lparr> dm_claims := cs \<rparr>) u = device m u"
  "device (m\<lparr> dm_restarts := rs \<rparr>) u = device m u" "device (m\<lparr> dm_reconfigures := ks \<rparr>) u = device m u" "device (m\<lparr> dm_deleted := ds \<rparr>) u = device m u"
  "device (m\<lparr> dm_loops := ls \<rparr>) u = device m u" "device (m\<lparr> dm_cancelling := cs' \<rparr>) u = device m u"
  by (simp_all add: device_def markDirtyLocked_def reportLocked_def changed_def removeFromConfigLocked_def persistLocked_def split: option.split)

lemma device_upd: "device (upd_device u f m) v = (if v = u then map_option f (device m u) else device m v)"
  by (simp add: upd_device_def device_def split: option.split)

lemma upd_device_simps [simp]: "dm_loops (upd_device u f m) = dm_loops m" "dm_cancelling (upd_device u f m) = dm_cancelling m" "dm_stopped (upd_device u f m) = dm_stopped m"
  "gomap_wf (dm_devices m) \<Longrightarrow> gomap_wf (dm_devices (upd_device u f m))"
  by (simp_all add: upd_device_def split: option.split)

lemma loops_ok_upd:
  assumes "loops_ok m" "\<And>d. md_udid (f d) = md_udid d" "\<And>d. md_cancel (f d) = md_cancel d"
  shows "loops_ok (upd_device u f m)"
proof (rule loops_okI)
  show "gomap_wf (dm_devices (upd_device u f m))" using loops_okD(1)[OF assms(1)] by simp
  show "md_udid d = v" if "device (upd_device u f m) v = Some d" for v d
    using that loops_okD(2)[OF assms(1)] assms(2) by (auto simp: device_upd split: if_splits)
  show "l < length (dm_loops (upd_device u f m)) \<and> dl_udid (dm_loops (upd_device u f m) ! l) = v" if "device (upd_device u f m) v = Some d" "md_cancel d = Some l" for v d l
    using that loops_okD(3)[OF assms(1), of v _ l] assms(3) by (auto simp: device_upd split: if_splits)
  show "\<exists>d. device (upd_device u f m) (dl_udid (dm_loops (upd_device u f m) ! l)) = Some d \<and> md_cancel d = Some l"
    if "l < length (dm_loops (upd_device u f m))" "dl_running (dm_loops (upd_device u f m) ! l)" "\<not> dl_cancelled (dm_loops (upd_device u f m) ! l)"
      "l \<notin> set (dm_cancelling (upd_device u f m))" for l
    using that loops_okD(4)[OF assms(1), of l] assms(3) by (auto simp: device_upd)
qed

lemma loops_ok_start: "loops_ok m \<Longrightarrow> loops_ok (startDeviceLocked u m)"
proof (cases "\<exists>d. device m u = Some d \<and> md_cancel d = None \<and> \<not> dm_stopped m")
  case False
  moreover assume "loops_ok m"
  ultimately show ?thesis by (auto simp: startDeviceLocked_def split: option.split)
next
  case True
  assume ok: "loops_ok m"
  from True obtain d where d: "device m u = Some d" "md_cancel d = None" "\<not> dm_stopped m" by blast
  let ?n = "length (dm_loops m)" and ?m = "startDeviceLocked u m"
  have m: "?m = (upd_device u (\<lambda>d. d\<lparr> md_cancel := Some ?n \<rparr>) m)\<lparr> dm_loops := dm_loops m @ [loop_of d] \<rparr>" using d by (simp add: startDeviceLocked_def)
  have dev: "device ?m v = (if v = u then Some (d\<lparr> md_cancel := Some ?n \<rparr>) else device m v)" for v using d(1) by (simp add: m device_upd)
  have ls: "dm_loops ?m = dm_loops m @ [loop_of d]" "dm_cancelling ?m = dm_cancelling m" by (simp_all add: m)
  have u: "md_udid d = u" by (rule loops_okD(2)[OF ok d(1)])
  show ?thesis
  proof (rule loops_okI)
    show "gomap_wf (dm_devices ?m)" using loops_okD(1)[OF ok] by (simp add: m)
    show "md_udid e = v" if "device ?m v = Some e" for v e using that loops_okD(2)[OF ok, of v e] u by (auto simp: dev split: if_splits)
    show "l < length (dm_loops ?m) \<and> dl_udid (dm_loops ?m ! l) = v" if "device ?m v = Some e" "md_cancel e = Some l" for v e l
    proof (cases "v = u")
      case True
      then show ?thesis using that u by (auto simp: dev ls loop_of_def)
    next
      case False
      then show ?thesis using that loops_okD(3)[OF ok, of v e l] by (simp add: dev ls nth_append)
    qed
    show "\<exists>e. device ?m (dl_udid (dm_loops ?m ! l)) = Some e \<and> md_cancel e = Some l"
      if l: "l < length (dm_loops ?m)" "dl_running (dm_loops ?m ! l)" "\<not> dl_cancelled (dm_loops ?m ! l)" "l \<notin> set (dm_cancelling ?m)" for l
    proof (cases "l = ?n")
      case True
      then show ?thesis using u by (simp add: dev ls loop_of_def)
    next
      case False
      then have "l < ?n" using l(1) by (simp add: ls)
      with l obtain e where e: "device m (dl_udid (dm_loops m ! l)) = Some e" "md_cancel e = Some l"
        using loops_okD(4)[OF ok, of l] by (auto simp: ls nth_append)
      then have "dl_udid (dm_loops m ! l) \<noteq> u" using d by auto
      then show ?thesis using e \<open>l < ?n\<close> by (simp add: dev ls nth_append)
    qed
  qed
qed

lemma cancel_later_simps [simp]: "device (cancel_later c m) u = device m u" "dm_loops (cancel_later c m) = dm_loops m" "dm_devices (cancel_later c m) = dm_devices m"
  "set (dm_cancelling (cancel_later c m)) = set_option c \<union> set (dm_cancelling m)"
  by (simp_all add: cancel_later_def device_def split: option.split)

lemma loops_ok_drop:
  assumes ok: "loops_ok m" and d: "device m u = Some d" and f: "\<And>d. md_udid (f d) = md_udid d" "\<And>d. md_cancel (f d) = None"
    and m': "dm_devices m' = dm_devices (upd_device u f m)" "dm_loops m' = dm_loops m" "set (dm_cancelling m') = set_option (md_cancel d) \<union> set (dm_cancelling m)"
  shows "loops_ok m'"
proof (rule loops_okI)
  have dev: "device m' v = (if v = u then Some (f d) else device m v)" for v
    using m'(1) device_upd[of u f m v] d by (simp add: device_def)
  show "gomap_wf (dm_devices m')" using loops_okD(1)[OF ok] m'(1) by simp
  show "md_udid e = v" if "device m' v = Some e" for v e using that loops_okD(2)[OF ok] d f(1) by (auto simp: dev split: if_splits)
  show "l < length (dm_loops m') \<and> dl_udid (dm_loops m' ! l) = v" if "device m' v = Some e" "md_cancel e = Some l" for v e l
    using that loops_okD(3)[OF ok, of v e l] f(2) m'(2) by (auto simp: dev split: if_splits)
  show "\<exists>e. device m' (dl_udid (dm_loops m' ! l)) = Some e \<and> md_cancel e = Some l"
    if l: "l < length (dm_loops m')" "dl_running (dm_loops m' ! l)" "\<not> dl_cancelled (dm_loops m' ! l)" "l \<notin> set (dm_cancelling m')" for l
  proof -
    have "l \<notin> set (dm_cancelling m)" "md_cancel d \<noteq> Some l" using l(4) m'(3) by auto
    moreover from this l m'(2) obtain e where e: "device m (dl_udid (dm_loops m ! l)) = Some e" "md_cancel e = Some l" using loops_okD(4)[OF ok, of l] by auto
    ultimately have "dl_udid (dm_loops m ! l) \<noteq> u" using d by auto
    then show ?thesis using e m'(2) by (simp add: dev)
  qed
qed

lemma loops_ok_loops:
  assumes ok: "loops_ok m" and m': "dm_devices m' = dm_devices m" "length (dm_loops m') = length (dm_loops m)"
    and ids: "\<And>l. l < length (dm_loops m) \<Longrightarrow> dl_udid (dm_loops m' ! l) = dl_udid (dm_loops m ! l)"
    and live: "\<And>l. l < length (dm_loops m) \<Longrightarrow> dl_running (dm_loops m' ! l) \<Longrightarrow> \<not> dl_cancelled (dm_loops m' ! l) \<Longrightarrow> l \<notin> set (dm_cancelling m') \<Longrightarrow>
        dl_running (dm_loops m ! l) \<and> \<not> dl_cancelled (dm_loops m ! l) \<and> l \<notin> set (dm_cancelling m)"
  shows "loops_ok m'"
proof (rule loops_okI)
  have dev: "device m' v = device m v" for v by (simp add: device_def m'(1))
  show "gomap_wf (dm_devices m')" using loops_okD(1)[OF ok] m'(1) by simp
  show "md_udid e = v" if "device m' v = Some e" for v e using that loops_okD(2)[OF ok] by (simp add: dev)
  show "l < length (dm_loops m') \<and> dl_udid (dm_loops m' ! l) = v" if "device m' v = Some e" "md_cancel e = Some l" for v e l
    using that loops_okD(3)[OF ok, of v e l] ids m'(2) by (simp add: dev)
  show "\<exists>e. device m' (dl_udid (dm_loops m' ! l)) = Some e \<and> md_cancel e = Some l"
    if l: "l < length (dm_loops m')" "dl_running (dm_loops m' ! l)" "\<not> dl_cancelled (dm_loops m' ! l)" "l \<notin> set (dm_cancelling m')" for l
    using live[of l] l loops_okD(4)[OF ok, of l] ids[of l] m'(2) by (simp add: dev)
qed

lemma loops_ok_cancel: "loops_ok m \<Longrightarrow> l \<in> set (dm_cancelling m) \<Longrightarrow> loops_ok (cancel_loop l m)"
proof (rule loops_ok_loops)
  show "dl_udid (dm_loops (cancel_loop l m) ! k) = dl_udid (dm_loops m ! k)" if "k < length (dm_loops m)" for k
    using that by (simp add: cancel_loop_def nth_upd)
  show "dl_running (dm_loops m ! k) \<and> \<not> dl_cancelled (dm_loops m ! k) \<and> k \<notin> set (dm_cancelling m)"
    if "k < length (dm_loops m)" "dl_running (dm_loops (cancel_loop l m) ! k)" "\<not> dl_cancelled (dm_loops (cancel_loop l m) ! k)" "k \<notin> set (dm_cancelling (cancel_loop l m))" for k
    using that by (cases "k = l") (simp_all add: cancel_loop_def nth_upd)
qed (simp_all add: cancel_loop_def)

lemma loops_ok_end: "loops_ok m \<Longrightarrow> l < length (dm_loops m) \<Longrightarrow> loops_ok (loop_end l err ctx m)"
proof -
  assume ok: "loops_ok m" and l: "l < length (dm_loops m)"
  have "loops_ok (m\<lparr> dm_loops := (dm_loops m)[l := (dm_loops m ! l)\<lparr> dl_running := False \<rparr>] \<rparr>)"
    by (rule loops_ok_loops[OF ok]) (auto simp: nth_upd split: if_splits)
  then show ?thesis unfolding loop_end_def Let_def
    by (simp, intro loops_ok_upd) (simp_all split: option.split)
qed

lemma mget_map_vals: "mget (map (\<lambda>(u, d). (u, g u d)) xs) v = map_option (g v) (mget xs v)"
  by (induction xs) auto

lemma mkeys_map_vals: "mkeys (map (\<lambda>(u, d). (u, g u d)) xs) = mkeys xs"
  by (induction xs) auto

lemma gomap_wf_map_vals [simp]: "gomap_wf (map (\<lambda>(u, d). (u, g u d)) xs) = gomap_wf xs"
  by (simp only: gomap_wf_def mkeys_map_vals)

lemma loops_ok_devices:
  assumes ok: "loops_ok m" and wf: "gomap_wf (dm_devices m')" and m': "dm_loops m' = dm_loops m" "dm_cancelling m' = dm_cancelling m"
    and old: "\<And>v d. device m v = Some d \<Longrightarrow> \<exists>d'. device m' v = Some d' \<and> md_udid d' = md_udid d \<and> md_cancel d' = md_cancel d"
    and new: "\<And>v d'. device m v = None \<Longrightarrow> device m' v = Some d' \<Longrightarrow> md_udid d' = v \<and> md_cancel d' = None"
  shows "loops_ok m'"
proof (rule loops_okI)
  show "gomap_wf (dm_devices m')" by (rule wf)
  show "md_udid e = v" if e: "device m' v = Some e" for v e
  proof (cases "device m v")
    case None
    then show ?thesis using new e by blast
  next
    case (Some d)
    then show ?thesis using old[OF Some] e loops_okD(2)[OF ok Some] by auto
  qed
  show "l < length (dm_loops m') \<and> dl_udid (dm_loops m' ! l) = v" if e: "device m' v = Some e" "md_cancel e = Some l" for v e l
  proof (cases "device m v")
    case None
    then show ?thesis using new[OF None e(1)] e(2) by simp
  next
    case (Some d)
    then show ?thesis using old[OF Some] e loops_okD(3)[OF ok Some, of l] m' by auto
  qed
  show "\<exists>e. device m' (dl_udid (dm_loops m' ! l)) = Some e \<and> md_cancel e = Some l"
    if l: "l < length (dm_loops m')" "dl_running (dm_loops m' ! l)" "\<not> dl_cancelled (dm_loops m' ! l)" "l \<notin> set (dm_cancelling m')" for l
  proof -
    from l m' obtain e where "device m (dl_udid (dm_loops m ! l)) = Some e" "md_cancel e = Some l" using loops_okD(4)[OF ok, of l] by auto
    then show ?thesis using old m' by metis
  qed
qed

lemma loops_ok_map:
  assumes "loops_ok m" "\<And>u d. md_udid (g u d) = md_udid d" "\<And>u d. md_cancel (g u d) = md_cancel d"
  shows "loops_ok (m\<lparr> dm_devices := map (\<lambda>(u, d). (u, g u d)) (dm_devices m) \<rparr>)"
  by (rule loops_ok_devices[OF assms(1)])
    (use assms loops_okD(1)[OF assms(1)] in \<open>auto simp: device_def mget_map_vals\<close>)

lemma loops_ok_upsert: "loops_ok m \<Longrightarrow> loops_ok (snd (upsertLocked e info m))"
proof (rule loops_ok_devices)
  assume ok: "loops_ok m"
  let ?m = "snd (upsertLocked e info m)"
  let ?d = "case mget (dm_devices m) (ed_UDID e) of None \<Rightarrow> no_device (ed_UDID e) | Some d \<Rightarrow> d"
  have dev: "device ?m v = (if v = ed_UDID e then Some (refreshed e info ?d) else device m v)" for v
    by (simp add: upsertLocked_def Let_def device_def)
  show "gomap_wf (dm_devices ?m)" using loops_okD(1)[OF ok] by (simp add: upsertLocked_def Let_def)
  show "\<exists>d'. device ?m v = Some d' \<and> md_udid d' = md_udid d \<and> md_cancel d' = md_cancel d" if "device m v = Some d" for v d
  proof -
    have "mget (dm_devices m) v = Some d" using that by (simp add: device_def)
    then show ?thesis using that by (cases "v = ed_UDID e") (simp_all add: dev refreshed_def)
  qed
  show "md_udid d' = v \<and> md_cancel d' = None" if "device m v = None" "device ?m v = Some d'" for v d'
  proof -
    have "mget (dm_devices m) v = None" using that by (simp add: device_def)
    then show ?thesis using that by (auto simp: dev refreshed_def no_device_def split: if_splits)
  qed
qed (simp_all add: upsertLocked_def Let_def)

lemma fold_snd_inv: "Q (snd s) \<Longrightarrow> (\<And>x s. Q (snd s) \<Longrightarrow> Q (snd (f x s))) \<Longrightarrow> Q (snd (fold f xs s))"
  by (induction xs arbitrary: s) auto

lemma fold_inv: "Q s \<Longrightarrow> (\<And>x s. Q s \<Longrightarrow> Q (f x s)) \<Longrightarrow> Q (fold f xs s)"
  by (induction xs arbitrary: s) auto

lemma loops_ok_upsert_all: "loops_ok (snd s) \<Longrightarrow> loops_ok (snd (upsert_all es s))"
  unfolding upsert_all_def by (rule fold_snd_inv) (auto simp: Let_def split_beta loops_ok_upsert)

lemma loops_ok_drop_unseen: "loops_ok (snd s) \<Longrightarrow> loops_ok (snd (drop_unseen es s))"
  by (cases s) (auto simp: drop_unseen_def intro!: loops_ok_map)

lemma loops_ok_expiry: "loops_ok m \<Longrightarrow> loops_ok (snd (refreshWdaExpiryLocked ck m))"
  unfolding refreshWdaExpiryLocked_def snd_conv
  by (rule loops_ok_map) (simp_all split: option.split)

lemma loops_ok_apply: "loops_ok m \<Longrightarrow> loops_ok (apply_list ck es m)"
proof -
  assume "loops_ok m"
  then have "loops_ok (snd (drop_unseen es (upsert_all es (False, m))))" by (simp add: loops_ok_drop_unseen loops_ok_upsert_all)
  then show ?thesis
    by (auto simp: apply_list_def Let_def split_beta intro: loops_ok_expiry)
qed

lemma loops_ok_control_start: "loops_ok m \<Longrightarrow> loops_ok (control_start u m)"
  by (auto simp: control_start_def intro!: loops_ok_start loops_ok_upd split: option.split)

lemma loops_ok_control_stop: "loops_ok m \<Longrightarrow> loops_ok (control_stop b u m)"
proof (cases "device m u")
  case (Some d)
  assume ok: "loops_ok m"
  show ?thesis
    by (rule loops_ok_drop[OF ok Some, of "\<lambda>d. d\<lparr> md_cancel := None, md_userStopped := b, md_deviceControlOn := False \<rparr>"])
      (simp_all add: control_stop_def Some, simp_all add: changed_def markDirtyLocked_def reportLocked_def)
qed (simp add: control_stop_def)

lemma loops_ok_ControlRunner: "loops_ok m \<Longrightarrow> loops_ok (snd (ControlRunner i u a m))"
  by (auto simp: ControlRunner_def Let_def loops_ok_control_start loops_ok_control_stop split: option.split IosRunnerControlAction.split)

lemma loops_ok_probe: "loops_ok m \<Longrightarrow> loops_ok (probeControl m)"
  unfolding probeControl_def by (rule fold_inv) (simp_all add: loops_ok_ControlRunner)

lemma loops_ok_Rescan: "loops_ok m \<Longrightarrow> loops_ok (Rescan ck res m)"
  by (simp add: Rescan_def Rescan_error_def applySnapshot_def loops_ok_probe loops_ok_apply split: sum.split)

lemma loops_ok_Release: "loops_ok m \<Longrightarrow> loops_ok (snd (Release i u b m))"
proof (cases "findLocked i u m")
  case (Some k)
  assume ok: "loops_ok m"
  show ?thesis
  proof (cases "device m k")
    case None
    then show ?thesis using Some ok by (simp add: Release_def)
  next
    case d: (Some d)
    let ?f = "\<lambda>e. e\<lparr> md_cancel := None, md_claimed := False, md_deviceID := [], md_deviceControlOn := False, md_wdaState := WDA_UNSPECIFIED,
                md_credentialPath := (if b then [] else md_credentialPath e) \<rparr>"
    show ?thesis
      by (rule loops_ok_drop[OF ok d, of ?f])
        (simp_all add: Release_def Some d Let_def, simp_all add: changed_def markDirtyLocked_def reportLocked_def removeFromConfigLocked_def)
  qed
qed (simp add: Release_def)

lemma loops_ok_Configure: "loops_ok m \<Longrightarrow> loops_ok (snd (ConfigureDevice req m))"
proof (cases "findLocked (cf_device_id req) (cf_udid req) m")
  case (Some k)
  assume ok: "loops_ok m"
  show ?thesis
  proof (cases "device m k")
    case None
    then show ?thesis using Some ok by (simp add: ConfigureDevice_def)
  next
    case d: (Some d)
    let ?m = "persistLocked k (upd_device k (configured_device req) m)"
    have ok': "loops_ok ?m" using ok by (simp, intro loops_ok_upd) (simp_all add: configured_device_def)
    have d': "device ?m k = Some (configured_device req d)" using d by (simp add: device_upd)
    have "loops_ok ((cancel_later (md_cancel d) (markDirtyLocked (upd_device k (\<lambda>d. d\<lparr> md_cancel := None \<rparr>) ?m)))\<lparr> dm_reconfigures := ks \<rparr>)" for ks
      by (rule loops_ok_drop[OF ok' d', of "\<lambda>d. d\<lparr> md_cancel := None \<rparr>"]) (simp_all, simp_all add: markDirtyLocked_def configured_device_def)
    then show ?thesis using Some d ok ok' by (simp add: ConfigureDevice_def Let_def)
  qed
qed (simp add: ConfigureDevice_def)

lemma loops_ok_note: "loops_ok m \<Longrightarrow> (\<And>d. md_udid (f d) = md_udid d) \<Longrightarrow> (\<And>d. md_cancel (f d) = md_cancel d) \<Longrightarrow> loops_ok (noteWdaState u f m)"
  by (auto simp: noteWdaState_def intro!: loops_ok_upd split: option.split)

lemma set_reason_simps [simp]: "md_udid (set_reason msg code d) = md_udid d" "md_cancel (set_reason msg code d) = md_cancel d"
  by (simp_all add: set_reason_def)

lemma result_update_simps [simp]: "md_udid (result_update r d) = md_udid d" "md_cancel (result_update r d) = md_cancel d"
  by (simp_all add: result_update_def Let_def)

lemma loops_ok_StartClaimed: "loops_ok m \<Longrightarrow> loops_ok (StartClaimedDevices m)"
  unfolding StartClaimedDevices_def by (rule fold_inv) (auto simp: loops_ok_start)

lemma loops_ok_Stop: "loops_ok m \<Longrightarrow> loops_ok (Stop_manager m)"
  unfolding Stop_manager_def by (rule loops_ok_loops) auto

lemma loops_ok_claim_end: "loops_ok m \<Longrightarrow> loops_ok (claim_end p c res m)"
  by (cases c) (auto simp: claim_end_def Let_def claimed_device_def intro!: loops_ok_upd loops_ok_start split: sum.split)

lemma loops_ok_claim_begin: "loops_ok m \<Longrightarrow> loops_ok (snd (claim_begin req m))"
  by (auto simp: claim_begin_def Let_def intro!: loops_ok_upd split: option.split)

lemma loops_ok_state: "loops_ok m \<Longrightarrow> loops_ok (onDeviceState u b m)"
  by (auto simp: onDeviceState_def state_update_def Let_def intro!: loops_ok_upd split: option.split)

lemma loops_ok_detach: "loops_ok m \<Longrightarrow> loops_ok (detach u m)"
  by (auto simp: detach_def intro!: loops_ok_upd split: option.split)

lemma loops_ok_list: "loops_ok m \<Longrightarrow> loops_ok (rescan_list ck res m)"
  by (simp add: rescan_list_def Rescan_error_def loops_ok_apply split: sum.split)

lemma loops_ok_plugged: "loops_ok m \<Longrightarrow> loops_ok (upd_device u (\<lambda>d. d\<lparr> md_userStopped := False \<rparr>) m)"
  by (auto intro!: loops_ok_upd)

lemma loops_ok_applyEvent: "loops_ok m \<Longrightarrow> loops_ok (applyEvent ck u b res m)"
  by (auto simp: applyEvent_def loops_ok_detach intro!: loops_ok_Rescan loops_ok_upd)

lemma loops_ok_restart: "loops_ok m \<Longrightarrow> loops_ok (restart_end r m)"
  by (auto simp: restart_end_def Let_def intro!: loops_ok_start split: option.split)

lemma loops_ok_reconfigure: "loops_ok m \<Longrightarrow> loops_ok (reconfigure_end k m)"
  by (auto simp: reconfigure_end_def Let_def intro!: loops_ok_start split: option.split)

lemma loops_ok_wipe: "loops_ok m \<Longrightarrow> loops_ok (onDeviceWipe u m)"
  by (auto simp: onDeviceWipe_def intro!: loops_ok_upd)

lemma loops_ok_lan: "loops_ok m \<Longrightarrow> loops_ok (NoteLanReachable u b m)" "loops_ok m \<Longrightarrow> loops_ok (NoteLanPairingPending h u m)"
  by (auto simp: NoteLanReachable_def NoteLanPairingPending_def Let_def intro!: loops_ok_upd split: option.split)

lemma loops_ok_jobs: "loops_ok m \<Longrightarrow> loops_ok (NoteWdaJobStarted u m)" "loops_ok m \<Longrightarrow> loops_ok (NoteWdaJobProgress u p s m)" "loops_ok m \<Longrightarrow> loops_ok (NoteWdaJobResult r m)"
  by (auto simp: NoteWdaJobStarted_def NoteWdaJobProgress_def NoteWdaJobResult_def intro!: loops_ok_note)

lemmas loops_ok_ops = loops_ok_claim_begin loops_ok_claim_end loops_ok_ControlRunner loops_ok_restart loops_ok_Release loops_ok_Configure loops_ok_reconfigure
  loops_ok_Rescan loops_ok_applyEvent loops_ok_list loops_ok_plugged loops_ok_cancel loops_ok_end loops_ok_state loops_ok_wipe loops_ok_jobs loops_ok_lan loops_ok_StartClaimed loops_ok_Stop

lemma loops_ok_step: "loops_ok m \<Longrightarrow> dstep m e = Some m' \<Longrightarrow> loops_ok m'"
  by (cases e) (auto simp: loops_ok_ops loop_runs_def split: if_splits)

interpretation device_loops: guarded_machine dstep "\<lambda>_. True" loops_ok
  by unfold_locales (rule loops_ok_step)

lemma adopt_wf: "gomap_wf (adoptConfiguredDevices cfg)"
proof (cases cfg)
  case (Some ds)
  show ?thesis unfolding adoptConfiguredDevices_def Some option.case by (rule fold_inv) auto
qed (simp add: adoptConfiguredDevices_def)

lemma adopt_device: "mget (adoptConfiguredDevices cfg) u = Some d \<Longrightarrow> md_udid d = u \<and> md_cancel d = None"
proof (cases cfg)
  case (Some ds)
  have "\<forall>u d. mget (fold (\<lambda>d m. if trim_space (dc_UDID d) = [] then m else mput (dc_UDID d) (adopted_device d) m) ds []) u = Some d \<longrightarrow> md_udid d = u \<and> md_cancel d = None"
    by (rule fold_inv) (auto simp: adopted_device_def no_device_def split: if_splits)
  moreover assume "mget (adoptConfiguredDevices cfg) u = Some d"
  ultimately show ?thesis by (simp add: adoptConfiguredDevices_def Some)
qed (simp add: adoptConfiguredDevices_def)

lemma loops_ok_init: "loops_ok (NewDeviceManager cfg)"
  by (rule loops_okI) (auto simp: NewDeviceManager_def adopt_wf device_def dest: adopt_device)

section \<open>What discovery leaves alone\<close>

definition ident :: "managedDevice \<Rightarrow> string \<times> bool \<times> string \<times> string \<times> int \<times> string \<times> string \<times> string \<times> int" where
  "ident d = (md_udid d, md_claimed d, md_deviceID d, md_credentialPath d, md_configRevision d, md_transport d, md_wdaBundle d, md_xctest d, md_hostWDAPort d)"

definition keeps_ident :: "DeviceManager \<Rightarrow> DeviceManager \<Rightarrow> bool" where
  "keeps_ident m m' \<longleftrightarrow> (\<forall>u d. device m u = Some d \<longrightarrow> (\<exists>d'. device m' u = Some d' \<and> ident d' = ident d))"

lemma keeps_dev_refl [simp]: "keeps_ident m m"
  by (simp add: keeps_ident_def)

lemma keeps_dev_trans: "keeps_ident m n \<Longrightarrow> keeps_ident n k \<Longrightarrow> keeps_ident m k"
  unfolding keeps_ident_def by metis

lemma keeps_devices: "(\<And>u. device n' u = device n u) \<Longrightarrow> keeps_ident m n' = keeps_ident m n"
  by (simp add: keeps_ident_def)

lemma keeps_changed [simp]: "keeps_ident m (changed n) = keeps_ident m n" "keeps_ident m (reportLocked n) = keeps_ident m n" "keeps_ident m (markDirtyLocked n) = keeps_ident m n"
  "keeps_ident m (n\<lparr> dm_enumerateError := e \<rparr>) = keeps_ident m n"
  by (rule keeps_devices; simp add: device_def changed_def markDirtyLocked_def reportLocked_def)+

lemma keeps_upd: "(\<And>d. ident (f d) = ident d) \<Longrightarrow> keeps_ident m (upd_device u f m)"
  by (simp add: keeps_ident_def device_upd)

lemma keeps_map: "(\<And>u d. ident (g u d) = ident d) \<Longrightarrow> keeps_ident m (m\<lparr> dm_devices := map (\<lambda>(u, d). (u, g u d)) (dm_devices m) \<rparr>)"
  by (simp add: keeps_ident_def device_def mget_map_vals)

lemma keeps_upsert: "loops_ok m \<Longrightarrow> keeps_ident m (snd (upsertLocked e info m))"
  by (auto simp: keeps_ident_def device_def upsertLocked_def Let_def refreshed_def ident_def)

lemma keeps_upsert_all: "loops_ok m \<Longrightarrow> keeps_ident m (snd (upsert_all es (c, m)))"
proof -
  assume ok: "loops_ok m"
  have "keeps_ident m (snd (upsert_all es (c, m))) \<and> loops_ok (snd (upsert_all es (c, m)))"
    unfolding upsert_all_def by (rule fold_snd_inv) (use ok in \<open>auto simp: Let_def split_beta loops_ok_upsert intro: keeps_dev_trans keeps_upsert\<close>)
  then show ?thesis by simp
qed

lemma keeps_start: "keeps_ident m (startDeviceLocked u m)"
proof -
  have "keeps_ident m (upd_device u (\<lambda>d. d\<lparr> md_cancel := c \<rparr>) m)" for c by (rule keeps_upd) (simp add: ident_def)
  then show ?thesis by (auto simp: startDeviceLocked_def keeps_ident_def split: option.split)
qed

lemma keeps_control_start: "keeps_ident m (control_start u m)"
  by (auto simp: control_start_def ident_def intro!: keeps_dev_trans[OF keeps_upd keeps_start] split: option.split)

lemma keeps_ControlStart: "keeps_ident m (snd (ControlRunner i u RUNNER_START m))"
  by (simp add: ControlRunner_def Let_def keeps_control_start split: option.split)

lemma keeps_probe: "keeps_ident m (probeControl m)"
  unfolding probeControl_def by (rule fold_inv) (auto intro: keeps_dev_trans keeps_ControlStart)

lemma keeps_apply: "loops_ok m \<Longrightarrow> keeps_ident m (apply_list ck es m)"
proof -
  assume "loops_ok m"
  then have "keeps_ident m (snd (upsert_all es (False, m)))" by (rule keeps_upsert_all)
  moreover have "keeps_ident n (snd (drop_unseen es (c, n)))" for c n
    by (simp add: drop_unseen_def) (rule keeps_map, simp add: ident_def)
  ultimately have k: "keeps_ident m (snd (drop_unseen es (upsert_all es (False, m))))" by (metis keeps_dev_trans prod.collapse)
  have "keeps_ident n (snd (refreshWdaExpiryLocked ck n))" for n
    unfolding refreshWdaExpiryLocked_def snd_conv by (rule keeps_map) (simp add: ident_def split: option.split)
  then have e: "keeps_ident m n \<Longrightarrow> keeps_ident m (snd (refreshWdaExpiryLocked ck n))" for n using keeps_dev_trans by blast
  show ?thesis using k by (auto simp: apply_list_def Let_def split_beta intro!: e)
qed

lemma keeps_Rescan: "loops_ok m \<Longrightarrow> keeps_ident m (Rescan ck res m)"
  by (auto simp: Rescan_def Rescan_error_def applySnapshot_def intro: keeps_dev_trans[OF keeps_apply keeps_probe] split: sum.split)

lemma keeps_applyEvent: "loops_ok m \<Longrightarrow> keeps_ident m (applyEvent ck u b res m)"
proof (cases b)
  case True
  assume ok: "loops_ok m"
  let ?n = "upd_device u (\<lambda>d. d\<lparr> md_userStopped := False \<rparr>) m"
  have "keeps_ident m ?n" by (rule keeps_upd) (simp add: ident_def)
  moreover have "loops_ok ?n" using ok by (rule loops_ok_upd) simp_all
  ultimately show ?thesis using True by (auto simp: applyEvent_def intro: keeps_dev_trans keeps_Rescan)
next
  case False
  then show ?thesis by (auto simp: applyEvent_def detach_def ident_def intro!: keeps_upd split: option.split)
qed

section \<open>Properties\<close>

text \<open> \<^bold>\<open>C5\<close>. Two connection loops never drive the same phone: of the loops for one device that are running, at most one has neither been
  cancelled nor is about to be.\<close>

theorem one_loop_per_device:
  assumes "reach dstep (NewDeviceManager cfg) m" "loop_runs m k" "loop_runs m l" "dl_udid (dm_loops m ! k) = dl_udid (dm_loops m ! l)"
    and "\<not> dl_cancelled (dm_loops m ! k)" "\<not> dl_cancelled (dm_loops m ! l)" "k \<notin> set (dm_cancelling m)" "l \<notin> set (dm_cancelling m)"
  shows "k = l"
proof -
  have "loops_ok m" by (rule device_loops.reach_inv[OF _ loops_ok_init assms(1)]) simp
  from loops_okD(4)[OF this, of k] loops_okD(4)[OF this, of l] assms(2-) show ?thesis by (auto simp: loop_runs_def)
qed

definition demo_saved :: "DeviceConfig list" where
  "demo_saved = [\<lparr> dc_Name = ''phone'', dc_UDID = ''u1'', dc_Transport = ''usb'', dc_WDABundle = [], dc_XCTest = [], dc_WDAPort = 8100, dc_CredentialPath = ''/n/credentials/phone.json'' \<rparr>]"

definition demo_restart :: "dev_event list" where
  "demo_restart = [DStartClaimed, DControl [] ''u1'' RUNNER_RESTART, DCancel 0, DRestartEnd ([], ''u1'')]"

theorem one_loop_per_device_witness:
  "\<exists>m. exec dstep (NewDeviceManager (Some demo_saved)) demo_restart = Some m \<and> loop_runs m 0 \<and> loop_runs m 1
     \<and> (\<not> dl_cancelled (dm_loops m ! 0) \<and> 0 \<notin> set (dm_cancelling m) \<longrightarrow> (0 :: nat) = 1)"
proof -
  have "\<exists>m. exec dstep (NewDeviceManager (Some demo_saved)) demo_restart = Some m \<and> loop_runs m 0 \<and> loop_runs m 1 \<and> dl_udid (dm_loops m ! 0) = dl_udid (dm_loops m ! 1)
      \<and> \<not> dl_cancelled (dm_loops m ! 1) \<and> 1 \<notin> set (dm_cancelling m)"
    by (rule exec_caseD) code_simp
  then obtain m where m: "exec dstep (NewDeviceManager (Some demo_saved)) demo_restart = Some m" "loop_runs m 0" "loop_runs m 1"
      "dl_udid (dm_loops m ! 0) = dl_udid (dm_loops m ! 1)" "\<not> dl_cancelled (dm_loops m ! 1)" "1 \<notin> set (dm_cancelling m)" by (elim exE conjE)
  from m(1) have r: "reach dstep (NewDeviceManager (Some demo_saved)) m" by (auto simp: reach_iff_exec)
  show ?thesis using m one_loop_per_device[OF r m(2,3,4) _ m(5) _ m(6)] by (intro exI[of _ m]) blast
qed

text \<open> \<^bold>\<open>C23\<close>. Discovery never costs a claim: whatever the USB stack lists, fails to list or reports as attached or detached, every known
  device keeps its claim, id, credential and configuration.\<close>

theorem discovery_keeps_claims:
  assumes "reach dstep (NewDeviceManager cfg) m" "device m u = Some d" "m' = Rescan ck res m \<or> m' = applyEvent ck v attached res m"
  shows "\<exists>d'. device m' u = Some d' \<and> md_claimed d' = md_claimed d \<and> md_deviceID d' = md_deviceID d \<and> md_credentialPath d' = md_credentialPath d
     \<and> md_configRevision d' = md_configRevision d \<and> md_transport d' = md_transport d \<and> md_wdaBundle d' = md_wdaBundle d \<and> md_hostWDAPort d' = md_hostWDAPort d"
proof -
  have "loops_ok m" by (rule device_loops.reach_inv[OF _ loops_ok_init assms(1)]) simp
  with assms(3) have "keeps_ident m m'" using keeps_Rescan keeps_applyEvent by auto
  then show ?thesis using assms(2) by (auto simp: keeps_ident_def ident_def)
qed

definition demo_clock :: clock where
  "demo_clock = \<lparr> ck_expiry = (\<lambda>s. if s = ''soon'' then Some 1000 else None), ck_now = 500 \<rparr>"

theorem discovery_keeps_claims_witness:
  "\<exists>d d'. device (NewDeviceManager (Some demo_saved)) ''u1'' = Some d \<and> md_claimed d
     \<and> device (Rescan demo_clock (Inr []) (NewDeviceManager (Some demo_saved))) ''u1'' = Some d' \<and> md_claimed d'"
proof -
  have "case device (NewDeviceManager (Some demo_saved)) ''u1'' of None \<Rightarrow> False | Some d \<Rightarrow> md_claimed d" by code_simp
  then obtain d where d: "device (NewDeviceManager (Some demo_saved)) ''u1'' = Some d" "md_claimed d" by (auto split: option.splits)
  from discovery_keeps_claims[OF reach_init d(1), of _ demo_clock "Inr []"] d show ?thesis by blast
qed

text \<open> Configuration is gated by its revision: a frame with a revision other than zero that is not newer than the applied one
  changes nothing and answers the applied one, and a newer one takes effect and is the applied one from then on.\<close>

theorem configure_gated:
  assumes "findLocked (cf_device_id req) (cf_udid req) m = Some k" "device m k = Some d" "cf_config_revision req \<noteq> 0"
  shows "\<exists>d'. fst (ConfigureDevice req m) = Inr (max (md_configRevision d) (cf_config_revision req)) \<and> device (snd (ConfigureDevice req m)) k = Some d'
     \<and> md_configRevision d' = max (md_configRevision d) (cf_config_revision req)
     \<and> (if cf_config_revision req \<le> md_configRevision d then snd (ConfigureDevice req m) = m
        else md_transport d' = or_keep (cf_transport req) (md_transport d) \<and> md_hostWDAPort d' = cf_host_wda_port req)"
proof (cases "cf_config_revision req \<le> md_configRevision d")
  case True
  then have "ConfigureDevice req m = (Inr (md_configRevision d), m)" using assms by (simp add: ConfigureDevice_def)
  then show ?thesis using True assms(2) by (simp add: max_def)
next
  case False
  then show ?thesis using assms by (auto simp: ConfigureDevice_def Let_def device_upd configured_device_def)
qed

definition demo_configure :: "int \<Rightarrow> NodeIosConfigureDevice" where
  "demo_configure r = \<lparr> cf_device_id = [], cf_udid = ''u1'', cf_config_revision = r, cf_transport = ''network'', cf_wda_bundle_id = [], cf_xctest_config_name = [],
     cf_host_wda_port = 9100, cf_renew_before_days = 0 \<rparr>"

lemma demo_device: "\<exists>d. device (NewDeviceManager (Some demo_saved)) ''u1'' = Some d \<and> md_configRevision d = 0 \<and> md_cancel d = None \<and> md_credentialPath d \<noteq> []"
proof -
  have "case device (NewDeviceManager (Some demo_saved)) ''u1'' of None \<Rightarrow> False | Some d \<Rightarrow> md_configRevision d = 0 \<and> md_cancel d = None \<and> md_credentialPath d \<noteq> []" by code_simp
  then show ?thesis by (auto split: option.splits)
qed

lemma demo_find: "findLocked [] ''u1'' (NewDeviceManager (Some demo_saved)) = Some ''u1''"
  by code_simp

theorem configure_gated_witness:
  "fst (ConfigureDevice (demo_configure 3) (NewDeviceManager (Some demo_saved))) = Inr 3"
proof -
  obtain d where d: "device (NewDeviceManager (Some demo_saved)) ''u1'' = Some d" "md_configRevision d = 0" using demo_device by blast
  have "findLocked (cf_device_id (demo_configure 3)) (cf_udid (demo_configure 3)) (NewDeviceManager (Some demo_saved)) = Some ''u1''"
    by (simp add: demo_configure_def demo_find)
  from configure_gated[OF this d(1)] d(2) show ?thesis by (simp add: demo_configure_def)
qed

text \<open> A frame with revision zero is always applied and sets the applied revision back to zero, so that an older frame that was already
  superseded is applied when it arrives again.\<close>

theorem zero_revision_reopens_gate:
  assumes "findLocked (cf_device_id req) (cf_udid req) m = Some k" "device m k = Some d" "cf_config_revision req = 0"
  shows "\<exists>d'. device (snd (ConfigureDevice req m)) k = Some d' \<and> md_configRevision d' = 0"
  using assms by (auto simp: ConfigureDevice_def Let_def device_upd configured_device_def)

theorem zero_revision_reopens_gate_witness:
  "\<exists>d'. device (snd (ConfigureDevice (demo_configure 0) (NewDeviceManager (Some demo_saved)))) ''u1'' = Some d' \<and> md_configRevision d' = 0"
proof -
  obtain d where d: "device (NewDeviceManager (Some demo_saved)) ''u1'' = Some d" using demo_device by blast
  have "findLocked (cf_device_id (demo_configure 0)) (cf_udid (demo_configure 0)) (NewDeviceManager (Some demo_saved)) = Some ''u1''"
    by (simp add: demo_configure_def demo_find)
  from zero_revision_reopens_gate[OF this d] show ?thesis by (simp add: demo_configure_def)
qed

lemma loop_end_device: "device m u = Some d \<Longrightarrow> \<exists>d'. device (loop_end l err ctx m) u = Some d' \<and> md_cancel d' = md_cancel d \<and> md_credentialPath d' = md_credentialPath d"
  by (cases err; cases ctx) (auto simp: loop_end_def Let_def device_upd)

lemma loop_end_find: "findLocked [] u (loop_end l err ctx m) = findLocked [] u m"
proof -
  have "(device (loop_end l err ctx m) v = None) = (device m v = None)" for v
    by (simp add: loop_end_def Let_def device_upd)
  then show ?thesis by (simp add: findLocked_def Let_def device_def)
qed

text \<open> \<^bold>\<open>C39\<close>. A connection loop that ended by itself is never replaced by starting: its device keeps the handle, so an operator's start and the
  prober's start both answer success and change nothing.\<close>

theorem dead_loop_is_not_restarted:
  assumes "findLocked [] (trim_space u) m = Some k" "device m k = Some d" "md_cancel d = Some l" "md_credentialPath d \<noteq> []"
  shows "ControlRunner [] u RUNNER_START (loop_end l err ctx m) = (None, loop_end l err ctx m)"
proof -
  obtain d' where "device (loop_end l err ctx m) k = Some d'" "md_cancel d' = Some l" "md_credentialPath d' \<noteq> []"
    using loop_end_device[OF assms(2), of l err ctx] assms(3,4) by auto
  then show ?thesis using assms(1) by (simp add: ControlRunner_def loop_end_find control_start_def)
qed

definition demo_running :: DeviceManager where
  "demo_running = StartClaimedDevices (NewDeviceManager (Some demo_saved))"

lemma demo_running_device: "\<exists>d. device demo_running ''u1'' = Some d \<and> md_cancel d = Some 0 \<and> md_credentialPath d \<noteq> [] \<and> findLocked [] (trim_space ''u1'') demo_running = Some ''u1''"
proof -
  have "case device demo_running ''u1'' of None \<Rightarrow> False
    | Some d \<Rightarrow> md_cancel d = Some 0 \<and> md_credentialPath d \<noteq> [] \<and> findLocked [] (trim_space ''u1'') demo_running = Some ''u1''" by code_simp
  then show ?thesis by (auto split: option.splits)
qed

theorem dead_loop_is_not_restarted_witness:
  "ControlRunner [] ''u1'' RUNNER_START (loop_end 0 (Some ''closed'') False demo_running) = (None, loop_end 0 (Some ''closed'') False demo_running)"
proof -
  obtain d where d: "device demo_running ''u1'' = Some d" "md_cancel d = Some 0" "md_credentialPath d \<noteq> []" "findLocked [] (trim_space ''u1'') demo_running = Some ''u1''"
    using demo_running_device by blast
  show ?thesis by (rule dead_loop_is_not_restarted[OF d(4,1,2,3)])
qed

text \<open> Unplugging a phone that is ready leaves it reported as ready without a control link: the loop's own notice that the link went
  down is then ignored, and the prober, which looks at installed devices only, passes over it.\<close>

theorem unplugged_device_stays_ready:
  assumes "gomap_wf (dm_devices m)" "device m u = Some d" "md_present d" "md_wdaState d = WDA_READY"
  shows "\<exists>d'. device (onDeviceState u False (detach u m)) u = Some d' \<and> md_wdaState d' = WDA_READY \<and> \<not> md_deviceControlOn d'
     \<and> u \<notin> set (probe_targets (onDeviceState u False (detach u m)))"
proof -
  let ?d = "d\<lparr> md_present := False, md_deviceControlOn := False \<rparr>" and ?m = "detach u m"
  have dev: "device ?m u = Some ?d" using assms(2,3) by (simp add: detach_def device_upd)
  then have same: "onDeviceState u False ?m = ?m" by (simp add: onDeviceState_def)
  have wf: "gomap_wf (dm_devices ?m)" using assms(1-3) by (simp add: detach_def changed_def markDirtyLocked_def reportLocked_def)
  have "u \<notin> set (probe_targets ?m)"
  proof
    assume "u \<in> set (probe_targets ?m)"
    then obtain e where "(u, e) \<in> set (dm_devices ?m)" "md_wdaState e = WDA_INSTALLED" by (auto simp: probe_targets_def)
    moreover from this(1) have "device ?m u = Some e" using wf by (simp add: device_def gomap_wf_def)
    moreover from this dev have "e = ?d" by simp
    ultimately show False using assms(4) by simp
  qed
  then show ?thesis using dev same assms(4) by simp
qed

theorem unplugged_device_stays_ready_witness:
  "\<exists>m d'. exec dstep (NewDeviceManager (Some demo_saved)) [DStartClaimed, DRescan demo_clock (Inr [(\<lparr> ed_UDID = ''u1'', ed_ConnectionType = ''USB'' \<rparr>, None)]), DState 0 True] = Some m
     \<and> device (onDeviceState ''u1'' False (detach ''u1'' m)) ''u1'' = Some d' \<and> md_wdaState d' = WDA_READY \<and> \<not> md_deviceControlOn d'"
proof -
  let ?es = "[DStartClaimed, DRescan demo_clock (Inr [(\<lparr> ed_UDID = ''u1'', ed_ConnectionType = ''USB'' \<rparr>, None)]), DState 0 True]"
  have "\<exists>m. exec dstep (NewDeviceManager (Some demo_saved)) ?es = Some m \<and> gomap_wf (dm_devices m)
      \<and> (case device m ''u1'' of None \<Rightarrow> False | Some d \<Rightarrow> md_present d \<and> md_wdaState d = WDA_READY)"
    by (rule exec_caseD) code_simp
  then obtain m d where m: "exec dstep (NewDeviceManager (Some demo_saved)) ?es = Some m" "gomap_wf (dm_devices m)" "device m ''u1'' = Some d" "md_present d" "md_wdaState d = WDA_READY"
    by (auto split: option.splits)
  from unplugged_device_stays_ready[OF m(2-5)] m(1) show ?thesis by blast
qed

text \<open>Writing a job's report to its device.\<close>

lemma note_device:
  assumes "findLocked [] (trim_space u) m = Some k" "trim_space u \<noteq> []" "device m k = Some d"
  shows "device (noteWdaState u f m) k = Some (f d)" "findLocked [] (trim_space u) (noteWdaState u f m) = Some k"
proof -
  have "device (noteWdaState u f m) v = (if v = k then Some (f d) else device m v)" for v
    using assms by (simp add: noteWdaState_def device_upd)
  then show "device (noteWdaState u f m) k = Some (f d)" "findLocked [] (trim_space u) (noteWdaState u f m) = Some k"
    using assms by (auto simp: findLocked_def device_def Let_def split: if_splits)
qed

text \<open> When a job installed the runner but could not verify control, its reason reaches the device with success set, and the device's
  last error is cleared: the reason is in no inventory report.\<close>

theorem launch_failure_reason_lost:
  assumes "jo_installed out" "\<not> outcome_ok out" "findLocked [] (trim_space (wr_udid req)) m = Some k" "trim_space (wr_udid req) \<noteq> []" "device m k = Some d"
  shows "\<exists>d'. device (NoteWdaJobResult (device_outcome req out) m) k = Some d' \<and> md_lastError d' = [] \<and> md_wdaState d' \<in> {WDA_READY, WDA_INSTALLED}"
proof -
  have u: "dr_udid (device_outcome req out) = wr_udid req" by (simp add: device_outcome_def)
  show ?thesis unfolding NoteWdaJobResult_def u
    using note_device(1)[OF assms(3-5), of "result_update (device_outcome req out)"] assms(1) by (auto simp: result_update_def device_outcome_def Let_def)
qed

theorem launch_failure_reason_lost_witness:
  "\<exists>d'. device (NoteWdaJobResult (device_outcome (demo_wda_request ''j1'') (fail_at WAITING_READY ''wda_unreachable'' demo_wda_error True (no_outcome\<lparr> jo_installed := True \<rparr>))) demo_running) ''u1'' = Some d'
     \<and> md_lastError d' = []"
proof -
  obtain d where d: "device demo_running ''u1'' = Some d" "findLocked [] (trim_space ''u1'') demo_running = Some ''u1''" using demo_running_device by blast
  let ?out = "fail_at WAITING_READY ''wda_unreachable'' demo_wda_error True (no_outcome\<lparr> jo_installed := True \<rparr>)"
  have "jo_installed ?out" "\<not> outcome_ok ?out" "wr_udid (demo_wda_request ''j1'') = ''u1''" "trim_space ''u1'' \<noteq> []" by code_simp+
  with launch_failure_reason_lost[of ?out "demo_wda_request ''j1''" demo_running "''u1''" d] d show ?thesis by auto
qed

text \<open> A renewal job on a device that is ready, cancelled before it installs, leaves the device reported as having no runner, although
  it still has a working one.\<close>

theorem cancelled_renewal_forgets_runner:
  assumes "findLocked [] (trim_space (wr_udid req)) m = Some k" "trim_space (wr_udid req) \<noteq> []" "device m k = Some d" "md_wdaState d = WDA_READY"
    and "jo_errCode out = ''cancelled''" "\<not> jo_installed out"
  shows "\<exists>d'. device (NoteWdaJobResult (device_outcome req out) (NoteWdaJobStarted (wr_udid req) m)) k = Some d' \<and> md_wdaState d' = WDA_MISSING"
proof -
  have u: "dr_udid (device_outcome req out) = wr_udid req" by (simp add: device_outcome_def)
  note s = note_device[OF assms(1-3), of "\<lambda>d. d\<lparr> md_wdaState := WDA_PREPARING, md_wdaProgress := 0, md_wdaStage := ''queued'' \<rparr>"]
  show ?thesis unfolding NoteWdaJobResult_def NoteWdaJobStarted_def u
    using note_device(1)[OF s(2) assms(2) s(1), of "result_update (device_outcome req out)"] assms(5,6) by (auto simp: result_update_def device_outcome_def Let_def)
qed

theorem cancelled_renewal_forgets_runner_witness:
  "\<exists>d'. device (NoteWdaJobResult (device_outcome (demo_wda_request ''j1'') (cancelled no_outcome QUEUED)) (NoteWdaJobStarted ''u1'' (onDeviceState ''u1'' True demo_running))) ''u1'' = Some d'
     \<and> md_wdaState d' = WDA_MISSING"
proof -
  have c: "case device (onDeviceState ''u1'' True demo_running) ''u1'' of None \<Rightarrow> False | Some d \<Rightarrow> md_wdaState d = WDA_READY"
      "findLocked [] (trim_space ''u1'') (onDeviceState ''u1'' True demo_running) = Some ''u1''" "trim_space ''u1'' \<noteq> []"
      "jo_errCode (cancelled no_outcome QUEUED) = ''cancelled''" "\<not> jo_installed (cancelled no_outcome QUEUED)" "wr_udid (demo_wda_request ''j1'') = ''u1''" by code_simp+
  from c(1) obtain d where "device (onDeviceState ''u1'' True demo_running) ''u1'' = Some d" "md_wdaState d = WDA_READY" by (auto split: option.splits)
  with cancelled_renewal_forgets_runner[of "demo_wda_request ''j1''" "onDeviceState ''u1'' True demo_running" "''u1''" d "cancelled no_outcome QUEUED"] c(2-)
  show ?thesis by simp
qed

section \<open>The device list across a restart\<close>

lemma Upsert_distinct: "distinct (map dc_UDID ds) \<Longrightarrow> dc_UDID d \<noteq> [] \<Longrightarrow> distinct (map dc_UDID (Upsert d ds)) \<and> set (Upsert d ds) \<subseteq> insert d (set ds)"
  by (induction ds) (auto simp: matches_device_def)

lemma Upsert_mem: "d \<in> set (Upsert d ds)"
  by (induction ds) auto

lemma adopt_mem:
  assumes "distinct (map dc_UDID ds)" "d \<in> set ds" "trim_space (dc_UDID d) \<noteq> []"
  shows "mget (adoptConfiguredDevices (Some ds)) (dc_UDID d) = Some (adopted_device d)"
proof -
  let ?f = "\<lambda>d m. if trim_space (dc_UDID d) = [] then m else mput (dc_UDID d) (adopted_device d) m"
  have skip: "dc_UDID d \<notin> dc_UDID ` set xs \<Longrightarrow> mget (fold ?f xs m) (dc_UDID d) = mget m (dc_UDID d)" for xs m
    by (induction xs arbitrary: m) auto
  have "mget (fold ?f ds m) (dc_UDID d) = Some (adopted_device d)" for m
    using assms(1,2)
  proof (induction ds arbitrary: m)
    case (Cons x xs)
    show ?case
    proof (cases "x = d")
      case True
      then have "dc_UDID d \<notin> dc_UDID ` set xs" using Cons.prems by auto
      then show ?thesis using True assms(3) skip by simp
    next
      case False
      then show ?thesis using Cons by simp
    qed
  qed simp
  then show ?thesis by (simp add: adoptConfiguredDevices_def)
qed

lemma start_device:
  assumes "device n u = Some e" "md_cancel e = None" "\<not> dm_stopped n"
  shows "device (startDeviceLocked u n) u = Some (e\<lparr> md_cancel := Some (length (dm_loops n)) \<rparr>)" "dm_saved (startDeviceLocked u n) = dm_saved n"
  using assms by (simp_all add: startDeviceLocked_def device_upd) (simp add: upd_device_def split: option.split)

text \<open> What a claim stores survives a restart: a manager started from the device list written by a successful claim has the device as
  claimed, with the same credential, name, transport and port.\<close>

theorem claim_survives_restart:
  assumes "device m u = Some d" "md_udid d = u" "dm_saved m = Some ds" "distinct (map dc_UDID ds)" "trim_space u \<noteq> []" "trim_space name \<noteq> []"
    and "md_cancel d = None" "\<not> dm_stopped m" "m' = claim_end configPath (u, name, req) (Inr deviceID) m"
  shows "\<exists>d' a. device m' u = Some d' \<and> md_claimed d' \<and> device (NewDeviceManager (dm_saved m')) u = Some a \<and> md_name a = md_name d' \<and> md_transport a = md_transport d'
     \<and> md_hostWDAPort a = md_hostWDAPort d' \<and> md_credentialPath a = md_credentialPath d' \<and> md_claimed a = (md_credentialPath d' \<noteq> [])"
proof -
  let ?e = "claimed_device req name (DefaultCredentialPath configPath name) deviceID d"
  let ?n = "upd_device u (claimed_device req name (DefaultCredentialPath configPath name) deviceID) (m\<lparr> dm_claims := remove1 (u, name, req) (dm_claims m) \<rparr>)"
  let ?c = "\<lparr> dc_Name = first_non_empty [md_name ?e, md_udid ?e], dc_UDID = md_udid ?e, dc_Transport = md_transport ?e, dc_WDABundle = md_wdaBundle ?e, dc_XCTest = md_xctest ?e,
      dc_WDAPort = md_hostWDAPort ?e, dc_CredentialPath = md_credentialPath ?e \<rparr>"
  have e: "md_udid ?e = u" "md_name ?e = name" "md_cancel ?e = None" "md_claimed ?e" using assms(2,7) by (simp_all add: claimed_device_def)
  have n: "device ?n u = Some ?e" using assms(1) by (simp add: device_upd)
  have ns: "dm_saved ?n = Some ds" using assms(1,3) by (simp add: upd_device_def device_def)
  have p: "dm_saved (persistLocked u ?n) = Some (Upsert ?c ds)" using n ns by (simp add: persistLocked_def)
  have stop: "dm_stopped (persistLocked u ?n) = dm_stopped m" by (simp add: persistLocked_def split: option.split)
  have m': "m' = changed (startDeviceLocked u (persistLocked u ?n))" using assms(9) by (simp add: claim_end_def Let_def)
  have dev: "device m' u = Some (?e\<lparr> md_cancel := Some (length (dm_loops (persistLocked u ?n))) \<rparr>)"
    using start_device(1)[of "persistLocked u ?n" u ?e] n e(3) assms(8) stop by (simp add: m')
  have saved: "dm_saved m' = Some (Upsert ?c ds)"
    using start_device(2)[of "persistLocked u ?n" u ?e] n e(3) assms(8) stop p by (simp add: m' changed_def markDirtyLocked_def reportLocked_def)
  have "dc_UDID ?c \<noteq> []" "trim_space (dc_UDID ?c) \<noteq> []" using assms(5) e(1) by auto
  then have "mget (adoptConfiguredDevices (Some (Upsert ?c ds))) u = Some (adopted_device ?c)"
    using adopt_mem[of "Upsert ?c ds" ?c] Upsert_distinct[OF assms(4), of ?c] Upsert_mem[of ?c ds] e(1) by simp
  then have "device (NewDeviceManager (dm_saved m')) u = Some (adopted_device ?c)" unfolding saved by (simp add: device_def NewDeviceManager_def)
  moreover have "first_non_empty [name, u] = name" using assms(6) by (simp add: first_non_empty_def)
  ultimately show ?thesis using dev e by (simp add: adopted_device_def)
qed

definition demo_claim :: "string \<Rightarrow> NodeIosClaimDevice" where
  "demo_claim u = \<lparr> cl_udid = u, cl_pairing_code = ''123456'', cl_server_url = ''https://s'', cl_device_label = ''My phone'', cl_transport = [], cl_wda_bundle_id = [],
     cl_xctest_config_name = [], cl_config_revision = 1 \<rparr>"

definition demo_found :: DeviceManager where
  "demo_found = snd (claim_begin (demo_claim ''u2'') (Rescan demo_clock (Inr [(\<lparr> ed_UDID = ''u2'', ed_ConnectionType = ''USB'' \<rparr>, None)]) (NewDeviceManager (Some []))))"

theorem claim_survives_restart_witness:
  "\<exists>d' a. device (claim_end ''/n/devices.json'' (''u2'', ''My phone'', demo_claim ''u2'') (Inr ''dev-7'') demo_found) ''u2'' = Some d' \<and> md_claimed d'
     \<and> device (NewDeviceManager (dm_saved (claim_end ''/n/devices.json'' (''u2'', ''My phone'', demo_claim ''u2'') (Inr ''dev-7'') demo_found))) ''u2'' = Some a
     \<and> md_credentialPath a = md_credentialPath d'"
proof -
  have c: "case device demo_found ''u2'' of None \<Rightarrow> False | Some d \<Rightarrow> md_udid d = ''u2'' \<and> md_cancel d = None" "dm_saved demo_found = Some []"
      "\<not> dm_stopped demo_found" "trim_space ''u2'' \<noteq> []" "trim_space ''My phone'' \<noteq> []" by code_simp+
  from c(1) obtain d where d: "device demo_found ''u2'' = Some d" "md_udid d = ''u2''" "md_cancel d = None" by (auto split: option.splits)
  have dist: "distinct (map dc_UDID [])" by simp
  from claim_survives_restart[OF d(1,2) c(2) dist c(4,5) d(3) c(3) refl, of "''/n/devices.json''" "demo_claim ''u2''" "''dev-7''"] show ?thesis by blast
qed

text \<open> The credential file is named after the label alone: of two devices claimed under labels that make the same file name, releasing
  one with its credential removes the file the other, still claimed, depends on.\<close>

theorem shared_label_loses_credential:
  assumes "findLocked i u m = Some u" "device m u = Some d" "device m v = Some e" "u \<noteq> v" "md_claimed e" "sanitizeFileName n = sanitizeFileName n'"
    and "md_credentialPath d = DefaultCredentialPath p n" "md_credentialPath e = DefaultCredentialPath p n'" "md_credentialPath d \<noteq> []"
  shows "device (snd (Release i u True m)) v = Some e \<and> md_credentialPath e \<in> set (dm_deleted (snd (Release i u True m)))"
proof -
  have "md_credentialPath d = md_credentialPath e" using assms(6-8) by (simp add: DefaultCredentialPath_def)
  then show ?thesis using assms(1-4,9) by (simp add: Release_def Let_def device_upd)
qed

definition demo_twin :: "string \<Rightarrow> DeviceConfig" where
  "demo_twin u = \<lparr> dc_Name = ''My phone'', dc_UDID = u, dc_Transport = ''usb'', dc_WDABundle = [], dc_XCTest = [], dc_WDAPort = 8100,
     dc_CredentialPath = ''/n/credentials/My_phone.json'' \<rparr>"

definition demo_twins :: DeviceManager where
  "demo_twins = NewDeviceManager (Some [demo_twin ''u2'', demo_twin ''u3''])"

theorem shared_label_loses_credential_witness:
  "\<exists>e. device (snd (Release [] ''u2'' True demo_twins)) ''u3'' = Some e \<and> md_claimed e \<and> md_credentialPath e \<in> set (dm_deleted (snd (Release [] ''u2'' True demo_twins)))"
proof -
  have p: "DefaultCredentialPath ''/n/devices.json'' ''My phone'' = ''/n/credentials/My_phone.json''" by code_simp
  have c: "case (device demo_twins ''u2'', device demo_twins ''u3'') of
       (Some d, Some e) \<Rightarrow> md_claimed e \<and> md_credentialPath d = ''/n/credentials/My_phone.json'' \<and> md_credentialPath e = ''/n/credentials/My_phone.json''
     | _ \<Rightarrow> False" "findLocked [] ''u2'' demo_twins = Some ''u2''" by code_simp+
  from c(1) obtain d e where d: "device demo_twins ''u2'' = Some d" "device demo_twins ''u3'' = Some e" "md_claimed e"
      "md_credentialPath d = DefaultCredentialPath ''/n/devices.json'' ''My phone''" "md_credentialPath e = DefaultCredentialPath ''/n/devices.json'' ''My phone''" "md_credentialPath d \<noteq> []"
    unfolding p by (auto split: option.splits)
  from shared_label_loses_credential[OF c(2) d(1,2) _ d(3) refl d(4,5,6)] d(3) show ?thesis by auto
qed

end
