(* ===== verification/Proto_Text.thy ===== *)
theory Proto_Text
  imports Go_Paths
begin

text \<open>
  Repairing text before it is put into a frame: \<^verbatim>\<open>common/agent/prototext.go\<close>.

  A protobuf message is the list of its populated fields, by name; reflection hands them to the code one by one.  Package
  \<^verbatim>\<open>unicode/utf8\<close> is expressed with the decoding into runes of \<open>Go_Paths\<close>.  The GBK decoder is third-party code and an argument:
  its result, or \<open>None\<close> when it reports an error.
\<close>

section \<open>Text\<close>

definition valid_rune :: "string \<Rightarrow> bool" where
  "valid_rune r \<longleftrightarrow> 1 < length r \<or> (case r of [c] \<Rightarrow> is_ascii c | _ \<Rightarrow> False)"

definition ValidString :: "string \<Rightarrow> bool" where
  "ValidString s \<longleftrightarrow> list_all valid_rune (runes s)"

definition replacement :: string where
  "replacement = bytes_of [239, 191, 189]"

text \<open>\<^verbatim>\<open>strings.ToValidUTF8\<close>: each run of invalid bytes becomes one replacement character.\<close>

fun to_valid :: "bool \<Rightarrow> string list \<Rightarrow> string" where
  "to_valid bad [] = []"
| "to_valid bad (r # rs) = (if valid_rune r then r @ to_valid False rs else (if bad then [] else replacement) @ to_valid True rs)"

definition ToValidUTF8 :: "string \<Rightarrow> string" where
  "ToValidUTF8 s = to_valid False (runes s)"

definition SanitizeUTF8 :: "(string \<Rightarrow> string option) \<Rightarrow> string \<Rightarrow> string" where
  "SanitizeUTF8 gbk s =
    (if s = [] \<or> ValidString s then s
     else case gbk s of
         Some decoded \<Rightarrow> if ValidString decoded then decoded else ToValidUTF8 s
       | None \<Rightarrow> ToValidUTF8 s)"

section \<open>Messages\<close>

datatype proto_value =
    PString string
  | PBytes string
  | PNumber int
  | PBool bool
  | PMessage "(string \<times> proto_value) list"
  | PStrings "string list"
  | PMessages "(string \<times> proto_value) list list"
  | PStringMap "(string \<times> string) list"
  | PMessageMap "(string \<times> (string \<times> proto_value) list) list"

type_synonym proto_message = "(string \<times> proto_value) list"

fun sanitize_value :: "(string \<Rightarrow> string option) \<Rightarrow> proto_value \<Rightarrow> proto_value" where
  "sanitize_value gbk (PString s) = PString (SanitizeUTF8 gbk s)"
| "sanitize_value gbk (PStrings ss) = PStrings (map (SanitizeUTF8 gbk) ss)"
| "sanitize_value gbk (PStringMap kvs) = PStringMap (map (\<lambda>(k, s). (k, SanitizeUTF8 gbk s)) kvs)"
| "sanitize_value gbk (PMessage fs) = PMessage (map (\<lambda>(n, v). (n, sanitize_value gbk v)) fs)"
| "sanitize_value gbk v = v"

definition SanitizeProtoStrings :: "(string \<Rightarrow> string option) \<Rightarrow> proto_message \<Rightarrow> proto_message" where
  "SanitizeProtoStrings gbk fs = map (\<lambda>(n, v). (n, sanitize_value gbk v)) fs"

text \<open>What \<^verbatim>\<open>proto.Marshal\<close> requires: every string of the message, wherever it is, is valid.\<close>

fun marshals_value :: "proto_value \<Rightarrow> bool" where
  "marshals_value (PString s) = ValidString s"
| "marshals_value (PStrings ss) = list_all ValidString ss"
| "marshals_value (PStringMap kvs) = list_all (\<lambda>(k, s). ValidString k \<and> ValidString s) kvs"
| "marshals_value (PMessage fs) = list_all (\<lambda>(n, v). marshals_value v) fs"
| "marshals_value (PMessages ms) = list_all (\<lambda>fs. list_all (\<lambda>(n, v). marshals_value v) fs) ms"
| "marshals_value (PMessageMap kvs) = list_all (\<lambda>(k, fs). ValidString k \<and> list_all (\<lambda>(n, v). marshals_value v) fs) kvs"
| "marshals_value v = True"

definition marshals :: "proto_message \<Rightarrow> bool" where
  "marshals fs = list_all (\<lambda>(n, v). marshals_value v) fs"

text \<open>The strings the walk does not reach: the keys of maps, and everything below a repeated message or a map of messages.\<close>

fun unwalked_value :: "proto_value \<Rightarrow> bool" where
  "unwalked_value (PStringMap kvs) = list_all (\<lambda>(k, s). ValidString k) kvs"
| "unwalked_value (PMessage fs) = list_all (\<lambda>(n, v). unwalked_value v) fs"
| "unwalked_value (PMessages ms) = marshals_value (PMessages ms)"
| "unwalked_value (PMessageMap kvs) = marshals_value (PMessageMap kvs)"
| "unwalked_value v = True"

section \<open>Repaired text is valid\<close>

text \<open>The byte sequences of two, three and four bytes, which exclude each other by their first byte.\<close>

definition two_bytes :: "char \<Rightarrow> char \<Rightarrow> bool" where
  "two_bytes b0 b1 \<longleftrightarrow> byte_in 194 223 b0 \<and> byte_in 128 191 b1"

definition three_bytes :: "char \<Rightarrow> char \<Rightarrow> char \<Rightarrow> bool" where
  "three_bytes b0 b1 b2 \<longleftrightarrow> (byte_in 224 224 b0 \<and> byte_in 160 191 b1 \<or> (byte_in 225 236 b0 \<or> byte_in 238 239 b0) \<and> byte_in 128 191 b1
     \<or> byte_in 237 237 b0 \<and> byte_in 128 159 b1) \<and> byte_in 128 191 b2"

definition four_bytes :: "char \<Rightarrow> char \<Rightarrow> char \<Rightarrow> char \<Rightarrow> bool" where
  "four_bytes b0 b1 b2 b3 \<longleftrightarrow> (byte_in 240 240 b0 \<and> byte_in 144 191 b1 \<or> byte_in 241 243 b0 \<and> byte_in 128 191 b1
     \<or> byte_in 244 244 b0 \<and> byte_in 128 143 b1) \<and> byte_in 128 191 b2 \<and> byte_in 128 191 b3"

lemma bytes_exclude: "three_bytes b0 b1 b2 \<Longrightarrow> \<not> two_bytes b0 c1" "four_bytes b0 b1 b2 b3 \<Longrightarrow> \<not> two_bytes b0 c1 \<and> \<not> three_bytes b0 c1 c2"
  unfolding two_bytes_def three_bytes_def four_bytes_def byte_in_def by presburger+

lemma rune_len_bytes:
  "rune_len (b0 # b1 # b2 # b3 # q) = (if two_bytes b0 b1 then 2 else if three_bytes b0 b1 b2 then 3 else if four_bytes b0 b1 b2 b3 then 4 else 1)"
  "rune_len [b0, b1, b2] = (if two_bytes b0 b1 then 2 else if three_bytes b0 b1 b2 then 3 else 1)"
  "rune_len [b0, b1] = (if two_bytes b0 b1 then 2 else 1)" "rune_len [b0] = 1" "rune_len [] = 0"
  by (simp_all add: rune_len_def Let_def two_bytes_def three_bytes_def four_bytes_def) satx+

lemma list_by_four:
  obtains "s = []" | b0 where "s = [b0]" | b0 b1 where "s = [b0, b1]" | b0 b1 b2 where "s = [b0, b1, b2]" | b0 b1 b2 b3 q where "s = b0 # b1 # b2 # b3 # q"
  by (metis neq_Nil_conv)

lemma rune_len_le: "rune_len s \<le> length s"
  by (cases s rule: list_by_four) (simp_all add: rune_len_bytes)

lemma rune_len_two: "two_bytes b0 b1 \<Longrightarrow> rune_len (b0 # b1 # t) = 2"
  by (cases t rule: list_by_four) (simp_all add: rune_len_bytes)

lemma rune_len_three: "three_bytes b0 b1 b2 \<Longrightarrow> rune_len (b0 # b1 # b2 # t) = 3"
  using bytes_exclude(1)[of b0 b1 b2 b1] by (cases t rule: list_by_four) (simp_all add: rune_len_bytes)

lemma rune_len_four: "four_bytes b0 b1 b2 b3 \<Longrightarrow> rune_len (b0 # b1 # b2 # b3 # t) = 4"
  using bytes_exclude(2)[of b0 b1 b2 b3 b1 b2] by (simp add: rune_len_bytes)

lemma rune_len_append: "1 < rune_len s \<Longrightarrow> rune_len (take (rune_len s) s @ t) = rune_len s"
  by (cases s rule: list_by_four) (auto simp: rune_len_bytes rune_len_two rune_len_three rune_len_four split: if_splits)

lemma runes_step: "s \<noteq> [] \<Longrightarrow> runes s = take (rune_len s) s # runes (drop (rune_len s) s)"
  by (subst runes.simps) simp

lemma runes_valid_append: "s \<noteq> [] \<Longrightarrow> valid_rune (take (rune_len s) s) \<Longrightarrow> runes (take (rune_len s) s @ t) = take (rune_len s) s # runes t"
proof -
  assume ne: "s \<noteq> []" and v: "valid_rune (take (rune_len s) s)"
  let ?r = "take (rune_len s) s"
  have l: "length ?r = rune_len s" using rune_len_le[of s] by simp
  show ?thesis
  proof (cases "1 < rune_len s")
    case True
    then show ?thesis using runes_step[of "?r @ t"] rune_len_append[OF True, of t] ne l by simp
  next
    case False
    then have one: "rune_len s = 1" using rune_len_pos[OF ne] by linarith
    then obtain c where c: "?r = [c]" using l by (metis One_nat_def length_0_conv length_Suc_conv)
    then have "is_ascii c" using v by (simp add: valid_rune_def)
    then show ?thesis using runes_ascii_Cons[of c t] c by simp
  qed
qed

lemma runes_replacement: "runes (replacement @ t) = replacement # runes t"
proof -
  have n: "rune_len replacement = 3" by code_simp
  have v: "valid_rune (take (rune_len replacement) replacement)" by code_simp
  have "take (rune_len replacement) replacement = replacement" unfolding n by (simp add: replacement_def bytes_of_def)
  then show ?thesis using runes_valid_append[of replacement t] v by (simp add: replacement_def bytes_of_def)
qed

lemma valid_replacement: "valid_rune replacement"
  by code_simp

text \<open>The runes of a string are what the decoder cuts off it.\<close>

lemma runes_mem: "r \<in> set (runes s) \<Longrightarrow> \<exists>u. u \<noteq> [] \<and> r = take (rune_len u) u"
proof (induction s rule: runes.induct)
  case (1 s)
  show ?case
  proof (cases "s = []")
    case True
    then show ?thesis using 1 by simp
  next
    case False
    then have "r = take (rune_len s) s \<or> r \<in> set (runes (drop (rune_len s) s))" using "1.prems" runes_step[OF False] by simp
    then show ?thesis using 1(1)[OF False] False by blast
  qed
qed

lemma to_valid_valid: "\<forall>r \<in> set rs. \<exists>u. u \<noteq> [] \<and> r = take (rune_len u) u \<Longrightarrow> list_all valid_rune (runes (to_valid bad rs))"
proof (induction rs arbitrary: bad)
  case (Cons r rs)
  then obtain u where u: "u \<noteq> []" "r = take (rune_len u) u" by auto
  show ?case
  proof (cases "valid_rune r")
    case True
    then show ?thesis using Cons runes_valid_append[OF u(1), of "to_valid False rs"] u by simp
  next
    case False
    then show ?thesis using Cons by (simp add: runes_replacement valid_replacement)
  qed
qed simp

lemma ValidString_ToValidUTF8: "ValidString (ToValidUTF8 s)"
  unfolding ValidString_def ToValidUTF8_def using to_valid_valid runes_mem by blast

lemma ValidString_Nil [simp]: "ValidString []"
  by (simp add: ValidString_def)

lemma ValidString_SanitizeUTF8 [simp]: "ValidString (SanitizeUTF8 gbk s)"
  by (auto simp: SanitizeUTF8_def ValidString_ToValidUTF8 split: option.split)

lemma SanitizeUTF8_id: "ValidString s \<Longrightarrow> SanitizeUTF8 gbk s = s"
  by (simp add: SanitizeUTF8_def)

lemma sanitize_marshals: "marshals_value (sanitize_value gbk v) = unwalked_value v"
proof (induction gbk v rule: sanitize_value.induct)
  case (4 gbk fs)
  then show ?case by (auto simp: list_all_iff split: prod.splits)
qed (auto simp: list_all_iff split: prod.splits)

lemma sanitize_value_id: "marshals_value v \<Longrightarrow> sanitize_value gbk v = v"
proof (induction gbk v rule: sanitize_value.induct)
  case (4 gbk fs)
  then show ?case by (auto simp: list_all_iff intro!: map_idI split: prod.splits)
qed (auto simp: list_all_iff SanitizeUTF8_id intro!: map_idI split: prod.splits)

section \<open>Properties\<close>

text \<open> \<^bold>\<open>C25\<close>. A frame can be sent after the repair exactly when the strings the walk does not reach were valid: map keys and whatever is
  below a repeated message or a map of messages.  A frame that was fine is left as it is.\<close>

theorem frame_repair_exact:
  "(marshals (SanitizeProtoStrings gbk fs) \<longleftrightarrow> list_all (\<lambda>(n, v). unwalked_value v) fs) \<and> (marshals fs \<longrightarrow> SanitizeProtoStrings gbk fs = fs)"
proof -
  have "marshals (SanitizeProtoStrings gbk fs) \<longleftrightarrow> list_all (\<lambda>(n, v). unwalked_value v) fs"
    by (simp add: marshals_def SanitizeProtoStrings_def list_all_iff sanitize_marshals split: prod.splits)
  moreover have "SanitizeProtoStrings gbk fs = fs" if "marshals fs"
    using that by (auto simp: marshals_def SanitizeProtoStrings_def list_all_iff sanitize_value_id intro!: map_idI split: prod.splits)
  ultimately show ?thesis by blast
qed

text \<open>An npm error in the console code page, as one field and as a field of a repeated message.\<close>

definition gbk_text :: string where
  "gbk_text = bytes_of [110, 112, 109, 32, 180, 237]"

theorem frame_repair_exact_witness:
  "marshals (SanitizeProtoStrings (\<lambda>s. None) [(''error'', PString gbk_text)]) \<and> \<not> marshals [(''error'', PString gbk_text)]"
proof -
  have "\<not> ValidString gbk_text" by code_simp
  then show ?thesis using frame_repair_exact[of "\<lambda>s. None" "[(''error'', PString gbk_text)]"] by (simp add: marshals_def)
qed

text \<open> \<^bold>\<open>C40\<close>. One invalid byte in a list of messages, such as the inventory of an acknowledgement, leaves the whole frame unsendable after
  the repair, whatever the decoder does.\<close>

theorem list_entry_breaks_frame:
  assumes "(n, PMessages ms) \<in> set fs" "m \<in> set ms" "(k, PString s) \<in> set m" "\<not> ValidString s"
  shows "\<not> marshals (SanitizeProtoStrings gbk fs)"
proof -
  have "\<not> list_all (\<lambda>(n, v). marshals_value v) m" using assms(3,4) by (force simp: list_all_iff)
  then have bad: "\<not> unwalked_value (PMessages ms)" using assms(2) by (auto simp: list_all_iff)
  then have "\<not> list_all (\<lambda>(n, v). unwalked_value v) fs" using assms(1) unfolding list_all_iff by blast
  then show ?thesis by (simp add: marshals_def SanitizeProtoStrings_def list_all_iff sanitize_marshals split: prod.splits)
qed

theorem list_entry_breaks_frame_witness:
  "\<not> marshals (SanitizeProtoStrings (\<lambda>s. Some ''npm'') [(''system_env_inventory'', PMessages [[(''name'', PString gbk_text)]])])"
proof -
  have "\<not> ValidString gbk_text" by code_simp
  from list_entry_breaks_frame[OF _ _ _ this, of "''system_env_inventory''" "[[(''name'', PString gbk_text)]]" _ "[(''name'', PString gbk_text)]" "''name''"]
  show ?thesis by simp
qed

end
