(* ===== verification/Node_Client.thy ===== *)
theory Node_Client
  imports Totp Machines Proto_Text
begin

text \<open>
  The connection of a node to its server: \<^verbatim>\<open>common/agent/client.go\<close>, with the address lookup of \<^verbatim>\<open>netinfo.go\<close>.

  The goroutine of \<^verbatim>\<open>Run\<close> is a program counter through \<^verbatim>\<open>serve\<close>; heartbeats, address lookups and the emitters of the handler
  interleave with it at the critical sections of the client's lock.  A stream is the list of frames handed to it.  What the network
  answers, what the host probes find and what the handler reports are inputs of the steps; \<open>gbk\<close> is the decoder of \<open>Proto_Text\<close>.
\<close>

section \<open>State\<close>

record Options =
  op_Server :: string
  op_NodeID :: string
  op_Secret :: string
  op_NodeName :: string
  op_Role :: string
  op_Version :: string
  op_Providers :: "string list"
  op_Labels :: "(string, string) gomap"
  op_SystemEnvAllowed :: bool
  op_IosMgmtAllowed :: bool
  op_IosMgmtMode :: string
  op_WorkRoot :: string
  op_MinBackoff :: int
  op_MaxBackoff :: int

text \<open>What probing the host yields.\<close>

record host_facts =
  hf_os :: string
  hf_arch :: string
  hf_docker :: bool
  hf_editors :: "proto_message list"
  hf_system_labels :: "(string, string) gomap"
  hf_network_labels :: "(string, string) gomap"
  hf_editor_labels :: "(string, string) gomap"
  hf_tool_labels :: "(string, string) gomap"
  hf_usbmuxd :: bool
  hf_startup_method :: string

datatype NodeStatus = STATUS_UNSPECIFIED | PENDING | APPROVED | REVOKED

record publicIPState =
  pi_configRevision :: "64 word"
  pi_ipv4URLs :: "string list"
  pi_ipv6URLs :: "string list"
  pi_ipv4 :: string
  pi_ipv6 :: string
  pi_ipv4ResolvedAt :: string
  pi_ipv6ResolvedAt :: string
  pi_ipv4Disabled :: bool
  pi_ipv6Disabled :: bool

record proxyState =
  px_revision :: "64 word"
  px_proxyMode :: string
  px_proxyURL :: string
  px_proxyURLPrefix :: string

datatype client_frame = Register proto_message | Heartbeat proto_message | Frame proto_message

record node_stream =
  sn_sent :: "client_frame list"
  sn_acked :: bool
  sn_beating :: bool
  sn_cancelled :: bool

text \<open>Where the connection goroutine is, with the stream it serves.\<close>

datatype serve_pc = Attempt | AwaitHello nat | SendRegister nat gotime | AwaitAck nat | Acked nat NodeStatus | Serving nat
  | StopHandler nat | CloseGate nat | ClearStream nat | Sleeping

record Client =
  nc_opts :: Options
  nc_nodeID :: string
  nc_currentStream :: "nat option"
  nc_registered :: bool
  nc_approved :: bool
  nc_publicIP :: publicIPState
  nc_publicIPWake :: bool
  nc_proxy :: proxyState
  nc_gatewayOrigin :: string
  nc_streams :: "node_stream list"
  nc_pc :: serve_pc
  nc_backoff :: int
  nc_waited :: "int list"
  nc_lookups :: "(64 word \<times> bool) list"
  nc_handled :: "string list"
  nc_stops :: nat

definition NewClient :: "Options \<Rightarrow> Client" where
  "NewClient opts = \<lparr> nc_opts = opts, nc_nodeID = [], nc_currentStream = None, nc_registered = False, nc_approved = False,
     nc_publicIP = \<lparr> pi_configRevision = 0, pi_ipv4URLs = [], pi_ipv6URLs = [], pi_ipv4 = [], pi_ipv6 = [], pi_ipv4ResolvedAt = [], pi_ipv6ResolvedAt = [],
       pi_ipv4Disabled = False, pi_ipv6Disabled = False \<rparr>,
     nc_publicIPWake = False, nc_proxy = \<lparr> px_revision = 0, px_proxyMode = [], px_proxyURL = [], px_proxyURLPrefix = [] \<rparr>, nc_gatewayOrigin = [],
     nc_streams = [], nc_pc = Attempt, nc_backoff = op_MinBackoff opts, nc_waited = [], nc_lookups = [], nc_handled = [], nc_stops = 0 \<rparr>"

section \<open>Capabilities\<close>

definition normalizeIosMgmt :: "string \<Rightarrow> string" where
  "normalizeIosMgmt v =
    (let m = to_lower (trim_space v) in
     if m \<in> {[], ''auto''} then ''auto'' else if m \<in> {''on'', ''true'', ''1'', ''yes''} then ''on''
     else if m \<in> {''off'', ''false'', ''0'', ''no''} then ''off'' else [])"

definition resolveIosMgmt :: "Options \<Rightarrow> host_facts \<Rightarrow> bool" where
  "resolveIosMgmt opts h = (if normalizeIosMgmt (op_IosMgmtMode opts) = ''auto'' then hf_usbmuxd h else op_IosMgmtAllowed opts)"

definition put_all :: "(string, string) gomap \<Rightarrow> (string, string) gomap \<Rightarrow> (string, string) gomap" where
  "put_all new = fold (\<lambda>(k, v). mput k v) new"

definition capabilityLabels :: "Options \<Rightarrow> host_facts \<Rightarrow> (string, string) gomap" where
  "capabilityLabels opts h =
    (let labels = put_all (hf_tool_labels h) (put_all (hf_editor_labels h) (put_all (hf_network_labels h) (hf_system_labels h)));
         labels = (if trim_space (op_Version opts) \<noteq> [] then mput ''client_version'' (trim_space (op_Version opts)) labels else labels);
         labels = put_all (op_Labels opts) labels;
         labels = mput ''tool_run_runtime_v2'' ''true'' (mput ''tool_run'' ''true'' (mput ''file_upload'' ''true'' (mput ''host_exec'' ''true''
           (mput ''terminal'' ''true'' labels))));
         labels = (if op_SystemEnvAllowed opts then mput ''system_env'' ''true'' labels else labels);
         labels = (if resolveIosMgmt opts h then mput ''ios_mgmt'' ''true'' labels else labels);
         labels = mput ''startup_method'' (hf_startup_method h) labels
     in if trim_space (op_WorkRoot opts) \<noteq> [] then mput ''work_root'' (trim_space (op_WorkRoot opts)) labels else labels)"

definition capabilities :: "Options \<Rightarrow> host_facts \<Rightarrow> proto_value" where
  "capabilities opts h = PMessage [(''os'', PString (hf_os h)), (''arch'', PString (hf_arch h)), (''docker'', PBool (hf_docker h)),
     (''providers'', PStrings (op_Providers opts)), (''editors'', PMessages (hf_editors h)), (''labels'', PStringMap (capabilityLabels opts h))]"

definition nodeRoleToProto :: "string \<Rightarrow> int" where
  "nodeRoleToProto role = (if role = ''management'' then 2 else if role = ''ios_host'' then 4 else 1)"

definition GatewayOrigin :: "Client \<Rightarrow> string" where
  "GatewayOrigin c = (let origin = trim_space (nc_gatewayOrigin c) in
     if origin \<noteq> [] then trim_right origin ''/'' else trim_right (trim_space (op_Server (nc_opts c))) ''/'')"

section \<open>Sending\<close>

definition upd_stream :: "nat \<Rightarrow> (node_stream \<Rightarrow> node_stream) \<Rightarrow> Client \<Rightarrow> Client" where
  "upd_stream n f c = c\<lparr> nc_streams := (nc_streams c)[n := f (nc_streams c ! n)] \<rparr>"

datatype send_error = ErrStreamGone | MarshalFailed | SendFailed

fun message_of :: "client_frame \<Rightarrow> proto_message" where
  "message_of (Register m) = m"
| "message_of (Heartbeat m) = m"
| "message_of (Frame m) = m"

fun map_message :: "(proto_message \<Rightarrow> proto_message) \<Rightarrow> client_frame \<Rightarrow> client_frame" where
  "map_message f (Register m) = Register (f m)"
| "map_message f (Heartbeat m) = Heartbeat (f m)"
| "map_message f (Frame m) = Frame (f m)"

text \<open>\<^verbatim>\<open>stream.Send\<close>: a message that cannot be marshalled never reaches the stream; \<open>ok\<close> is what the transport answers.\<close>

definition send_on :: "nat \<Rightarrow> client_frame \<Rightarrow> bool \<Rightarrow> Client \<Rightarrow> send_error option \<times> Client" where
  "send_on n frame ok c =
    (if \<not> marshals (message_of frame) then (Some MarshalFailed, c)
     else (if ok then None else Some SendFailed, upd_stream n (\<lambda>s. s\<lparr> sn_sent := sn_sent s @ [frame] \<rparr>) c))"

definition EmitUpstream :: "(string \<Rightarrow> string option) \<Rightarrow> client_frame \<Rightarrow> bool \<Rightarrow> Client \<Rightarrow> send_error option \<times> Client" where
  "EmitUpstream gbk frame ok c = (case nc_currentStream c of
      None \<Rightarrow> (Some ErrStreamGone, c)
    | Some n \<Rightarrow> if nc_registered c then send_on n (map_message (SanitizeProtoStrings gbk) frame) ok c else (Some ErrStreamGone, c))"

definition command_ack :: "string \<Rightarrow> string option \<Rightarrow> proto_message \<Rightarrow> proto_message" where
  "command_ack frameID err extra = [(''server_frame_id'', PString frameID), (''ok'', PBool (err = None)),
     (''error'', PString (case err of None \<Rightarrow> [] | Some e \<Rightarrow> e))] @ extra"

definition SendAck :: "string \<Rightarrow> string option \<Rightarrow> proto_message list \<Rightarrow> client_frame" where
  "SendAck frameID err sessions = Frame (command_ack frameID err [(''sessions'', PMessages sessions)])"

definition SendConfigAck :: "string \<Rightarrow> string option \<Rightarrow> 64 word \<Rightarrow> 64 word \<Rightarrow> bool \<Rightarrow> client_frame" where
  "SendConfigAck frameID err applied effective restart = Frame (command_ack frameID err
     [(''applied_revision'', PNumber (uint applied)), (''effective_revision'', PNumber (uint effective)), (''restart_required'', PBool restart)])"

definition SendEditorAck :: "string \<Rightarrow> string option \<Rightarrow> string \<Rightarrow> client_frame" where
  "SendEditorAck frameID err version = Frame (command_ack frameID err [(''editor_version'', PString version)])"

definition SendHostToolAck :: "string \<Rightarrow> string option \<Rightarrow> string \<Rightarrow> string \<Rightarrow> string \<Rightarrow> client_frame" where
  "SendHostToolAck frameID err node npm xcodebuild = Frame (command_ack frameID err
     [(''node_version'', PString node), (''npm_version'', PString npm), (''xcodebuild_version'', PString xcodebuild)])"

definition SendRefreshLabelsAck :: "string \<Rightarrow> string option \<Rightarrow> proto_value \<Rightarrow> client_frame" where
  "SendRefreshLabelsAck frameID err caps = Frame (command_ack frameID err (if err = None then [(''refreshed_capabilities'', caps)] else []))"

definition refreshLabels :: "string \<Rightarrow> Options \<Rightarrow> host_facts \<Rightarrow> client_frame" where
  "refreshLabels frameID opts h = SendRefreshLabelsAck frameID None (capabilities opts h)"

definition SendEnvironmentInventoryAck :: "string \<Rightarrow> string option \<Rightarrow> proto_message list \<Rightarrow> client_frame" where
  "SendEnvironmentInventoryAck frameID err inventory =
     Frame (command_ack frameID err (if err = None then [(''environment_inventory'', PMessages inventory)] else []))"

definition SendSystemEnvInventoryAck :: "string \<Rightarrow> string option \<Rightarrow> proto_message list \<Rightarrow> client_frame" where
  "SendSystemEnvInventoryAck frameID err inventory =
     Frame (command_ack frameID err (if err = None then [(''system_env_inventory'', PMessages inventory)] else []))"

section \<open>Connecting\<close>

definition dial :: "bool \<Rightarrow> Client \<Rightarrow> Client" where
  "dial ok c =
    (let n = length (nc_streams c)
     in c\<lparr> nc_streams := nc_streams c @ [\<lparr> sn_sent = [], sn_acked = False, sn_beating = False, sn_cancelled = False \<rparr>], nc_currentStream := Some n,
          nc_pc := (if ok then AwaitHello n else ClearStream n) \<rparr>)"

text \<open>The server's first frame; the time is \<open>None\<close> when it does not parse.\<close>

datatype hello = NoHello | OtherHello | ServerHello "gotime option" string

definition receive_hello :: "nat \<Rightarrow> hello \<Rightarrow> Client \<Rightarrow> Client" where
  "receive_hello n h c = (case h of
      ServerHello (Some t) origin \<Rightarrow>
        c\<lparr> nc_gatewayOrigin := (if trim_space origin \<noteq> [] then trim_right (trim_space origin) ''/'' else nc_gatewayOrigin c), nc_pc := SendRegister n t \<rparr>
    | _ \<Rightarrow> c\<lparr> nc_pc := ClearStream n \<rparr>)"

definition register_message :: "Options \<Rightarrow> host_facts \<Rightarrow> gotime \<Rightarrow> proto_message option" where
  "register_message opts h t = (case DecodeSecret (op_Secret opts) of
      Inl e \<Rightarrow> None
    | Inr secret \<Rightarrow> (case Generate secret t of
        None \<Rightarrow> None
      | Some code \<Rightarrow> Some [(''node_id'', PString (op_NodeID opts)), (''totp_code'', PString code), (''node_name'', PString (op_NodeName opts)),
          (''role'', PNumber (nodeRoleToProto (op_Role opts))), (''capabilities'', capabilities opts h)]))"

definition register :: "nat \<Rightarrow> gotime \<Rightarrow> host_facts \<Rightarrow> bool \<Rightarrow> Client \<Rightarrow> Client" where
  "register n t h ok c = (case register_message (nc_opts c) h t of
      None \<Rightarrow> c\<lparr> nc_pc := ClearStream n \<rparr>
    | Some m \<Rightarrow> (case send_on n (Register m) ok c of
        (None, c) \<Rightarrow> c\<lparr> nc_pc := AwaitAck n \<rparr>
      | (Some e, c) \<Rightarrow> c\<lparr> nc_pc := ClearStream n \<rparr>))"

datatype ack = NoAck | OtherAck | Registered string NodeStatus

definition receive_ack :: "nat \<Rightarrow> ack \<Rightarrow> Client \<Rightarrow> Client" where
  "receive_ack n a c = (case a of
      Registered node_id status \<Rightarrow> (upd_stream n (\<lambda>s. s\<lparr> sn_acked := True \<rparr>) c)\<lparr> nc_nodeID := node_id, nc_registered := True, nc_pc := Acked n status \<rparr>
    | _ \<Rightarrow> c\<lparr> nc_pc := ClearStream n \<rparr>)"

definition setApproved :: "bool \<Rightarrow> Client \<Rightarrow> Client" where
  "setApproved v c = c\<lparr> nc_approved := v \<rparr>"

definition note_status :: "nat \<Rightarrow> NodeStatus \<Rightarrow> Client \<Rightarrow> Client" where
  "note_status n status c =
    (if status = REVOKED then c\<lparr> nc_pc := CloseGate n \<rparr>
     else (upd_stream n (\<lambda>s. s\<lparr> sn_beating := True \<rparr>) (setApproved (status = APPROVED) c))\<lparr> nc_pc := Serving n \<rparr>)"

definition applyNodeProxyConfig :: "proxyState \<Rightarrow> Client \<Rightarrow> Client" where
  "applyNodeProxyConfig config c =
    (if px_revision config \<le> px_revision (nc_proxy c) \<and> px_revision (nc_proxy c) \<noteq> 0 then c else c\<lparr> nc_proxy := config \<rparr>)"

definition applyPublicIPConfig :: "64 word \<Rightarrow> string list \<Rightarrow> string list \<Rightarrow> Client \<Rightarrow> Client" where
  "applyPublicIPConfig revision v4 v6 c =
    (let p = nc_publicIP c in
     if revision \<le> pi_configRevision p then c
     else c\<lparr> nc_publicIP := \<lparr> pi_configRevision = revision, pi_ipv4URLs = v4, pi_ipv6URLs = v6,
          pi_ipv4 = (if v4 = [] then [] else pi_ipv4 p), pi_ipv6 = (if v6 = [] then [] else pi_ipv6 p),
          pi_ipv4ResolvedAt = (if v4 = [] then [] else pi_ipv4ResolvedAt p), pi_ipv6ResolvedAt = (if v6 = [] then [] else pi_ipv6ResolvedAt p),
          pi_ipv4Disabled = (v4 = []), pi_ipv6Disabled = (v6 = []) \<rparr>, nc_publicIPWake := True \<rparr>)"

datatype downstream = StreamEnd | PublicIpLookupConfig "64 word" "string list" "string list" | NodeProxyConfig proxyState | ServerError bool
  | RefreshLabels string | Command string

definition dispatch_frame :: "nat \<Rightarrow> downstream \<Rightarrow> Client \<Rightarrow> Client" where
  "dispatch_frame n f c = (case f of
      StreamEnd \<Rightarrow> c\<lparr> nc_pc := StopHandler n \<rparr>
    | PublicIpLookupConfig revision v4 v6 \<Rightarrow> applyPublicIPConfig revision v4 v6 c
    | NodeProxyConfig config \<Rightarrow> applyNodeProxyConfig config c
    | ServerError terminal \<Rightarrow> if terminal then c\<lparr> nc_pc := StopHandler n \<rparr> else c
    | RefreshLabels frameID \<Rightarrow> c
    | Command cmd \<Rightarrow> c\<lparr> nc_handled := nc_handled c @ [cmd] \<rparr>)"

section \<open>Address lookups and heartbeats\<close>

definition publicIPConsensusVotes :: nat where "publicIPConsensusVotes = 3"

text \<open>The sources in the order they are asked, each with the address it answered; \<open>votes\<close> is the ballot so far.\<close>

fun count_votes :: "(string, nat) gomap \<Rightarrow> (string \<times> string option) list \<Rightarrow> string option" where
  "count_votes votes [] = None"
| "count_votes votes ((url, answer) # rest) = (case answer of
      None \<Rightarrow> count_votes votes rest
    | Some ip \<Rightarrow>
        let v = (case mget votes ip of None \<Rightarrow> 1 | Some k \<Rightarrow> Suc k)
        in if publicIPConsensusVotes \<le> v then Some ip else count_votes (mput ip v votes) rest)"

definition resolvePublicIP :: "(string \<times> string option) list \<Rightarrow> string option" where
  "resolvePublicIP sources = count_votes [] sources"

definition refreshPublicIPs :: "Client \<Rightarrow> Client" where
  "refreshPublicIPs c =
    (let p = nc_publicIP c in
     if pi_configRevision p = 0 then c
     else c\<lparr> nc_lookups := nc_lookups c @ (if pi_ipv4URLs p \<noteq> [] then [(pi_configRevision p, True)] else [])
          @ (if pi_ipv6URLs p \<noteq> [] then [(pi_configRevision p, False)] else []) \<rparr>)"

definition updatePublicIPResult :: "64 word \<Rightarrow> bool \<Rightarrow> string \<Rightarrow> string \<Rightarrow> Client \<Rightarrow> Client" where
  "updatePublicIPResult revision four ip now c =
    (let p = nc_publicIP c in
     if revision \<noteq> pi_configRevision p then c
     else if four then c\<lparr> nc_publicIP := p\<lparr> pi_ipv4 := ip, pi_ipv4ResolvedAt := now, pi_ipv4Disabled := False \<rparr> \<rparr>
     else c\<lparr> nc_publicIP := p\<lparr> pi_ipv6 := ip, pi_ipv6ResolvedAt := now, pi_ipv6Disabled := False \<rparr> \<rparr>)"

text \<open>The end of one lookup: the consensus of its sources, if there is one.\<close>

definition lookup_end :: "64 word \<times> bool \<Rightarrow> (string \<times> string option) list \<Rightarrow> string \<Rightarrow> Client \<Rightarrow> Client" where
  "lookup_end l sources now c =
    (let c = c\<lparr> nc_lookups := remove1 l (nc_lookups c) \<rparr>
     in case resolvePublicIP sources of None \<Rightarrow> c | Some ip \<Rightarrow> updatePublicIPResult (fst l) (snd l) ip now c)"

definition publicIPReport :: "Client \<Rightarrow> publicIPState option" where
  "publicIPReport c = (if pi_configRevision (nc_publicIP c) = 0 then None else Some (nc_publicIP c))"

record handler_view =
  hv_sessions :: "string list"
  hv_tool_runs :: "proto_message list"
  hv_terminals :: "string list option"

definition ip_report_message :: "publicIPState \<Rightarrow> proto_message" where
  "ip_report_message p = [(''config_revision'', PNumber (uint (pi_configRevision p))), (''ipv4'', PString (pi_ipv4 p)), (''ipv6'', PString (pi_ipv6 p)),
     (''ipv4_resolved_at'', PString (pi_ipv4ResolvedAt p)), (''ipv6_resolved_at'', PString (pi_ipv6ResolvedAt p)),
     (''ipv4_disabled'', PBool (pi_ipv4Disabled p)), (''ipv6_disabled'', PBool (pi_ipv6Disabled p))]"

definition heartbeat_message :: "handler_view \<Rightarrow> Client \<Rightarrow> proto_message" where
  "heartbeat_message v c = [(''node_id'', PString (nc_nodeID c)), (''active_session_ids'', PStrings (hv_sessions v)), (''active_tool_runs'', PMessages (hv_tool_runs v))]
     @ (case publicIPReport c of None \<Rightarrow> [] | Some p \<Rightarrow> [(''public_ip_report'', PMessage (ip_report_message p))])
     @ (case hv_terminals v of None \<Rightarrow> [] | Some ids \<Rightarrow> [(''active_terminal_ids'', PStrings ids)])"

definition heartbeat :: "(string \<Rightarrow> string option) \<Rightarrow> nat \<Rightarrow> handler_view \<Rightarrow> bool \<Rightarrow> Client \<Rightarrow> Client" where
  "heartbeat gbk n v ok c = (case EmitUpstream gbk (Heartbeat (heartbeat_message v c)) ok c of
      (None, c) \<Rightarrow> c
    | (Some e, c) \<Rightarrow> upd_stream n (\<lambda>s. s\<lparr> sn_beating := False, sn_cancelled := True \<rparr>) c)"

section \<open>The loop\<close>

text \<open>The tail of \<^verbatim>\<open>Run\<close>: \<open>long\<close> says that the connection lasted longer than the maximal backoff.\<close>

definition wait_backoff :: "bool \<Rightarrow> Client \<Rightarrow> Client" where
  "wait_backoff long c =
    (let backoff = (if long then op_MinBackoff (nc_opts c) else nc_backoff c)
     in c\<lparr> nc_waited := nc_waited c @ [backoff],
          nc_backoff := (if backoff * 2 > op_MaxBackoff (nc_opts c) then op_MaxBackoff (nc_opts c) else backoff * 2), nc_pc := Attempt \<rparr>)"

datatype client_event =
    CDial bool
  | CHello hello
  | CRegister host_facts bool
  | CAck ack
  | CStatus
  | CReceive downstream
  | CStopHandler
  | CCloseGate
  | CClearStream
  | CWait bool
  | CEmit client_frame bool
  | CHeartbeat handler_view bool
  | CLookup
  | CLookupEnd "64 word \<times> bool" "(string \<times> string option) list" string

text \<open>A handler has no registration frame to send; the only one is sent by the connection goroutine.\<close>

fun handler_frame :: "client_frame \<Rightarrow> bool" where
  "handler_frame (Frame m) = True"
| "handler_frame _ = False"

text \<open>The loops beside the dispatch loop run until they have been waited for.\<close>

fun loops_on :: "serve_pc \<Rightarrow> nat option" where
  "loops_on (Serving n) = Some n"
| "loops_on (StopHandler n) = Some n"
| "loops_on _ = None"

fun cstep :: "(string \<Rightarrow> string option) \<Rightarrow> Client \<Rightarrow> client_event \<Rightarrow> Client option" where
  "cstep gbk c (CDial ok) = (if nc_pc c = Attempt then Some (dial ok c) else None)"
| "cstep gbk c (CHello h) = (case nc_pc c of AwaitHello n \<Rightarrow> Some (receive_hello n h c) | _ \<Rightarrow> None)"
| "cstep gbk c (CRegister h ok) = (case nc_pc c of SendRegister n t \<Rightarrow> Some (register n t h ok c) | _ \<Rightarrow> None)"
| "cstep gbk c (CAck a) = (case nc_pc c of AwaitAck n \<Rightarrow> Some (receive_ack n a c) | _ \<Rightarrow> None)"
| "cstep gbk c CStatus = (case nc_pc c of Acked n status \<Rightarrow> Some (note_status n status c) | _ \<Rightarrow> None)"
| "cstep gbk c (CReceive f) = (case nc_pc c of Serving n \<Rightarrow> Some (dispatch_frame n f c) | _ \<Rightarrow> None)"
| "cstep gbk c CStopHandler = (case nc_pc c of
      StopHandler n \<Rightarrow> if nc_lookups c = [] then Some (upd_stream n (\<lambda>s. s\<lparr> sn_beating := False, sn_cancelled := True \<rparr>) (c\<lparr> nc_stops := Suc (nc_stops c), nc_pc := CloseGate n \<rparr>)) else None
    | _ \<Rightarrow> None)"
| "cstep gbk c CCloseGate = (case nc_pc c of CloseGate n \<Rightarrow> Some (c\<lparr> nc_registered := False, nc_pc := ClearStream n \<rparr>) | _ \<Rightarrow> None)"
| "cstep gbk c CClearStream = (case nc_pc c of ClearStream n \<Rightarrow> Some (c\<lparr> nc_currentStream := None, nc_pc := Sleeping \<rparr>) | _ \<Rightarrow> None)"
| "cstep gbk c (CWait long) = (if nc_pc c = Sleeping then Some (wait_backoff long c) else None)"
| "cstep gbk c (CEmit f ok) = (if handler_frame f then Some (snd (EmitUpstream gbk f ok c)) else None)"
| "cstep gbk c (CHeartbeat v ok) = (case loops_on (nc_pc c) of
      Some n \<Rightarrow> if sn_beating (nc_streams c ! n) then Some (heartbeat gbk n v ok c) else None
    | None \<Rightarrow> None)"
| "cstep gbk c CLookup = (if loops_on (nc_pc c) \<noteq> None \<and> nc_lookups c = [] then Some ((refreshPublicIPs c)\<lparr> nc_publicIPWake := False \<rparr>) else None)"
| "cstep gbk c (CLookupEnd l sources now) = (if l \<in> set (nc_lookups c) then Some (lookup_end l sources now c) else None)"

section \<open>The gate\<close>

text \<open>A stream carries its registration first, once, and anything else only after the server has acknowledged it.\<close>

definition stream_ok :: "node_stream \<Rightarrow> bool" where
  "stream_ok s \<longleftrightarrow> (case sn_sent s of
      [] \<Rightarrow> \<not> sn_acked s
    | f # fs \<Rightarrow> (\<exists>m. f = Register m) \<and> (\<forall>g \<in> set fs. \<forall>m. g \<noteq> Register m) \<and> (fs \<noteq> [] \<longrightarrow> sn_acked s))"

text \<open>What holds where the connection goroutine is.\<close>

fun unregistered :: "serve_pc \<Rightarrow> nat option" where
  "unregistered (AwaitHello n) = Some n"
| "unregistered (SendRegister n t) = Some n"
| "unregistered (AwaitAck n) = Some n"
| "unregistered (ClearStream n) = Some n"
| "unregistered _ = None"

fun admitted :: "serve_pc \<Rightarrow> nat option" where
  "admitted (Acked n status) = Some n"
| "admitted (Serving n) = Some n"
| "admitted (StopHandler n) = Some n"
| "admitted (CloseGate n) = Some n"
| "admitted _ = None"

definition gate_ok :: "Client \<Rightarrow> bool" where
  "gate_ok c \<longleftrightarrow> list_all stream_ok (nc_streams c)
     \<and> (nc_registered c \<longleftrightarrow> admitted (nc_pc c) \<noteq> None)
     \<and> nc_currentStream c = (if nc_registered c then admitted (nc_pc c) else unregistered (nc_pc c))
     \<and> (\<forall>n. nc_currentStream c = Some n \<longrightarrow> n < length (nc_streams c))
     \<and> (\<forall>n. nc_pc c = AwaitHello n \<or> (\<exists>t. nc_pc c = SendRegister n t) \<longrightarrow> sn_sent (nc_streams c ! n) = [] \<and> \<not> sn_acked (nc_streams c ! n))
     \<and> (\<forall>n. nc_pc c = AwaitAck n \<longrightarrow> sn_sent (nc_streams c ! n) \<noteq> [])
     \<and> (\<forall>n. admitted (nc_pc c) = Some n \<longrightarrow> sn_sent (nc_streams c ! n) \<noteq> [] \<and> sn_acked (nc_streams c ! n))"

lemma stream_ok_snoc: "stream_ok s \<Longrightarrow> sn_acked s \<Longrightarrow> \<forall>m. f \<noteq> Register m \<Longrightarrow> stream_ok (s\<lparr> sn_sent := sn_sent s @ [f] \<rparr>)"
  by (auto simp: stream_ok_def split: list.splits)

lemma stream_ok_flags [simp]: "stream_ok (s\<lparr> sn_beating := b \<rparr>) = stream_ok s" "stream_ok (s\<lparr> sn_cancelled := d \<rparr>) = stream_ok s"
  by (auto simp: stream_ok_def split: list.split)

lemma gate_init: "gate_ok (NewClient opts)"
  by (simp add: gate_ok_def NewClient_def)

lemma list_all_upd: "list_all P xs \<Longrightarrow> P x \<Longrightarrow> list_all P (xs[n := x])"
  by (auto simp: list_all_iff dest: set_update_subset_insert[THEN subsetD])

lemma list_all_at: "list_all P xs \<Longrightarrow> n < length xs \<Longrightarrow> P (xs ! n)"
  by (simp add: list_all_length)

text \<open>Changing a stream that has been admitted, without taking anything back.\<close>

lemma gate_upd_admitted:
  assumes ok: "gate_ok c" and a: "admitted (nc_pc c) = Some n"
    and f: "\<And>s. stream_ok s \<Longrightarrow> sn_acked s \<Longrightarrow> stream_ok (f s)" "\<And>s. sn_acked (f s) = sn_acked s" "\<And>s. sn_sent s \<noteq> [] \<Longrightarrow> sn_sent (f s) \<noteq> []"
  shows "gate_ok (upd_stream n f c)"
proof -
  have n: "n < length (nc_streams c)" "sn_acked (nc_streams c ! n)" "sn_sent (nc_streams c ! n) \<noteq> []"
    using ok a by (auto simp: gate_ok_def)
  have "stream_ok (f (nc_streams c ! n))" using f(1) n ok by (auto simp: gate_ok_def list_all_length)
  then show ?thesis using ok a n f by (auto simp: gate_ok_def upd_stream_def nth_upd list_all_upd)
qed

lemma gate_emit: "gate_ok c \<Longrightarrow> \<forall>m. f \<noteq> Register m \<Longrightarrow> gate_ok (snd (EmitUpstream gbk f ok c))"
proof -
  assume g: "gate_ok c" and f: "\<forall>m. f \<noteq> Register m"
  let ?f = "map_message (SanitizeProtoStrings gbk) f"
  have f': "\<forall>m. ?f \<noteq> Register m" using f by (cases f) auto
  show ?thesis
  proof (cases "nc_registered c \<and> marshals (message_of ?f)")
    case True
    then obtain n where n: "nc_currentStream c = Some n" "admitted (nc_pc c) = Some n" using g by (auto simp: gate_ok_def)
    then show ?thesis using True gate_upd_admitted[OF g n(2), of "\<lambda>s. s\<lparr> sn_sent := sn_sent s @ [?f] \<rparr>"] f'
      by (simp add: EmitUpstream_def send_on_def stream_ok_snoc)
  next
    case False
    then show ?thesis using g by (auto simp: EmitUpstream_def send_on_def split: option.split)
  qed
qed

lemma gate_cong:
  assumes "nc_streams c' = nc_streams c" "nc_registered c' = nc_registered c" "nc_pc c' = nc_pc c" "nc_currentStream c' = nc_currentStream c"
  shows "gate_ok c' = gate_ok c"
  using assms by (simp add: gate_ok_def)

lemma emit_pc [simp]: "nc_pc (snd (EmitUpstream gbk f ok c)) = nc_pc c"
  by (auto simp: EmitUpstream_def send_on_def upd_stream_def split: option.split)

lemma gate_heartbeat: "gate_ok c \<Longrightarrow> admitted (nc_pc c) = Some n \<Longrightarrow> gate_ok (heartbeat gbk n v ok c)"
proof -
  assume g: "gate_ok c" and a: "admitted (nc_pc c) = Some n"
  let ?r = "EmitUpstream gbk (Heartbeat (heartbeat_message v c)) ok c"
  have "gate_ok (snd ?r)" using gate_emit[OF g] by simp
  moreover from this have "gate_ok (upd_stream n (\<lambda>s. s\<lparr> sn_beating := False, sn_cancelled := True \<rparr>) (snd ?r))"
    using a by (intro gate_upd_admitted) simp_all
  ultimately show ?thesis by (cases ?r) (auto simp: heartbeat_def split: option.split)
qed

lemma gate_dial: "gate_ok c \<Longrightarrow> nc_pc c = Attempt \<Longrightarrow> gate_ok (dial ok c)"
  by (auto simp: gate_ok_def dial_def Let_def nth_append stream_ok_def)

lemma gate_hello: "gate_ok c \<Longrightarrow> nc_pc c = AwaitHello n \<Longrightarrow> gate_ok (receive_hello n h c)"
  by (cases h; (cases "\<exists>t origin. h = ServerHello (Some t) origin")?) (auto simp: gate_ok_def receive_hello_def split: option.split)

lemma gate_register: "gate_ok c \<Longrightarrow> nc_pc c = SendRegister n t \<Longrightarrow> gate_ok (register n t h ok c)"
proof -
  assume g: "gate_ok c" and pc: "nc_pc c = SendRegister n t"
  then have n: "n < length (nc_streams c)" "sn_sent (nc_streams c ! n) = []" "\<not> sn_acked (nc_streams c ! n)" "\<not> nc_registered c" "nc_currentStream c = Some n"
    by (auto simp: gate_ok_def)
  have st: "stream_ok ((nc_streams c ! n)\<lparr> sn_sent := [Register m] \<rparr>)" for m by (simp add: stream_ok_def)
  show ?thesis using g pc n list_all_upd[where P = stream_ok, OF _ st, of "nc_streams c" n]
    by (auto simp: gate_ok_def register_def send_on_def upd_stream_def split: option.split)
qed

lemma gate_ack: "gate_ok c \<Longrightarrow> nc_pc c = AwaitAck n \<Longrightarrow> gate_ok (receive_ack n a c)"
proof -
  assume g: "gate_ok c" and pc: "nc_pc c = AwaitAck n"
  then have n: "n < length (nc_streams c)" "sn_sent (nc_streams c ! n) \<noteq> []" "\<not> nc_registered c" "nc_currentStream c = Some n"
    by (auto simp: gate_ok_def)
  have "stream_ok (nc_streams c ! n)" using g n by (simp add: gate_ok_def list_all_at)
  then have st: "stream_ok ((nc_streams c ! n)\<lparr> sn_acked := True \<rparr>)" using n by (auto simp: stream_ok_def split: list.splits)
  show ?thesis using g pc n list_all_upd[where P = stream_ok, OF _ st, of "nc_streams c" n]
    by (cases a) (auto simp: gate_ok_def receive_ack_def upd_stream_def)
qed

lemma gate_status: "gate_ok c \<Longrightarrow> nc_pc c = Acked n status \<Longrightarrow> gate_ok (note_status n status c)"
proof -
  assume g: "gate_ok c" and pc: "nc_pc c = Acked n status"
  have "gate_ok (c\<lparr> nc_pc := Serving n \<rparr>)" "gate_ok (c\<lparr> nc_pc := CloseGate n \<rparr>)" using g pc by (auto simp: gate_ok_def)
  moreover have "gate_ok (upd_stream n (\<lambda>s. s\<lparr> sn_beating := True \<rparr>) (c\<lparr> nc_pc := Serving n \<rparr>))"
    using calculation(1) by (intro gate_upd_admitted) simp_all
  then have "gate_ok ((upd_stream n (\<lambda>s. s\<lparr> sn_beating := True \<rparr>) (setApproved v c))\<lparr> nc_pc := Serving n \<rparr>)" for v
    by (subst gate_cong[of _ "upd_stream n (\<lambda>s. s\<lparr> sn_beating := True \<rparr>) (c\<lparr> nc_pc := Serving n \<rparr>)"]) (simp_all add: upd_stream_def setApproved_def)
  ultimately show ?thesis by (simp add: note_status_def)
qed

lemma gate_dispatch: "gate_ok c \<Longrightarrow> nc_pc c = Serving n \<Longrightarrow> gate_ok (dispatch_frame n f c)"
  by (cases f) (auto simp: gate_ok_def dispatch_frame_def applyPublicIPConfig_def applyNodeProxyConfig_def Let_def)

lemma gate_lookup: "gate_ok (refreshPublicIPs c) = gate_ok c" "gate_ok (lookup_end l sources now c) = gate_ok c"
  by (rule gate_cong; auto simp: refreshPublicIPs_def lookup_end_def updatePublicIPResult_def Let_def split: option.split)+

lemma gate_step: "gate_ok c \<Longrightarrow> cstep gbk c e = Some c' \<Longrightarrow> gate_ok c'"
proof (cases e)
  case CStopHandler
  assume g: "gate_ok c" and st: "cstep gbk c e = Some c'"
  then obtain n where pc: "nc_pc c = StopHandler n" "c' = upd_stream n (\<lambda>s. s\<lparr> sn_beating := False, sn_cancelled := True \<rparr>) (c\<lparr> nc_stops := Suc (nc_stops c), nc_pc := CloseGate n \<rparr>)"
    using CStopHandler by (auto split: serve_pc.splits if_splits)
  have "gate_ok (c\<lparr> nc_stops := Suc (nc_stops c), nc_pc := CloseGate n \<rparr>)" using g pc by (auto simp: gate_ok_def)
  then show ?thesis unfolding pc(2) by (intro gate_upd_admitted) simp_all
next
  case (CEmit f ok)
  then show "gate_ok c \<Longrightarrow> cstep gbk c e = Some c' \<Longrightarrow> gate_ok c'" using gate_emit[of c f gbk ok] by (cases f) auto
next
  case (CHeartbeat v ok)
  then show "gate_ok c \<Longrightarrow> cstep gbk c e = Some c' \<Longrightarrow> gate_ok c'"
    by (cases "nc_pc c") (auto split: if_splits intro!: gate_heartbeat)
next
  case CLookup
  assume g: "gate_ok c" and st: "cstep gbk c e = Some c'"
  then have "c' = (refreshPublicIPs c)\<lparr> nc_publicIPWake := False \<rparr>" using CLookup by (auto split: if_splits)
  moreover have "gate_ok ((refreshPublicIPs c)\<lparr> nc_publicIPWake := False \<rparr>) = gate_ok (refreshPublicIPs c)" by (rule gate_cong) simp_all
  ultimately show ?thesis using g gate_lookup by simp
next
  case (CWait long)
  then show "gate_ok c \<Longrightarrow> cstep gbk c e = Some c' \<Longrightarrow> gate_ok c'" by (auto simp: gate_ok_def wait_backoff_def Let_def split: if_splits)
qed (auto split: serve_pc.splits if_splits intro: gate_dial gate_hello gate_register gate_ack gate_status gate_dispatch simp: gate_lookup, auto simp: gate_ok_def)

interpretation gate: guarded_machine "cstep gbk" "\<lambda>e. True" gate_ok
  by unfold_locales (rule gate_step)

section \<open>Backoff\<close>

definition next_backoff :: "Options \<Rightarrow> int \<Rightarrow> int" where
  "next_backoff opts w = min (op_MaxBackoff opts) (w * 2)"

definition backoff_ok :: "Options \<Rightarrow> Client \<Rightarrow> bool" where
  "backoff_ok opts c \<longleftrightarrow> nc_opts c = opts \<and> op_MinBackoff opts \<le> nc_backoff c \<and> nc_backoff c \<le> op_MaxBackoff opts
     \<and> (\<forall>w \<in> set (nc_waited c). op_MinBackoff opts \<le> w \<and> w \<le> op_MaxBackoff opts)
     \<and> (nc_waited c = [] \<longrightarrow> nc_backoff c = op_MinBackoff opts) \<and> (nc_waited c \<noteq> [] \<longrightarrow> nc_backoff c = next_backoff opts (last (nc_waited c)))
     \<and> (\<forall>i. Suc i < length (nc_waited c) \<longrightarrow> nc_waited c ! Suc i = op_MinBackoff opts \<or> nc_waited c ! Suc i = next_backoff opts (nc_waited c ! i))"

lemma step_backoff_same:
  assumes "cstep gbk c e = Some c'" "\<forall>long. e \<noteq> CWait long"
  shows "nc_opts c' = nc_opts c \<and> nc_backoff c' = nc_backoff c \<and> nc_waited c' = nc_waited c"
  using assms
  by (cases e) (auto simp: dial_def receive_hello_def register_def send_on_def upd_stream_def receive_ack_def note_status_def setApproved_def dispatch_frame_def
      applyPublicIPConfig_def applyNodeProxyConfig_def EmitUpstream_def heartbeat_def refreshPublicIPs_def lookup_end_def updatePublicIPResult_def Let_def
      split: serve_pc.splits if_splits option.splits hello.splits ack.splits downstream.splits prod.splits)

lemma backoff_wait:
  assumes "backoff_ok opts c" "0 < op_MinBackoff opts" "op_MinBackoff opts \<le> op_MaxBackoff opts"
  shows "backoff_ok opts (wait_backoff long c)"
proof -
  let ?w = "if long then op_MinBackoff opts else nc_backoff c"
  let ?c = "wait_backoff long c"
  have c: "nc_waited ?c = nc_waited c @ [?w]" "nc_backoff ?c = next_backoff opts ?w" "nc_opts ?c = opts"
    using assms(1) by (simp_all add: wait_backoff_def Let_def backoff_ok_def next_backoff_def min_def)
  have w: "op_MinBackoff opts \<le> ?w" "?w \<le> op_MaxBackoff opts" using assms by (auto simp: backoff_ok_def)
  have "nc_waited ?c ! Suc i = op_MinBackoff opts \<or> nc_waited ?c ! Suc i = next_backoff opts (nc_waited ?c ! i)" if i: "Suc i < length (nc_waited ?c)" for i
  proof (cases "Suc i < length (nc_waited c)")
    case True
    then show ?thesis using assms(1) by (simp add: c(1) nth_append backoff_ok_def)
  next
    case False
    then have "Suc i = length (nc_waited c)" using i by (simp add: c(1))
    then have ne: "nc_waited c \<noteq> []" and i: "i = length (nc_waited c) - 1" by auto
    then have "nc_waited ?c ! i = last (nc_waited c)" "nc_waited ?c ! Suc i = ?w"
      using last_conv_nth[OF ne] by (simp_all add: c(1) nth_append)
    then show ?thesis using assms(1) ne by (auto simp: backoff_ok_def)
  qed
  moreover have "op_MinBackoff opts \<le> next_backoff opts ?w" "next_backoff opts ?w \<le> op_MaxBackoff opts" using w assms(2) by (auto simp: next_backoff_def)
  moreover have "\<forall>x \<in> set (nc_waited ?c). op_MinBackoff opts \<le> x \<and> x \<le> op_MaxBackoff opts" using assms(1) w unfolding c(1) by (auto simp: backoff_ok_def)
  ultimately show ?thesis unfolding backoff_ok_def[of opts ?c] using c by simp
qed

lemma backoff_step:
  assumes "0 < op_MinBackoff opts" "op_MinBackoff opts \<le> op_MaxBackoff opts" "backoff_ok opts c" "cstep gbk c e = Some c'"
  shows "backoff_ok opts c'"
proof (cases "\<exists>long. e = CWait long")
  case True
  then show ?thesis using assms backoff_wait by (auto split: if_splits)
next
  case False
  then show ?thesis using step_backoff_same[OF assms(4)] assms(3) by (simp add: backoff_ok_def)
qed

section \<open>Address reports\<close>

definition family_ok :: "publicIPState \<Rightarrow> bool" where
  "family_ok p \<longleftrightarrow> (pi_ipv4Disabled p \<longleftrightarrow> pi_ipv4URLs p = []) \<and> (pi_ipv6Disabled p \<longleftrightarrow> pi_ipv6URLs p = [])
     \<and> (pi_ipv4URLs p = [] \<longrightarrow> pi_ipv4 p = []) \<and> (pi_ipv6URLs p = [] \<longrightarrow> pi_ipv6 p = [])"

definition lookup_ok :: "publicIPState \<Rightarrow> 64 word \<times> bool \<Rightarrow> bool" where
  "lookup_ok p l \<longleftrightarrow> fst l \<le> pi_configRevision p
     \<and> (fst l = pi_configRevision p \<longrightarrow> fst l \<noteq> 0 \<and> (if snd l then pi_ipv4URLs p else pi_ipv6URLs p) \<noteq> [])"

definition ip_ok :: "Client \<Rightarrow> bool" where
  "ip_ok c \<longleftrightarrow> (pi_configRevision (nc_publicIP c) \<noteq> 0 \<longrightarrow> family_ok (nc_publicIP c)) \<and> (\<forall>l \<in> set (nc_lookups c). lookup_ok (nc_publicIP c) l)"

lemma lookup_ok_simps [simp]:
  "lookup_ok (p\<lparr> pi_ipv4 := ip, pi_ipv4ResolvedAt := now, pi_ipv4Disabled := b \<rparr>) l = lookup_ok p l"
  "lookup_ok (p\<lparr> pi_ipv6 := ip, pi_ipv6ResolvedAt := now, pi_ipv6Disabled := b \<rparr>) l = lookup_ok p l"
  by (simp_all add: lookup_ok_def)

lemma ip_cong: "nc_publicIP c' = nc_publicIP c \<Longrightarrow> nc_lookups c' = nc_lookups c \<Longrightarrow> ip_ok c' = ip_ok c"
  by (simp add: ip_ok_def)

lemma ip_config: "ip_ok c \<Longrightarrow> ip_ok (applyPublicIPConfig revision v4 v6 c)"
proof (cases "revision \<le> pi_configRevision (nc_publicIP c)")
  case False
  assume ok: "ip_ok c"
  have "lookup_ok p l" if "lookup_ok (nc_publicIP c) l" "pi_configRevision p = revision" for p l
    using that False by (auto simp: lookup_ok_def)
  then show ?thesis using ok False by (simp add: ip_ok_def applyPublicIPConfig_def Let_def family_ok_def)
qed (simp add: applyPublicIPConfig_def Let_def)

lemma ip_refresh: "ip_ok c \<Longrightarrow> ip_ok (refreshPublicIPs c)"
  by (auto simp: ip_ok_def refreshPublicIPs_def Let_def lookup_ok_def)

lemma ip_update:
  assumes "ip_ok c" "r = pi_configRevision (nc_publicIP c) \<Longrightarrow> r \<noteq> 0 \<and> (if four then pi_ipv4URLs (nc_publicIP c) else pi_ipv6URLs (nc_publicIP c)) \<noteq> []"
  shows "ip_ok (updatePublicIPResult r four ip now c)"
proof (cases "r = pi_configRevision (nc_publicIP c)")
  case True
  then show ?thesis using assms by (cases four) (auto simp: ip_ok_def updatePublicIPResult_def Let_def family_ok_def)
next
  case False
  then show ?thesis using assms(1) by (simp add: updatePublicIPResult_def Let_def)
qed

lemma ip_lookup_end: "ip_ok c \<Longrightarrow> l \<in> set (nc_lookups c) \<Longrightarrow> ip_ok (lookup_end l sources now c)"
proof -
  assume ok: "ip_ok c" and l: "l \<in> set (nc_lookups c)"
  obtain r four where rf: "l = (r, four)" by (cases l)
  let ?c = "c\<lparr> nc_lookups := remove1 l (nc_lookups c) \<rparr>"
  have all: "lookup_ok (nc_publicIP c) k" if "k \<in> set (nc_lookups c)" for k using ok that by (simp add: ip_ok_def)
  have "lookup_ok (nc_publicIP c) k" if "k \<in> set (remove1 l (nc_lookups c))" for k using all set_remove1_subset that by fast
  then have ok': "ip_ok ?c" using ok by (simp add: ip_ok_def)
  have lk: "r = pi_configRevision (nc_publicIP ?c) \<Longrightarrow> r \<noteq> 0 \<and> (if four then pi_ipv4URLs (nc_publicIP ?c) else pi_ipv6URLs (nc_publicIP ?c)) \<noteq> []"
    using all[OF l] unfolding lookup_ok_def rf by auto
  have "ip_ok (updatePublicIPResult r four ip now ?c)" for ip by (rule ip_update[OF ok' lk])
  then show ?thesis using ok' by (simp add: lookup_end_def rf Let_def split: option.split)
qed

lemma step_ip_same:
  assumes "cstep gbk c e = Some c'" "\<forall>r v4 v6. e \<noteq> CReceive (PublicIpLookupConfig r v4 v6)" "e \<noteq> CLookup" "\<forall>l ss now. e \<noteq> CLookupEnd l ss now"
  shows "nc_publicIP c' = nc_publicIP c \<and> nc_lookups c' = nc_lookups c"
  using assms
  by (cases e) (auto simp: dial_def receive_hello_def register_def send_on_def upd_stream_def receive_ack_def note_status_def setApproved_def dispatch_frame_def
      applyNodeProxyConfig_def EmitUpstream_def heartbeat_def wait_backoff_def Let_def
      split: serve_pc.splits if_splits option.splits hello.splits ack.splits downstream.splits prod.splits)

lemma ip_step: "ip_ok c \<Longrightarrow> cstep gbk c e = Some c' \<Longrightarrow> ip_ok c'"
proof -
  assume ok: "ip_ok c" and st: "cstep gbk c e = Some c'"
  consider r v4 v6 where "e = CReceive (PublicIpLookupConfig r v4 v6)" | "e = CLookup" | l ss now where "e = CLookupEnd l ss now"
    | "\<forall>r v4 v6. e \<noteq> CReceive (PublicIpLookupConfig r v4 v6)" "e \<noteq> CLookup" "\<forall>l ss now. e \<noteq> CLookupEnd l ss now" by blast
  then show ?thesis
  proof cases
    case 1
    then show ?thesis using ok st ip_config by (auto simp: dispatch_frame_def split: serve_pc.splits)
  next
    case 2
    then have "c' = (refreshPublicIPs c)\<lparr> nc_publicIPWake := False \<rparr>" using st by (auto split: if_splits)
    then show ?thesis using ip_refresh[OF ok] ip_cong[of c' "refreshPublicIPs c"] by simp
  next
    case 3
    then have "l \<in> set (nc_lookups c)" "c' = lookup_end l ss now c" using st by (simp_all split: if_splits)
    then show ?thesis using ip_lookup_end[OF ok] by blast
  next
    case 4
    then show ?thesis using ok step_ip_same[OF st] ip_cong by blast
  qed
qed

interpretation addresses: guarded_machine "cstep gbk" "\<lambda>e. True" ip_ok
  by unfold_locales (rule ip_step)

lemma ip_init: "ip_ok (NewClient opts)"
  by (simp add: ip_ok_def NewClient_def)

section \<open>Votes\<close>

definition ballots :: "string \<Rightarrow> (string \<times> string option) list \<Rightarrow> nat" where
  "ballots ip sources = length (filter (\<lambda>(u, a). a = Some ip) sources)"

definition tally :: "(string, nat) gomap \<Rightarrow> string \<Rightarrow> nat" where
  "tally votes ip = (case mget votes ip of None \<Rightarrow> 0 | Some k \<Rightarrow> k)"

lemma count_votes_step:
  "count_votes votes ((u, Some a) # rest) =
    (if publicIPConsensusVotes \<le> Suc (tally votes a) then Some a else count_votes (mput a (Suc (tally votes a)) votes) rest)"
  "count_votes votes ((u, None) # rest) = count_votes votes rest"
  by (cases "mget votes a") (simp_all add: tally_def Let_def)

lemma tally_mput: "tally (mput a n votes) ip = (if ip = a then n else tally votes ip)"
  by (simp add: tally_def)

lemma ballots_Cons: "ballots ip ((u, a) # rest) = (if a = Some ip then Suc (ballots ip rest) else ballots ip rest)" "ballots ip [] = 0"
  by (simp_all add: ballots_def)

lemmas vote_simps = count_votes_step tally_mput ballots_Cons

lemma count_votes_Some: "count_votes votes sources = Some ip \<Longrightarrow> publicIPConsensusVotes \<le> tally votes ip + ballots ip sources"
proof (induction sources arbitrary: votes)
  case (Cons s rest)
  obtain u a where s: "s = (u, a)" by (cases s)
  show ?case
  proof (cases a)
    case None
    then show ?thesis using Cons s by (simp add: vote_simps)
  next
    case (Some x)
    then show ?thesis using Cons.prems Cons.IH[of "mput x (Suc (tally votes x)) votes"] s
      by (simp add: vote_simps del: count_votes.simps split: if_splits)
  qed
qed simp

lemma count_votes_None:
  "count_votes votes sources = None \<Longrightarrow> \<forall>ip. tally votes ip < publicIPConsensusVotes \<Longrightarrow> tally votes ip + ballots ip sources < publicIPConsensusVotes"
proof (induction sources arbitrary: votes)
  case (Cons s rest)
  obtain u a where s: "s = (u, a)" by (cases s)
  show ?case
  proof (cases a)
    case None
    then show ?thesis using Cons s by (simp add: vote_simps)
  next
    case (Some x)
    then show ?thesis using Cons.prems Cons.IH[of "mput x (Suc (tally votes x)) votes"] s
      by (auto simp: vote_simps simp del: count_votes.simps split: if_splits)
  qed
qed (simp add: ballots_def)

section \<open>Waiting for approval\<close>

text \<open>
  \<^verbatim>\<open>WaitApproved\<close> next to \<^verbatim>\<open>setApproved\<close>: the waiter holds the lock from its check until it is in the queue of the condition variable, and
  starts a goroutine that broadcasts when the context ends.  \<open>aw_signal\<close>: an approval whose broadcast is still to come.
\<close>

datatype waiter_pc = WCheck | WSpawned | WQueued | WReturned "string option"

datatype watcher = WatcherOff | Watching | WatcherFired

record approval_wait =
  aw_approved :: bool
  aw_signal :: bool
  aw_ctx_done :: bool
  aw_waiter :: waiter_pc
  aw_watcher :: watcher

definition new_wait :: approval_wait where
  "new_wait = \<lparr> aw_approved = False, aw_signal = False, aw_ctx_done = False, aw_waiter = WCheck, aw_watcher = WatcherOff \<rparr>"

datatype wait_event = EvCheck | EvWait | EvCancel | EvFire | EvApprove bool | EvBroadcast

definition wake :: "approval_wait \<Rightarrow> approval_wait" where
  "wake s = (if aw_waiter s = WQueued then s\<lparr> aw_waiter := WCheck \<rparr> else s)"

fun WaitApproved :: "approval_wait \<Rightarrow> wait_event \<Rightarrow> approval_wait option" where
  "WaitApproved s EvCheck = (if aw_waiter s \<noteq> WCheck then None
     else if aw_approved s then Some (s\<lparr> aw_waiter := WReturned None \<rparr>)
     else if aw_ctx_done s then Some (s\<lparr> aw_waiter := WReturned (Some ''context canceled'') \<rparr>)
     else Some (s\<lparr> aw_waiter := WSpawned, aw_watcher := Watching \<rparr>))"
| "WaitApproved s EvWait = (if aw_waiter s = WSpawned then Some (s\<lparr> aw_waiter := WQueued \<rparr>) else None)"
| "WaitApproved s EvCancel = Some (s\<lparr> aw_ctx_done := True \<rparr>)"
| "WaitApproved s EvFire = (if aw_watcher s = Watching \<and> aw_ctx_done s then Some (wake (s\<lparr> aw_watcher := WatcherFired \<rparr>)) else None)"
| "WaitApproved s (EvApprove v) = (if aw_waiter s = WSpawned then None
     else Some (s\<lparr> aw_approved := v, aw_signal := (aw_signal s \<or> (aw_approved s \<noteq> v \<and> v)) \<rparr>))"
| "WaitApproved s EvBroadcast = (if aw_signal s then Some (wake (s\<lparr> aw_signal := False \<rparr>)) else None)"

definition lost_wake :: "approval_wait \<Rightarrow> bool" where
  "lost_wake s \<longleftrightarrow> aw_waiter s = WQueued \<and> aw_ctx_done s \<and> aw_watcher s = WatcherFired \<and> \<not> aw_signal s"

interpretation lost_wakes: guarded_machine WaitApproved "\<lambda>e. e \<noteq> EvApprove True" lost_wake
proof
  fix s e s'
  assume "lost_wake s" "e \<noteq> EvApprove True" "WaitApproved s e = Some s'"
  then show "lost_wake s'" by (cases e) (auto simp: lost_wake_def)
qed

lemma ValidString_ascii: "\<forall>c \<in> set s. is_ascii c \<Longrightarrow> ValidString s"
  by (simp add: ValidString_def runes_ascii valid_rune_def list_all_iff)

section \<open>Registration codes\<close>

definition totp_of :: "proto_message \<Rightarrow> string" where
  "totp_of m = (case map_of m ''totp_code'' of Some (PString code) \<Rightarrow> code | _ \<Rightarrow> [])"

lemma totp_of_register:
  assumes "register_message opts h t = Some m" "DecodeSecret (op_Secret opts) = Inr secret"
  shows "Generate secret t = Some (totp_of m)"
  using assms by (auto simp: register_message_def totp_of_def split: option.splits)

section \<open>Properties\<close>

text \<open> \<^bold>\<open>C10\<close>. On every stream the node opens, whatever its handlers emit and whenever connections drop, the registration is the first frame
  and sent once, and no other frame is sent before the server has acknowledged it.\<close>

theorem registration_comes_first:
  assumes "reach (cstep gbk) (NewClient opts) c" "s \<in> set (nc_streams c)" "sn_sent s = f # fs"
  shows "(\<exists>m. f = Register m) \<and> (\<forall>g \<in> set fs. \<forall>m. g \<noteq> Register m) \<and> (fs \<noteq> [] \<longrightarrow> sn_acked s)"
proof -
  have "gate_ok c" using gate.reach_inv[OF _ gate_init assms(1)] by simp
  then have "stream_ok s" using assms(2) by (simp add: gate_ok_def list_all_iff)
  then show ?thesis using assms(3) by (simp add: stream_ok_def)
qed

text \<open>A registration, acknowledged, and a frame of a handler.\<close>

definition client_opts :: Options where
  "client_opts = \<lparr> op_Server = ''http://s'', op_NodeID = ''n'', op_Secret = b32_encode [1], op_NodeName = ''n'', op_Role = ''execution'', op_Version = [],
     op_Providers = [], op_Labels = [(''system_env'', ''true'')], op_SystemEnvAllowed = False, op_IosMgmtAllowed = False, op_IosMgmtMode = ''off'', op_WorkRoot = [],
     op_MinBackoff = 1, op_MaxBackoff = 30 \<rparr>"

definition client_host :: host_facts where
  "client_host = \<lparr> hf_os = ''linux'', hf_arch = ''amd64'', hf_docker = False, hf_editors = [], hf_system_labels = [], hf_network_labels = [],
     hf_editor_labels = [], hf_tool_labels = [], hf_usbmuxd = False, hf_startup_method = ''standalone'' \<rparr>"

definition demo_client :: "client_frame list \<Rightarrow> Client" where
  "demo_client fs = (NewClient client_opts)\<lparr> nc_pc := Serving 0, nc_currentStream := Some 0, nc_registered := True, nc_approved := True, nc_nodeID := ''n'',
     nc_streams := [\<lparr> sn_sent = fs, sn_acked = True, sn_beating = True, sn_cancelled = False \<rparr>] \<rparr>"

lemma demo_registers: "\<exists>m. register_message client_opts client_host 0 = Some m \<and> marshals m"
proof -
  obtain code where c: "Generate [1] 0 = Some code" using generateAtCounter_Some unfolding Generate_def by blast
  have "\<forall>x \<in> set code. is_digit x" using c generateAtCounter_Some[of "[1]" "step_of 0"] by (auto simp: Generate_def)
  then have v: "ValidString code" by (intro ValidString_ascii) (auto simp: is_digit_def is_ascii_def)
  have rest: "marshals_value (capabilities client_opts client_host) \<and> ValidString ''n''"
    by (simp add: capabilities_def capabilityLabels_def client_opts_def client_host_def put_all_def resolveIosMgmt_def ValidString_ascii is_ascii_def Let_def)
  have "DecodeSecret (op_Secret client_opts) = Inr [1]" by (simp add: client_opts_def DecodeSecret_encode)
  then show ?thesis using c v rest by (simp add: register_message_def marshals_def) (simp add: client_opts_def)
qed

theorem registration_comes_first_witness:
  "\<exists>c m. reach (cstep (\<lambda>s. None)) (NewClient client_opts) c \<and> sn_sent (nc_streams c ! 0) = [Register m, Frame []] \<and> sn_acked (nc_streams c ! 0)"
proof -
  obtain m where m: "register_message client_opts client_host 0 = Some m" "marshals m" using demo_registers by blast
  let ?es = "[CDial True, CHello (ServerHello (Some 0) []), CRegister client_host True, CAck (Registered ''n'' APPROVED), CStatus, CEmit (Frame []) True]"
  have opts: "nc_opts (NewClient client_opts) = client_opts" by (simp add: NewClient_def)
  obtain c where c: "exec (cstep (\<lambda>s. None)) (NewClient client_opts) ?es = Some c" "nc_streams c = [\<lparr> sn_sent = [Register m, Frame []], sn_acked = True, sn_beating = True, sn_cancelled = False \<rparr>]"
    using m by (simp add: NewClient_def dial_def Let_def receive_hello_def register_def send_on_def upd_stream_def receive_ack_def note_status_def setApproved_def
        EmitUpstream_def SanitizeProtoStrings_def marshals_def)
  have r: "reach (cstep (\<lambda>s. None)) (NewClient client_opts) c" by (rule exec_reach[OF c(1)])
  have "sn_acked (nc_streams c ! 0)" using registration_comes_first[OF r, of "nc_streams c ! 0" "Register m" "[Frame []]"] c(2) by simp
  then show ?thesis using r c(2) by (intro exI[of _ c] exI[of _ m]) simp
qed

text \<open> Every wait before a reconnect lies between the minimal and the maximal backoff, and each is either the minimum or twice the one
  before it, up to the maximum.\<close>

theorem backoff_schedule:
  assumes "reach (cstep gbk) (NewClient opts) c" "0 < op_MinBackoff opts" "op_MinBackoff opts \<le> op_MaxBackoff opts"
  shows "(\<forall>w \<in> set (nc_waited c). op_MinBackoff opts \<le> w \<and> w \<le> op_MaxBackoff opts) \<and> (nc_waited c \<noteq> [] \<longrightarrow> hd (nc_waited c) = op_MinBackoff opts)
     \<and> (\<forall>i. Suc i < length (nc_waited c) \<longrightarrow> nc_waited c ! Suc i = op_MinBackoff opts \<or> nc_waited c ! Suc i = min (op_MaxBackoff opts) (nc_waited c ! i * 2))"
proof -
  have init: "backoff_ok opts (NewClient opts)" using assms(3) by (simp add: backoff_ok_def NewClient_def)
  have "reach (cstep gbk) (NewClient opts) c \<Longrightarrow> backoff_ok opts c \<and> (nc_waited c \<noteq> [] \<longrightarrow> hd (nc_waited c) = op_MinBackoff opts)"
  proof (induction rule: reach.induct)
    case reach_init
    then show ?case using init by (simp add: NewClient_def)
  next
    case (reach_step c e c')
    have ok: "backoff_ok opts c'" using backoff_step[OF assms(2,3)] reach_step by blast
    have "nc_waited c' \<noteq> [] \<longrightarrow> hd (nc_waited c') = op_MinBackoff opts"
    proof (cases "\<exists>long. e = CWait long")
      case True
      then obtain long where "c' = wait_backoff long c" using reach_step.hyps(2) by (auto split: if_splits)
      then show ?thesis using reach_step.IH by (cases "nc_waited c") (auto simp: wait_backoff_def Let_def backoff_ok_def)
    next
      case False
      then show ?thesis using step_backoff_same[OF reach_step.hyps(2)] reach_step.IH by auto
    qed
    then show ?case using ok by simp
  qed
  then show ?thesis using assms(1) unfolding backoff_ok_def next_backoff_def by blast
qed

theorem backoff_schedule_witness:
  "\<exists>c. reach (cstep (\<lambda>s. None)) (NewClient client_opts) c \<and> nc_waited c = [1, 2, 4] \<and> (\<forall>w \<in> set (nc_waited c). 1 \<le> w \<and> w \<le> 30)"
proof -
  let ?round = "[CDial False, CClearStream, CWait False]"
  obtain c where c: "exec (cstep (\<lambda>s. None)) (NewClient client_opts) (?round @ ?round @ ?round) = Some c" "nc_waited c = [1, 2, 4]"
    by (simp add: NewClient_def dial_def wait_backoff_def client_opts_def Let_def)
  have r: "reach (cstep (\<lambda>s. None)) (NewClient client_opts) c" by (rule exec_reach[OF c(1)])
  from backoff_schedule[OF r] have "\<forall>w \<in> set (nc_waited c). 1 \<le> w \<and> w \<le> 30" by (simp add: client_opts_def)
  then show ?thesis using r c(2) by blast
qed

text \<open> \<^bold>\<open>C27\<close>. What the node reports about its public addresses fits the configuration it reports with it: an address family is reported as
  disabled exactly when that configuration has no sources for it, and then without an address.\<close>

theorem public_ip_report_consistent:
  assumes "reach (cstep gbk) (NewClient opts) c" "publicIPReport c = Some p"
  shows "(pi_ipv4Disabled p \<longleftrightarrow> pi_ipv4URLs p = []) \<and> (pi_ipv6Disabled p \<longleftrightarrow> pi_ipv6URLs p = []) \<and> (pi_ipv4Disabled p \<longrightarrow> pi_ipv4 p = [])
     \<and> (pi_ipv6Disabled p \<longrightarrow> pi_ipv6 p = [])"
proof -
  have "ip_ok c" using addresses.reach_inv[OF _ ip_init assms(1)] by simp
  then show ?thesis using assms(2) by (auto simp: ip_ok_def family_ok_def publicIPReport_def split: if_splits)
qed

theorem public_ip_report_consistent_witness:
  "\<exists>c p. publicIPReport c = Some p \<and> pi_ipv4 p = ''1.2.3.4'' \<and> pi_ipv6Disabled p \<and> \<not> pi_ipv4Disabled p"
proof -
  obtain m where m: "register_message client_opts client_host 0 = Some m" "marshals m" using demo_registers by blast
  let ?es = "[CDial True, CHello (ServerHello (Some 0) []), CRegister client_host True, CAck (Registered ''n'' APPROVED), CStatus,
     CReceive (PublicIpLookupConfig 1 [''a'', ''b'', ''c''] []), CLookup,
     CLookupEnd (1, True) [(''a'', Some ''1.2.3.4''), (''b'', Some ''1.2.3.4''), (''c'', Some ''1.2.3.4'')] ''now'']"
  obtain c p where c: "exec (cstep (\<lambda>s. None)) (NewClient client_opts) ?es = Some c" "publicIPReport c = Some p" "pi_ipv4 p = ''1.2.3.4''" "pi_ipv6URLs p = []" "pi_ipv4URLs p \<noteq> []"
    using m by (simp add: NewClient_def dial_def Let_def receive_hello_def register_def send_on_def upd_stream_def receive_ack_def note_status_def setApproved_def
        dispatch_frame_def applyPublicIPConfig_def refreshPublicIPs_def lookup_end_def resolvePublicIP_def publicIPConsensusVotes_def updatePublicIPResult_def publicIPReport_def)
  have r: "reach (cstep (\<lambda>s. None)) (NewClient client_opts) c" by (rule exec_reach[OF c(1)])
  show ?thesis using public_ip_report_consistent[OF r c(2)] c by blast
qed

text \<open> An address is accepted exactly when three of the sources that were asked answered it.\<close>

theorem public_ip_consensus:
  "(resolvePublicIP sources = Some ip \<longrightarrow> 3 \<le> ballots ip sources) \<and> (resolvePublicIP sources = None \<longleftrightarrow> (\<forall>a. ballots a sources < 3))"
proof -
  have some: "3 \<le> ballots a sources" if "resolvePublicIP sources = Some a" for a
    using count_votes_Some[of "[]" sources a] that by (simp add: resolvePublicIP_def publicIPConsensusVotes_def tally_def)
  have none: "ballots a sources < 3" if "resolvePublicIP sources = None" for a
    using count_votes_None[of "[]" sources a] that by (simp add: resolvePublicIP_def publicIPConsensusVotes_def tally_def)
  show ?thesis using some none by (metis leD not_None_eq)
qed

theorem public_ip_consensus_witness:
  "resolvePublicIP [(''a'', Some ''1.1.1.1''), (''b'', None), (''c'', Some ''1.1.1.1''), (''d'', Some ''1.1.1.1'')] = Some ''1.1.1.1'' \<and>
   resolvePublicIP [(''a'', Some ''1.1.1.1'')] = None"
proof -
  have "ballots x [(''a'', Some ''1.1.1.1'')] < 3" for x by (simp add: ballots_def)
  then have "resolvePublicIP [(''a'', Some ''1.1.1.1'')] = None" using public_ip_consensus[of "[(''a'', Some ''1.1.1.1'')]"] by blast
  then show ?thesis by (simp add: resolvePublicIP_def publicIPConsensusVotes_def)
qed

text \<open> Three entries of the same source are enough: one site that is listed three times decides the address alone.\<close>

theorem repeated_source_decides:
  "resolvePublicIP [(u, Some ip), (u, Some ip), (u, Some ip)] = Some ip"
  by (simp add: resolvePublicIP_def publicIPConsensusVotes_def)

text \<open> What the node says about its own binary cannot be changed by the labels an operator configures.\<close>

theorem binary_labels_fixed:
  "map (mget (capabilityLabels opts h)) [''terminal'', ''host_exec'', ''file_upload'', ''tool_run'', ''tool_run_runtime_v2'', ''startup_method''] =
     [Some ''true'', Some ''true'', Some ''true'', Some ''true'', Some ''true'', Some (hf_startup_method h)]"
  by (simp add: capabilityLabels_def Let_def)

text \<open> A node that was not started with permission for system sessions advertises it nevertheless when its operator labels say so.\<close>

theorem system_env_label_forged:
  assumes "\<not> op_SystemEnvAllowed opts" "gomap_wf (op_Labels opts)" "mget (op_Labels opts) ''system_env'' = Some ''true''"
  shows "mget (capabilityLabels opts h) ''system_env'' = Some ''true''"
proof -
  have put: "gomap_wf new \<Longrightarrow> mget (put_all new labels) k = (case mget new k of None \<Rightarrow> mget labels k | Some v \<Rightarrow> Some v)" for new labels k
  proof (induction new arbitrary: labels)
    case (Cons e new)
    obtain a v where e: "e = (a, v)" by (cases e)
    have "gomap_wf new" "mget new a = None" using Cons.prems e by (auto simp: gomap_wf_def map_of_eq_None_iff)
    then show ?case using Cons.IH[of "mput a v labels"] e by (auto simp: put_all_def split: option.splits)
  qed (simp add: put_all_def)
  show ?thesis using assms put[of "op_Labels opts"] by (simp add: capabilityLabels_def Let_def)
qed

theorem system_env_label_forged_witness: "mget (capabilityLabels client_opts client_host) ''system_env'' = Some ''true''"
  by (rule system_env_label_forged) (simp_all add: client_opts_def gomap_wf_def)

text \<open> A node that was approved and learns from the acknowledgement of a new registration that it has been revoked still counts as
  approved: the connection is given up before the status is recorded.\<close>

theorem revoked_node_stays_approved:
  assumes "nc_pc c = AwaitAck n" "nc_approved c"
  shows "\<exists>c'. exec (cstep gbk) c [CAck (Registered i REVOKED), CStatus, CCloseGate, CClearStream] = Some c' \<and> nc_approved c' \<and> nc_pc c' = Sleeping"
  using assms by (simp add: receive_ack_def note_status_def upd_stream_def)

theorem revoked_node_stays_approved_witness:
  "\<exists>c'. exec (cstep (\<lambda>s. None)) ((demo_client [])\<lparr> nc_pc := AwaitAck 0, nc_registered := False \<rparr>) [CAck (Registered ''n'' REVOKED), CStatus, CCloseGate, CClearStream] = Some c'
     \<and> nc_approved c' \<and> nc_pc c' = Sleeping"
  by (rule revoked_node_stays_approved[of _ 0]) (simp_all add: demo_client_def)

text \<open> A caller whose context ends between its check and its wait is never woken by that: it stays blocked, whatever happens, until
  the node is approved.\<close>

theorem cancelled_wait_blocks:
  assumes "lost_wake s" "\<forall>e \<in> set es. e \<noteq> EvApprove True" "exec WaitApproved s es = Some s'"
  shows "aw_waiter s' = WQueued \<and> aw_ctx_done s'"
  using lost_wakes.exec_inv[OF assms] by (simp add: lost_wake_def)

theorem cancelled_wait_blocks_witness:
  "\<exists>s. exec WaitApproved new_wait [EvCheck, EvCancel, EvFire, EvWait] = Some s \<and> aw_waiter s = WQueued
     \<and> (\<forall>s'. exec WaitApproved s [EvApprove False, EvCancel] = Some s' \<longrightarrow> aw_waiter s' = WQueued \<and> aw_ctx_done s')"
proof -
  obtain s where s: "exec WaitApproved new_wait [EvCheck, EvCancel, EvFire, EvWait] = Some s" "lost_wake s"
    by (simp add: new_wait_def wake_def lost_wake_def)
  have "aw_waiter s' = WQueued \<and> aw_ctx_done s'" if "exec WaitApproved s [EvApprove False, EvCancel] = Some s'" for s'
    by (rule cancelled_wait_blocks[OF s(2) _ that]) simp
  then have "\<forall>s'. exec WaitApproved s [EvApprove False, EvCancel] = Some s' \<longrightarrow> aw_waiter s' = WQueued \<and> aw_ctx_done s'" by (intro allI impI)
  moreover have "aw_waiter s = WQueued" using s(2) by (simp add: lost_wake_def)
  ultimately show ?thesis using s(1) by (intro exI[of _ s] conjI)
qed

text \<open> \<^bold>\<open>C36\<close>. The code of a registration is a function of the time step the server announces, so a node that loses its connection and registers
  again within the same half minute sends the code it has just used, and the check that guards against replays refuses it.\<close>

theorem quick_reconnect_refused:
  assumes "register_message opts h t = Some m" "register_message opts h' t' = Some m'" "step_of t' = step_of t"
    and "DecodeSecret (op_Secret opts) = Inr secret" "Validate secret (totp_of m) now (Some c) n = (True, Some c')" "gomap_wf (seen c)"
    and "now' - now \<le> ttl c"
  shows "totp_of m' = totp_of m \<and> \<not> fst (Validate secret (totp_of m') now' (Some c') n)"
proof -
  have same: "totp_of m' = totp_of m"
    using totp_of_register[OF assms(1,4)] totp_of_register[OF assms(2,4)] assms(3) by (simp add: Generate_def)
  obtain d where d: "gomap_wf (seen c')" "ttl c' = ttl c" "Claim (Some c) n (trim_space (totp_of m)) now = (True, Some c')"
    using Validate_Some[OF assms(5,6)] by auto
  have rec: "mget (seen c') (claim_key n (trim_space (totp_of m))) = Some now" by (rule Claim_records[OF d(3)])
  obtain ok e where v: "Validate secret (totp_of m) now' (Some c') n = (ok, e)" by fastforce
  from Validate_Some[OF this d(1)] have "\<not> ok"
    using Claim_keeps(2)[OF _ d(1) rec, of n "trim_space (totp_of m)" now' ok] assms(7) d(2) by metis
  then show ?thesis using same v by simp
qed

theorem quick_reconnect_refused_witness:
  "\<exists>m c'. register_message client_opts client_host 0 = Some m \<and> Validate [1] (totp_of m) 0 (Some NewReplayCache) ''n'' = (True, Some c')
     \<and> \<not> fst (Validate [1] (totp_of m) second (Some c') ''n'')"
proof -
  obtain m where m: "register_message client_opts client_host 0 = Some m" using demo_registers by blast
  have s: "DecodeSecret (op_Secret client_opts) = Inr [1]" by (simp add: client_opts_def DecodeSecret_encode)
  have "Validate [1] (totp_of m) 0 (Some NewReplayCache) ''n'' = Claim (Some NewReplayCache) ''n'' (totp_of m) 0"
    by (rule Validate_generated[OF totp_of_register[OF m s]]) (simp_all add: unix_def second_def StepWindow_def)
  then obtain c' where c': "Validate [1] (totp_of m) 0 (Some NewReplayCache) ''n'' = (True, Some c')"
    by (simp add: Claim_def NewReplayCache_def pruneLocked_def Let_def)
  have "\<not> fst (Validate [1] (totp_of m) second (Some c') ''n'')"
    using quick_reconnect_refused[OF m m refl s c', of second] by (simp add: NewReplayCache_def second_def StepWindow_def TimeStep_def)
  then show ?thesis using m c' by blast
qed

end
