(* ===== verification/Spec2Isabelle.thy ===== *)
theory Spec2Isabelle
  imports Totp File_Upload Build_Archive Session_Runs Session_Storage Terminals Tool_Runs Ios_Devices Node_Client
begin

text \<open>
  The nodes of a fleet of coding agents, in Go under \<^verbatim>\<open>src/\<close>.  A node keeps one stream to its server open, receives
  commands on it and answers with frames.  An execution node runs agent sessions: it prepares a working directory, writes the
  configuration of an editor, starts the agent runtime as a process, passes the user's messages to it and the output back.  Every node
  also offers terminals, tool runs and file uploads on its host.  A node with iOS devices keeps an inventory of them and installs a test
  runner on them.

  \<^bold>\<open>Shared theories.\<close>
  \<^item> \<open>Go_Prelude\<close>, \<open>Go_Paths\<close>, \<open>Go_Url\<close> and \<open>Go_Digest\<close> are the parts of the Go library the sources call: byte strings, association
    lists for maps, \<^verbatim>\<open>path/filepath\<close>, \<^verbatim>\<open>net/url\<close>, SHA-256.
  \<^item> \<open>Machines\<close> runs a step function over a schedule.  Its locale \<open>guarded_machine\<close> is the contract of an invariant, with the client
    lemmas about whole schedules; it is interpreted on the machine of each component.
  \<^item> \<open>File_System\<close> is package \<^verbatim>\<open>os\<close> on an explicit store, with frame conditions for every operation.  It does not follow symbolic links.
    \<open>Linked_Files\<close> does, one path component at a time; its locale \<open>path_guard\<close> is the contract of a check on entry names, interpreted
    on the two checks of the sources.

  \<^bold>\<open>Components.\<close>
  \<^item> \<open>Output_Queue\<close>, \<^verbatim>\<open>execution/queue.go\<close>: the producer, the flushing goroutine as a program counter, draining and stopping.  The
    lemmas show that the first run of a session delivers everything exactly once, with progress, and that a restarted run does not.
  \<^item> \<open>Git_Workspace\<close>, \<^verbatim>\<open>common/workspaces\<close>, \<^verbatim>\<open>execution/worktree.go\<close> and the cloning functions of \<^verbatim>\<open>session.go\<close>: which git commands
    are run and where, credentials and their redaction.
  \<^item> \<open>Session_Spec\<close>, \<^verbatim>\<open>session.go\<close>, \<^verbatim>\<open>worktree.go\<close>, \<^verbatim>\<open>environments.go\<close>: the messages a session is made from and the names derived from them.
  \<^item> \<open>Editor_Config\<close> and \<open>Resources\<close>, \<^verbatim>\<open>execution/editorconfig.go\<close>: configuration files, managed blocks, skills and plugins.  Unpacking
    an archive takes the file operations as an argument.  Its confinement is shown with links followed; the synchronisation as a
    whole is shown to be confined on the store without following links.
  \<^item> \<open>Environments\<close>, \<^verbatim>\<open>execution/environments.go\<close>: shared homes, their synchronisation and inventory.
  \<^item> \<open>Stream_Executor\<close>, \<^verbatim>\<open>execution/stream_executor.go\<close>, \<^verbatim>\<open>stream_parser.go\<close>, \<^verbatim>\<open>executor.go\<close>: the frames written to a provider, the lines
    and events read from it.  Sequence numbers are 64-bit words.
  \<^item> \<open>Session_Manager\<close>, \<^verbatim>\<open>execution/session.go\<close> and the session commands of \<^verbatim>\<open>handler.go\<close>: sessions on a heap, a table of ids, and the step
    function \<open>mstep\<close> over all interleavings of the dispatch loop, provisioning, runs and drains.  \<open>Session_Invariants\<close> has the locale
    \<open>session_invariant\<close>: the ways in which a step changes a session, and that an invariant of them holds in every reachable state.
    \<open>Session_Inputs\<close>, \<open>Session_Runs\<close> and \<open>Session_Storage\<close> interpret it and show what happens to messages, runs, revisions and files.
  \<^item> \<open>Node_Client\<close> and \<open>Proto_Text\<close>, \<^verbatim>\<open>common/agent/client.go\<close>, \<^verbatim>\<open>netinfo.go\<close>, \<^verbatim>\<open>prototext.go\<close>: connecting, registering, heartbeats, public
    addresses, acknowledgements, and the repair of text in outgoing frames.  \<open>Totp\<close>, \<^verbatim>\<open>common/auth/totp\<close>: the one-time codes of registration.
  \<^item> \<open>Terminals\<close>, \<open>Tool_Runs\<close> and \<open>File_Upload\<close>, \<^verbatim>\<open>common/agent/terminal.go\<close>, \<^verbatim>\<open>toolrun.go\<close>, \<^verbatim>\<open>host_file_upload.go\<close>: registries and
    goroutines as machines, replay buffers, the protocol of a run, uploads in pieces.
  \<^item> \<open>Build_Archive\<close>, \<^verbatim>\<open>common/build/archive.go\<close>: downloading and unpacking the source of a build.
  \<^item> \<open>Wda_Jobs\<close> and \<open>Ios_Devices\<close>, \<^verbatim>\<open>common/ioshost/wdajob.go\<close>, \<^verbatim>\<open>manager.go\<close>, \<^verbatim>\<open>config.go\<close>: the pipeline and the registry of runner
    jobs, the device inventory with its connection loops.

  \<^bold>\<open>Parameters.\<close>  The git program, HTTP replies, \<^verbatim>\<open>encoding/json\<close> as text, the GBK decoder, archive readers, the USB stack, the pseudo
  terminals, processes and clocks are arguments of the definitions or inputs of the steps.  Where a property needs something of git
  it is a named hypothesis, \<open>clone_confined\<close>: cloning changes only the directory it is given.

  \<^bold>\<open>Bounds and fuel.\<close>  The drain loop has fuel for one round more than the queue is long, and it is shown that this suffices.
  Copying a tree has fuel above the depth of the store and is shown to end.  A walk follows forty links, the limit of the kernel.
  Waiting for a device counts the ticks of its poll.  All other loops are structural or have a termination proof.

  \<^bold>\<open>What a step is.\<close>  A step is the section of a goroutine under one lock, or between two operations on channels.  Some steps are
  coarser.  A provisioning goroutine is one step, and so is the end of a run from its result to closing the done channel.  The
  body of an upload request under the lock of its upload is one step.  A whole rescan of devices is a step, but its section under the
  lock and each of its probes are steps as well.  A search over a map takes the first hit in the order of the association list; Go
  takes one at random, and the properties hold for every list.

  \<^bold>\<open>Not modelled.\<close>  Process spawning and containers (\<^verbatim>\<open>docker_executor.go\<close>), byte tunnels (\<^verbatim>\<open>tunnel.go\<close>), the session file service
  (\<^verbatim>\<open>fileservice.go\<close>), scans of the operator's home and installers (\<^verbatim>\<open>systemenv.go\<close>, \<^verbatim>\<open>editormgmt.go\<close>, \<^verbatim>\<open>hosttool.go\<close>, \<^verbatim>\<open>editorinfo.go\<close>,
  \<^verbatim>\<open>xcodejob.go\<close>), upgrades, autostart, locks and logs of the host, the build command itself (\<^verbatim>\<open>common/build/runner.go\<close>), tunnels and signing
  for iOS, the management node and the command line programs are I/O with the operating system or other programs.  The generated
  protocol code enters as records with the fields that are used.  The JavaScript runtime and the vendored go-ios library are separate
  programs.  File modes, log texts and times of frames are left out; Windows paths only enter with their reserved names.
\<close>

end
